(* ===== verification/Prelude.thy ===== *)
theory Prelude
  imports Main "HOL-Library.Word"
begin

text \<open>
  Shared vocabulary of the development: the machine types of the C sources, fixed-size C
  arrays as functions of the index, the linear-scan loop that almost every table of the
  system is built on (\<open>first_idx\<close>), its circular variant (\<open>ring_idx\<close>), C strings in a
  bounded buffer, and the interface \<open>slot_pool\<close> that the fixed-size tables of the sources
  (transactions, wrapped capabilities, processes, threads, inodes, edges, blocks) implement.

  A C array \<open>T a[N]\<close> is a function \<open>nat \<Rightarrow> T\<close>; the index bound is written out in the
  loops and guards of each operation, as in the source.
\<close>

unbundle bit_operations_syntax

type_synonym u8 = "8 word"
type_synonym u16 = "16 word"
type_synonym u32 = "32 word"
type_synonym u64 = "64 word"
type_synonym 'a arr = "nat \<Rightarrow> 'a"

named_theorems limits \<open>compile-time limits of the sources\<close>
named_theorems ops \<open>definitions of the operations of a component\<close>


subsection \<open>Linear scans\<close>

text \<open>
  \<^verbatim>\<open>for (i = lo; i < n; i++) if (P(i)) return i;\<close>
\<close>

function first_idx :: "(nat \<Rightarrow> bool) \<Rightarrow> nat \<Rightarrow> nat \<Rightarrow> nat option" where
  "first_idx P i n = (if i < n then (if P i then Some i else first_idx P (Suc i) n) else None)"
  by pat_completeness auto
termination
  by (relation "measure (\<lambda>(P, i, n). n - i)") auto

declare first_idx.simps [simp del]

lemma first_idx_SomeD:
  "first_idx P i n = Some j \<Longrightarrow> i \<le> j \<and> j < n \<and> P j \<and> (\<forall>k. i \<le> k \<and> k < j \<longrightarrow> \<not> P k)"
proof (induction P i n rule: first_idx.induct)
  case (1 P i n)
  show ?case
  proof (cases "i < n \<and> \<not> P i")
    case True
    then have "first_idx P (Suc i) n = Some j"
      using "1.prems" by (simp add: first_idx.simps [of P i n])
    then have "Suc i \<le> j \<and> j < n \<and> P j \<and> (\<forall>k. Suc i \<le> k \<and> k < j \<longrightarrow> \<not> P k)"
      using "1.IH" True by simp
    with True show ?thesis
      by (metis Suc_leD Suc_leI le_neq_implies_less)
  next
    case False
    with "1.prems" show ?thesis
      by (auto simp: first_idx.simps [of P i n] split: if_splits)
  qed
qed

lemma first_idx_NoneD: "first_idx P i n = None \<Longrightarrow> i \<le> k \<Longrightarrow> k < n \<Longrightarrow> \<not> P k"
proof (induction P i n rule: first_idx.induct)
  case (1 P i n)
  show ?case
  proof (cases "i < n \<and> \<not> P i")
    case True
    then have "first_idx P (Suc i) n = None"
      using "1.prems" by (simp add: first_idx.simps [of P i n])
    with True "1.IH" "1.prems"(2,3) show ?thesis by (cases "k = i") simp_all
  next
    case False
    with "1.prems" show ?thesis
      by (auto simp: first_idx.simps [of P i n] split: if_splits)
  qed
qed

lemma first_idx_None_iff: "first_idx P i n = None \<longleftrightarrow> (\<forall>k. i \<le> k \<and> k < n \<longrightarrow> \<not> P k)"
proof
  assume "first_idx P i n = None"
  then show "\<forall>k. i \<le> k \<and> k < n \<longrightarrow> \<not> P k" using first_idx_NoneD by blast
next
  assume "\<forall>k. i \<le> k \<and> k < n \<longrightarrow> \<not> P k"
  then show "first_idx P i n = None"
    by (cases "first_idx P i n") (auto dest: first_idx_SomeD)
qed

lemma first_idx_Some_iff:
  "first_idx P i n = Some j \<longleftrightarrow> i \<le> j \<and> j < n \<and> P j \<and> (\<forall>k. i \<le> k \<and> k < j \<longrightarrow> \<not> P k)"
proof
  assume "first_idx P i n = Some j"
  then show "i \<le> j \<and> j < n \<and> P j \<and> (\<forall>k. i \<le> k \<and> k < j \<longrightarrow> \<not> P k)" by (rule first_idx_SomeD)
next
  assume j: "i \<le> j \<and> j < n \<and> P j \<and> (\<forall>k. i \<le> k \<and> k < j \<longrightarrow> \<not> P k)"
  then have "first_idx P i n \<noteq> None" by (auto simp: first_idx_None_iff)
  then obtain j' where j': "first_idx P i n = Some j'" by blast
  from first_idx_SomeD [OF this] j have "j' = j"
    by (meson linorder_neqE_nat)
  with j' show "first_idx P i n = Some j" by simp
qed

text \<open>The scan for a key that at most one index of the range holds finds that index.\<close>

lemma first_idx_unique:
  assumes "i \<le> j" and "j < n" and "P j" and uniq: "\<And>k. i \<le> k \<Longrightarrow> k < n \<Longrightarrow> P k \<Longrightarrow> k = j"
  shows "first_idx P i n = Some j"
proof -
  from assms(1-3) have "first_idx P i n \<noteq> None" by (auto simp: first_idx_None_iff)
  then obtain j' where j': "first_idx P i n = Some j'" by blast
  with first_idx_SomeD [OF j'] have "j' = j" by (intro uniq) simp_all
  with j' show ?thesis by simp
qed

lemma first_idx_cong:
  assumes "\<And>k. i \<le> k \<Longrightarrow> k < n \<Longrightarrow> P k = Q k"
  shows "first_idx P i n = first_idx Q i n"
proof (cases "first_idx P i n")
  case None
  with assms have "first_idx Q i n = None" by (simp add: first_idx_None_iff)
  with None show ?thesis by simp
next
  case (Some j)
  from first_idx_SomeD [OF this] assms have "first_idx Q i n = Some j"
    by (auto simp: first_idx_Some_iff)
  with Some show ?thesis by simp
qed

text \<open>
  \<^verbatim>\<open>for (i = 0; i < n; i++) { slot = (hint + i) % n; if (P(slot)) return slot; }\<close>
\<close>

definition ring_idx :: "(nat \<Rightarrow> bool) \<Rightarrow> nat \<Rightarrow> nat \<Rightarrow> nat option" where
  "ring_idx P hint n =
     map_option (\<lambda>i. (hint + i) mod n) (first_idx (\<lambda>i. P ((hint + i) mod n)) 0 n)"

lemma ring_idx_SomeD: "ring_idx P hint n = Some s \<Longrightarrow> s < n \<and> P s"
  by (auto simp: ring_idx_def dest: first_idx_SomeD)

lemma ring_covers:
  assumes "s < (n::nat)"
  shows "\<exists>i<n. (hint + i) mod n = s"
proof -
  let ?i = "(s + (n - hint mod n)) mod n"
  have n: "0 < n" using assms by simp
  have h: "hint mod n < n" using n by simp
  have "(hint + ?i) mod n = (hint mod n + (s + (n - hint mod n))) mod n"
    by (metis mod_add_eq mod_mod_trivial)
  also have "hint mod n + (s + (n - hint mod n)) = s + n" using h by simp
  finally have "(hint + ?i) mod n = s" using assms by simp
  moreover have "?i < n" using n by simp
  ultimately show ?thesis by blast
qed

lemma ring_idx_None_iff: "ring_idx P hint n = None \<longleftrightarrow> (\<forall>s<n. \<not> P s)"
proof
  assume none: "ring_idx P hint n = None"
  show "\<forall>s<n. \<not> P s"
  proof (intro allI impI)
    fix s assume "s < n"
    then obtain i where "i < n" and "(hint + i) mod n = s" using ring_covers by blast
    with none show "\<not> P s" by (auto simp: ring_idx_def first_idx_None_iff)
  qed
next
  assume "\<forall>s<n. \<not> P s"
  then show "ring_idx P hint n = None" by (auto simp: ring_idx_def first_idx_None_iff)
qed


subsection \<open>Bounded C strings\<close>

text \<open>
  A NUL-terminated string in a buffer of \<open>n\<close> bytes is the list of the characters before
  the terminator. \<open>cstr_copy n s\<close> is what \<open>strlcpy\<close> and the bounded \<open>strncpy\<close> idiom of the
  sources leave in a destination of \<open>n\<close> bytes: at most \<open>n - 1\<close> characters.
\<close>

definition cstr_copy :: "nat \<Rightarrow> 'a list \<Rightarrow> 'a list" where
  "cstr_copy n s = take (n - 1) s"

lemma length_cstr_copy: "0 < n \<Longrightarrow> length (cstr_copy n s) < n"
  by (simp add: cstr_copy_def)

lemma cstr_copy_id: "length s < n \<Longrightarrow> cstr_copy n s = s"
  by (simp add: cstr_copy_def)

lemma cstr_copy_idem [simp]: "cstr_copy n (cstr_copy n s) = cstr_copy n s"
  by (simp add: cstr_copy_def)


subsection \<open>Counting over a bounded range\<close>

text \<open>\<^verbatim>\<open>for (i = 0; i < n; ++i) if (P(i)) h = i + 1;\<close> the high-water mark of \<open>P\<close>.\<close>

primrec high_water :: "(nat \<Rightarrow> bool) \<Rightarrow> nat \<Rightarrow> nat" where
  "high_water P 0 = 0"
| "high_water P (Suc n) = (if P n then Suc n else high_water P n)"

lemma high_water_le: "high_water P n \<le> n"
  by (induction n) auto

lemma high_water_above: "high_water P n \<le> i \<Longrightarrow> i < n \<Longrightarrow> \<not> P i"
  by (induction n) (auto split: if_splits simp: less_Suc_eq)

text \<open>\<^verbatim>\<open>for (i = 0; i < n; ++i) if (P(i)) c++;\<close>\<close>

primrec count_idx :: "(nat \<Rightarrow> bool) \<Rightarrow> nat \<Rightarrow> nat" where
  "count_idx P 0 = 0"
| "count_idx P (Suc n) = (if P n then Suc (count_idx P n) else count_idx P n)"

lemma count_idx_0_iff: "count_idx P n = 0 \<longleftrightarrow> (\<forall>i<n. \<not> P i)"
  by (induction n) (auto simp: less_Suc_eq)

lemma count_idx_card: "count_idx P n = card {i. i < n \<and> P i}"
proof (induction n)
  case 0
  then show ?case by simp
next
  case (Suc n)
  have "{i. i < Suc n \<and> P i} = (if P n then insert n {i. i < n \<and> P i} else {i. i < n \<and> P i})"
    by (auto simp: less_Suc_eq)
  with Suc show ?case by simp
qed


subsection \<open>Counters that must not wrap\<close>

text \<open>Incrementing a machine counter that is not at its maximum.\<close>

lemma unat_Suc_word: "unat (w :: 'a::len word) + 1 < 2 ^ LENGTH('a) \<Longrightarrow> unat (w + 1) = unat w + 1"
  by (simp add: unat_word_ariths)


lemma unat_of_nat_small: "k < 2 ^ LENGTH('a) \<Longrightarrow> unat (of_nat k :: 'a::len word) = k"
  by (simp add: unsigned_of_nat take_bit_nat_eq_self)


subsection \<open>The interface of a fixed-size slot table\<close>

text \<open>
  \<open>alloc\<close> hands out a slot of the index range \<open>lo ..< cap\<close> that is not in use, marks it
  used, and fails exactly when the range is exhausted. Every table of the system that is
  scanned for a free entry provides this contract; the clients rely on no slot being
  handed out twice and on the exact capacity.
\<close>

primrec alloc_n :: "('s \<Rightarrow> (nat \<times> 's) option) \<Rightarrow> nat \<Rightarrow> 's \<Rightarrow> (nat list \<times> 's) option" where
  "alloc_n f 0 s = Some ([], s)"
| "alloc_n f (Suc k) s =
     (case f s of None \<Rightarrow> None
      | Some (i, s') \<Rightarrow> map_option (\<lambda>(is, t). (i # is, t)) (alloc_n f k s'))"

locale slot_pool =
  fixes lo cap :: nat
    and inv :: "'s \<Rightarrow> bool"
    and used :: "'s \<Rightarrow> nat set"
    and alloc :: "'s \<Rightarrow> (nat \<times> 's) option"
  assumes alloc_fresh: "inv s \<Longrightarrow> alloc s = Some (i, s') \<Longrightarrow> i \<in> {lo..<cap} - used s"
    and alloc_used: "inv s \<Longrightarrow> alloc s = Some (i, s') \<Longrightarrow> used s' = insert i (used s)"
    and alloc_inv: "inv s \<Longrightarrow> alloc s = Some (i, s') \<Longrightarrow> inv s'"
    and alloc_full: "inv s \<Longrightarrow> alloc s = None \<longleftrightarrow> {lo..<cap} \<subseteq> used s"
begin

lemma alloc_card:
  assumes "inv s" and "alloc s = Some (i, s')"
  shows "card ({lo..<cap} - used s) = Suc (card ({lo..<cap} - used s'))"
proof -
  have "{lo..<cap} - used s' = ({lo..<cap} - used s) - {i}"
    using alloc_used [OF assms] by blast
  moreover have "i \<in> {lo..<cap} - used s" by (rule alloc_fresh [OF assms])
  moreover have "finite ({lo..<cap} - used s)" by simp
  ultimately show ?thesis by (metis card.remove)
qed

lemma alloc_n_distinct:
  "inv s \<Longrightarrow> alloc_n alloc k s = Some (is, t) \<Longrightarrow>
     distinct is \<and> length is = k \<and> set is \<subseteq> {lo..<cap} - used s \<and> used t = set is \<union> used s \<and> inv t"
proof (induction k arbitrary: s "is")
  case 0
  then show ?case by simp
next
  case (Suc k)
  then obtain i s' is' where a: "alloc s = Some (i, s')" and r: "alloc_n alloc k s' = Some (is', t)"
    and is_eq: "is = i # is'"
    by (auto split: option.splits prod.splits)
  have "inv s'" by (rule alloc_inv [OF Suc.prems(1) a])
  from Suc.IH [OF this r] show ?case
    using alloc_fresh [OF Suc.prems(1) a] alloc_used [OF Suc.prems(1) a] is_eq by auto
qed

theorem alloc_n_capacity:
  "inv s \<Longrightarrow> (\<exists>is t. alloc_n alloc k s = Some (is, t)) \<longleftrightarrow> k \<le> card ({lo..<cap} - used s)"
proof (induction k arbitrary: s)
  case 0
  then show ?case by simp
next
  case (Suc k)
  show ?case
  proof (cases "alloc s")
    case None
    then have "{lo..<cap} - used s = {}" using alloc_full [OF Suc.prems] by blast
    then have c0: "card ({lo..<cap} - used s) = 0" by (simp only: card.empty)
    show ?thesis by (simp add: None c0)
  next
    case (Some p)
    obtain i s' where p: "p = (i, s')" by (cases p)
    with Some have a: "alloc s = Some (i, s')" by simp
    have "inv s'" by (rule alloc_inv [OF Suc.prems a])
    from Suc.IH [OF this] alloc_card [OF Suc.prems a] a show ?thesis
      by (fastforce split: option.splits)
  qed
qed

end

end
