(* ===== verification/StoRegistry.thy ===== *)
theory StoRegistry
  imports Prelude
begin

text \<open>
  The transaction registry of the STO server (\<^verbatim>\<open>src/sto/registry.c\<close>, \<^verbatim>\<open>registry.h\<close>): fixed-size
  tables of transactions and of wrapped capabilities, and the commit log that optimistic
  validation reads. A \<^verbatim>\<open>sto_transaction_t *\<close> is the index of its slot in \<open>active\<close>; an
  object set (array and count) is the list of its valid entries; the commit log (array and
  count) is the list of its valid entries; \<open>NULL\<close> results are \<open>None\<close>.
\<close>

subsection \<open>Limits and data\<close>

definition STO_MAX_TX :: nat where [limits]: "STO_MAX_TX = 64"
definition STO_MAX_OBJ_PER_TX :: nat where [limits]: "STO_MAX_OBJ_PER_TX = 32"
definition STO_MAX_COMMIT_LOG :: nat where [limits]: "STO_MAX_COMMIT_LOG = 128"
definition STO_MAX_WRAPPED_CAPS :: nat where [limits]: "STO_MAX_WRAPPED_CAPS = 256"
definition STO_MAX_WRAPPED_PER_TX :: nat where [limits]: "STO_MAX_WRAPPED_PER_TX = 16"

datatype sto_status =
  STO_OK | STO_ABORTED | STO_CONFLICT | STO_INVALID_TX | STO_INVALID_STATE | STO_QUOTA | STO_PROTOCOL

datatype sto_cap_mode = STO_CAP_COMMIT_ONLY | STO_CAP_ACTIVE_OK

datatype sto_phase = STO_PHASE_FREE | STO_PHASE_ACTIVE | STO_PHASE_COMMITTED | STO_PHASE_ABORTED

type_synonym sto_obj_set = "u64 list"

record sto_transaction =
  tx_id :: u64
  owner_badge :: u64
  phase :: sto_phase
  read_set :: sto_obj_set
  write_set :: sto_obj_set
  wrapped_caps :: "u64 list"

record sto_commit_entry =
  ce_tx_id :: u64
  ce_write_set :: sto_obj_set

record sto_wrapped_cap =
  wc_id :: u64
  wc_obj_id :: u64
  wc_tx_id :: u64
  wc_mode :: sto_cap_mode
  wc_revoked :: bool

record sto_registry =
  active :: "sto_transaction arr"
  active_count :: nat
  commit_log :: "sto_commit_entry list"
  next_tx_id :: u64
  wrapped_pool :: "sto_wrapped_cap arr"
  next_wrapped_id :: u64

definition zero_tx :: sto_transaction where
  "zero_tx = \<lparr>tx_id = 0, owner_badge = 0, phase = STO_PHASE_FREE, read_set = [], write_set = [],
              wrapped_caps = []\<rparr>"

definition zero_wrapped :: sto_wrapped_cap where
  "zero_wrapped = \<lparr>wc_id = 0, wc_obj_id = 0, wc_tx_id = 0, wc_mode = STO_CAP_COMMIT_ONLY,
                   wc_revoked = False\<rparr>"


subsection \<open>Object sets\<close>

fun obj_set_contains :: "sto_obj_set \<Rightarrow> u64 \<Rightarrow> bool" where
  "obj_set_contains [] obj_id = False"
| "obj_set_contains (x # xs) obj_id = (if x = obj_id then True else obj_set_contains xs obj_id)"

fun obj_sets_intersect :: "sto_obj_set \<Rightarrow> sto_obj_set \<Rightarrow> bool" where
  "obj_sets_intersect [] b = False"
| "obj_sets_intersect (x # xs) b = (if obj_set_contains b x then True else obj_sets_intersect xs b)"

definition obj_set_add :: "sto_obj_set \<Rightarrow> u64 \<Rightarrow> sto_status \<times> sto_obj_set" where
  "obj_set_add s obj_id =
     (if obj_set_contains s obj_id then (STO_OK, s)
      else if STO_MAX_OBJ_PER_TX \<le> length s then (STO_QUOTA, s)
      else (STO_OK, s @ [obj_id]))"


subsection \<open>Transactions\<close>

definition sto_registry_init :: sto_registry where
  "sto_registry_init =
     \<lparr>active = (\<lambda>_. zero_tx), active_count = 0, commit_log = [], next_tx_id = 1,
      wrapped_pool = (\<lambda>_. zero_wrapped), next_wrapped_id = 1\<rparr>"

definition set_tx :: "nat \<Rightarrow> sto_transaction \<Rightarrow> sto_registry \<Rightarrow> sto_registry" where
  "set_tx i tx r = r\<lparr>active := (active r)(i := tx)\<rparr>"

definition sto_registry_begin :: "sto_registry \<Rightarrow> u64 \<Rightarrow> (nat \<times> sto_registry) option" where
  "sto_registry_begin r badge =
     (case first_idx (\<lambda>i. phase (active r i) = STO_PHASE_FREE) 0 STO_MAX_TX of
        None \<Rightarrow> None
      | Some i \<Rightarrow>
          Some (i, r\<lparr>active := (active r)(i := zero_tx\<lparr>tx_id := next_tx_id r, owner_badge := badge,
                                                        phase := STO_PHASE_ACTIVE\<rparr>),
                     active_count := (if active_count r \<le> i then i + 1 else active_count r),
                     next_tx_id := next_tx_id r + 1\<rparr>))"

definition sto_registry_find :: "sto_registry \<Rightarrow> u64 \<Rightarrow> u64 \<Rightarrow> nat option" where
  "sto_registry_find r t badge =
     first_idx (\<lambda>i. phase (active r i) = STO_PHASE_ACTIVE \<and> tx_id (active r i) = t
                     \<and> owner_badge (active r i) = badge) 0 (active_count r)"

definition sto_registry_add_read :: "sto_registry \<Rightarrow> nat \<Rightarrow> u64 \<Rightarrow> sto_status \<times> sto_registry" where
  "sto_registry_add_read r i obj_id =
     (let tx = active r i; (rc, s) = obj_set_add (read_set tx) obj_id
      in (rc, set_tx i (tx\<lparr>read_set := s\<rparr>) r))"

definition sto_registry_add_write :: "sto_registry \<Rightarrow> nat \<Rightarrow> u64 \<Rightarrow> sto_status \<times> sto_registry" where
  "sto_registry_add_write r i obj_id =
     (let tx = active r i; (rc, s) = obj_set_add (write_set tx) obj_id
      in (rc, set_tx i (tx\<lparr>write_set := s\<rparr>) r))"

definition sto_registry_can_commit :: "sto_registry \<Rightarrow> nat \<Rightarrow> bool" where
  "sto_registry_can_commit r i =
     (\<not> list_ex (\<lambda>e. obj_sets_intersect (read_set (active r i)) (ce_write_set e)) (commit_log r))"

definition sto_registry_gc :: "sto_registry \<Rightarrow> sto_registry" where
  "sto_registry_gc r =
     (let live_active = count_idx (\<lambda>i. phase (active r i) = STO_PHASE_ACTIVE) STO_MAX_TX;
          high = high_water (\<lambda>i. phase (active r i) \<noteq> STO_PHASE_FREE) STO_MAX_TX
      in r\<lparr>active_count := high,
           commit_log := (if live_active = 0 then [] else commit_log r)\<rparr>)"


subsection \<open>Wrapped capabilities\<close>

definition sto_registry_wrap ::
    "sto_registry \<Rightarrow> nat \<Rightarrow> u64 \<Rightarrow> sto_cap_mode \<Rightarrow> u64 \<times> sto_registry" where
  "sto_registry_wrap r i obj_id mode =
     (let tx = active r i in
      if STO_MAX_WRAPPED_PER_TX \<le> length (wrapped_caps tx) then (0, r)
      else case first_idx (\<lambda>j. wc_id (wrapped_pool r j) = 0) 0 STO_MAX_WRAPPED_CAPS of
             None \<Rightarrow> (0, r)
           | Some j \<Rightarrow>
               let new_id = next_wrapped_id r in
               (new_id,
                r\<lparr>next_wrapped_id := next_wrapped_id r + 1,
                  wrapped_pool := (wrapped_pool r)(j := \<lparr>wc_id = new_id, wc_obj_id = obj_id,
                                    wc_tx_id = tx_id tx, wc_mode = mode, wc_revoked = False\<rparr>),
                  active := (active r)(i := tx\<lparr>wrapped_caps := wrapped_caps tx @ [new_id]\<rparr>)\<rparr>))"

definition sto_registry_wrapped_find :: "sto_registry \<Rightarrow> u64 \<Rightarrow> nat option" where
  "sto_registry_wrapped_find r w =
     (if w = 0 then None
      else case first_idx (\<lambda>j. wc_id (wrapped_pool r j) = w) 0 STO_MAX_WRAPPED_CAPS of
             None \<Rightarrow> None
           | Some j \<Rightarrow> if wc_revoked (wrapped_pool r j) then None else Some j)"

definition find_tx_by_id :: "sto_registry \<Rightarrow> u64 \<Rightarrow> nat option" where
  "find_tx_by_id r t = first_idx (\<lambda>i. tx_id (active r i) = t) 0 (active_count r)"

definition sto_registry_wrapped_invocable :: "sto_registry \<Rightarrow> nat \<Rightarrow> bool" where
  "sto_registry_wrapped_invocable r j =
     (let wc = wrapped_pool r j in
      if wc_revoked wc then False
      else case find_tx_by_id r (wc_tx_id wc) of
             None \<Rightarrow> False
           | Some p \<Rightarrow>
               (if wc_mode wc = STO_CAP_ACTIVE_OK
                then phase (active r p) = STO_PHASE_ACTIVE \<or> phase (active r p) = STO_PHASE_COMMITTED
                else phase (active r p) = STO_PHASE_COMMITTED))"

text \<open>
  The inner loop of both sweeps: every pool slot that holds \<open>target\<close> (and satisfies the
  mode test \<open>P\<close>) is marked revoked and reclaimed.
\<close>

definition sweep_target ::
    "(sto_wrapped_cap \<Rightarrow> bool) \<Rightarrow> u64 \<Rightarrow> sto_wrapped_cap arr \<Rightarrow> sto_wrapped_cap arr" where
  "sweep_target P target pool =
     (\<lambda>j. if j < STO_MAX_WRAPPED_CAPS \<and> wc_id (pool j) = target \<and> P (pool j)
          then (pool j)\<lparr>wc_revoked := True, wc_id := 0\<rparr> else pool j)"

definition sto_registry_sweep_wrapped :: "sto_registry \<Rightarrow> nat \<Rightarrow> sto_registry" where
  "sto_registry_sweep_wrapped r i =
     r\<lparr>wrapped_pool := fold (sweep_target (\<lambda>_. True)) (wrapped_caps (active r i)) (wrapped_pool r)\<rparr>"

definition sto_registry_sweep_wrapped_by_mode :: "sto_registry \<Rightarrow> nat \<Rightarrow> sto_cap_mode \<Rightarrow> sto_registry" where
  "sto_registry_sweep_wrapped_by_mode r i mode =
     r\<lparr>wrapped_pool := fold (sweep_target (\<lambda>w. wc_mode w = mode)) (wrapped_caps (active r i))
                            (wrapped_pool r)\<rparr>"


subsection \<open>Commit and abort\<close>

definition has_live_commit_only :: "sto_registry \<Rightarrow> nat \<Rightarrow> bool" where
  "has_live_commit_only r i =
     list_ex (\<lambda>w. case sto_registry_wrapped_find r w of
                    None \<Rightarrow> False
                  | Some j \<Rightarrow> wc_mode (wrapped_pool r j) = STO_CAP_COMMIT_ONLY)
             (wrapped_caps (active r i))"

definition sto_registry_commit :: "sto_registry \<Rightarrow> nat \<Rightarrow> sto_status \<times> sto_registry" where
  "sto_registry_commit r i =
     (if STO_MAX_COMMIT_LOG \<le> length (commit_log r) then (STO_QUOTA, r)
      else
        let entry = \<lparr>ce_tx_id = tx_id (active r i), ce_write_set = write_set (active r i)\<rparr>;
            r1 = r\<lparr>commit_log := commit_log r @ [entry]\<rparr>;
            r2 = sto_registry_sweep_wrapped_by_mode r1 i STO_CAP_ACTIVE_OK;
            ph = (if has_live_commit_only r2 i then STO_PHASE_COMMITTED else STO_PHASE_FREE)
        in (STO_OK, sto_registry_gc (set_tx i ((active r2 i)\<lparr>phase := ph\<rparr>) r2)))"

definition sto_registry_abort :: "sto_registry \<Rightarrow> nat \<Rightarrow> sto_registry" where
  "sto_registry_abort r i =
     (let r1 = sto_registry_sweep_wrapped r i
      in sto_registry_gc (set_tx i ((active r1 i)\<lparr>phase := STO_PHASE_FREE\<rparr>) r1))"

lemmas sto_ops [ops] =
  sto_registry_begin_def sto_registry_find_def sto_registry_add_read_def
  sto_registry_add_write_def sto_registry_gc_def sto_registry_wrap_def
  sto_registry_commit_def sto_registry_abort_def sto_registry_sweep_wrapped_def
  sto_registry_sweep_wrapped_by_mode_def set_tx_def


subsection \<open>Object sets behave as bounded sets\<close>

lemma obj_set_contains_iff [simp]: "obj_set_contains s x \<longleftrightarrow> x \<in> set s"
  by (induction s) auto

lemma obj_sets_intersect_iff [simp]: "obj_sets_intersect a b \<longleftrightarrow> set a \<inter> set b \<noteq> {}"
  by (induction a) auto

lemma obj_set_add_bounds:
  assumes "distinct s" and "length s \<le> STO_MAX_OBJ_PER_TX" and "obj_set_add s x = (rc, s')"
  shows "distinct s'" and "length s' \<le> STO_MAX_OBJ_PER_TX"
  using assms by (auto simp: obj_set_add_def split: if_splits)

lemma obj_set_add_set:
  "obj_set_add s x = (rc, s') \<Longrightarrow> set s' = (if rc = STO_OK then insert x (set s) else set s)"
  by (auto simp: obj_set_add_def split: if_splits)

lemma can_commit_iff:
  "sto_registry_can_commit r i \<longleftrightarrow>
     (\<forall>e \<in> set (commit_log r). set (read_set (active r i)) \<inter> set (ce_write_set e) = {})"
  by (auto simp: sto_registry_can_commit_def list_ex_iff)

end
