(* ===== verification/StoServer.thy ===== *)
theory StoServer
  imports StoRegistry
begin

text \<open>
  The STO server loop (\<^verbatim>\<open>src/sto/ipc.c\<close>): one handler per opcode, each a function from the
  registry and the message (badge and message registers) to the reply registers and the new
  registry, the dispatch on the message label, and the service loop as a run over the
  messages received. \<open>None\<close> as a reply means that the handler does not reply.
\<close>

subsection \<open>Messages, replies and handlers\<close>

record sto_msg =
  msg_label :: u64
  msg_badge :: u64
  msg_mrs :: "nat \<Rightarrow> u64"

type_synonym sto_reply = "u64 list option"

fun sto_status_code :: "sto_status \<Rightarrow> u64" where
  "sto_status_code STO_OK = 0"
| "sto_status_code STO_ABORTED = 1"
| "sto_status_code STO_CONFLICT = 2"
| "sto_status_code STO_INVALID_TX = 3"
| "sto_status_code STO_INVALID_STATE = 4"
| "sto_status_code STO_QUOTA = 5"
| "sto_status_code STO_PROTOCOL = 6"

definition STO_OP_BEGIN :: u64 where [limits]: "STO_OP_BEGIN = 1"
definition STO_OP_READ :: u64 where [limits]: "STO_OP_READ = 2"
definition STO_OP_STAGE :: u64 where [limits]: "STO_OP_STAGE = 3"
definition STO_OP_COMMIT :: u64 where [limits]: "STO_OP_COMMIT = 4"
definition STO_OP_ROLLBACK :: u64 where [limits]: "STO_OP_ROLLBACK = 5"
definition STO_OP_WRAP :: u64 where [limits]: "STO_OP_WRAP = 6"
definition STO_OP_UNWRAP :: u64 where [limits]: "STO_OP_UNWRAP = 7"
definition STO_OP_INVOKE :: u64 where [limits]: "STO_OP_INVOKE = 8"
definition STO_OP_BENCH_PING :: u64 where [limits]: "STO_OP_BENCH_PING = 0xFFFF"

definition reply_status :: "sto_status \<Rightarrow> sto_reply" where
  "reply_status s = Some [sto_status_code s]"

definition handle_begin :: "sto_registry \<Rightarrow> u64 \<Rightarrow> sto_reply \<times> sto_registry" where
  "handle_begin r badge =
     (case sto_registry_begin r badge of
        None \<Rightarrow> (Some [0], r)
      | Some (i, r') \<Rightarrow> (Some [tx_id (active r' i)], r'))"

definition handle_read :: "sto_registry \<Rightarrow> u64 \<Rightarrow> (nat \<Rightarrow> u64) \<Rightarrow> sto_reply \<times> sto_registry" where
  "handle_read r badge mr =
     (case sto_registry_find r (mr 0) badge of
        None \<Rightarrow> (reply_status STO_INVALID_TX, r)
      | Some i \<Rightarrow>
          if phase (active r i) \<noteq> STO_PHASE_ACTIVE then (reply_status STO_INVALID_STATE, r)
          else let (rc, r') = sto_registry_add_read r i (mr 1) in (reply_status rc, r'))"

definition handle_stage :: "sto_registry \<Rightarrow> u64 \<Rightarrow> (nat \<Rightarrow> u64) \<Rightarrow> sto_reply \<times> sto_registry" where
  "handle_stage r badge mr =
     (case sto_registry_find r (mr 0) badge of
        None \<Rightarrow> (reply_status STO_INVALID_TX, r)
      | Some i \<Rightarrow>
          if phase (active r i) \<noteq> STO_PHASE_ACTIVE then (reply_status STO_INVALID_STATE, r)
          else let (rc, r') = sto_registry_add_write r i (mr 1) in (reply_status rc, r'))"

definition handle_commit :: "sto_registry \<Rightarrow> u64 \<Rightarrow> (nat \<Rightarrow> u64) \<Rightarrow> sto_reply \<times> sto_registry" where
  "handle_commit r badge mr =
     (case sto_registry_find r (mr 0) badge of
        None \<Rightarrow> (reply_status STO_INVALID_TX, r)
      | Some i \<Rightarrow>
          if phase (active r i) \<noteq> STO_PHASE_ACTIVE then (reply_status STO_INVALID_STATE, r)
          else if \<not> sto_registry_can_commit r i
               then (reply_status STO_CONFLICT, sto_registry_abort r i)
          else let (rc, r') = sto_registry_commit r i in (reply_status rc, r'))"

definition handle_rollback :: "sto_registry \<Rightarrow> u64 \<Rightarrow> (nat \<Rightarrow> u64) \<Rightarrow> sto_reply \<times> sto_registry" where
  "handle_rollback r badge mr =
     (case sto_registry_find r (mr 0) badge of
        None \<Rightarrow> (None, r)
      | Some i \<Rightarrow>
          if phase (active r i) = STO_PHASE_ACTIVE then (None, sto_registry_abort r i) else (None, r))"

definition handle_wrap :: "sto_registry \<Rightarrow> u64 \<Rightarrow> (nat \<Rightarrow> u64) \<Rightarrow> sto_reply \<times> sto_registry" where
  "handle_wrap r badge mr =
     (case sto_registry_find r (mr 0) badge of
        None \<Rightarrow> (reply_status STO_INVALID_TX, r)
      | Some i \<Rightarrow>
          if phase (active r i) \<noteq> STO_PHASE_ACTIVE then (reply_status STO_INVALID_STATE, r)
          else
            case (if mr 2 = 0 then Some STO_CAP_COMMIT_ONLY
                  else if mr 2 = 1 then Some STO_CAP_ACTIVE_OK else None) of
              None \<Rightarrow> (reply_status STO_PROTOCOL, r)
            | Some mode \<Rightarrow>
                let (wid, r') = sto_registry_wrap r i (mr 1) mode in
                if wid = 0 then (reply_status STO_QUOTA, r')
                else (Some [sto_status_code STO_OK, wid], r'))"

definition handle_invoke :: "sto_registry \<Rightarrow> u64 \<Rightarrow> (nat \<Rightarrow> u64) \<Rightarrow> sto_reply \<times> sto_registry" where
  "handle_invoke r badge mr =
     (case sto_registry_wrapped_find r (mr 0) of
        None \<Rightarrow> (reply_status STO_INVALID_TX, r)
      | Some j \<Rightarrow>
          if \<not> sto_registry_wrapped_invocable r j then (reply_status STO_INVALID_STATE, r)
          else (reply_status STO_OK, r))"

definition sto_dispatch :: "sto_registry \<Rightarrow> sto_msg \<Rightarrow> sto_reply \<times> sto_registry" where
  "sto_dispatch r m =
     (let op = msg_label m; badge = msg_badge m; mr = msg_mrs m in
      if op = STO_OP_BEGIN then handle_begin r badge
      else if op = STO_OP_READ then handle_read r badge mr
      else if op = STO_OP_STAGE then handle_stage r badge mr
      else if op = STO_OP_COMMIT then handle_commit r badge mr
      else if op = STO_OP_ROLLBACK then handle_rollback r badge mr
      else if op = STO_OP_WRAP then handle_wrap r badge mr
      else if op = STO_OP_INVOKE then handle_invoke r badge mr
      else if op = STO_OP_BENCH_PING then (reply_status STO_OK, r)
      else (reply_status STO_PROTOCOL, r))"

text \<open>The service loop after \<open>sto_registry_init\<close>, over the messages it receives.\<close>

primrec sto_serve :: "sto_registry \<Rightarrow> sto_msg list \<Rightarrow> sto_reply list \<times> sto_registry" where
  "sto_serve r [] = ([], r)"
| "sto_serve r (m # ms) =
     (let (rep, r1) = sto_dispatch r m; (reps, r2) = sto_serve r1 ms in (rep # reps, r2))"

lemma sto_serve_Cons [simp]:
  "snd (sto_serve r (m # ms)) = snd (sto_serve (snd (sto_dispatch r m)) ms)"
  by (simp add: Let_def split_beta)

lemma sto_serve_append:
  "snd (sto_serve r (xs @ ys)) = snd (sto_serve (snd (sto_serve r xs)) ys)"
  by (induction xs arbitrary: r) (simp_all del: sto_serve.simps(2))


subsection \<open>The state invariant\<close>

definition tx_ok :: "sto_transaction \<Rightarrow> bool" where
  "tx_ok tx \<longleftrightarrow>
     distinct (read_set tx) \<and> length (read_set tx) \<le> STO_MAX_OBJ_PER_TX \<and>
     distinct (write_set tx) \<and> length (write_set tx) \<le> STO_MAX_OBJ_PER_TX \<and>
     length (wrapped_caps tx) \<le> STO_MAX_WRAPPED_PER_TX \<and> phase tx \<noteq> STO_PHASE_ABORTED"

abbreviation live :: "sto_registry \<Rightarrow> nat \<Rightarrow> bool" where
  "live r i \<equiv> phase (active r i) \<noteq> STO_PHASE_FREE"

definition table_wf :: "sto_registry \<Rightarrow> bool" where
  "table_wf r \<longleftrightarrow>
     active_count r \<le> STO_MAX_TX \<and>
     (\<forall>i. active_count r \<le> i \<longrightarrow> \<not> live r i) \<and>
     (\<forall>i. tx_ok (active r i)) \<and>
     (\<forall>i. unat (tx_id (active r i)) < unat (next_tx_id r)) \<and>
     (\<forall>i. live r i \<longrightarrow> tx_id (active r i) \<noteq> 0) \<and>
     (\<forall>i j. tx_id (active r i) = tx_id (active r j) \<and> tx_id (active r i) \<noteq> 0 \<longrightarrow> i = j)"

definition log_wf :: "sto_registry \<Rightarrow> bool" where
  "log_wf r \<longleftrightarrow>
     length (commit_log r) \<le> STO_MAX_COMMIT_LOG \<and>
     ((\<forall>i. phase (active r i) \<noteq> STO_PHASE_ACTIVE) \<longrightarrow> commit_log r = [])"

definition pool_wf :: "sto_registry \<Rightarrow> bool" where
  "pool_wf r \<longleftrightarrow>
     0 < unat (next_wrapped_id r) \<and>
     (\<forall>j. unat (wc_id (wrapped_pool r j)) < unat (next_wrapped_id r)) \<and>
     (\<forall>j k. wc_id (wrapped_pool r j) = wc_id (wrapped_pool r k) \<and> wc_id (wrapped_pool r j) \<noteq> 0
             \<longrightarrow> j = k) \<and>
     (\<forall>j. wc_id (wrapped_pool r j) \<noteq> 0 \<longrightarrow>
            j < STO_MAX_WRAPPED_CAPS \<and> \<not> wc_revoked (wrapped_pool r j) \<and>
            (\<exists>i. live r i \<and> tx_id (active r i) = wc_tx_id (wrapped_pool r j) \<and>
                 wc_id (wrapped_pool r j) \<in> set (wrapped_caps (active r i)))) \<and>
     (\<forall>i w. live r i \<and> w \<in> set (wrapped_caps (active r i)) \<longrightarrow>
              w \<noteq> 0 \<and> unat w < unat (next_wrapped_id r)) \<and>
     (\<forall>i j. live r i \<and> wc_id (wrapped_pool r j) \<in> set (wrapped_caps (active r i)) \<longrightarrow>
              wc_tx_id (wrapped_pool r j) = tx_id (active r i))"

definition sto_wf :: "sto_registry \<Rightarrow> bool" where
  "sto_wf r \<longleftrightarrow> table_wf r \<and> log_wf r \<and> pool_wf r"

text \<open>The two 64-bit identifier counters have room for \<open>n\<close> more identifiers.\<close>

definition ids_left :: "sto_registry \<Rightarrow> nat \<Rightarrow> bool" where
  "ids_left r n \<longleftrightarrow>
     unat (next_tx_id r) + n < 2 ^ 64 \<and> unat (next_wrapped_id r) + n < 2 ^ 64"

lemma sto_wf_init: "sto_wf sto_registry_init"
  by (auto simp: sto_wf_def table_wf_def log_wf_def pool_wf_def sto_registry_init_def zero_tx_def
      zero_wrapped_def tx_ok_def)

lemma ids_left_init: "n < 2 ^ 64 - 1 \<Longrightarrow> ids_left sto_registry_init n"
  by (simp add: ids_left_def sto_registry_init_def)

end
