(* ===== verification/StoInvariant.thy ===== *)
theory StoInvariant
  imports StoServer
begin

text \<open>
  The invariant \<open>sto_wf\<close> of the STO registry is kept by every operation and every handler,
  and the handlers of one client leave the transactions of the others alone.
\<close>

subsection \<open>Look-ups\<close>

lemma find_SomeD:
  "sto_registry_find r t b = Some i \<Longrightarrow>
     i < active_count r \<and> phase (active r i) = STO_PHASE_ACTIVE \<and> tx_id (active r i) = t
     \<and> owner_badge (active r i) = b"
  by (auto simp: sto_registry_find_def dest: first_idx_SomeD)

lemma find_complete:
  assumes "table_wf r" and "phase (active r i) = STO_PHASE_ACTIVE"
  shows "sto_registry_find r (tx_id (active r i)) (owner_badge (active r i)) = Some i"
proof -
  have "i < active_count r" using assms by (metis table_wf_def not_le sto_phase.distinct(1))
  moreover have "tx_id (active r i) \<noteq> 0" using assms by (auto simp: table_wf_def)
  ultimately show ?thesis
    unfolding sto_registry_find_def using assms
    by (intro first_idx_unique) (auto simp: table_wf_def)
qed

lemma find_tx_by_id_live:
  assumes "table_wf r" and "live r i"
  shows "find_tx_by_id r (tx_id (active r i)) = Some i"
proof -
  have "i < active_count r" using assms by (metis table_wf_def not_le)
  moreover have "tx_id (active r i) \<noteq> 0" using assms by (auto simp: table_wf_def)
  ultimately show ?thesis
    unfolding find_tx_by_id_def using assms
    by (intro first_idx_unique) (auto simp: table_wf_def)
qed

lemma wrapped_find_iff:
  assumes "pool_wf r"
  shows "sto_registry_wrapped_find r w = Some j \<longleftrightarrow> w \<noteq> 0 \<and> wc_id (wrapped_pool r j) = w"
proof
  assume "sto_registry_wrapped_find r w = Some j"
  then show "w \<noteq> 0 \<and> wc_id (wrapped_pool r j) = w"
    by (auto simp: sto_registry_wrapped_find_def split: if_splits option.splits dest: first_idx_SomeD)
next
  assume w: "w \<noteq> 0 \<and> wc_id (wrapped_pool r j) = w"
  then have j: "j < STO_MAX_WRAPPED_CAPS" "\<not> wc_revoked (wrapped_pool r j)"
    using assms by (auto simp: pool_wf_def)
  have "first_idx (\<lambda>j. wc_id (wrapped_pool r j) = w) 0 STO_MAX_WRAPPED_CAPS = Some j"
    using assms w j by (intro first_idx_unique) (auto simp: pool_wf_def)
  with w j show "sto_registry_wrapped_find r w = Some j"
    by (simp add: sto_registry_wrapped_find_def)
qed


subsection \<open>The effect of a sweep and of the garbage collection\<close>

lemma fold_sweep:
  assumes "0 \<notin> set ws" and "\<And>w. P (w\<lparr>wc_revoked := True, wc_id := 0\<rparr>) = P w"
  shows "fold (sweep_target P) ws pool =
     (\<lambda>j. if j < STO_MAX_WRAPPED_CAPS \<and> wc_id (pool j) \<in> set ws \<and> P (pool j)
          then (pool j)\<lparr>wc_revoked := True, wc_id := 0\<rparr> else pool j)"
  using assms(1)
proof (induction ws arbitrary: pool)
  case Nil
  then show ?case by simp
next
  case (Cons a ws)
  then have "0 \<notin> set ws" and "a \<noteq> 0" by auto
  then show ?case
    using Cons.IH [of "sweep_target P a pool"] assms(2)
    by (auto simp: sweep_target_def fun_eq_iff)
qed

definition sweep :: "(sto_wrapped_cap \<Rightarrow> bool) \<Rightarrow> sto_registry \<Rightarrow> nat \<Rightarrow> sto_wrapped_cap arr" where
  "sweep P r i = fold (sweep_target P) (wrapped_caps (active r i)) (wrapped_pool r)"

definition mode_only :: "(sto_wrapped_cap \<Rightarrow> bool) \<Rightarrow> bool" where
  "mode_only P \<longleftrightarrow> (\<forall>w. P (w\<lparr>wc_revoked := True, wc_id := 0\<rparr>) = P w)"

lemma mode_only [simp]: "mode_only (\<lambda>_. True)" "mode_only (\<lambda>w. wc_mode w = m)"
  by (simp_all add: mode_only_def)

lemma sweep_eq:
  assumes "pool_wf r" and "live r i" and "mode_only P"
  shows "sweep P r i j =
     (if wc_id (wrapped_pool r j) \<in> set (wrapped_caps (active r i)) \<and> P (wrapped_pool r j)
      then (wrapped_pool r j)\<lparr>wc_revoked := True, wc_id := 0\<rparr> else wrapped_pool r j)"
proof -
  have z: "0 \<notin> set (wrapped_caps (active r i))" using assms by (auto simp: pool_wf_def)
  have "j < STO_MAX_WRAPPED_CAPS" if "wc_id (wrapped_pool r j) \<in> set (wrapped_caps (active r i))"
    using assms(1) z that unfolding pool_wf_def by metis
  moreover have "\<And>w. P (w\<lparr>wc_revoked := True, wc_id := 0\<rparr>) = P w"
    using assms(3) by (simp add: mode_only_def)
  ultimately show ?thesis
    using fold_sweep [OF z, of P "wrapped_pool r"] by (auto simp: sweep_def fun_eq_iff)
qed

lemma gc_select [simp]:
  "active (sto_registry_gc r) = active r"
  "wrapped_pool (sto_registry_gc r) = wrapped_pool r"
  "next_tx_id (sto_registry_gc r) = next_tx_id r"
  "next_wrapped_id (sto_registry_gc r) = next_wrapped_id r"
  by (simp_all add: sto_registry_gc_def Let_def)

lemma gc_log:
  "commit_log (sto_registry_gc r) =
     (if \<forall>i<STO_MAX_TX. phase (active r i) \<noteq> STO_PHASE_ACTIVE then [] else commit_log r)"
  by (auto simp: sto_registry_gc_def Let_def count_idx_0_iff)

lemma gc_count:
  assumes "\<And>i. STO_MAX_TX \<le> i \<Longrightarrow> \<not> live r i"
  shows "active_count (sto_registry_gc r) \<le> STO_MAX_TX"
    and "active_count (sto_registry_gc r) \<le> i \<Longrightarrow> \<not> live r i"
proof -
  show "active_count (sto_registry_gc r) \<le> STO_MAX_TX"
    by (simp add: sto_registry_gc_def Let_def high_water_le)
  show "\<not> live r i" if "active_count (sto_registry_gc r) \<le> i"
    using that assms [of i] high_water_above [of "live r" STO_MAX_TX i]
    by (cases "i < STO_MAX_TX") (auto simp: sto_registry_gc_def Let_def)
qed


subsection \<open>Releasing a slot\<close>

text \<open>
  Commit and abort both sweep some of the capabilities of the transaction, set its phase
  and collect. \<open>release P ph\<close> is their common shape.
\<close>

definition release :: "(sto_wrapped_cap \<Rightarrow> bool) \<Rightarrow> sto_phase \<Rightarrow> sto_registry \<Rightarrow> nat \<Rightarrow> sto_registry" where
  "release P ph r i =
     sto_registry_gc (r\<lparr>wrapped_pool := sweep P r i,
                        active := (active r)(i := (active r i)\<lparr>phase := ph\<rparr>)\<rparr>)"

lemma abort_release: "sto_registry_abort r i = release (\<lambda>_. True) STO_PHASE_FREE r i"
  by (simp add: sto_registry_abort_def release_def sweep_def sto_registry_sweep_wrapped_def set_tx_def)

definition log_entry :: "sto_registry \<Rightarrow> nat \<Rightarrow> sto_registry" where
  "log_entry r i = r\<lparr>commit_log := commit_log r @
     [\<lparr>ce_tx_id = tx_id (active r i), ce_write_set = write_set (active r i)\<rparr>]\<rparr>"

definition keeps_slot :: "sto_registry \<Rightarrow> nat \<Rightarrow> bool" where
  "keeps_slot r i \<longleftrightarrow>
     (\<exists>j. wc_id (wrapped_pool r j) \<in> set (wrapped_caps (active r i)) \<and>
          wc_mode (wrapped_pool r j) = STO_CAP_COMMIT_ONLY)"

lemma pool_wf_sweep:
  assumes "pool_wf r" and "live r i" and "mode_only P"
  shows "pool_wf (r\<lparr>wrapped_pool := sweep P r i\<rparr>)"
  using assms(1) unfolding pool_wf_def by (auto simp: sweep_eq [OF assms])

lemma has_live_commit_only_iff:
  assumes "pool_wf r" and "live r i"
  shows "has_live_commit_only (sto_registry_sweep_wrapped_by_mode r i STO_CAP_ACTIVE_OK) i
           \<longleftrightarrow> keeps_slot r i"
proof -
  let ?P = "\<lambda>w. wc_mode w = STO_CAP_ACTIVE_OK"
  let ?r = "r\<lparr>wrapped_pool := sweep ?P r i\<rparr>"
  have r: "sto_registry_sweep_wrapped_by_mode r i STO_CAP_ACTIVE_OK = ?r"
    by (simp add: sto_registry_sweep_wrapped_by_mode_def sweep_def)
  have wf: "pool_wf ?r" by (rule pool_wf_sweep [OF assms]) simp
  have nz: "w \<noteq> 0" if "w \<in> set (wrapped_caps (active r i))" for w
    using assms that by (auto simp: pool_wf_def)
  have sw: "sweep ?P r i j = (if wc_id (wrapped_pool r j) \<in> set (wrapped_caps (active r i)) \<and>
       wc_mode (wrapped_pool r j) = STO_CAP_ACTIVE_OK
      then (wrapped_pool r j)\<lparr>wc_revoked := True, wc_id := 0\<rparr> else wrapped_pool r j)" for j
    by (rule sweep_eq [OF assms]) simp
  have "has_live_commit_only ?r i \<longleftrightarrow>
     (\<exists>w\<in>set (wrapped_caps (active r i)). \<exists>j. sto_registry_wrapped_find ?r w = Some j \<and>
        wc_mode (sweep ?P r i j) = STO_CAP_COMMIT_ONLY)"
    by (auto simp: has_live_commit_only_def list_ex_iff split: option.splits)
  also have "\<dots> \<longleftrightarrow> (\<exists>w\<in>set (wrapped_caps (active r i)). \<exists>j. wc_id (sweep ?P r i j) = w \<and>
        wc_mode (sweep ?P r i j) = STO_CAP_COMMIT_ONLY)"
    using nz by (auto simp: wrapped_find_iff [OF wf])
  also have "\<dots> \<longleftrightarrow> (\<exists>j. wc_id (sweep ?P r i j) \<in> set (wrapped_caps (active r i)) \<and>
        wc_mode (sweep ?P r i j) = STO_CAP_COMMIT_ONLY)" by blast
  also have "\<dots> \<longleftrightarrow> keeps_slot r i"
    unfolding keeps_slot_def by (rule ex_cong1) (use nz in \<open>auto simp: sw\<close>)
  finally show ?thesis by (simp only: r)
qed

lemma pool_wf_log [simp]:
  "pool_wf (r\<lparr>commit_log := l\<rparr>) = pool_wf r" "pool_wf (r\<lparr>active_count := n\<rparr>) = pool_wf r"
  by (simp_all add: pool_wf_def)

lemma table_wf_log [simp]: "table_wf (r\<lparr>commit_log := l\<rparr>) = table_wf r"
  by (simp add: table_wf_def)

lemma commit_eq:
  assumes "pool_wf r" and "live r i"
  shows "sto_registry_commit r i =
    (if STO_MAX_COMMIT_LOG \<le> length (commit_log r) then (STO_QUOTA, r)
     else (STO_OK, release (\<lambda>w. wc_mode w = STO_CAP_ACTIVE_OK)
                     (if keeps_slot r i then STO_PHASE_COMMITTED else STO_PHASE_FREE) (log_entry r i) i))"
proof -
  have wf: "pool_wf (log_entry r i)" "live (log_entry r i) i"
    using assms by (simp_all add: log_entry_def)
  have "keeps_slot (log_entry r i) i = keeps_slot r i"
    by (simp add: keeps_slot_def log_entry_def)
  with has_live_commit_only_iff [OF wf] show ?thesis
    by (simp add: sto_registry_commit_def Let_def release_def log_entry_def sweep_def
        sto_registry_sweep_wrapped_by_mode_def set_tx_def)
qed


lemma release_select [simp]:
  "active (release P ph r i) = (active r)(i := (active r i)\<lparr>phase := ph\<rparr>)"
  "wrapped_pool (release P ph r i) = sweep P r i"
  "next_tx_id (release P ph r i) = next_tx_id r"
  "next_wrapped_id (release P ph r i) = next_wrapped_id r"
  by (simp_all add: release_def)

lemma release_log:
  "commit_log (release P ph r i) =
     (if \<forall>k<STO_MAX_TX. phase (active (release P ph r i) k) \<noteq> STO_PHASE_ACTIVE
      then [] else commit_log r)"
  unfolding release_def gc_log gc_select by (rule if_cong) simp_all

lemma table_wfD:
  assumes "table_wf r"
  shows "active_count r \<le> STO_MAX_TX" "active_count r \<le> i \<Longrightarrow> \<not> live r i" "tx_ok (active r i)"
    "unat (tx_id (active r i)) < unat (next_tx_id r)" "live r i \<Longrightarrow> tx_id (active r i) \<noteq> 0"
    "tx_id (active r i) = tx_id (active r j) \<Longrightarrow> tx_id (active r i) \<noteq> 0 \<Longrightarrow> i = j"
    "live r i \<Longrightarrow> i < STO_MAX_TX"
  using assms unfolding table_wf_def by (blast, blast, blast, blast, blast, blast, metis leI le_trans)

lemma table_wfI:
  assumes "active_count r \<le> STO_MAX_TX" and "\<And>i. active_count r \<le> i \<Longrightarrow> \<not> live r i"
    and "\<And>i. tx_ok (active r i)" and "\<And>i. unat (tx_id (active r i)) < unat (next_tx_id r)"
    and "\<And>i. live r i \<Longrightarrow> tx_id (active r i) \<noteq> 0"
    and "\<And>i j. tx_id (active r i) = tx_id (active r j) \<Longrightarrow> tx_id (active r i) \<noteq> 0 \<Longrightarrow> i = j"
  shows "table_wf r"
  using assms unfolding table_wf_def by blast

lemma pool_wfD:
  assumes "pool_wf r"
  shows "0 < unat (next_wrapped_id r)" "unat (wc_id (wrapped_pool r j)) < unat (next_wrapped_id r)"
    "wc_id (wrapped_pool r j) = wc_id (wrapped_pool r k) \<Longrightarrow> wc_id (wrapped_pool r j) \<noteq> 0 \<Longrightarrow> j = k"
    "wc_id (wrapped_pool r j) \<noteq> 0 \<Longrightarrow> j < STO_MAX_WRAPPED_CAPS \<and> \<not> wc_revoked (wrapped_pool r j)"
    "wc_id (wrapped_pool r j) \<noteq> 0 \<Longrightarrow>
       \<exists>i. live r i \<and> tx_id (active r i) = wc_tx_id (wrapped_pool r j) \<and>
           wc_id (wrapped_pool r j) \<in> set (wrapped_caps (active r i))"
    "live r i \<Longrightarrow> w \<in> set (wrapped_caps (active r i)) \<Longrightarrow> w \<noteq> 0 \<and> unat w < unat (next_wrapped_id r)"
    "live r i \<Longrightarrow> wc_id (wrapped_pool r j) \<in> set (wrapped_caps (active r i)) \<Longrightarrow>
       wc_tx_id (wrapped_pool r j) = tx_id (active r i)"
  using assms unfolding pool_wf_def by blast+

lemma pool_wfI:
  assumes "0 < unat (next_wrapped_id r)"
    and "\<And>j. unat (wc_id (wrapped_pool r j)) < unat (next_wrapped_id r)"
    and "\<And>j k. wc_id (wrapped_pool r j) = wc_id (wrapped_pool r k) \<Longrightarrow> wc_id (wrapped_pool r j) \<noteq> 0 \<Longrightarrow> j = k"
    and "\<And>j. wc_id (wrapped_pool r j) \<noteq> 0 \<Longrightarrow> j < STO_MAX_WRAPPED_CAPS \<and> \<not> wc_revoked (wrapped_pool r j)"
    and "\<And>j. wc_id (wrapped_pool r j) \<noteq> 0 \<Longrightarrow>
       \<exists>i. live r i \<and> tx_id (active r i) = wc_tx_id (wrapped_pool r j) \<and>
           wc_id (wrapped_pool r j) \<in> set (wrapped_caps (active r i))"
    and "\<And>i w. live r i \<Longrightarrow> w \<in> set (wrapped_caps (active r i)) \<Longrightarrow>
       w \<noteq> 0 \<and> unat w < unat (next_wrapped_id r)"
    and "\<And>j i. live r i \<Longrightarrow> wc_id (wrapped_pool r j) \<in> set (wrapped_caps (active r i)) \<Longrightarrow>
       wc_tx_id (wrapped_pool r j) = tx_id (active r i)"
  shows "pool_wf r"
  using assms unfolding pool_wf_def by blast

lemma release_table_wf:
  assumes "table_wf r" and "phase (active r i) = STO_PHASE_ACTIVE" and "ph \<noteq> STO_PHASE_ABORTED"
  shows "table_wf (release P ph r i)"
proof -
  let ?r = "r\<lparr>wrapped_pool := sweep P r i, active := (active r)(i := (active r i)\<lparr>phase := ph\<rparr>)\<rparr>"
  have i: "i < STO_MAX_TX" using assms by (intro table_wfD(7) [OF assms(1)]) simp
  have nl: "\<not> live ?r k" if "STO_MAX_TX \<le> k" for k
    using that i table_wfD(1) [OF assms(1)] table_wfD(2) [OF assms(1), of k] by auto
  let ?q = "release P ph r i"
  have sub: "tx_id (active ?q k) = tx_id (active r k)" "live ?q k \<Longrightarrow> live r k" for k
    using assms(2) by (auto split: if_splits)
  show ?thesis
  proof (rule table_wfI)
    show "active_count ?q \<le> STO_MAX_TX" unfolding release_def by (rule gc_count(1) [OF nl])
    show "\<not> live ?q k" if "active_count ?q \<le> k" for k
      using gc_count(2) [OF nl, of k] that unfolding release_def by simp
    show "tx_ok (active ?q k)" for k
      using assms(3) table_wfD(3) [OF assms(1), of k] table_wfD(3) [OF assms(1), of i]
      by (simp add: tx_ok_def)
  qed (use table_wfD(4,5,6) [OF assms(1)] sub in \<open>simp_all del: release_select(1)\<close>)
qed

lemma release_pool_wf:
  assumes wf: "table_wf r" "pool_wf r" and a: "live r i" and P: "mode_only P"
    and all: "ph = STO_PHASE_FREE \<Longrightarrow>
       \<forall>j. wc_id (wrapped_pool r j) \<in> set (wrapped_caps (active r i)) \<longrightarrow> P (wrapped_pool r j)"
  shows "pool_wf (release P ph r i)"
proof -
  note sw = sweep_eq [OF wf(2) a P]
  have own: "\<exists>k. live (release P ph r i) k \<and>
       tx_id (active (release P ph r i) k) = wc_tx_id (sweep P r i j) \<and>
       wc_id (sweep P r i j) \<in> set (wrapped_caps (active (release P ph r i) k))"
    if nz: "wc_id (sweep P r i j) \<noteq> 0" for j
  proof -
    from nz have s: "sweep P r i j = wrapped_pool r j" and
      ns: "\<not> (wc_id (wrapped_pool r j) \<in> set (wrapped_caps (active r i)) \<and> P (wrapped_pool r j))"
      by (auto simp: sw split: if_splits)
    with nz pool_wfD(5) [OF wf(2), of j] obtain k where
      k: "live r k" "tx_id (active r k) = wc_tx_id (wrapped_pool r j)"
         "wc_id (wrapped_pool r j) \<in> set (wrapped_caps (active r k))" by auto
    have "ph \<noteq> STO_PHASE_FREE" if "k = i" using that k ns all by blast
    with k s show ?thesis by (intro exI [of _ k]) auto
  qed
  have sub: "live (release P ph r i) k \<Longrightarrow> live r k"
       "wrapped_caps (active (release P ph r i) k) = wrapped_caps (active r k)"
       "tx_id (active (release P ph r i) k) = tx_id (active r k)" for k
    using a by (auto split: if_splits)
  have nz: "live r k \<Longrightarrow> w \<in> set (wrapped_caps (active r k)) \<Longrightarrow> w \<noteq> 0" for k w
    using pool_wfD(6) [OF wf(2)] by blast
  have id: "wc_id (sweep P r i j) \<noteq> 0 \<Longrightarrow> sweep P r i j = wrapped_pool r j" for j
    by (auto simp: sw split: if_splits)
  let ?r = "release P ph r i"
  show ?thesis
  proof (rule pool_wfI)
    show "0 < unat (next_wrapped_id ?r)" using pool_wfD(1) [OF wf(2)] by simp
    show "unat (wc_id (wrapped_pool ?r j)) < unat (next_wrapped_id ?r)" for j
      using pool_wfD(1) [OF wf(2)] pool_wfD(2) [OF wf(2), of j] by (auto simp: sw)
    show "j = k" if "wc_id (wrapped_pool ?r j) = wc_id (wrapped_pool ?r k)"
      and "wc_id (wrapped_pool ?r j) \<noteq> 0" for j k
      using that id [of j] id [of k] pool_wfD(3) [OF wf(2), of j k] by simp
    show "j < STO_MAX_WRAPPED_CAPS \<and> \<not> wc_revoked (wrapped_pool ?r j)"
      if "wc_id (wrapped_pool ?r j) \<noteq> 0" for j
      using that id [of j] pool_wfD(4) [OF wf(2), of j] by simp
    show "\<exists>k. live ?r k \<and> tx_id (active ?r k) = wc_tx_id (wrapped_pool ?r j) \<and>
             wc_id (wrapped_pool ?r j) \<in> set (wrapped_caps (active ?r k))"
      if "wc_id (wrapped_pool ?r j) \<noteq> 0" for j
      using that unfolding release_select(2) by (rule own)
    show "w \<noteq> 0 \<and> unat w < unat (next_wrapped_id ?r)"
      if "live ?r k" and "w \<in> set (wrapped_caps (active ?r k))" for k w
      using pool_wfD(6) [OF wf(2) sub(1) [OF that(1)], of w] that(2) sub(2) [of k] by simp
    show "wc_tx_id (wrapped_pool ?r j) = tx_id (active ?r k)"
      if "live ?r k" and "wc_id (wrapped_pool ?r j) \<in> set (wrapped_caps (active ?r k))" for j k
    proof -
      have lk: "live r k" by (rule sub(1) [OF that(1)])
      have m: "wc_id (sweep P r i j) \<in> set (wrapped_caps (active r k))"
        using that(2) by (simp only: sub(2) release_select(2))
      then have "sweep P r i j = wrapped_pool r j" using nz [OF lk] by (intro id) blast
      with pool_wfD(7) [OF wf(2) lk, of j] m show ?thesis
        by (simp only: sub(3) release_select(2))
    qed
  qed
qed

lemma release_wf:
  assumes "table_wf r" and "pool_wf r" and "length (commit_log r) \<le> STO_MAX_COMMIT_LOG"
    and "phase (active r i) = STO_PHASE_ACTIVE" and "ph \<noteq> STO_PHASE_ABORTED" and "mode_only P"
    and "ph = STO_PHASE_FREE \<Longrightarrow>
       \<forall>j. wc_id (wrapped_pool r j) \<in> set (wrapped_caps (active r i)) \<longrightarrow> P (wrapped_pool r j)"
  shows "sto_wf (release P ph r i)"
proof -
  have "live r i" using assms(4) by simp
  then have "pool_wf (release P ph r i)" using assms by (intro release_pool_wf) auto
  moreover have "table_wf (release P ph r i)" using assms by (intro release_table_wf) auto
  moreover have "log_wf (release P ph r i)"
    using assms(3) by (simp add: log_wf_def release_log del: release_select(1))
  ultimately show ?thesis by (simp add: sto_wf_def)
qed


subsection \<open>Every operation keeps the invariant\<close>

lemma commit_OK_wf:
  assumes "sto_wf r" and "phase (active r i) = STO_PHASE_ACTIVE" and "sto_registry_commit r i = (rc, r')"
  shows "sto_wf r'"
proof -
  have wf: "table_wf r" "pool_wf r" "log_wf r" using assms(1) by (simp_all add: sto_wf_def)
  have l: "live r i" using assms(2) by simp
  let ?P = "\<lambda>w. wc_mode w = STO_CAP_ACTIVE_OK"
  have "sto_wf (release ?P (if keeps_slot r i then STO_PHASE_COMMITTED else STO_PHASE_FREE) (log_entry r i) i)"
    if "length (commit_log r) < STO_MAX_COMMIT_LOG"
  proof (rule release_wf)
    show "table_wf (log_entry r i)" using wf(1) by (simp add: log_entry_def)
    show "pool_wf (log_entry r i)" using wf(2) by (simp add: log_entry_def)
    show "\<forall>j. wc_id (wrapped_pool (log_entry r i) j) \<in> set (wrapped_caps (active (log_entry r i) i)) \<longrightarrow>
         wc_mode (wrapped_pool (log_entry r i) j) = STO_CAP_ACTIVE_OK"
      if "(if keeps_slot r i then STO_PHASE_COMMITTED else STO_PHASE_FREE) = STO_PHASE_FREE"
      using that by (auto simp: keeps_slot_def log_entry_def split: if_splits)
        (metis sto_cap_mode.exhaust)
  qed (use that assms(2) in \<open>auto simp: log_entry_def\<close>)
  with commit_eq [OF wf(2) l] assms(1,3) show ?thesis by (auto split: if_splits)
qed

lemma abort_wf:
  assumes "sto_wf r" and "phase (active r i) = STO_PHASE_ACTIVE"
  shows "sto_wf (sto_registry_abort r i)"
  unfolding abort_release
  using assms by (intro release_wf) (auto simp: sto_wf_def log_wf_def)

lemma set_tx_select [simp]:
  "active (set_tx i t r) = (active r)(i := t)" "wrapped_pool (set_tx i t r) = wrapped_pool r"
  "next_tx_id (set_tx i t r) = next_tx_id r" "next_wrapped_id (set_tx i t r) = next_wrapped_id r"
  "commit_log (set_tx i t r) = commit_log r" "active_count (set_tx i t r) = active_count r"
  by (simp_all add: set_tx_def)

text \<open>Changing only the object sets of a slot within their bounds keeps the invariant.\<close>

lemma set_tx_wf:
  assumes "sto_wf r" and "tx_ok t" and "tx_id t = tx_id (active r i)" and "phase t = phase (active r i)"
    and "wrapped_caps t = wrapped_caps (active r i)"
  shows "sto_wf (set_tx i t r)"
proof -
  have wf: "table_wf r" "pool_wf r" "log_wf r" using assms(1) by (simp_all add: sto_wf_def)
  have eq: "tx_id (active (set_tx i t r) k) = tx_id (active r k)"
      "phase (active (set_tx i t r) k) = phase (active r k)"
      "wrapped_caps (active (set_tx i t r) k) = wrapped_caps (active r k)" for k
    using assms by simp_all
  have "pool_wf (set_tx i t r) = pool_wf r" by (simp only: pool_wf_def set_tx_select(2-6) eq)
  moreover have "log_wf (set_tx i t r) = log_wf r" by (simp only: log_wf_def set_tx_select(2-6) eq)
  moreover have "tx_ok (active (set_tx i t r) k)" for k
    using assms(2) table_wfD(3) [OF wf(1), of k] by simp
  then have "table_wf (set_tx i t r)"
    using wf(1) unfolding table_wf_def set_tx_select(2-6) eq by blast
  ultimately show ?thesis using wf by (simp add: sto_wf_def)
qed

lemma begin_SomeD:
  assumes "sto_registry_begin r b = Some (i, r')"
  shows "i < STO_MAX_TX" and "\<not> live r i"
    and "active r' = (active r)(i := zero_tx\<lparr>tx_id := next_tx_id r, owner_badge := b, phase := STO_PHASE_ACTIVE\<rparr>)"
    and "next_tx_id r' = next_tx_id r + 1" and "wrapped_pool r' = wrapped_pool r"
    and "next_wrapped_id r' = next_wrapped_id r" and "commit_log r' = commit_log r"
    and "active_count r' = max (active_count r) (i + 1)"
  using assms by (auto simp: sto_registry_begin_def max_def split: option.splits dest!: first_idx_SomeD)

lemma pool_wf_frame:
  assumes wf: "pool_wf r" and "wrapped_pool r' = wrapped_pool r" and "next_wrapped_id r' = next_wrapped_id r"
    and older: "\<And>k. live r k \<Longrightarrow> live r' k \<and> tx_id (active r' k) = tx_id (active r k) \<and>
                wrapped_caps (active r' k) = wrapped_caps (active r k)"
    and newer: "\<And>k. live r' k \<Longrightarrow> \<not> live r k \<Longrightarrow> wrapped_caps (active r' k) = []"
  shows "pool_wf r'"
proof (rule pool_wfI)
  have bk: "live r k" if "live r' k" and "w \<in> set (wrapped_caps (active r' k))" for k w
    using that newer [of k] by (cases "live r k") auto
  show "\<exists>k. live r' k \<and> tx_id (active r' k) = wc_tx_id (wrapped_pool r' j) \<and>
             wc_id (wrapped_pool r' j) \<in> set (wrapped_caps (active r' k))"
    if nz: "wc_id (wrapped_pool r' j) \<noteq> 0" for j
  proof -
    obtain k where "live r k" "tx_id (active r k) = wc_tx_id (wrapped_pool r j)"
      "wc_id (wrapped_pool r j) \<in> set (wrapped_caps (active r k))"
      using pool_wfD(5) [OF wf, of j] nz assms(2) by auto
    with older [of k] assms(2) show ?thesis by (intro exI [of _ k]) simp
  qed
  show "w \<noteq> 0 \<and> unat w < unat (next_wrapped_id r')"
    if "live r' k" and "w \<in> set (wrapped_caps (active r' k))" for k w
    using bk [OF that] that older [of k] pool_wfD(6) [OF wf, of k w] assms(3) by simp
  show "wc_tx_id (wrapped_pool r' j) = tx_id (active r' k)"
    if "live r' k" and "wc_id (wrapped_pool r' j) \<in> set (wrapped_caps (active r' k))" for j k
    using bk [OF that] that older [of k] pool_wfD(7) [OF wf, of k j] assms(2) by simp
  show "j = k" if "wc_id (wrapped_pool r' j) = wc_id (wrapped_pool r' k)"
    and "wc_id (wrapped_pool r' j) \<noteq> 0" for j k
    using that pool_wfD(3) [OF wf, of j k] assms(2) by simp
  show "j < STO_MAX_WRAPPED_CAPS \<and> \<not> wc_revoked (wrapped_pool r' j)"
    if "wc_id (wrapped_pool r' j) \<noteq> 0" for j
    using that pool_wfD(4) [OF wf, of j] assms(2) by simp
  show "unat (wc_id (wrapped_pool r' j)) < unat (next_wrapped_id r')" for j
    using pool_wfD(2) [OF wf, of j] assms(2,3) by simp
  show "0 < unat (next_wrapped_id r')" using pool_wfD(1) [OF wf] assms(3) by simp
qed

lemma begin_wf:
  assumes "sto_wf r" and "unat (next_tx_id r) + 1 < 2 ^ 64" and b: "sto_registry_begin r b = Some (i, r')"
  shows "sto_wf r'"
proof -
  have wf: "table_wf r" "pool_wf r" "log_wf r" using assms(1) by (simp_all add: sto_wf_def)
  note b = begin_SomeD [OF b]
  have nx: "unat (next_tx_id r + 1) = unat (next_tx_id r) + 1"
    using assms(2) by (intro unat_Suc_word) simp
  have nz: "next_tx_id r \<noteq> 0" using table_wfD(4) [OF wf(1), of i] by auto
  have fresh: "tx_id (active r k) \<noteq> next_tx_id r" for k
    using table_wfD(4) [OF wf(1), of k] by auto
  have "table_wf r'"
  proof (rule table_wfI)
    show "active_count r' \<le> STO_MAX_TX" using b table_wfD(1) [OF wf(1)] by simp
    show "\<not> live r' k" if "active_count r' \<le> k" for k
      using that b(3,8) table_wfD(2) [OF wf(1), of k] by simp
    show "tx_ok (active r' k)" for k
      using b(3) table_wfD(3) [OF wf(1), of k] by (simp add: tx_ok_def zero_tx_def)
    show "unat (tx_id (active r' k)) < unat (next_tx_id r')" for k
      using b(3,4) nx table_wfD(4) [OF wf(1), of k] by simp
    show "tx_id (active r' k) \<noteq> 0" if "live r' k" for k
      using that b(3) nz table_wfD(5) [OF wf(1), of k] by (auto split: if_splits)
    show "j = k" if "tx_id (active r' j) = tx_id (active r' k)" and "tx_id (active r' j) \<noteq> 0" for j k
      using that b(3) fresh [of j] fresh [of k] table_wfD(6) [OF wf(1), of j k] by (auto split: if_splits)
  qed
  moreover have "log_wf r'"
  proof -
    have "phase (active r' i) = STO_PHASE_ACTIVE" using b(3) by simp
    then show ?thesis using wf(3) b(7) unfolding log_wf_def by auto
  qed
  moreover have "pool_wf r'"
    by (rule pool_wf_frame [OF wf(2)]) (use b in \<open>auto simp: zero_tx_def split: if_splits\<close>)
  ultimately show ?thesis by (simp add: sto_wf_def)
qed

text \<open>A successful wrap: a fresh identifier, in a free pool slot, listed by the transaction.\<close>

lemma wrap_cases:
  assumes "sto_registry_wrap r i obj m = (w, r')"
  obtains (quota) "w = 0" "r' = r"
  | (ok) j where "w = next_wrapped_id r" "j < STO_MAX_WRAPPED_CAPS" "wc_id (wrapped_pool r j) = 0"
      "length (wrapped_caps (active r i)) < STO_MAX_WRAPPED_PER_TX"
      "r' = r\<lparr>next_wrapped_id := w + 1,
              wrapped_pool := (wrapped_pool r)(j := \<lparr>wc_id = w, wc_obj_id = obj,
                   wc_tx_id = tx_id (active r i), wc_mode = m, wc_revoked = False\<rparr>),
              active := (active r)(i := (active r i)\<lparr>wrapped_caps := wrapped_caps (active r i) @ [w]\<rparr>)\<rparr>"
proof (cases "STO_MAX_WRAPPED_PER_TX \<le> length (wrapped_caps (active r i))")
  case True
  with assms show ?thesis by (intro quota) (simp_all add: sto_registry_wrap_def Let_def)
next
  case False
  let ?f = "first_idx (\<lambda>j. wc_id (wrapped_pool r j) = 0) 0 STO_MAX_WRAPPED_CAPS"
  show ?thesis
  proof (cases ?f)
    case None
    with False assms show ?thesis by (intro quota) (simp_all add: sto_registry_wrap_def Let_def)
  next
    case (Some j)
    with False assms first_idx_SomeD [OF Some] show ?thesis
      by (intro ok [of j]) (auto simp: sto_registry_wrap_def Let_def)
  qed
qed

lemma wrap_wf:
  assumes "sto_wf r" and "unat (next_wrapped_id r) + 1 < 2 ^ 64" and a: "phase (active r i) = STO_PHASE_ACTIVE"
    and wrap: "sto_registry_wrap r i obj m = (w, r')"
  shows "sto_wf r'"
  using wrap
proof (cases rule: wrap_cases)
  case quota
  with assms(1) show ?thesis by simp
next
  case (ok j)
  have wf: "table_wf r" "pool_wf r" "log_wf r" using assms(1) by (simp_all add: sto_wf_def)
  have nx: "unat (next_wrapped_id r') = unat (next_wrapped_id r) + 1"
    using unat_Suc_word [of "next_wrapped_id r"] assms(2) by (simp add: ok(5)) (simp add: ok(1))
  have wn: "unat w = unat (next_wrapped_id r)" by (simp add: ok(1))
  have wnz: "w \<noteq> 0" using pool_wfD(1) [OF wf(2)] ok(1) by auto
  have fresh: "wc_id (wrapped_pool r k) \<noteq> w" for k using pool_wfD(2) [OF wf(2), of k] ok(1) by auto
  have fresh2: "w \<notin> set (wrapped_caps (active r k))" if "live r k" for k
    using pool_wfD(6) [OF wf(2) that, of w] ok(1) by auto
  have act: "tx_id (active r' k) = tx_id (active r k)" "phase (active r' k) = phase (active r k)"
      "wrapped_caps (active r' k) = wrapped_caps (active r k) @ (if k = i then [w] else [])" for k
    by (simp_all add: ok(5))
  have sel: "active_count r' = active_count r" "next_tx_id r' = next_tx_id r" by (simp_all add: ok(5))
  have "tx_ok (active r' k)" for k
    using table_wfD(3) [OF wf(1), of k] ok(4) by (auto simp: ok(5) tx_ok_def)
  then have "table_wf r'"
    using wf(1) unfolding table_wf_def act sel by blast
  moreover have "log_wf r' = log_wf r" unfolding log_wf_def act by (simp add: ok(5))
  moreover have "pool_wf r'"
  proof (rule pool_wfI)
    show "0 < unat (next_wrapped_id r')" by (simp add: nx)
    show "unat (wc_id (wrapped_pool r' k)) < unat (next_wrapped_id r')" for k
      using pool_wfD(2) [OF wf(2), of k] wn unfolding nx by (simp add: ok(5))
    show "k = l" if "wc_id (wrapped_pool r' k) = wc_id (wrapped_pool r' l)"
      and "wc_id (wrapped_pool r' k) \<noteq> 0" for k l
      using that fresh [of k] fresh [of l] pool_wfD(3) [OF wf(2), of k l]
      by (auto simp: ok(5) split: if_splits)
    show "k < STO_MAX_WRAPPED_CAPS \<and> \<not> wc_revoked (wrapped_pool r' k)"
      if "wc_id (wrapped_pool r' k) \<noteq> 0" for k
      using that ok(2) pool_wfD(4) [OF wf(2), of k] by (auto simp: ok(5) split: if_splits)
    show "u \<noteq> 0 \<and> unat u < unat (next_wrapped_id r')"
      if "live r' k" and "u \<in> set (wrapped_caps (active r' k))" for k u
      using that wnz wn pool_wfD(6) [OF wf(2), of k u] unfolding act nx
      by (auto split: if_splits)
    show "wc_tx_id (wrapped_pool r' k) = tx_id (active r' l)"
      if "live r' l" and "wc_id (wrapped_pool r' k) \<in> set (wrapped_caps (active r' l))" for k l
      using that fresh [of k] fresh2 [of l] pool_wfD(7) [OF wf(2), of l k] unfolding act
      by (auto simp: ok(5) split: if_splits)
    show "\<exists>l. live r' l \<and> tx_id (active r' l) = wc_tx_id (wrapped_pool r' k) \<and>
             wc_id (wrapped_pool r' k) \<in> set (wrapped_caps (active r' l))"
      if "wc_id (wrapped_pool r' k) \<noteq> 0" for k
    proof (cases "k = j")
      case True
      with a show ?thesis by (intro exI [of _ i]) (simp add: ok(5))
    next
      case False
      with that pool_wfD(5) [OF wf(2), of k] show ?thesis unfolding act by (auto simp: ok(5))
    qed
  qed
  ultimately show ?thesis using wf(3) by (simp add: sto_wf_def)
qed

lemma add_read_wf:
  assumes "sto_wf r" and "sto_registry_add_read r i obj = (rc, r')"
  shows "sto_wf r'"
proof -
  have ok: "tx_ok (active r i)" using assms(1) by (simp add: sto_wf_def table_wfD(3))
  obtain s where s: "obj_set_add (read_set (active r i)) obj = (rc, s)"
    and r': "r' = set_tx i ((active r i)\<lparr>read_set := s\<rparr>) r"
    using assms(2) by (auto simp: sto_registry_add_read_def Let_def split: prod.splits)
  show ?thesis unfolding r'
    using ok obj_set_add_bounds [OF _ _ s] by (intro set_tx_wf [OF assms(1)]) (simp_all add: tx_ok_def)
qed

lemma add_write_wf:
  assumes "sto_wf r" and "sto_registry_add_write r i obj = (rc, r')"
  shows "sto_wf r'"
proof -
  have ok: "tx_ok (active r i)" using assms(1) by (simp add: sto_wf_def table_wfD(3))
  obtain s where s: "obj_set_add (write_set (active r i)) obj = (rc, s)"
    and r': "r' = set_tx i ((active r i)\<lparr>write_set := s\<rparr>) r"
    using assms(2) by (auto simp: sto_registry_add_write_def Let_def split: prod.splits)
  show ?thesis unfolding r'
    using ok obj_set_add_bounds [OF _ _ s] by (intro set_tx_wf [OF assms(1)]) (simp_all add: tx_ok_def)
qed

subsection \<open>The transitions of the server\<close>

datatype sto_event = Quiet | Began nat | Read nat | Staged nat | Aborted nat | Committed nat | Wrapped nat

inductive sto_step :: "u64 \<Rightarrow> sto_registry \<Rightarrow> sto_event \<Rightarrow> sto_registry \<Rightarrow> bool" for b where
  quiet: "sto_step b r Quiet r"
| started: "sto_registry_begin r b = Some (i, r') \<Longrightarrow> sto_step b r (Began i) r'"
| read: "phase (active r i) = STO_PHASE_ACTIVE \<Longrightarrow> owner_badge (active r i) = b \<Longrightarrow>
     sto_registry_add_read r i x = (rc, r') \<Longrightarrow> sto_step b r (Read i) r'"
| stage: "phase (active r i) = STO_PHASE_ACTIVE \<Longrightarrow> owner_badge (active r i) = b \<Longrightarrow>
     sto_registry_add_write r i x = (rc, r') \<Longrightarrow> sto_step b r (Staged i) r'"
| abort: "phase (active r i) = STO_PHASE_ACTIVE \<Longrightarrow> owner_badge (active r i) = b \<Longrightarrow>
     sto_step b r (Aborted i) (sto_registry_abort r i)"
| commit: "phase (active r i) = STO_PHASE_ACTIVE \<Longrightarrow> owner_badge (active r i) = b \<Longrightarrow>
     sto_registry_can_commit r i \<Longrightarrow> sto_registry_commit r i = (STO_OK, r') \<Longrightarrow>
     sto_step b r (Committed i) r'"
| wrap: "phase (active r i) = STO_PHASE_ACTIVE \<Longrightarrow> owner_badge (active r i) = b \<Longrightarrow>
     sto_registry_wrap r i x m = (w, r') \<Longrightarrow> sto_step b r (Wrapped i) r'"

inductive_cases sto_stepE: "sto_step b r e r'"
inductive_simps sto_step_Committed: "sto_step b r (Committed i) r'"

lemma commit_fails: "sto_registry_commit r i = (rc, r') \<Longrightarrow> rc \<noteq> STO_OK \<Longrightarrow> r' = r"
  by (auto simp: sto_registry_commit_def Let_def split: if_splits)

lemmas handler_defs =
  handle_begin_def handle_read_def handle_stage_def handle_commit_def handle_rollback_def
  handle_wrap_def handle_invoke_def

lemma quiet_step: "\<exists>e. sto_step b r e r"
  by (rule exI, rule sto_step.quiet)

lemma handle_begin_step: "\<exists>e. sto_step b r e (snd (handle_begin r b))"
  by (auto simp: handle_begin_def intro: sto_step.intros split: option.splits)

lemma handle_read_step: "\<exists>e. sto_step b r e (snd (handle_read r b mr))"
  by (auto simp: handle_read_def intro: sto_step.intros split: option.splits prod.splits
      dest!: find_SomeD)

lemma handle_stage_step: "\<exists>e. sto_step b r e (snd (handle_stage r b mr))"
  by (auto simp: handle_stage_def intro: sto_step.intros split: option.splits prod.splits
      dest!: find_SomeD)

lemma handle_rollback_step: "\<exists>e. sto_step b r e (snd (handle_rollback r b mr))"
  by (auto simp: handle_rollback_def intro: sto_step.intros split: option.splits dest!: find_SomeD)

lemma handle_invoke_step: "snd (handle_invoke r b mr) = r"
  by (auto simp: handle_invoke_def split: option.splits)

lemma handle_wrap_step: "\<exists>e. sto_step b r e (snd (handle_wrap r b mr))"
proof (cases "sto_registry_find r (mr 0) b")
  case None
  then show ?thesis by (auto simp: handle_wrap_def intro: sto_step.quiet)
next
  case (Some i)
  note f = find_SomeD [OF Some]
  have w: "\<exists>e. sto_step b r e (snd (sto_registry_wrap r i x m))" for x m
    using f sto_step.wrap [of r i b x m] by (metis prod.collapse)
  show ?thesis using Some f w quiet_step by (simp add: handle_wrap_def Let_def split_beta)
qed

lemma handle_commit_step: "\<exists>e. sto_step b r e (snd (handle_commit r b mr))"
proof (cases "sto_registry_find r (mr 0) b")
  case None
  then show ?thesis by (auto simp: handle_commit_def intro: sto_step.quiet)
next
  case (Some i)
  note f = find_SomeD [OF Some]
  obtain rc r' where c: "sto_registry_commit r i = (rc, r')" by fastforce
  show ?thesis
  proof (cases "sto_registry_can_commit r i \<and> rc = STO_OK")
    case True
    with Some f c show ?thesis
      by (intro exI [of _ "Committed i"]) (simp add: handle_commit_def sto_step.commit)
  next
    case False
    with Some f c commit_fails [OF c] show ?thesis
      by (auto simp: handle_commit_def intro: sto_step.quiet sto_step.abort)
  qed
qed

lemma dispatch_step: "\<exists>e. sto_step (msg_badge m) r e (snd (sto_dispatch r m))"
  using handle_begin_step handle_read_step handle_stage_step handle_commit_step
    handle_rollback_step handle_wrap_step handle_invoke_step quiet_step
  by (simp add: sto_dispatch_def Let_def)

lemma step_ids:
  assumes "sto_step b r e r'" and "ids_left r (Suc n)"
  shows "ids_left r' n" 
proof -
  have "unat (next_tx_id r + 1) \<le> unat (next_tx_id r) + 1" "unat (next_wrapped_id r + 1) \<le> unat (next_wrapped_id r) + 1"
    by (simp_all add: unat_word_ariths)
  with assms show ?thesis
    by (cases rule: sto_stepE)
      (auto simp: ids_left_def abort_release sto_registry_add_read_def sto_registry_add_write_def
        Let_def sto_registry_commit_def sto_registry_sweep_wrapped_by_mode_def
        split: prod.splits if_splits dest: begin_SomeD(4) begin_SomeD(6) elim!: wrap_cases)
qed

theorem step_wf:
  assumes "sto_wf r" and "ids_left r 1" and "sto_step b r e r'"
  shows "sto_wf r'"
  using assms(3)
  by (cases rule: sto_stepE)
    (use assms(1,2) in \<open>auto simp: ids_left_def intro: begin_wf add_read_wf add_write_wf abort_wf
       commit_OK_wf wrap_wf\<close>)

subsection \<open>Runs\<close>

lemma serve_wf_ids:
  "sto_wf r \<Longrightarrow> ids_left r (length ms + n) \<Longrightarrow>
     sto_wf (snd (sto_serve r ms)) \<and> ids_left (snd (sto_serve r ms)) n"
proof (induction ms arbitrary: r)
  case Nil
  then show ?case by simp
next
  case (Cons m ms)
  obtain e where st: "sto_step (msg_badge m) r e (snd (sto_dispatch r m))"
    using dispatch_step by blast
  have "ids_left r 1" using Cons.prems(2) by (simp add: ids_left_def)
  then have "sto_wf (snd (sto_dispatch r m))" by (rule step_wf [OF Cons.prems(1) _ st])
  moreover have "ids_left (snd (sto_dispatch r m)) (length ms + n)"
    using step_ids [OF st] Cons.prems(2) by simp
  ultimately show ?case unfolding sto_serve_Cons by (rule Cons.IH)
qed

lemma step_next_tx_mono:
  assumes "sto_step b r e r'" and "ids_left r 1"
  shows "unat (next_tx_id r) \<le> unat (next_tx_id r')"
proof -
  have "unat (next_tx_id r + 1) = unat (next_tx_id r) + 1"
    using assms(2) by (intro unat_Suc_word) (simp add: ids_left_def)
  with assms(1) show ?thesis
    by (cases rule: sto_stepE)
      (auto simp: abort_release sto_registry_add_read_def sto_registry_add_write_def
        Let_def sto_registry_commit_def sto_registry_sweep_wrapped_by_mode_def
        split: prod.splits if_splits dest: begin_SomeD(4) elim!: wrap_cases)
qed

text \<open>The log after a commit or an abort, as long as some transaction stays active.\<close>

lemma commit_step_eq:
  assumes "sto_wf r" and "phase (active r i) = STO_PHASE_ACTIVE" and "sto_registry_commit r i = (STO_OK, r')"
  shows "r' = release (\<lambda>w. wc_mode w = STO_CAP_ACTIVE_OK)
                (if keeps_slot r i then STO_PHASE_COMMITTED else STO_PHASE_FREE) (log_entry r i) i"
  using assms commit_eq [of r i] by (auto simp: sto_wf_def split: if_splits)

lemma log_entry_select [simp]:
  "active (log_entry r i) = active r" "wrapped_pool (log_entry r i) = wrapped_pool r"
  "next_tx_id (log_entry r i) = next_tx_id r" "next_wrapped_id (log_entry r i) = next_wrapped_id r"
  "commit_log (log_entry r i) = commit_log r @
     [\<lparr>ce_tx_id = tx_id (active r i), ce_write_set = write_set (active r i)\<rparr>]"
  by (simp_all add: log_entry_def)

lemma release_log_active:
  "k < STO_MAX_TX \<Longrightarrow> phase (active (release P ph r i) k) = STO_PHASE_ACTIVE \<Longrightarrow>
     commit_log (release P ph r i) = commit_log r"
  by (auto simp: release_log simp del: release_select(1))

lemma step_log_mono:
  assumes "sto_wf r" and "sto_step b r e r'"
    and "k < STO_MAX_TX" and "phase (active r' k) = STO_PHASE_ACTIVE"
  shows "set (commit_log r) \<subseteq> set (commit_log r')"
  using assms(2)
proof (cases rule: sto_step.cases)
  case (abort i)
  with assms(3,4) show ?thesis
    unfolding abort(2) abort_release by (metis order_refl release_log_active)
next
  case (commit i)
  note r' = commit_step_eq [OF assms(1) commit(2) commit(5)]
  from assms(3,4) have "commit_log r' = commit_log (log_entry r i)"
    unfolding r' by (rule release_log_active)
  then show ?thesis by auto
qed (auto simp: sto_registry_add_read_def sto_registry_add_write_def Let_def
       split: prod.splits dest: begin_SomeD(7) elim!: wrap_cases)

text \<open>A transaction that is active after a step and is not new was active before it.\<close>

lemma step_active_back:
  assumes "sto_wf r" and "sto_step b r e r'" and "phase (active r' k) = STO_PHASE_ACTIVE"
    and "unat (tx_id (active r' k)) < unat (next_tx_id r)"
  shows "phase (active r k) = STO_PHASE_ACTIVE \<and> tx_id (active r k) = tx_id (active r' k) \<and>
         owner_badge (active r k) = owner_badge (active r' k)"
  using assms(2)
proof (cases rule: sto_step.cases)
  case (started i)
  with assms(3,4) begin_SomeD(3) [OF started(2)] show ?thesis by (auto split: if_splits)
next
  case (abort i)
  with assms(3) show ?thesis by (auto simp: abort_release split: if_splits)
next
  case (commit i)
  with assms(3) show ?thesis
    by (auto simp: commit_step_eq [OF assms(1) commit(2) commit(5)] split: if_splits)
qed (use assms(3) in \<open>auto simp: sto_registry_add_read_def sto_registry_add_write_def Let_def
       split: prod.splits if_splits elim!: wrap_cases\<close>)

lemma serve_active_back:
  "sto_wf r \<Longrightarrow> ids_left r (length ms) \<Longrightarrow> r' = snd (sto_serve r ms) \<Longrightarrow>
   phase (active r' k) = STO_PHASE_ACTIVE \<Longrightarrow> unat (tx_id (active r' k)) < unat (next_tx_id r) \<Longrightarrow>
     phase (active r k) = STO_PHASE_ACTIVE \<and> tx_id (active r k) = tx_id (active r' k) \<and>
     set (commit_log r) \<subseteq> set (commit_log r')"
proof (induction ms arbitrary: r)
  case Nil
  then show ?case by simp
next
  case (Cons m ms)
  let ?r1 = "snd (sto_dispatch r m)"
  obtain e where st: "sto_step (msg_badge m) r e ?r1" using dispatch_step by blast
  have one: "ids_left r 1" using Cons.prems(2) by (simp add: ids_left_def)
  have wf: "sto_wf ?r1" by (rule step_wf [OF Cons.prems(1) one st])
  have left: "ids_left ?r1 (length ms)" using step_ids [OF st] Cons.prems(2) by simp
  have r': "r' = snd (sto_serve ?r1 ms)" using Cons.prems(3) by (simp del: sto_serve.simps)
  have "unat (tx_id (active r' k)) < unat (next_tx_id ?r1)"
    using Cons.prems(5) step_next_tx_mono [OF st one] by simp
  from Cons.IH [OF wf left r' Cons.prems(4) this]
  have 1: "phase (active ?r1 k) = STO_PHASE_ACTIVE" "tx_id (active ?r1 k) = tx_id (active r' k)"
    "set (commit_log ?r1) \<subseteq> set (commit_log r')" by auto
  then have "k < STO_MAX_TX" using wf by (auto simp: sto_wf_def intro: table_wfD(7))
  with 1 step_active_back [OF Cons.prems(1) st 1(1)] step_log_mono [OF Cons.prems(1) st _ 1(1)]
    Cons.prems(5) show ?case by auto
qed

lemma commit_reply_OK:
  assumes "handle_commit r b mr = (reply_status STO_OK, r')"
  obtains i where "sto_registry_find r (mr 0) b = Some i" and "sto_registry_can_commit r i"
    and "sto_registry_commit r i = (STO_OK, r')"
proof -
  have inj: "reply_status s = reply_status STO_OK \<Longrightarrow> s = STO_OK" for s
    by (cases s) (simp_all add: reply_status_def)
  from assms have "sto_registry_find r (mr 0) b \<noteq> None"
    using inj by (auto simp: handle_commit_def split: option.splits)
  then obtain i where i: "sto_registry_find r (mr 0) b = Some i" by blast
  note f = find_SomeD [OF i]
  have "sto_registry_can_commit r i" using assms i f inj [of STO_CONFLICT]
    by (auto simp: handle_commit_def split: if_splits)
  moreover obtain rc r1 where c: "sto_registry_commit r i = (rc, r1)" by fastforce
  ultimately have "reply_status rc = reply_status STO_OK \<and> r1 = r'"
    using assms i f by (simp add: handle_commit_def)
  with c inj have "sto_registry_commit r i = (STO_OK, r')" by auto
  with i \<open>sto_registry_can_commit r i\<close> show ?thesis by (rule that)
qed

subsection \<open>Isolation between clients\<close>

lemma release_other:
  assumes "sto_wf r" and "live r i" and "live r k" and "i \<noteq> k" and "mode_only P"
  shows "active (release P ph r i) k = active r k"
    and "wc_id (wrapped_pool r j) \<in> set (wrapped_caps (active r k)) \<Longrightarrow>
           wrapped_pool (release P ph r i) j = wrapped_pool r j"
proof -
  have wf: "table_wf r" "pool_wf r" using assms(1) by (simp_all add: sto_wf_def)
  show "active (release P ph r i) k = active r k" using assms(4) by simp
  assume w: "wc_id (wrapped_pool r j) \<in> set (wrapped_caps (active r k))"
  have "wc_id (wrapped_pool r j) \<notin> set (wrapped_caps (active r i))"
  proof
    assume "wc_id (wrapped_pool r j) \<in> set (wrapped_caps (active r i))"
    with w pool_wfD(7) [OF wf(2)] assms(2,3) have "tx_id (active r i) = tx_id (active r k)"
      by metis
    with table_wfD(5,6) [OF wf(1)] assms(2-4) show False by blast
  qed
  then show "wrapped_pool (release P ph r i) j = wrapped_pool r j"
    by (simp add: sweep_eq [OF wf(2) assms(2,5)])
qed

lemma log_entry_wf: "sto_wf r \<Longrightarrow> phase (active r i) = STO_PHASE_ACTIVE \<Longrightarrow>
   table_wf (log_entry r i) \<and> pool_wf (log_entry r i)"
  by (simp add: log_entry_def sto_wf_def)

lemma release_log_entry_pool:
  assumes "sto_wf r" and "live r i" and "mode_only P"
  shows "wrapped_pool (release P ph (log_entry r i) i) = wrapped_pool (release P ph r i)"
  by (simp add: sweep_def)

lemma step_isolation:
  assumes wf: "sto_wf r" and st: "sto_step b r e r'" and l: "live r k" and o: "owner_badge (active r k) \<noteq> b"
  shows "active r' k = active r k \<and>
     (\<forall>j. wc_id (wrapped_pool r j) \<in> set (wrapped_caps (active r k)) \<longrightarrow> wrapped_pool r' j = wrapped_pool r j)"
  using st
proof (cases rule: sto_step.cases)
  case (started i)
  with l begin_SomeD [OF started(2)] show ?thesis by auto
next
  case (abort i)
  with o have "i \<noteq> k" by auto
  with release_other [OF wf _ l, of i] abort show ?thesis unfolding abort(2) abort_release by simp
next
  case (commit i)
  with o have ik: "i \<noteq> k" by auto
  note r' = commit_step_eq [OF wf commit(2) commit(5)]
  from commit ik release_other [OF wf _ l, of i] show ?thesis
    unfolding r' by (simp add: release_log_entry_pool sweep_def)
next
  case (wrap i x m w)
  with o have ik: "i \<noteq> k" by auto
  have nz: "0 \<notin> set (wrapped_caps (active r k))"
    using wf l pool_wfD(6) [of r k 0] by (auto simp: sto_wf_def)
  from wrap(4) show ?thesis
    by (cases rule: wrap_cases) (use ik nz in auto)
qed (use o in \<open>auto simp: sto_registry_add_read_def sto_registry_add_write_def Let_def
       split: prod.splits\<close>)

subsection \<open>Dead capabilities stay dead\<close>

definition cap_dead :: "u64 \<Rightarrow> sto_registry \<Rightarrow> bool" where
  "cap_dead w r \<longleftrightarrow> w \<noteq> 0 \<and> unat w < unat (next_wrapped_id r) \<and> (\<forall>j. wc_id (wrapped_pool r j) \<noteq> w)"

lemma sweep_id: "wc_id (sweep P r i j) = 0 \<or> sweep P r i j = wrapped_pool r j"
proof -
  have "wc_id (fold (sweep_target P) ws pool j) = 0 \<or> fold (sweep_target P) ws pool j = pool j" for ws pool
  proof (induction ws arbitrary: pool)
    case Nil
    then show ?case by simp
  next
    case (Cons a ws)
    then show ?case using Cons [of "sweep_target P a pool"] by (auto simp: sweep_target_def split: if_splits)
  qed
  then show ?thesis by (simp add: sweep_def)
qed

lemma step_cap_dead:
  assumes "sto_wf r" and "ids_left r 1" and "sto_step b r e r'" and d: "cap_dead w r"
  shows "cap_dead w r'"
  using assms(3)
proof (cases rule: sto_step.cases)
  case (started i)
  with d begin_SomeD [OF started(2)] show ?thesis by (simp add: cap_dead_def)
next
  case (abort i)
  with d sweep_id [of _ r i] show ?thesis
    unfolding abort(2) abort_release by (metis cap_dead_def release_select(2,4))
next
  case (commit i)
  note r' = commit_step_eq [OF assms(1) commit(2) commit(5)]
  from d sweep_id [of _ "log_entry r i" i] show ?thesis
    unfolding r' by (metis cap_dead_def release_select(2,4) log_entry_select(2,4))
next
  case (wrap i x m u)
  have "unat (next_wrapped_id r + 1) = unat (next_wrapped_id r) + 1"
    using assms(2) by (intro unat_Suc_word) (simp add: ids_left_def)
  with wrap(4) d show ?thesis by (cases rule: wrap_cases) (auto simp: cap_dead_def)
qed (use d in \<open>auto simp: cap_dead_def sto_registry_add_read_def sto_registry_add_write_def Let_def
       split: prod.splits\<close>)

lemma serve_cap_dead:
  "sto_wf r \<Longrightarrow> ids_left r (length ms) \<Longrightarrow> cap_dead w r \<Longrightarrow> cap_dead w (snd (sto_serve r ms))"
proof (induction ms arbitrary: r)
  case Nil
  then show ?case by simp
next
  case (Cons m ms)
  obtain e where st: "sto_step (msg_badge m) r e (snd (sto_dispatch r m))" using dispatch_step by blast
  have one: "ids_left r 1" using Cons.prems(2) by (simp add: ids_left_def)
  show ?case unfolding sto_serve_Cons
    using Cons.IH step_wf [OF Cons.prems(1) one st] step_ids [OF st] Cons.prems
      step_cap_dead [OF Cons.prems(1) one st] by simp
qed

lemma abort_cap_dead:
  assumes "sto_wf r" and "phase (active r i) = STO_PHASE_ACTIVE" and "w \<in> set (wrapped_caps (active r i))"
  shows "cap_dead w (sto_registry_abort r i)"
proof -
  have wf: "pool_wf r" and l: "live r i" using assms by (simp_all add: sto_wf_def)
  from pool_wfD(6) [OF wf l assms(3)] show ?thesis
    using assms(3) by (auto simp: cap_dead_def abort_release sweep_eq [OF wf l])
qed

subsection \<open>Who may invoke\<close>

lemma invocable_iff:
  assumes "sto_wf r" and "wc_id (wrapped_pool r j) \<noteq> 0" and "live r i"
    and "tx_id (active r i) = wc_tx_id (wrapped_pool r j)"
  shows "sto_registry_wrapped_invocable r j \<longleftrightarrow>
     (wc_mode (wrapped_pool r j) = STO_CAP_COMMIT_ONLY \<longrightarrow> phase (active r i) = STO_PHASE_COMMITTED)"
proof -
  have wf: "table_wf r" "pool_wf r" using assms(1) by (simp_all add: sto_wf_def)
  have "find_tx_by_id r (wc_tx_id (wrapped_pool r j)) = Some i"
    using find_tx_by_id_live [OF wf(1) assms(3)] assms(4) by simp
  moreover have "phase (active r i) = STO_PHASE_ACTIVE \<or> phase (active r i) = STO_PHASE_COMMITTED"
    using assms(3) table_wfD(3) [OF wf(1), of i] by (cases "phase (active r i)") (auto simp: tx_ok_def)
  ultimately show ?thesis
    using pool_wfD(4) [OF wf(2) assms(2)]
    by (cases "wc_mode (wrapped_pool r j)") (auto simp: sto_registry_wrapped_invocable_def Let_def)
qed

lemma invoke_dead: "cap_dead w r \<Longrightarrow> mr 0 = w \<Longrightarrow> handle_invoke r b mr = (reply_status STO_INVALID_TX, r)"
  by (auto simp: handle_invoke_def sto_registry_wrapped_find_def cap_dead_def first_idx_None_iff
      split: option.splits dest: first_idx_SomeD)

lemma invoke_live:
  assumes "sto_wf r" and "wc_id (wrapped_pool r j) = w" and "w \<noteq> 0" and "mr 0 = w"
  shows "handle_invoke r b mr =
    (if sto_registry_wrapped_invocable r j then (reply_status STO_OK, r)
     else (reply_status STO_INVALID_STATE, r))"
  using wrapped_find_iff [of r w j] assms by (simp add: handle_invoke_def sto_wf_def)

end
