(* ===== verification/StoRefinement.thy ===== *)
theory StoRefinement
  imports StoInvariant
begin

text \<open>
  What the transaction server promises, as an abstract machine: active transactions with
  their read and write sets and a history of committed transactions, with backward
  validation at commit. The server simulates it, message by message, with the label of each
  abstract step read off the message and the reply.
\<close>

subsection \<open>The specification: optimistic concurrency with backward validation\<close>

record occ_tx =
  o_owner :: u64
  o_start :: nat
  o_reads :: "u64 set"
  o_writes :: "u64 set"

record occ =
  o_txs :: "u64 \<rightharpoonup> occ_tx"
  o_hist :: "occ_tx list"

datatype occ_label = Skip | Begin u64 | ReadObj u64 u64 | WriteObj u64 u64 | Conflict u64 | Rollback u64 | Commit u64

inductive occ_step :: "u64 \<Rightarrow> occ \<Rightarrow> occ_label \<Rightarrow> occ \<Rightarrow> bool" for b where
  skip: "occ_step b s Skip s"
| start: "o_txs s t = None \<Longrightarrow>
     occ_step b s (Begin t) (s\<lparr>o_txs := (o_txs s)(t \<mapsto> \<lparr>o_owner = b, o_start = length (o_hist s),
                                                      o_reads = {}, o_writes = {}\<rparr>)\<rparr>)"
| get: "o_txs s t = Some x \<Longrightarrow> o_owner x = b \<Longrightarrow>
     occ_step b s (ReadObj t obj) (s\<lparr>o_txs := (o_txs s)(t \<mapsto> x\<lparr>o_reads := insert obj (o_reads x)\<rparr>)\<rparr>)"
| put: "o_txs s t = Some x \<Longrightarrow> o_owner x = b \<Longrightarrow>
     occ_step b s (WriteObj t obj) (s\<lparr>o_txs := (o_txs s)(t \<mapsto> x\<lparr>o_writes := insert obj (o_writes x)\<rparr>)\<rparr>)"
| conflict: "o_txs s t = Some x \<Longrightarrow> o_owner x = b \<Longrightarrow>
     occ_step b s (Conflict t) (s\<lparr>o_txs := (o_txs s)(t := None)\<rparr>)"
| rollback: "o_txs s t = Some x \<Longrightarrow> o_owner x = b \<Longrightarrow>
     occ_step b s (Rollback t) (s\<lparr>o_txs := (o_txs s)(t := None)\<rparr>)"
| no_rollback: "(\<And>x. o_txs s t = Some x \<Longrightarrow> o_owner x \<noteq> b) \<Longrightarrow> occ_step b s (Rollback t) s"
| commit: "o_txs s t = Some x \<Longrightarrow> o_owner x = b \<Longrightarrow>
     (\<forall>y \<in> set (drop (o_start x) (o_hist s)). o_reads x \<inter> o_writes y = {}) \<Longrightarrow>
     occ_step b s (Commit t) \<lparr>o_txs = (o_txs s)(t := None), o_hist = o_hist s @ [x]\<rparr>"

primrec occ_run :: "occ \<Rightarrow> (u64 \<times> occ_label) list \<Rightarrow> occ \<Rightarrow> bool" where
  "occ_run s [] s' \<longleftrightarrow> s' = s"
| "occ_run s (l # ls) s' \<longleftrightarrow> (\<exists>s1. occ_step (fst l) s (snd l) s1 \<and> occ_run s1 ls s')"

definition occ_init :: occ where
  "occ_init = \<lparr>o_txs = (\<lambda>_. None), o_hist = []\<rparr>"

text \<open>
  The history is serialisable in commit order: what a committed transaction read was not
  written by any transaction that committed between its start and its commit.
\<close>

definition serial :: "occ_tx list \<Rightarrow> bool" where
  "serial h \<longleftrightarrow> (\<forall>i < length h. o_start (h ! i) \<le> i \<and>
     (\<forall>j. o_start (h ! i) \<le> j \<and> j < i \<longrightarrow> o_reads (h ! i) \<inter> o_writes (h ! j) = {}))"

definition occ_ok :: "occ \<Rightarrow> bool" where
  "occ_ok s \<longleftrightarrow> serial (o_hist s) \<and> (\<forall>t x. o_txs s t = Some x \<longrightarrow> o_start x \<le> length (o_hist s))"

lemma serial_snoc:
  assumes "serial h" and "o_start x \<le> length h"
    and "\<forall>y \<in> set (drop (o_start x) h). o_reads x \<inter> o_writes y = {}"
  shows "serial (h @ [x])"
proof -
  have "o_reads x \<inter> o_writes (h ! j) = {}" if "o_start x \<le> j" "j < length h" for j
  proof -
    have "h ! j = drop (o_start x) h ! (j - o_start x)" using that by simp
    then have "h ! j \<in> set (drop (o_start x) h)" using that
      by (metis diff_less_mono length_drop nth_mem)
    with assms(3) show ?thesis by blast
  qed
  with assms(1,2) show ?thesis by (auto simp: serial_def nth_append less_Suc_eq)
qed

lemma occ_step_ok: "occ_step b s l s' \<Longrightarrow> occ_ok s \<Longrightarrow> occ_ok s'"
proof (induction rule: occ_step.induct)
  case (commit s t x)
  then show ?case using serial_snoc [of "o_hist s" x]
    by (auto simp: occ_ok_def le_SucI)
qed (auto simp: occ_ok_def)

lemma occ_run_ok: "occ_run s ls s' \<Longrightarrow> occ_ok s \<Longrightarrow> occ_ok s'"
  by (induction ls arbitrary: s) (auto dest: occ_step_ok)

lemma occ_init_ok: "occ_ok occ_init"
  by (simp add: occ_ok_def occ_init_def serial_def)

subsection \<open>What a client observes\<close>

definition occ_label :: "sto_msg \<Rightarrow> sto_reply \<Rightarrow> occ_label" where
  "occ_label m rep =
     (let op = msg_label m; t = msg_mrs m 0; x = msg_mrs m 1 in
      if op = STO_OP_BEGIN then (case rep of Some [t] \<Rightarrow> if t = 0 then Skip else Begin t | _ \<Rightarrow> Skip)
      else if op = STO_OP_READ \<and> rep = reply_status STO_OK then ReadObj t x
      else if op = STO_OP_STAGE \<and> rep = reply_status STO_OK then WriteObj t x
      else if op = STO_OP_COMMIT \<and> rep = reply_status STO_OK then Commit t
      else if op = STO_OP_COMMIT \<and> rep = reply_status STO_CONFLICT then Conflict t
      else if op = STO_OP_ROLLBACK then Rollback t
      else Skip)"

definition tx_view :: "sto_transaction \<Rightarrow> nat \<Rightarrow> occ_tx" where
  "tx_view tx n = \<lparr>o_owner = owner_badge tx, o_start = n, o_reads = set (read_set tx),
                   o_writes = set (write_set tx)\<rparr>"

definition sim :: "sto_registry \<Rightarrow> occ \<Rightarrow> bool" where
  "sim r s \<longleftrightarrow>
     (\<forall>t x. o_txs s t = Some x \<longrightarrow>
        (\<exists>i. phase (active r i) = STO_PHASE_ACTIVE \<and> tx_id (active r i) = t)) \<and>
     (\<forall>i. phase (active r i) = STO_PHASE_ACTIVE \<longrightarrow>
        (\<exists>n. o_txs s (tx_id (active r i)) = Some (tx_view (active r i) n) \<and>
             o_writes ` set (drop n (o_hist s)) \<subseteq> (set \<circ> ce_write_set) ` set (commit_log r)))"

lemma reply_status_inject [simp]: "reply_status a = reply_status c \<longleftrightarrow> a = c"
  by (cases a; cases c) (simp_all add: reply_status_def)

subsection \<open>The simulation\<close>

lemma simD:
  assumes "sim r s"
  shows "o_txs s t = Some x \<Longrightarrow> \<exists>i. phase (active r i) = STO_PHASE_ACTIVE \<and> tx_id (active r i) = t"
    and "phase (active r i) = STO_PHASE_ACTIVE \<Longrightarrow>
        \<exists>n. o_txs s (tx_id (active r i)) = Some (tx_view (active r i) n) \<and>
             o_writes ` set (drop n (o_hist s)) \<subseteq> (set \<circ> ce_write_set) ` set (commit_log r)"
  using assms unfolding sim_def by blast+

lemma sim_cong:
  assumes "sim r s" and "commit_log r' = commit_log r"
    and "\<And>i. phase (active r' i) = phase (active r i)" and "\<And>i. tx_id (active r' i) = tx_id (active r i)"
    and "\<And>i n. tx_view (active r' i) n = tx_view (active r i) n"
  shows "sim r' s"
  using assms(1) by (simp add: sim_def assms(2-))

lemma active_id_unique:
  assumes "sto_wf r" and "phase (active r i) = STO_PHASE_ACTIVE" and "tx_id (active r k) = tx_id (active r i)"
  shows "k = i"
  using assms table_wfD(5,6) [of r i] unfolding sto_wf_def
  by (metis sto_phase.distinct(1))

lemma sim_update:
  assumes wf: "sto_wf r" and sim: "sim r s" and i: "phase (active r i) = STO_PHASE_ACTIVE"
    and r': "active r' = (active r)(i := tx)" "commit_log r' = commit_log r"
    and tx: "phase tx = STO_PHASE_ACTIVE" "tx_id tx = tx_id (active r i)"
    and n: "o_txs s (tx_id (active r i)) = Some (tx_view (active r i) n)"
  shows "sim r' (s\<lparr>o_txs := (o_txs s)(tx_id (active r i) \<mapsto> tx_view tx n)\<rparr>)"
  unfolding sim_def
proof (intro conjI allI impI)
  fix t x
  assume "o_txs (s\<lparr>o_txs := (o_txs s)(tx_id (active r i) \<mapsto> tx_view tx n)\<rparr>) t = Some x"
  with simD(1) [OF sim, of t] tx i r'
  show "\<exists>k. phase (active r' k) = STO_PHASE_ACTIVE \<and> tx_id (active r' k) = t"
    by (cases "t = tx_id (active r i)") (auto split: if_splits)
next
  fix k
  assume a: "phase (active r' k) = STO_PHASE_ACTIVE"
  show "\<exists>n'. o_txs (s\<lparr>o_txs := (o_txs s)(tx_id (active r i) \<mapsto> tx_view tx n)\<rparr>) (tx_id (active r' k))
              = Some (tx_view (active r' k) n') \<and>
            o_writes ` set (drop n' (o_hist (s\<lparr>o_txs := (o_txs s)(tx_id (active r i) \<mapsto> tx_view tx n)\<rparr>)))
              \<subseteq> (set \<circ> ce_write_set) ` set (commit_log r')"
  proof (cases "k = i")
    case True
    from simD(2) [OF sim i] n obtain m where
      m: "tx_view (active r i) m = tx_view (active r i) n"
        "o_writes ` set (drop m (o_hist s)) \<subseteq> (set \<circ> ce_write_set) ` set (commit_log r)" by auto
    from m(1) have "m = n" by (simp add: tx_view_def)
    with m True r' tx show ?thesis by auto
  next
    case False
    then have "tx_id (active r k) \<noteq> tx_id (active r i)" using active_id_unique [OF wf i] by blast
    with False a r' simD(2) [OF sim, of k] show ?thesis by auto
  qed
qed

lemma sim_remove:
  assumes wf: "sto_wf r" and sim: "sim r s" and i: "phase (active r i) = STO_PHASE_ACTIVE"
    and r': "active r' = (active r)(i := tx)" "phase tx \<noteq> STO_PHASE_ACTIVE"
    and log: "\<And>k. phase (active r' k) = STO_PHASE_ACTIVE \<Longrightarrow>
       (set \<circ> ce_write_set) ` set (commit_log r) \<union> o_writes ` set h \<subseteq> (set \<circ> ce_write_set) ` set (commit_log r')"
    and s': "o_txs s' = (o_txs s)(tx_id (active r i) := None)" "o_hist s' = o_hist s @ h"
  shows "sim r' s'"
  unfolding sim_def
proof (intro conjI allI impI)
  fix t x
  assume "o_txs s' t = Some x"
  with s'(1) have "o_txs s t = Some x" and t: "t \<noteq> tx_id (active r i)" by (auto split: if_splits)
  from simD(1) [OF sim this(1)] obtain k where
    k: "phase (active r k) = STO_PHASE_ACTIVE" "tx_id (active r k) = t" by blast
  with t have "k \<noteq> i" by auto
  with k r'(1) show "\<exists>k. phase (active r' k) = STO_PHASE_ACTIVE \<and> tx_id (active r' k) = t"
    by (intro exI [of _ k]) simp
next
  fix k
  assume a: "phase (active r' k) = STO_PHASE_ACTIVE"
  with r' have ki: "k \<noteq> i" by auto
  with a r'(1) have k: "active r' k = active r k" "phase (active r k) = STO_PHASE_ACTIVE" by simp_all
  from ki have id: "tx_id (active r k) \<noteq> tx_id (active r i)" using active_id_unique [OF wf i] by blast
  from simD(2) [OF sim k(2)] obtain n where
    n: "o_txs s (tx_id (active r k)) = Some (tx_view (active r k) n)"
      "o_writes ` set (drop n (o_hist s)) \<subseteq> (set \<circ> ce_write_set) ` set (commit_log r)" by blast
  have "set (drop n (o_hist s @ h)) \<subseteq> set (drop n (o_hist s)) \<union> set h"
    using set_drop_subset [of _ h] by auto
  then have "o_writes ` set (drop n (o_hist s')) \<subseteq> o_writes ` set (drop n (o_hist s)) \<union> o_writes ` set h"
    unfolding s'(2) image_Un [symmetric] by (rule image_mono)
  also have "\<dots> \<subseteq> (set \<circ> ce_write_set) ` set (commit_log r')"
    by (rule order_trans [OF Un_mono [OF n(2) order_refl] log [OF a]])
  finally have "o_writes ` set (drop n (o_hist s')) \<subseteq> (set \<circ> ce_write_set) ` set (commit_log r')" .
  with n(1) id s'(1) k(1)
  show "\<exists>n. o_txs s' (tx_id (active r' k)) = Some (tx_view (active r' k) n) \<and>
            o_writes ` set (drop n (o_hist s')) \<subseteq> (set \<circ> ce_write_set) ` set (commit_log r')"
    by auto
qed
lemma sim_begin:
  assumes wf: "sto_wf r" and sim: "sim r s" and b: "sto_registry_begin r b = Some (i, r')"
  shows "o_txs s (next_tx_id r) = None"
    and "sim r' (s\<lparr>o_txs := (o_txs s)(next_tx_id r \<mapsto> \<lparr>o_owner = b, o_start = length (o_hist s),
                                                      o_reads = {}, o_writes = {}\<rparr>)\<rparr>)" (is "sim r' ?s")
proof -
  note B = begin_SomeD [OF b]
  have fresh: "tx_id (active r k) \<noteq> next_tx_id r" for k
    using table_wfD(4) [of r k] wf by (auto simp: sto_wf_def)
  then show new: "o_txs s (next_tx_id r) = None" using simD(1) [OF sim] by (meson not_None_eq)
  show "sim r' ?s" unfolding sim_def
  proof (intro conjI allI impI)
    fix t x
    assume t: "o_txs ?s t = Some x"
    show "\<exists>k. phase (active r' k) = STO_PHASE_ACTIVE \<and> tx_id (active r' k) = t"
    proof (cases "t = next_tx_id r")
      case True
      then show ?thesis using B(3) by (intro exI [of _ i]) simp
    next
      case False
      with t simD(1) [OF sim, of t x] obtain k where
        k: "phase (active r k) = STO_PHASE_ACTIVE" "tx_id (active r k) = t" by auto
      with B(2) have "k \<noteq> i" by auto
      with k B(3) show ?thesis by (intro exI [of _ k]) simp
    qed
  next
    fix k
    assume a: "phase (active r' k) = STO_PHASE_ACTIVE"
    show "\<exists>n. o_txs ?s (tx_id (active r' k)) = Some (tx_view (active r' k) n) \<and>
       o_writes ` set (drop n (o_hist ?s)) \<subseteq> (set \<circ> ce_write_set) ` set (commit_log r')"
    proof (cases "k = i")
      case True
      then show ?thesis using B(3)
        by (intro exI [of _ "length (o_hist s)"]) (simp add: tx_view_def zero_tx_def)
    next
      case False
      with a B(3) have "phase (active r k) = STO_PHASE_ACTIVE" "active r' k = active r k" by simp_all
      with simD(2) [OF sim this(1)] fresh [of k] B(7) show ?thesis by simp
    qed
  qed
qed

lemma skip_sim: "sim r s \<Longrightarrow> \<exists>s'. occ_step b s Skip s' \<and> sim r s'"
  using occ_step.skip by blast

lemma begin_sim:
  assumes wf: "sto_wf r" and sim: "sim r s" and h: "handle_begin r b = (rep, r')"
  shows "\<exists>s'. occ_step b s (case rep of Some [t] \<Rightarrow> if t = 0 then Skip else Begin t | _ \<Rightarrow> Skip) s' \<and> sim r' s'"
proof (cases "sto_registry_begin r b")
  case None
  with h sim show ?thesis by (auto simp: handle_begin_def intro: skip_sim)
next
  case (Some p)
  obtain i r1 where p: "p = (i, r1)" by fastforce
  note b = Some [unfolded p]
  have "tx_id (active r1 i) = next_tx_id r" using begin_SomeD(3) [OF b] by simp
  moreover have "next_tx_id r \<noteq> 0" using table_wfD(4) [of r i] wf by (auto simp: sto_wf_def)
  ultimately show ?thesis
    using h b sim_begin [OF wf sim b] occ_step.start [of s "next_tx_id r" b]
    by (auto simp: handle_begin_def)
qed

lemma read_sim:
  assumes wf: "sto_wf r" and sim: "sim r s" and h: "handle_read r b mr = (rep, r')"
  shows "\<exists>s'. occ_step b s (if rep = reply_status STO_OK then ReadObj (mr 0) (mr 1) else Skip) s' \<and> sim r' s'"
proof (cases "sto_registry_find r (mr 0) b")
  case None
  with h sim show ?thesis by (auto simp: handle_read_def intro: skip_sim)
next
  case (Some i)
  note f = find_SomeD [OF Some]
  then have i: "phase (active r i) = STO_PHASE_ACTIVE" by simp
  obtain rc xs where a: "obj_set_add (read_set (active r i)) (mr 1) = (rc, xs)" by fastforce
  with h Some f have rep: "rep = reply_status rc"
    and r': "r' = set_tx i ((active r i)\<lparr>read_set := xs\<rparr>) r"
    by (auto simp: handle_read_def sto_registry_add_read_def)
  obtain n where n: "o_txs s (mr 0) = Some (tx_view (active r i) n)" using simD(2) [OF sim i] f by auto
  show ?thesis
  proof (cases "rc = STO_OK")
    case True
    let ?x = "tx_view (active r i) n"
    from True obj_set_add_set [OF a] have "tx_view ((active r i)\<lparr>read_set := xs\<rparr>) n = ?x\<lparr>o_reads := insert (mr 1) (o_reads ?x)\<rparr>"
      by (simp add: tx_view_def)
    moreover have "sim r' (s\<lparr>o_txs := (o_txs s)(tx_id (active r i) \<mapsto> tx_view ((active r i)\<lparr>read_set := xs\<rparr>) n)\<rparr>)"
      by (rule sim_update [OF wf sim i]) (use r' i n f in \<open>simp_all add: set_tx_def\<close>)
    moreover have "o_owner ?x = b" using f by (simp add: tx_view_def)
    ultimately show ?thesis using rep True f occ_step.get [OF n] by auto
  next
    case False
    with a have "xs = read_set (active r i)" by (auto simp: obj_set_add_def split: if_splits)
    then have "r' = r" using r' by (simp add: set_tx_def)
    with False rep sim show ?thesis by (auto intro: skip_sim)
  qed
qed

lemma stage_sim:
  assumes wf: "sto_wf r" and sim: "sim r s" and h: "handle_stage r b mr = (rep, r')"
  shows "\<exists>s'. occ_step b s (if rep = reply_status STO_OK then WriteObj (mr 0) (mr 1) else Skip) s' \<and> sim r' s'"
proof (cases "sto_registry_find r (mr 0) b")
  case None
  with h sim show ?thesis by (auto simp: handle_stage_def intro: skip_sim)
next
  case (Some i)
  note f = find_SomeD [OF Some]
  then have i: "phase (active r i) = STO_PHASE_ACTIVE" by simp
  obtain rc xs where a: "obj_set_add (write_set (active r i)) (mr 1) = (rc, xs)" by fastforce
  with h Some f have rep: "rep = reply_status rc"
    and r': "r' = set_tx i ((active r i)\<lparr>write_set := xs\<rparr>) r"
    by (auto simp: handle_stage_def sto_registry_add_write_def)
  obtain n where n: "o_txs s (mr 0) = Some (tx_view (active r i) n)" using simD(2) [OF sim i] f by auto
  show ?thesis
  proof (cases "rc = STO_OK")
    case True
    let ?x = "tx_view (active r i) n"
    from True obj_set_add_set [OF a] have "tx_view ((active r i)\<lparr>write_set := xs\<rparr>) n = ?x\<lparr>o_writes := insert (mr 1) (o_writes ?x)\<rparr>"
      by (simp add: tx_view_def)
    moreover have "sim r' (s\<lparr>o_txs := (o_txs s)(tx_id (active r i) \<mapsto> tx_view ((active r i)\<lparr>write_set := xs\<rparr>) n)\<rparr>)"
      by (rule sim_update [OF wf sim i]) (use r' i n f in \<open>simp_all add: set_tx_def\<close>)
    moreover have "o_owner ?x = b" using f by (simp add: tx_view_def)
    ultimately show ?thesis using rep True f occ_step.put [OF n] by auto
  next
    case False
    with a have "xs = write_set (active r i)" by (auto simp: obj_set_add_def split: if_splits)
    then have "r' = r" using r' by (simp add: set_tx_def)
    with False rep sim show ?thesis by (auto intro: skip_sim)
  qed
qed
lemma abort_sim:
  assumes wf: "sto_wf r" and sim: "sim r s" and i: "phase (active r i) = STO_PHASE_ACTIVE"
  shows "sim (sto_registry_abort r i) (s\<lparr>o_txs := (o_txs s)(tx_id (active r i) := None)\<rparr>)"
proof (rule sim_remove [OF wf sim i, where h = "[]"])
  show "active (sto_registry_abort r i) = (active r)(i := (active r i)\<lparr>phase := STO_PHASE_FREE\<rparr>)"
    by (simp add: abort_release)
next
  fix k
  assume a: "phase (active (sto_registry_abort r i) k) = STO_PHASE_ACTIVE"
  then have "k < STO_MAX_TX" using abort_wf [OF wf i] by (auto simp: sto_wf_def intro: table_wfD(7))
  from step_log_mono [OF wf sto_step.abort [OF i refl] this a]
  show "(set \<circ> ce_write_set) ` set (commit_log r) \<union> o_writes ` set [] \<subseteq>
    (set \<circ> ce_write_set) ` set (commit_log (sto_registry_abort r i))"
    by (simp add: image_mono)
qed simp_all

lemma commit_sim:
  assumes wf: "sto_wf r" and sim: "sim r s" and i: "phase (active r i) = STO_PHASE_ACTIVE"
    and c: "sto_registry_can_commit r i" "sto_registry_commit r i = (STO_OK, r')"
  shows "\<exists>s'. occ_step (owner_badge (active r i)) s (Commit (tx_id (active r i))) s' \<and> sim r' s'"
proof -
  obtain n where n: "o_txs s (tx_id (active r i)) = Some (tx_view (active r i) n)"
      "o_writes ` set (drop n (o_hist s)) \<subseteq> (set \<circ> ce_write_set) ` set (commit_log r)"
    using simD(2) [OF sim i] by blast
  let ?x = "tx_view (active r i) n"
  let ?s = "\<lparr>o_txs = (o_txs s)(tx_id (active r i) := None), o_hist = o_hist s @ [?x]\<rparr>"
  have "\<forall>y \<in> set (drop n (o_hist s)). set (read_set (active r i)) \<inter> o_writes y = {}"
    using n(2) c(1) unfolding can_commit_iff by fastforce
  then have "occ_step (owner_badge (active r i)) s (Commit (tx_id (active r i))) ?s"
    by (intro occ_step.commit n) (simp_all add: tx_view_def)
  moreover have "sim r' ?s"
  proof (rule sim_remove [OF wf sim i, where h = "[?x]"])
    note r' = commit_step_eq [OF wf i c(2)]
    show "active r' = (active r)(i := (active r i)\<lparr>phase := if keeps_slot r i then STO_PHASE_COMMITTED else STO_PHASE_FREE\<rparr>)"
      by (simp add: r')
    fix k
    assume a: "phase (active r' k) = STO_PHASE_ACTIVE"
    then have "k < STO_MAX_TX" using commit_OK_wf [OF wf i c(2)] by (auto simp: sto_wf_def intro: table_wfD(7))
    from release_log_active [OF this a [unfolded r']]
    show "(set \<circ> ce_write_set) ` set (commit_log r) \<union> o_writes ` set [?x] \<subseteq>
      (set \<circ> ce_write_set) ` set (commit_log r')"
      unfolding r' by (auto simp: tx_view_def)
  qed simp_all
  ultimately show ?thesis by blast
qed

lemma handle_commit_sim:
  assumes wf: "sto_wf r" and sim: "sim r s" and h: "handle_commit r b mr = (rep, r')"
  shows "\<exists>s'. occ_step b s (if rep = reply_status STO_OK then Commit (mr 0)
           else if rep = reply_status STO_CONFLICT then Conflict (mr 0) else Skip) s' \<and> sim r' s'"
proof (cases "sto_registry_find r (mr 0) b")
  case None
  with h sim show ?thesis by (auto simp: handle_commit_def intro: skip_sim)
next
  case (Some i)
  note f = find_SomeD [OF Some]
  then have i: "phase (active r i) = STO_PHASE_ACTIVE" by simp
  obtain n where n: "o_txs s (mr 0) = Some (tx_view (active r i) n)" using simD(2) [OF sim i] f by auto
  have o: "o_owner (tx_view (active r i) n) = b" using f by (simp add: tx_view_def)
  obtain rc r1 where c: "sto_registry_commit r i = (rc, r1)" by fastforce
  then have rc: "rc = STO_OK \<or> rc = STO_QUOTA" by (auto simp: sto_registry_commit_def Let_def split: if_splits)
  show ?thesis
  proof (cases "sto_registry_can_commit r i")
    case False
    with h Some i have "rep = reply_status STO_CONFLICT" "r' = sto_registry_abort r i"
      by (auto simp: handle_commit_def)
    with occ_step.conflict [OF n o] abort_sim [OF wf sim i] f show ?thesis by auto
  next
    case True
    with h Some i c have rep: "rep = reply_status rc" "r' = r1" by (auto simp: handle_commit_def)
    show ?thesis
    proof (cases "rc = STO_OK")
      case T: True
      with commit_sim [OF wf sim i True, of r'] c rep f show ?thesis by simp
    next
      case False
      with rc rep commit_fails [OF c] sim show ?thesis by (auto intro: skip_sim)
    qed
  qed
qed

lemma rollback_sim:
  assumes wf: "sto_wf r" and sim: "sim r s" and h: "handle_rollback r b mr = (rep, r')"
  shows "\<exists>s'. occ_step b s (Rollback (mr 0)) s' \<and> sim r' s'"
proof (cases "sto_registry_find r (mr 0) b")
  case None
  have "o_owner x \<noteq> b" if "o_txs s (mr 0) = Some x" for x
  proof -
    from simD(1) [OF sim that] obtain i where
      i: "phase (active r i) = STO_PHASE_ACTIVE" "tx_id (active r i) = mr 0" by blast
    from simD(2) [OF sim i(1)] that i(2) have "o_owner x = owner_badge (active r i)"
      by (auto simp: tx_view_def)
    with find_complete [of r i] i wf None show ?thesis by (auto simp: sto_wf_def)
  qed
  from occ_step.no_rollback [OF this] None h sim show ?thesis by (auto simp: handle_rollback_def)
next
  case (Some i)
  note f = find_SomeD [OF Some]
  then have i: "phase (active r i) = STO_PHASE_ACTIVE" by simp
  obtain n where n: "o_txs s (mr 0) = Some (tx_view (active r i) n)" using simD(2) [OF sim i] f by auto
  have o: "o_owner (tx_view (active r i) n) = b" using f by (simp add: tx_view_def)
  from h Some i have "r' = sto_registry_abort r i" by (auto simp: handle_rollback_def)
  with occ_step.rollback [OF n o] abort_sim [OF wf sim i] f show ?thesis by auto
qed

lemma wrap_sim:
  assumes sim: "sim r s" and h: "handle_wrap r b mr = (rep, r')"
  shows "sim r' s"
proof -
  have w: "sim (snd (sto_registry_wrap r i x m)) s" for i x m
  proof (cases rule: wrap_cases [OF surjective_pairing [of "sto_registry_wrap r i x m"]])
    case 1
    with sim show ?thesis by simp
  next
    case (2 j)
    then show ?thesis by (intro sim_cong [OF sim]) (simp_all add: tx_view_def)
  qed
  from h have "r' = snd (handle_wrap r b mr)" by simp
  with sim w show ?thesis by (auto simp: handle_wrap_def Let_def split_beta split: option.splits)
qed

lemma dispatch_sim:
  assumes "sto_wf r" and "sim r s" and "sto_dispatch r m = (rep, r')"
  shows "\<exists>s'. occ_step (msg_badge m) s (occ_label m rep) s' \<and> sim r' s'"
proof -
  let ?P = "\<lambda>l. \<exists>s'. occ_step (msg_badge m) s l s' \<and> sim r' s'"
  have inv: "handle_invoke r b mr = (rep, r') \<Longrightarrow> r' = r" for b mr
    using handle_invoke_step [of r b mr] by simp
  consider "msg_label m = STO_OP_BEGIN" | "msg_label m = STO_OP_READ" | "msg_label m = STO_OP_STAGE"
    | "msg_label m = STO_OP_COMMIT" | "msg_label m = STO_OP_ROLLBACK" | "msg_label m = STO_OP_WRAP"
    | "msg_label m \<notin> {STO_OP_BEGIN, STO_OP_READ, STO_OP_STAGE, STO_OP_COMMIT, STO_OP_ROLLBACK, STO_OP_WRAP}"
    by blast
  then show ?thesis
  proof cases
    case 1
    then show ?thesis using begin_sim [OF assms(1,2), of "msg_badge m" rep r'] assms(3) by (simp add: sto_dispatch_def occ_label_def Let_def)
  next
    case 2
    then show ?thesis using read_sim [OF assms(1,2), of "msg_badge m" "msg_mrs m" rep r'] assms(3)
      by (auto simp add: sto_dispatch_def occ_label_def Let_def limits split: if_splits)
  next
    case 3
    then show ?thesis using stage_sim [OF assms(1,2), of "msg_badge m" "msg_mrs m" rep r'] assms(3)
      by (auto simp add: sto_dispatch_def occ_label_def Let_def limits split: if_splits)
  next
    case 4
    then show ?thesis using handle_commit_sim [OF assms(1,2), of "msg_badge m" "msg_mrs m" rep r'] assms(3)
      by (auto simp add: sto_dispatch_def occ_label_def Let_def limits split: if_splits)
  next
    case 5
    then show ?thesis using rollback_sim [OF assms(1,2), of "msg_badge m" "msg_mrs m" rep r'] assms(3)
      by (auto simp add: sto_dispatch_def occ_label_def Let_def limits split: if_splits)
  next
    case 6
    then show ?thesis using skip_sim [OF wrap_sim [OF assms(2), of "msg_badge m" "msg_mrs m" rep r']] assms(3)
      by (auto simp add: sto_dispatch_def occ_label_def Let_def limits split: if_splits)
  next
    case 7
    then have "occ_label m rep = Skip" by (simp add: occ_label_def Let_def)
    moreover have "r' = r" using assms(3) 7 inv by (auto simp: sto_dispatch_def Let_def split: if_splits)
    ultimately show ?thesis using skip_sim [OF assms(2)] by simp
  qed
qed

lemma serve_sim:
  "sto_wf r \<Longrightarrow> ids_left r (length ms) \<Longrightarrow> sim r s \<Longrightarrow> sto_serve r ms = (reps, r') \<Longrightarrow>
     \<exists>s'. occ_run s (map2 (\<lambda>m rep. (msg_badge m, occ_label m rep)) ms reps) s' \<and> sim r' s'"
proof (induction ms arbitrary: r s reps)
  case Nil
  then show ?case by simp
next
  case (Cons m ms)
  obtain rep r1 where d: "sto_dispatch r m = (rep, r1)" by fastforce
  obtain reps' r2 where v: "sto_serve r1 ms = (reps', r2)" by fastforce
  have eq: "reps = rep # reps'" "r2 = r'" using Cons.prems(4) d v by auto
  obtain e where st: "sto_step (msg_badge m) r e r1" using dispatch_step [of m r] d by auto
  have one: "ids_left r 1" using Cons.prems(2) by (simp add: ids_left_def)
  obtain s1 where s1: "occ_step (msg_badge m) s (occ_label m rep) s1" "sim r1 s1"
    using dispatch_sim [OF Cons.prems(1,3) d] by blast
  from Cons.IH [OF step_wf [OF Cons.prems(1) one st] step_ids [OF st] s1(2)] Cons.prems(2) v eq(2)
  obtain s' where "occ_run s1 (map2 (\<lambda>m rep. (msg_badge m, occ_label m rep)) ms reps') s'" "sim r' s'"
    by auto
  with s1(1) eq(1) show ?case by auto
qed

lemma sim_init: "sim sto_registry_init occ_init"
  by (simp add: sim_def sto_registry_init_def occ_init_def zero_tx_def)

end
