(* ===== verification/StoSafety.thy ===== *)
theory StoSafety
  imports StoRefinement
begin

text \<open>
  The guarantees of the transaction server (\<^verbatim>\<open>src/sto/ipc.c\<close> over
  \<^verbatim>\<open>src/sto/registry.c\<close>), over arbitrary sequences of requests by arbitrary clients:
  the registry invariant, refinement of optimistic concurrency control, absence of lost
  updates, isolation by badge, and the life cycle of wrapped capabilities.
\<close>

subsection \<open>Slots that stay committed, and the slot pool\<close>

lemma step_committed:
  assumes "sto_wf r" and "sto_step b r e r'" and "phase (active r k) = STO_PHASE_COMMITTED"
  shows "active r' k = active r k"
  using assms(2)
proof (cases rule: sto_step.cases)
  case (started i)
  with assms(3) begin_SomeD(2,3) [OF started(2)] show ?thesis by auto
next
  case (commit i)
  with assms(3) show ?thesis by (auto simp: commit_step_eq [OF assms(1) commit(2) commit(5)])
qed (use assms(3) in \<open>auto simp: abort_release sto_registry_add_read_def sto_registry_add_write_def
       Let_def split: prod.splits elim!: wrap_cases\<close>)

lemma serve_committed:
  "sto_wf r \<Longrightarrow> ids_left r (length ms) \<Longrightarrow> phase (active r k) = STO_PHASE_COMMITTED \<Longrightarrow>
     active (snd (sto_serve r ms)) k = active r k"
proof (induction ms arbitrary: r)
  case Nil
  then show ?case by simp
next
  case (Cons m ms)
  obtain e where st: "sto_step (msg_badge m) r e (snd (sto_dispatch r m))" using dispatch_step by blast
  have one: "ids_left r 1" using Cons.prems(2) by (simp add: ids_left_def)
  note eq = step_committed [OF Cons.prems(1) st Cons.prems(3)]
  show ?case unfolding sto_serve_Cons
    using Cons.IH [OF step_wf [OF Cons.prems(1) one st] step_ids [OF st]] Cons.prems eq by simp
qed

interpretation sto_txs: slot_pool 0 STO_MAX_TX "\<lambda>_. True" "\<lambda>r. {i. live r i}" "\<lambda>r. sto_registry_begin r b"
  for b
proof unfold_locales
  fix r i r'
  assume "sto_registry_begin r b = Some (i, r')"
  note B = begin_SomeD [OF this]
  show "i \<in> {0..<STO_MAX_TX} - {i. live r i}" using B(1,2) by simp
  show "{i. live r' i} = insert i {i. live r i}" using B(3) by auto
next
  fix r
  show "(sto_registry_begin r b = None) = ({0..<STO_MAX_TX} \<subseteq> {i. live r i})"
    by (auto simp: sto_registry_begin_def first_idx_None_iff split: option.splits dest!: first_idx_SomeD)
qed simp

lemma commit_reply_effect:
  assumes wf: "sto_wf r" and h: "handle_commit r b mr = (reply_status STO_OK, r')"
  obtains i where "sto_registry_find r (mr 0) b = Some i" and "phase (active r i) = STO_PHASE_ACTIVE"
    and "sto_wf r'"
    and "r' = release (\<lambda>w. wc_mode w = STO_CAP_ACTIVE_OK)
                (if keeps_slot r i then STO_PHASE_COMMITTED else STO_PHASE_FREE) (log_entry r i) i"
proof -
  from commit_reply_OK [OF h] obtain i where i: "sto_registry_find r (mr 0) b = Some i"
    "sto_registry_commit r i = (STO_OK, r')" by blast
  note f = find_SomeD [OF i(1)]
  from that i f commit_OK_wf [OF wf _ i(2)] commit_step_eq [OF wf _ i(2)] show ?thesis by blast
qed

subsection \<open>A concrete registry\<close>

text \<open>
  Two clients: badge 7 (transaction 1, which wraps object 42 with both modes and stages
  object 6) and badge 9 (transaction 2, which has read object 5).
\<close>

definition sto_request :: "u64 \<Rightarrow> u64 \<Rightarrow> u64 list \<Rightarrow> sto_msg" where
  "sto_request op badge mrs =
     \<lparr>msg_label = op, msg_badge = badge, msg_mrs = (\<lambda>n. if n < length mrs then mrs ! n else 0)\<rparr>"

definition two_clients :: sto_registry where
  "two_clients = snd (sto_serve sto_registry_init
     [sto_request STO_OP_BEGIN 7 [], sto_request STO_OP_BEGIN 9 [], sto_request STO_OP_READ 9 [2, 5],
      sto_request STO_OP_WRAP 7 [1, 42, 0], sto_request STO_OP_WRAP 7 [1, 42, 1],
      sto_request STO_OP_STAGE 7 [1, 6]])"

definition two_clients_committed :: sto_registry where
  "two_clients_committed = snd (handle_commit two_clients 7 (\<lambda>_. 1))"

lemma two_clients_wf: "sto_wf two_clients" "n < 2 ^ 64 - 7 \<Longrightarrow> ids_left two_clients n"
  using serve_wf_ids [OF sto_wf_init ids_left_init, of "[sto_request STO_OP_BEGIN 7 [],
    sto_request STO_OP_BEGIN 9 [], sto_request STO_OP_READ 9 [2, 5], sto_request STO_OP_WRAP 7 [1, 42, 0],
    sto_request STO_OP_WRAP 7 [1, 42, 1], sto_request STO_OP_STAGE 7 [1, 6]]" n]
    serve_wf_ids [OF sto_wf_init ids_left_init, of "[sto_request STO_OP_BEGIN 7 [],
    sto_request STO_OP_BEGIN 9 [], sto_request STO_OP_READ 9 [2, 5], sto_request STO_OP_WRAP 7 [1, 42, 0],
    sto_request STO_OP_WRAP 7 [1, 42, 1], sto_request STO_OP_STAGE 7 [1, 6]]" 0]
  by (simp_all add: two_clients_def)

lemma two_clients_commit:
  "handle_commit two_clients 7 (\<lambda>_. 1) = (reply_status STO_OK, two_clients_committed)"
  "sto_registry_find two_clients 1 7 = Some 0" "sto_registry_find two_clients 2 9 = Some 1"
proof -
  have "fst (handle_commit two_clients 7 (\<lambda>_. 1)) = reply_status STO_OK" by code_simp
  then show "handle_commit two_clients 7 (\<lambda>_. 1) = (reply_status STO_OK, two_clients_committed)"
    by (simp add: two_clients_committed_def prod_eq_iff)
qed (code_simp, code_simp)

lemma two_clients_committed_wf: "sto_wf two_clients_committed" "n < 2 ^ 64 - 8 \<Longrightarrow> ids_left two_clients_committed n"
proof -
  obtain e where st: "sto_step 7 two_clients e two_clients_committed"
    using handle_commit_step [of 7 two_clients "\<lambda>_. 1"] two_clients_commit(1) by auto
  show "sto_wf two_clients_committed" by (rule step_wf [OF two_clients_wf st]) simp
  show "n < 2 ^ 64 - 8 \<Longrightarrow> ids_left two_clients_committed n"
    by (rule step_ids [OF st]) (simp add: two_clients_wf)
qed


subsection \<open>Properties\<close>

text \<open>
  C1 (registry invariant). After any sequence of fewer than \<open>2^64 - 1\<close> requests, with any
  badges, labels and message registers, served from \<open>sto_registry_init\<close>, the registry is well
  formed: live transactions lie below \<open>active_count\<close>, have unique non-zero ids below
  \<open>next_tx_id\<close> and duplicate-free, bounded object sets, the commit log is bounded and empty when
  no transaction is active, and each wrapped capability in the pool has a unique id and belongs
  to exactly one live transaction that lists it.
\<close>

theorem sto_serve_invariant:
  assumes "length ms < 2 ^ 64 - 1"
  shows "sto_wf (snd (sto_serve sto_registry_init ms))"
  using serve_wf_ids [OF sto_wf_init, of ms 0] ids_left_init [OF assms] by simp

theorem sto_serve_invariant_witness:
  "length [sto_request STO_OP_BEGIN 7 [], sto_request STO_OP_STAGE 7 [1, 42]] < 2 ^ 64 - 1 \<and>
   sto_wf (snd (sto_serve sto_registry_init
     [sto_request STO_OP_BEGIN 7 [], sto_request STO_OP_STAGE 7 [1, 42]]))"
  using sto_serve_invariant [of "[sto_request STO_OP_BEGIN 7 [], sto_request STO_OP_STAGE 7 [1, 42]]"]
  by simp

text \<open>
  C2 (refinement, serialisability). Every run of the server is a run of the abstract
  optimistic-concurrency machine whose labels are what the clients observe (message and reply):
  in particular each commit answered \<open>STO_OK\<close> is an abstract commit, whose transaction read
  nothing written by a transaction committed since it began, so the history of committed
  transactions is serialisable in commit order.
\<close>

theorem sto_refines_occ:
  assumes "length ms < 2 ^ 64 - 1" and "sto_serve sto_registry_init ms = (reps, r)"
  shows "\<exists>s. occ_run occ_init (map2 (\<lambda>m rep. (msg_badge m, occ_label m rep)) ms reps) s \<and>
             sim r s \<and> serial (o_hist s)"
  using serve_sim [OF sto_wf_init ids_left_init [OF assms(1)] sim_init assms(2)]
    occ_run_ok [OF _ occ_init_ok] by (auto simp: occ_ok_def)

theorem sto_refines_occ_witness:
  "length [sto_request STO_OP_BEGIN 7 []] < 2 ^ 64 - 1 \<and>
   (\<exists>s. occ_run occ_init (map2 (\<lambda>m rep. (msg_badge m, occ_label m rep)) [sto_request STO_OP_BEGIN 7 []]
          (fst (sto_serve sto_registry_init [sto_request STO_OP_BEGIN 7 []]))) s \<and>
        sim (snd (sto_serve sto_registry_init [sto_request STO_OP_BEGIN 7 []])) s \<and> serial (o_hist s))"
  using sto_refines_occ [OF _ surjective_pairing [of "sto_serve sto_registry_init
    [sto_request STO_OP_BEGIN 7 []]"]] by simp

text \<open>
  C3 (no lost update). When a transaction in slot \<open>u\<close> commits while another one in slot \<open>t\<close>
  is active, and \<open>t\<close> is committed later, after any requests in between, then \<open>t\<close> still
  occupies its slot and nothing in its final read set was written by \<open>u\<close>.
\<close>

theorem sto_no_lost_update:
  assumes wf: "sto_wf r" and left: "ids_left r (length ms)"
    and u: "handle_commit r bu mu = (reply_status STO_OK, r1)" "sto_registry_find r (mu 0) bu = Some u"
    and t: "sto_registry_find r (mt 0) bt = Some t" "t \<noteq> u"
    and run: "r2 = snd (sto_serve r1 ms)"
    and c: "handle_commit r2 bt mt = (reply_status STO_OK, r3)"
  shows "sto_registry_find r2 (mt 0) bt = Some t \<and>
         set (read_set (active r2 t)) \<inter> set (write_set (active r u)) = {}"
proof -
  obtain k where k: "sto_registry_find r2 (mt 0) bt = Some k" "sto_registry_can_commit r2 k"
    using commit_reply_OK [OF c] by blast
  note fk = find_SomeD [OF k(1)] and ft = find_SomeD [OF t(1)]
  obtain u' where u': "sto_registry_find r (mu 0) bu = Some u'" "phase (active r u') = STO_PHASE_ACTIVE"
    "sto_wf r1"
    "r1 = release (\<lambda>w. wc_mode w = STO_CAP_ACTIVE_OK)
                (if keeps_slot r u' then STO_PHASE_COMMITTED else STO_PHASE_FREE) (log_entry r u') u'"
    using commit_reply_effect [OF wf u(1)] by blast
  with u(2) have [simp]: "u' = u" by simp
  have left1: "ids_left r1 (length ms)" using left u'(4) by (simp add: ids_left_def)
  have tid: "unat (mt 0) < unat (next_tx_id r1)"
    using ft table_wfD(4) [of r t] wf u'(4) by (auto simp: sto_wf_def)
  have old: "phase (active r1 k) = STO_PHASE_ACTIVE" "tx_id (active r1 k) = mt 0"
    "set (commit_log r1) \<subseteq> set (commit_log r2)"
    using serve_active_back [OF u'(3) left1 run, of k] fk tid by auto
  have ku: "k \<noteq> u" using old(1) u'(4) by (auto split: if_splits)
  with old u'(4) have "tx_id (active r k) = tx_id (active r t)" using ft by simp
  with active_id_unique [OF wf, of t k] ft have kt: "k = t" by blast
  have "k < STO_MAX_TX" using old(1) u'(3) by (auto simp: sto_wf_def intro: table_wfD(7))
  from release_log_active [OF this old(1) [unfolded u'(4)]]
  have "\<lparr>ce_tx_id = tx_id (active r u), ce_write_set = write_set (active r u)\<rparr> \<in> set (commit_log r1)"
    unfolding u'(4) by simp
  with old(3) k(2) kt show ?thesis using k(1) unfolding can_commit_iff by fastforce
qed

theorem sto_no_lost_update_witness:
  "sto_registry_find two_clients_committed 2 9 = Some 1 \<and>
   set (read_set (active two_clients_committed 1)) \<inter> set (write_set (active two_clients 0)) = {}"
proof -
  have ok: "fst (handle_commit two_clients_committed 9 (\<lambda>_. 2)) = reply_status STO_OK" by code_simp
  have run: "two_clients_committed = snd (sto_serve two_clients_committed [])" by simp
  show ?thesis
    using sto_no_lost_update [OF two_clients_wf(1) two_clients_wf(2) two_clients_commit(1,2)
        two_clients_commit(3) _ run, of "snd (handle_commit two_clients_committed 9 (\<lambda>_. 2))"]
      ok by (simp add: prod_eq_iff)
qed

text \<open>
  C4 (isolation). A request leaves every live transaction owned by another badge unchanged, and
  every capability that transaction has wrapped.
\<close>

theorem sto_only_owner_mutates:
  assumes "sto_wf r" and "live r k" and "owner_badge (active r k) \<noteq> msg_badge m"
  shows "active (snd (sto_dispatch r m)) k = active r k \<and>
     (\<forall>j. wc_id (wrapped_pool r j) \<in> set (wrapped_caps (active r k)) \<longrightarrow>
          wrapped_pool (snd (sto_dispatch r m)) j = wrapped_pool r j)"
proof -
  obtain e where "sto_step (msg_badge m) r e (snd (sto_dispatch r m))" using dispatch_step by blast
  then show ?thesis by (rule step_isolation [OF assms(1) _ assms(2,3)])
qed

theorem sto_only_owner_mutates_witness:
  "live two_clients 1 \<and> owner_badge (active two_clients 1) \<noteq> msg_badge (sto_request STO_OP_ROLLBACK 7 [2]) \<and>
   active (snd (sto_dispatch two_clients (sto_request STO_OP_ROLLBACK 7 [2]))) 1 = active two_clients 1"
proof -
  have "live two_clients 1" by code_simp
  moreover have "owner_badge (active two_clients 1) \<noteq> msg_badge (sto_request STO_OP_ROLLBACK 7 [2])"
    by code_simp
  ultimately show ?thesis using sto_only_owner_mutates [OF two_clients_wf(1)] by blast
qed

text \<open>
  C5 (no effects from aborted). Once a transaction is rolled back, invoking any capability it
  had wrapped is answered \<open>STO_INVALID_TX\<close>, whoever asks and whatever requests are served in
  between.
\<close>

theorem sto_aborted_capabilities_dead:
  assumes wf: "sto_wf r" and "ids_left r (length ms)"
    and t: "sto_registry_find r (mr 0) b = Some i" and w: "w \<in> set (wrapped_caps (active r i))"
    and r': "r' = snd (sto_serve (snd (handle_rollback r b mr)) ms)" and "mr' 0 = w"
  shows "handle_invoke r' b' mr' = (reply_status STO_INVALID_TX, r')"
proof -
  note f = find_SomeD [OF t]
  have a: "snd (handle_rollback r b mr) = sto_registry_abort r i"
    using t f by (simp add: handle_rollback_def)
  have "cap_dead w r'" unfolding r' a
    using serve_cap_dead abort_wf [OF wf] abort_cap_dead [OF wf _ w] f assms(2)
    by (auto simp: ids_left_def abort_release)
  then show ?thesis using assms(6) by (rule invoke_dead)
qed

theorem sto_aborted_capabilities_dead_witness:
  "(1 :: u64) \<in> set (wrapped_caps (active two_clients 0)) \<and>
   fst (handle_invoke two_clients 9 (\<lambda>_. 2)) = reply_status STO_OK \<and>
   (let r' = snd (sto_serve (snd (handle_rollback two_clients 7 (\<lambda>_. 1))) [sto_request STO_OP_BEGIN 7 []])
    in handle_invoke r' 9 (\<lambda>_. 2) = (reply_status STO_INVALID_TX, r'))"
proof -
  have w: "1 \<in> set (wrapped_caps (active two_clients 0))" "2 \<in> set (wrapped_caps (active two_clients 0))"
    "fst (handle_invoke two_clients 9 (\<lambda>_. 2)) = reply_status STO_OK" by code_simp+
  show ?thesis
    using w sto_aborted_capabilities_dead [OF two_clients_wf(1) two_clients_wf(2) two_clients_commit(2) w(2) refl,
        of "[sto_request STO_OP_BEGIN 7 []]" "\<lambda>_. 2"] by (simp add: Let_def del: sto_serve.simps)
qed



text \<open>
  C7 (committed slots are never reused). A slot left in phase \<open>COMMITTED\<close>, which is where a
  commit leaves a transaction with a commit-only capability, keeps its contents through every
  later sequence of requests: no request frees it.
\<close>

theorem sto_committed_slot_permanent:
  assumes "sto_wf r" and "ids_left r (length ms)" and "phase (active r k) = STO_PHASE_COMMITTED"
  shows "active (snd (sto_serve r ms)) k = active r k"
  using assms by (rule serve_committed)

theorem sto_committed_slot_permanent_witness:
  "phase (active two_clients_committed 0) = STO_PHASE_COMMITTED \<and>
   active (snd (sto_serve two_clients_committed [sto_request STO_OP_ROLLBACK 7 [1]])) 0
     = active two_clients_committed 0"
proof -
  have c: "phase (active two_clients_committed 0) = STO_PHASE_COMMITTED" by code_simp
  show ?thesis
    using c sto_committed_slot_permanent [OF two_clients_committed_wf(1) two_clients_committed_wf(2) c,
        of "[sto_request STO_OP_ROLLBACK 7 [1]]"] by (simp del: sto_serve.simps)
qed

text \<open>
  Exactly as many transactions can be begun in a row, in distinct free slots and
  without touching the live ones, as there are free slots among the \<open>STO_MAX_TX\<close>.
\<close>

lemma sto_begin_capacity:
  "(\<exists>slots r'. alloc_n (\<lambda>r. sto_registry_begin r b) k r = Some (slots, r') \<and>
      distinct slots \<and> set slots \<subseteq> {0..<STO_MAX_TX} - {i. live r i} \<and> {i. live r' i} = set slots \<union> {i. live r i})
   \<longleftrightarrow> k \<le> card ({0..<STO_MAX_TX} - {i. live r i})"
  using sto_txs.alloc_n_capacity [where b = b and s = r and k = k] sto_txs.alloc_n_distinct [where b = b and s = r and k = k] by blast

text \<open>Requests the dispatcher does not serve, and the badge an invocation ignores.\<close>

lemma sto_unwrap_rejected:
  "msg_label m = STO_OP_UNWRAP \<Longrightarrow> sto_dispatch r m = (reply_status STO_PROTOCOL, r)"
  by (simp add: sto_dispatch_def limits)

lemma sto_invoke_ignores_badge: "handle_invoke r b mr = handle_invoke r b' mr"
  by (simp add: handle_invoke_def)

end
