(* ===== verification/EventRing.thy ===== *)
theory EventRing
  imports Prelude
begin

text \<open>
  The event ring of the process server (\<^verbatim>\<open>include/procd/events.h\<close>, \<^verbatim>\<open>src/procd/event_ring.c\<close>):
  one writer publishes numbered events into a power-of-two ring, each reader drains it with a
  cursor of its own. The interface \<open>event_channel\<close> says what publisher and readers rely on:
  the ring represents the log of everything published, and a drain returns a contiguous part
  of that log.
\<close>

subsection \<open>The ring\<close>

definition PROCD_EVENT_RING_N :: nat where [limits]: "PROCD_EVENT_RING_N = 1024"

record procd_event =
  ev_seq :: u64
  ev_kind :: u32
  ev_slot :: u32
  ev_extra32 :: u32

record procd_event_ring =
  head_seq :: u64
  entries :: "procd_event arr"

definition zero_event :: procd_event where
  "zero_event = \<lparr>ev_seq = 0, ev_kind = 0, ev_slot = 0, ev_extra32 = 0\<rparr>"

definition procd_event_ring_init :: procd_event_ring where
  "procd_event_ring_init = \<lparr>head_seq = 0, entries = (\<lambda>_. zero_event)\<rparr>"

definition ring_index :: "u64 \<Rightarrow> nat" where
  "ring_index seq = unat (seq AND (of_nat PROCD_EVENT_RING_N - 1))"

definition procd_event_publish :: "procd_event_ring \<Rightarrow> u32 \<Rightarrow> u32 \<Rightarrow> u32 \<Rightarrow> procd_event_ring" where
  "procd_event_publish r kind slot extra32 =
     (let head = head_seq r in
      r\<lparr>entries := (entries r)(ring_index head :=
            \<lparr>ev_seq = head, ev_kind = kind, ev_slot = slot, ev_extra32 = extra32\<rparr>),
        head_seq := head + 1\<rparr>)"

text \<open>The copy loop of the drain: at most \<open>k\<close> more entries from \<open>tail\<close> up to \<open>head\<close>.\<close>

primrec drain_loop :: "procd_event_ring \<Rightarrow> u64 \<Rightarrow> nat \<Rightarrow> u64 \<Rightarrow> procd_event list \<times> u64" where
  "drain_loop r head 0 tail = ([], tail)"
| "drain_loop r head (Suc k) tail =
     (if tail < head
      then let (es, t) = drain_loop r head k (tail + 1) in (entries r (ring_index tail) # es, t)
      else ([], tail))"

definition procd_event_drain :: "procd_event_ring \<Rightarrow> u64 \<Rightarrow> u32 \<Rightarrow> procd_event list \<times> u64 \<times> bool" where
  "procd_event_drain r tail max_n =
     (let head = head_seq r in
      if head < tail then ([], head, False)
      else
        let lag = head - tail;
            overflow = (of_nat PROCD_EVENT_RING_N div 2 < lag);
            tail' = (if overflow then head - of_nat PROCD_EVENT_RING_N div 4 else tail);
            (es, t) = drain_loop r head (unat max_n) tail'
        in (es, t, overflow))"


subsection \<open>The contract between publisher and readers\<close>

text \<open>
  \<open>log r h\<close>: everything published so far is \<open>h\<close>. \<open>window\<close> is the number of most recent
  events a reader may lag behind without losing any; a reader that lags more is told so and
  resumes \<open>resume\<close> events before the end.
\<close>

locale event_channel =
  fixes log :: "'r \<Rightarrow> procd_event list \<Rightarrow> bool"
    and publish :: "'r \<Rightarrow> u32 \<Rightarrow> u32 \<Rightarrow> u32 \<Rightarrow> 'r"
    and drain :: "'r \<Rightarrow> u64 \<Rightarrow> u32 \<Rightarrow> procd_event list \<times> u64 \<times> bool"
    and window resume :: nat
  assumes publish_log: "log r h \<Longrightarrow> Suc (length h) < 2 ^ 64 \<Longrightarrow>
      log (publish r k s x)
        (h @ [\<lparr>ev_seq = of_nat (length h), ev_kind = k, ev_slot = s, ev_extra32 = x\<rparr>])"
    and drain_log: "log r h \<Longrightarrow> unat tail \<le> length h \<Longrightarrow> drain r tail n = (es, tail', overflow) \<Longrightarrow>
      (overflow \<longleftrightarrow> window < length h - unat tail) \<and>
      es = take (unat n) (drop (if overflow then length h - resume else unat tail) h) \<and>
      unat tail' = (if overflow then length h - resume else unat tail) + length es"
begin

primrec publish_all :: "'r \<Rightarrow> (u32 \<times> u32 \<times> u32) list \<Rightarrow> 'r" where
  "publish_all r [] = r"
| "publish_all r (e # es) = publish_all (publish r (fst e) (fst (snd e)) (snd (snd e))) es"

definition number :: "nat \<Rightarrow> (u32 \<times> u32 \<times> u32) list \<Rightarrow> procd_event list" where
  "number n es = map (\<lambda>(i, k, s, x). \<lparr>ev_seq = of_nat (n + i), ev_kind = k, ev_slot = s, ev_extra32 = x\<rparr>)
     (enumerate 0 es)"

lemma number_Cons: "number n (e # es) =
   \<lparr>ev_seq = of_nat n, ev_kind = fst e, ev_slot = fst (snd e), ev_extra32 = snd (snd e)\<rparr> # number (Suc n) es"
  unfolding number_def by (cases e) (simp add: enumerate_Suc_eq case_prod_beta o_def)

lemma length_number [simp]: "length (number n es) = length es"
  by (simp add: number_def)

lemma publish_all_log:
  "log r h \<Longrightarrow> length h + length es < 2 ^ 64 \<Longrightarrow> log (publish_all r es) (h @ number (length h) es)"
proof (induction es arbitrary: r h)
  case Nil
  then show ?case by (simp add: number_def)
next
  case (Cons e es)
  from Cons.IH [OF publish_log [OF Cons.prems(1), of "fst e" "fst (snd e)" "snd (snd e)"]] Cons.prems(2)
  show ?case by (simp add: number_Cons)
qed

text \<open>A reader at the end of the log receives exactly the next events, in order, once.\<close>

theorem reader_keeps_up:
  assumes "log r h" and "length h + length es < 2 ^ 64" and "length es \<le> window"
    and "length es \<le> unat n" and "unat tail = length h"
  shows "\<exists>tail'. drain (publish_all r es) tail n = (number (length h) es, tail', False) \<and>
           unat tail' = length h + length es"
proof -
  obtain out tail' ov where d: "drain (publish_all r es) tail n = (out, tail', ov)"
    by (cases "drain (publish_all r es) tail n") auto
  note l = publish_all_log [OF assms(1,2)]
  have t: "unat tail \<le> length (h @ number (length h) es)" using assms(5) by simp
  from drain_log [OF l t d] assms(3-5) d show ?thesis by auto
qed

text \<open>Two drains of a reader that is not lagging join up without gap or repetition.\<close>

theorem drain_twice:
  assumes "log r h" and "unat tail \<le> length h" and "length h - unat tail \<le> window"
    and "drain r tail n = (es1, tail1, ov1)" and "drain r tail1 m = (es2, tail2, ov2)"
  shows "\<not> ov1 \<and> \<not> ov2 \<and> es1 @ es2 = take (unat n + unat m) (drop (unat tail) h)"
proof -
  from drain_log [OF assms(1,2,4)] assms(3)
  have 1: "\<not> ov1" "es1 = take (unat n) (drop (unat tail) h)" "unat tail1 = unat tail + length es1" by auto
  then have t1: "unat tail1 \<le> length h" using assms(2) by simp
  from drain_log [OF assms(1) t1 assms(5)] assms(3) 1(3)
  have 2: "\<not> ov2" "es2 = take (unat m) (drop (unat tail1) h)" by auto
  have "drop (unat tail1) h = drop (length es1) (drop (unat tail) h)"
    using 1(3) by (simp add: add.commute)
  moreover have "take (unat n + unat m) (drop (unat tail) h) =
     es1 @ take (unat m) (drop (length es1) (drop (unat tail) h))"
    using 1(2) by (cases "unat n \<le> length (drop (unat tail) h)") (simp_all add: take_add)
  ultimately show ?thesis using 1(1) 2 by simp
qed

end


subsection \<open>The ring provides the channel\<close>

definition ring_log :: "procd_event_ring \<Rightarrow> procd_event list \<Rightarrow> bool" where
  "ring_log r h \<longleftrightarrow> unat (head_seq r) = length h \<and>
     (\<forall>i < length h. length h \<le> i + PROCD_EVENT_RING_N \<longrightarrow> entries r (i mod PROCD_EVENT_RING_N) = h ! i)"

lemma ring_index_mod: "ring_index seq = unat seq mod PROCD_EVENT_RING_N"
proof -
  have "(1024 :: u64) - 1 = mask 10" by (simp add: mask_eq_exp_minus_1)
  then have "ring_index seq = unat (seq AND mask 10)" by (simp add: ring_index_def limits)
  also have "\<dots> = unat seq mod 2 ^ 10"
    by (metis take_bit_eq_mask unsigned_take_bit_eq take_bit_eq_mod)
  finally show ?thesis by (simp add: limits)
qed

lemma ring_log_init: "ring_log procd_event_ring_init []"
  by (simp add: ring_log_def procd_event_ring_init_def)

lemma ring_publish_log:
  assumes "ring_log r h" and "Suc (length h) < 2 ^ 64"
  shows "ring_log (procd_event_publish r k s x)
    (h @ [\<lparr>ev_seq = of_nat (length h), ev_kind = k, ev_slot = s, ev_extra32 = x\<rparr>])"
proof -
  have hd: "unat (head_seq r) = length h" using assms(1) by (simp add: ring_log_def)
  have "head_seq r = of_nat (length h)" by (simp flip: hd)
  moreover have "unat (head_seq r + 1) = Suc (length h)"
    using assms(2) hd by (simp add: unat_Suc_word)
  moreover have "i mod PROCD_EVENT_RING_N \<noteq> length h mod PROCD_EVENT_RING_N"
    if "i < length h" "Suc (length h) \<le> i + PROCD_EVENT_RING_N" for i
  proof
    assume "i mod PROCD_EVENT_RING_N = length h mod PROCD_EVENT_RING_N"
    then have "PROCD_EVENT_RING_N dvd length h - i"
      using that(1) by (metis mod_eq_dvd_iff_nat less_imp_le)
    with that show False by (auto dest: dvd_imp_le)
  qed
  ultimately show ?thesis
    using assms(1) hd
    by (auto simp: ring_log_def procd_event_publish_def Let_def ring_index_mod nth_append less_Suc_eq)
qed

lemma drain_loop_log:
  assumes "ring_log r h" and "unat head = length h"
  shows "unat tail \<le> length h \<Longrightarrow> length h \<le> unat tail + PROCD_EVENT_RING_N \<Longrightarrow>
    drain_loop r head k tail = (es, t) \<Longrightarrow>
    es = take k (drop (unat tail) h) \<and> unat t = unat tail + length es"
proof (induction k arbitrary: tail es t)
  case 0
  then show ?case by simp
next
  case (Suc k)
  show ?case
  proof (cases "tail < head")
    case False
    then have "length h \<le> unat tail" using assms(2) by (simp add: word_less_nat_alt)
    with Suc.prems False show ?thesis by auto
  next
    case True
    then have lt: "unat tail < length h" using assms(2) by (simp add: word_less_nat_alt)
    have "unat head < 2 ^ LENGTH(64)" by (rule unsigned_less)
    with lt assms(2) have "unat tail + 1 < 2 ^ 64" by simp
    then have st: "unat (tail + 1) = Suc (unat tail)" by (simp add: unat_Suc_word)
    obtain es' t' where d: "drain_loop r head k (tail + 1) = (es', t')" by fastforce
    with Suc.prems(3) True have eq: "es = entries r (ring_index tail) # es'" "t = t'" by auto
    have "entries r (ring_index tail) = h ! unat tail"
      using assms(1) lt Suc.prems(2) by (auto simp: ring_log_def ring_index_mod)
    moreover have "es' = take k (drop (Suc (unat tail)) h) \<and> unat t' = Suc (unat tail) + length es'"
      using Suc.IH [of "tail + 1" es' t'] d st lt Suc.prems(2) by simp
    ultimately show ?thesis using eq lt by (simp add: Cons_nth_drop_Suc [symmetric])
  qed
qed

lemma ring_thresholds:
  "(of_nat PROCD_EVENT_RING_N :: u64) div 2 = 512" "(of_nat PROCD_EVENT_RING_N :: u64) div 4 = 256"
  by (simp_all add: limits word_div_def)

lemma ring_drain_log:
  assumes log: "ring_log r h" and tail: "unat tail \<le> length h"
    and d: "procd_event_drain r tail n = (es, tail', overflow)"
  shows "(overflow \<longleftrightarrow> PROCD_EVENT_RING_N div 2 < length h - unat tail) \<and>
      es = take (unat n) (drop (if overflow then length h - PROCD_EVENT_RING_N div 4 else unat tail) h) \<and>
      unat tail' = (if overflow then length h - PROCD_EVENT_RING_N div 4 else unat tail) + length es"
proof -
  let ?head = "head_seq r"
  have hd: "unat ?head = length h" using log by (simp add: ring_log_def)
  have le: "tail \<le> ?head" using tail hd by (simp add: word_le_nat_alt)
  then have lag: "unat (?head - tail) = length h - unat tail" using hd by (simp add: unat_sub)
  have ov: "(512 :: u64) < ?head - tail \<longleftrightarrow> 512 < length h - unat tail"
    by (simp add: word_less_nat_alt lag)
  define start where "start = (if (512 :: u64) < ?head - tail then ?head - 256 else tail)"
  have start: "unat start = (if 512 < length h - unat tail then length h - 256 else unat tail)"
  proof (cases "(512 :: u64) < ?head - tail")
    case True
    then have "(256 :: u64) \<le> ?head" using ov hd by (simp add: word_le_nat_alt)
    with True ov hd show ?thesis by (simp add: start_def unat_sub)
  next
    case False
    with ov show ?thesis by (simp add: start_def)
  qed
  obtain es' t' where loop: "drain_loop r ?head (unat n) start = (es', t')" by fastforce
  have "es = es' \<and> tail' = t' \<and> (overflow \<longleftrightarrow> 512 < length h - unat tail)"
    using d leD [OF le] loop ov unfolding procd_event_drain_def Let_def ring_thresholds start_def [symmetric]
    by auto
  moreover have "es' = take (unat n) (drop (unat start) h) \<and> unat t' = unat start + length es'"
    by (rule drain_loop_log [OF log hd _ _ loop]) (use tail start in \<open>auto simp: limits\<close>)
  ultimately show ?thesis using start by (auto simp: limits)
qed

interpretation ev: event_channel ring_log procd_event_publish procd_event_drain
  "PROCD_EVENT_RING_N div 2" "PROCD_EVENT_RING_N div 4"
proof unfold_locales
  fix r h k s x
  assume "ring_log r h" "Suc (length h) < 2 ^ 64"
  then show "ring_log (procd_event_publish r k s x)
    (h @ [\<lparr>ev_seq = of_nat (length h), ev_kind = k, ev_slot = s, ev_extra32 = x\<rparr>])"
    by (rule ring_publish_log)
next
  fix r h tail n es tail' overflow
  assume "ring_log r h" "unat tail \<le> length h" "procd_event_drain r tail n = (es, tail', overflow)"
  then show "(overflow \<longleftrightarrow> PROCD_EVENT_RING_N div 2 < length h - unat tail) \<and>
      es = take (unat n) (drop (if overflow then length h - PROCD_EVENT_RING_N div 4 else unat tail) h) \<and>
      unat tail' = (if overflow then length h - PROCD_EVENT_RING_N div 4 else unat tail) + length es"
    by (rule ring_drain_log)
qed

end
