(* ===== verification/ProcTable.thy ===== *)
theory ProcTable
  imports EventRing
begin

text \<open>
  The tables of the process server (\<^verbatim>\<open>include/procd/proc.h\<close>, \<^verbatim>\<open>shm.h\<close>, \<^verbatim>\<open>functor.h\<close>,
  \<^verbatim>\<open>src/procd/table.c\<close>, \<^verbatim>\<open>shm_init.c\<close>): the shared-memory header, process and thread slots,
  their allocators and lookups, and the sequence-lock protocol around each update. A
  \<^verbatim>\<open>proc_t *\<close> or \<^verbatim>\<open>thread_t *\<close> is the index of its slot, \<open>NULL\<close> is \<open>None\<close>.
\<close>

subsection \<open>Constants and data\<close>

definition PROCD_MAX_PROCS :: nat where [limits]: "PROCD_MAX_PROCS = 256"
definition PROCD_MAX_THREADS :: nat where [limits]: "PROCD_MAX_THREADS = 1024"
definition PROCD_ABI_VERSION :: u32 where "PROCD_ABI_VERSION = 2"
definition PROCD_SHM_MAGIC :: u64 where "PROCD_SHM_MAGIC = 0x50524F43444D3031"
definition PROCD_SHM_BYTES :: u32 where "PROCD_SHM_BYTES = 1048576"

datatype proc_state =
  PROC_STATE_FREE | PROC_STATE_NASCENT | PROC_STATE_RUNNING | PROC_STATE_STOPPED
| PROC_STATE_ZOMBIE | PROC_STATE_DEAD

definition PROC_TIER_0 :: u32 where "PROC_TIER_0 = 0"
definition PROC_TIER_1 :: u32 where "PROC_TIER_1 = 1"
definition PROC_TIER_2 :: u32 where "PROC_TIER_2 = 2"
definition PROC_TIER_3 :: u32 where "PROC_TIER_3 = 3"

lemmas tier_defs = PROC_TIER_0_def PROC_TIER_1_def PROC_TIER_2_def PROC_TIER_3_def

record proc =
  p_slot :: u32
  p_synthetic_pid :: u32
  p_real_pid :: u32
  p_ppid :: u32
  p_pgid :: u32
  p_sid :: u32
  p_state :: proc_state
  p_tier :: u32
  p_exit_code :: u32
  p_birth_tsc :: u64
  p_tcb_root :: u64
  p_cspace_root :: u64
  p_vspace_root :: u64
  p_fault_ep_badged :: u64
  p_ipc_buffer :: u64
  p_n_threads :: u32
  p_thread_slot_base :: u32
  p_functor_fs :: u16
  p_functor_net :: u16
  p_functor_proc :: u16
  p_pledge_mask :: u64
  p_audit_seq :: u64
  p_share_flags :: u32
  p_comm :: "u8 list"
  p_cow_session :: u32
  p_version :: u64

record procd_thread =
  t_tid :: u32
  t_owner_slot :: u32
  t_tcb :: u64
  t_tls_base :: u64
  t_ipc_buffer_vaddr :: u64
  t_clear_tid_ptr :: u64
  t_robust_list_head :: u64
  t_state :: u8
  t_version :: u64

record procd_shm_header =
  h_magic :: u64
  h_abi_version :: u32
  h_table_ofs :: u32
  h_table_n :: u32
  h_thread_ofs :: u32
  h_thread_n :: u32
  h_evring_ofs :: u32
  h_evring_n :: u32
  h_scratch_ofs :: u32
  h_scratch_size :: u32

record procd =
  g_hdr :: procd_shm_header
  g_procs :: "proc arr"
  g_threads :: "procd_thread arr"
  g_next_pid :: u32
  g_next_tid :: u32
  g_ring :: procd_event_ring

definition zero_proc :: proc where
  "zero_proc = \<lparr>p_slot = 0, p_synthetic_pid = 0, p_real_pid = 0, p_ppid = 0, p_pgid = 0, p_sid = 0,
     p_state = PROC_STATE_FREE, p_tier = 0, p_exit_code = 0, p_birth_tsc = 0, p_tcb_root = 0,
     p_cspace_root = 0, p_vspace_root = 0, p_fault_ep_badged = 0, p_ipc_buffer = 0, p_n_threads = 0,
     p_thread_slot_base = 0, p_functor_fs = 0, p_functor_net = 0, p_functor_proc = 0,
     p_pledge_mask = 0, p_audit_seq = 0, p_share_flags = 0, p_comm = [], p_cow_session = 0,
     p_version = 0\<rparr>"

definition zero_thread :: procd_thread where
  "zero_thread = \<lparr>t_tid = 0, t_owner_slot = 0, t_tcb = 0, t_tls_base = 0, t_ipc_buffer_vaddr = 0,
     t_clear_tid_ptr = 0, t_robust_list_head = 0, t_state = 0, t_version = 0\<rparr>"

text \<open>Sizes of the shared structures (their layouts are fixed by the ABI).\<close>

definition sizeof_proc :: u32 where "sizeof_proc = 160"
definition sizeof_thread :: u32 where "sizeof_thread = 64"
definition sizeof_ring :: u32 where "sizeof_ring = 64 + 24 * 1024"


subsection \<open>Initialisation\<close>

definition procd_table_init :: "procd_event_ring \<Rightarrow> procd" where
  "procd_table_init r =
     (let thread_ofs = 64 + sizeof_proc * of_nat PROCD_MAX_PROCS;
          evring_ofs = thread_ofs + sizeof_thread * of_nat PROCD_MAX_THREADS;
          scratch_ofs = evring_ofs + sizeof_ring
      in \<lparr>g_hdr = \<lparr>h_magic = PROCD_SHM_MAGIC, h_abi_version = PROCD_ABI_VERSION, h_table_ofs = 64,
            h_table_n = of_nat PROCD_MAX_PROCS, h_thread_ofs = thread_ofs,
            h_thread_n = of_nat PROCD_MAX_THREADS, h_evring_ofs = evring_ofs,
            h_evring_n = of_nat PROCD_EVENT_RING_N, h_scratch_ofs = scratch_ofs,
            h_scratch_size = PROCD_SHM_BYTES - scratch_ofs\<rparr>,
          g_procs = (\<lambda>_. zero_proc)(0 := zero_proc\<lparr>p_state := PROC_STATE_DEAD, p_slot := 0\<rparr>),
          g_threads = (\<lambda>_. zero_thread), g_next_pid = 1, g_next_tid = 1, g_ring = r\<rparr>)"

definition procd_shm_init :: "procd_event_ring \<Rightarrow> procd" where
  "procd_shm_init r = (procd_table_init r)\<lparr>g_ring := procd_event_ring_init\<rparr>"

text \<open>\<open>procd_shm_ring\<close>: the ring exists when the header carries the magic number.\<close>

definition procd_shm_ring :: "procd \<Rightarrow> bool" where
  "procd_shm_ring s = (h_magic (g_hdr s) = PROCD_SHM_MAGIC)"

text \<open>\<^verbatim>\<open>ring = procd_shm_ring(); if (ring) procd_event_publish(ring, ...)\<close>\<close>

definition announce :: "u32 \<Rightarrow> u32 \<Rightarrow> u32 \<Rightarrow> procd \<Rightarrow> procd" where
  "announce kind slot extra s =
     (if procd_shm_ring s then s\<lparr>g_ring := procd_event_publish (g_ring s) kind slot extra\<rparr> else s)"


subsection \<open>Allocation\<close>

definition procd_slot_alloc :: "procd \<Rightarrow> (nat \<times> procd) option" where
  "procd_slot_alloc s =
     (case first_idx (\<lambda>i. p_state (g_procs s i) = PROC_STATE_FREE) 1 PROCD_MAX_PROCS of
        None \<Rightarrow> None
      | Some i \<Rightarrow>
          Some (i, s\<lparr>g_procs := (g_procs s)(i := zero_proc\<lparr>p_slot := of_nat i,
                        p_synthetic_pid := g_next_pid s, p_state := PROC_STATE_NASCENT\<rparr>),
                     g_next_pid := g_next_pid s + 1\<rparr>))"

definition procd_slot_free :: "procd \<Rightarrow> u32 \<Rightarrow> (u32 \<times> procd)" where
  "procd_slot_free s slot =
     (if slot = 0 \<or> PROCD_MAX_PROCS \<le> unat slot then (- 1, s)
      else (0, s\<lparr>g_procs := (g_procs s)(unat slot := zero_proc)\<rparr>))"

definition procd_thread_alloc :: "procd \<Rightarrow> (nat \<times> procd) option" where
  "procd_thread_alloc s =
     (case first_idx (\<lambda>i. t_state (g_threads s i) = 0 \<and> t_tid (g_threads s i) = 0) 1 PROCD_MAX_THREADS of
        None \<Rightarrow> None
      | Some i \<Rightarrow>
          Some (i, s\<lparr>g_threads := (g_threads s)(i := zero_thread\<lparr>t_tid := g_next_tid s, t_state := 1\<rparr>),
                     g_next_tid := g_next_tid s + 1\<rparr>))"

definition procd_thread_free :: "procd \<Rightarrow> nat \<Rightarrow> (u32 \<times> procd)" where
  "procd_thread_free s tslot =
     (if tslot = 0 \<or> PROCD_MAX_THREADS \<le> tslot then (- 1, s)
      else (0, s\<lparr>g_threads := (g_threads s)(tslot := zero_thread)\<rparr>))"


subsection \<open>Lookups\<close>

definition procd_thread_at_index :: "nat \<Rightarrow> nat option" where
  "procd_thread_at_index i = (if i = 0 \<or> PROCD_MAX_THREADS \<le> i then None else Some i)"

definition procd_thread_by_tid :: "procd \<Rightarrow> u32 \<Rightarrow> nat option" where
  "procd_thread_by_tid s tid =
     (if tid = 0 then None else first_idx (\<lambda>i. t_tid (g_threads s i) = tid) 1 PROCD_MAX_THREADS)"

definition procd_table_get :: "u32 \<Rightarrow> nat option" where
  "procd_table_get slot = (if PROCD_MAX_PROCS \<le> unat slot then None else Some (unat slot))"

definition procd_table_first_zombie_child :: "procd \<Rightarrow> u32 \<Rightarrow> nat option" where
  "procd_table_first_zombie_child s ppid =
     first_idx (\<lambda>i. p_state (g_procs s i) = PROC_STATE_ZOMBIE \<and> p_ppid (g_procs s i) = ppid)
       1 PROCD_MAX_PROCS"

definition procd_table_lookup_by_synthetic_pid :: "procd \<Rightarrow> u32 \<Rightarrow> nat option" where
  "procd_table_lookup_by_synthetic_pid s pid =
     (if pid = 0 then None
      else first_idx (\<lambda>i. p_synthetic_pid (g_procs s i) = pid \<and> p_state (g_procs s i) \<noteq> PROC_STATE_FREE)
             1 PROCD_MAX_PROCS)"


subsection \<open>Sequence-locked updates\<close>

definition procd_seqlock_begin :: "proc \<Rightarrow> proc" where
  "procd_seqlock_begin p = p\<lparr>p_version := p_version p OR 1\<rparr>"

definition procd_seqlock_end :: "proc \<Rightarrow> proc" where
  "procd_seqlock_end p = p\<lparr>p_version := p_version p + 1\<rparr>"

text \<open>
  An update bracketed by the sequence lock. \<^verbatim>\<open>PROCD_SEQLOCK_END_LOGGED\<close> would also append to
  the write-ahead log, but its gate \<^verbatim>\<open>g_wal_attached\<close> is permanently 0 in the server.
\<close>

definition locked_update :: "nat \<Rightarrow> (proc \<Rightarrow> proc) \<Rightarrow> procd \<Rightarrow> procd" where
  "locked_update i f s =
     s\<lparr>g_procs := (g_procs s)(i := procd_seqlock_end (f (procd_seqlock_begin (g_procs s i))))\<rparr>"


subsection \<open>Functor bindings\<close>

definition FFS_IDENTITY :: u16 where "FFS_IDENTITY = 0"
definition FFS_WRITE_SILENCED :: u16 where "FFS_WRITE_SILENCED = 1"
definition FFS_ISOLATED :: u16 where "FFS_ISOLATED = 2"
definition FFS_REVOKED :: u16 where "FFS_REVOKED = 3"
definition FNET_IDENTITY :: u16 where "FNET_IDENTITY = 0"
definition FNET_SYNTH :: u16 where "FNET_SYNTH = 1"
definition FNET_REVOKED :: u16 where "FNET_REVOKED = 2"
definition FPROC_IDENTITY :: u16 where "FPROC_IDENTITY = 0"
definition FPROC_SYNTH_FORK :: u16 where "FPROC_SYNTH_FORK = 1"
definition FPROC_REVOKED :: u16 where "FPROC_REVOKED = 2"

lemmas functor_defs =
  FFS_IDENTITY_def FFS_WRITE_SILENCED_def FFS_ISOLATED_def FFS_REVOKED_def
  FNET_IDENTITY_def FNET_SYNTH_def FNET_REVOKED_def
  FPROC_IDENTITY_def FPROC_SYNTH_FORK_def FPROC_REVOKED_def

text \<open>The binding (filesystem, network, process) of a tier; the table has four rows.\<close>

definition procd_default_functor_for_tier :: "u32 \<Rightarrow> u16 \<times> u16 \<times> u16" where
  "procd_default_functor_for_tier t =
     (if t = PROC_TIER_0 then (FFS_IDENTITY, FNET_IDENTITY, FPROC_IDENTITY)
      else if t = PROC_TIER_1 then (FFS_WRITE_SILENCED, FNET_IDENTITY, FPROC_IDENTITY)
      else if t = PROC_TIER_2 then (FFS_ISOLATED, FNET_SYNTH, FPROC_SYNTH_FORK)
      else (FFS_REVOKED, FNET_REVOKED, FPROC_REVOKED))"

definition bind_default :: "u32 \<Rightarrow> proc \<Rightarrow> proc" where
  "bind_default t p =
     (let (fs, net, pr) = procd_default_functor_for_tier t
      in p\<lparr>p_functor_fs := fs, p_functor_net := net, p_functor_proc := pr\<rparr>)"

end
