(* ===== verification/ProcHandlers.thy ===== *)
theory ProcHandlers
  imports ProcTable
begin

text \<open>
  The request handlers of the process server (\<^verbatim>\<open>src/procd/handlers_lifecycle.c\<close>), one
  definition per handler with every guard and early return, and the dispatcher of
  \<^verbatim>\<open>src/procd/main.c\<close>: message registers are unpacked into a request, the handler runs, the
  reply goes back in three registers. The members of the request union are flattened into
  one record; the dispatcher sets only those of the opcode at hand.
\<close>

subsection \<open>Protocol\<close>

record procd_request =
  rq_caller_slot :: u32
  rq_initial_tier :: u32
  rq_initial_pledge :: u64
  rq_comm :: "u8 list"
  rq_flags :: u64
  rq_tls :: u64
  rq_child_tid_ptr :: u64
  rq_which :: u32
  rq_options :: u32
  rq_exit_status :: u32
  rq_tid :: u32
  rq_robust_head :: u64
  rq_target_slot :: u32
  rq_cow_session :: u32

record procd_reply =
  rp_result :: u32
  rp_out_slot :: u32
  rp_out_extra :: u64

definition reply_err :: "u32 \<Rightarrow> procd_reply" where
  "reply_err e = \<lparr>rp_result = - e, rp_out_slot = 0, rp_out_extra = 0\<rparr>"

definition EPERM :: u32 where "EPERM = 1"
definition ESRCH :: u32 where "ESRCH = 3"
definition ECHILD :: u32 where "ECHILD = 10"
definition EAGAIN :: u32 where "EAGAIN = 11"
definition EINVAL :: u32 where "EINVAL = 22"
definition ENOSYS :: u32 where "ENOSYS = 38"

definition PROCD_OP_SPAWN :: u64 where [limits]: "PROCD_OP_SPAWN = 0x01"
definition PROCD_OP_FORK :: u64 where [limits]: "PROCD_OP_FORK = 0x02"
definition PROCD_OP_CLONE :: u64 where [limits]: "PROCD_OP_CLONE = 0x03"
definition PROCD_OP_EXEC :: u64 where [limits]: "PROCD_OP_EXEC = 0x04"
definition PROCD_OP_EXIT :: u64 where [limits]: "PROCD_OP_EXIT = 0x05"
definition PROCD_OP_THREAD_EXIT :: u64 where [limits]: "PROCD_OP_THREAD_EXIT = 0x06"
definition PROCD_OP_WAIT :: u64 where [limits]: "PROCD_OP_WAIT = 0x07"
definition PROCD_OP_SETSID :: u64 where [limits]: "PROCD_OP_SETSID = 0x09"
definition PROCD_OP_SETPGID :: u64 where [limits]: "PROCD_OP_SETPGID = 0x0A"
definition PROCD_OP_GETPGID :: u64 where [limits]: "PROCD_OP_GETPGID = 0x0B"
definition PROCD_OP_SET_ROBUST :: u64 where [limits]: "PROCD_OP_SET_ROBUST = 0x0E"
definition PROCD_OP_SET_TIER :: u64 where [limits]: "PROCD_OP_SET_TIER = 0x40"
definition PROCD_OP_REBIND_FUNCTOR :: u64 where [limits]: "PROCD_OP_REBIND_FUNCTOR = 0x41"
definition PROCD_OP_SET_SESSION :: u64 where [limits]: "PROCD_OP_SET_SESSION = 0x44"

definition PROCD_EV_PROC_BORN :: u32 where "PROCD_EV_PROC_BORN = 0x10"
definition PROCD_EV_PROC_EXITED :: u32 where "PROCD_EV_PROC_EXITED = 0x11"
definition PROCD_EV_PROC_REAPED :: u32 where "PROCD_EV_PROC_REAPED = 0x12"
definition PROCD_EV_THREAD_BORN :: u32 where "PROCD_EV_THREAD_BORN = 0x13"
definition PROCD_EV_THREAD_EXITED :: u32 where "PROCD_EV_THREAD_EXITED = 0x14"
definition PROCD_EV_SIGCHLD :: u32 where "PROCD_EV_SIGCHLD = 0x15"
definition PROCD_EV_EXEC_OK :: u32 where "PROCD_EV_EXEC_OK = 0x16"
definition PROCD_EV_TIER_CHANGED :: u32 where "PROCD_EV_TIER_CHANGED = 0x20"
definition PROCD_EV_FUNCTOR_REBOUND :: u32 where "PROCD_EV_FUNCTOR_REBOUND = 0x21"
definition PROCD_EV_SYNTH_FORK :: u32 where "PROCD_EV_SYNTH_FORK = 0x22"
definition PROCD_EV_DENIED_TIER3 :: u32 where "PROCD_EV_DENIED_TIER3 = 0x23"
definition PROCD_EV_TABLE_FULL :: u32 where "PROCD_EV_TABLE_FULL = 0x30"
definition PROCD_EV_BADGE_REJECT :: u32 where "PROCD_EV_BADGE_REJECT = 0x32"
definition PROCD_EV_CLONE_FLAG_ENOSYS :: u32 where "PROCD_EV_CLONE_FLAG_ENOSYS = 0x33"

definition LX_CLONE_VM :: u64 where "LX_CLONE_VM = 0x100"
definition LX_CLONE_FS :: u64 where "LX_CLONE_FS = 0x200"
definition LX_CLONE_FILES :: u64 where "LX_CLONE_FILES = 0x400"
definition LX_CLONE_SIGHAND :: u64 where "LX_CLONE_SIGHAND = 0x800"
definition LX_CLONE_PTRACE :: u64 where "LX_CLONE_PTRACE = 0x2000"
definition LX_CLONE_VFORK :: u64 where "LX_CLONE_VFORK = 0x4000"
definition LX_CLONE_PARENT :: u64 where "LX_CLONE_PARENT = 0x8000"
definition LX_CLONE_THREAD :: u64 where "LX_CLONE_THREAD = 0x10000"
definition LX_CLONE_NEWNS :: u64 where "LX_CLONE_NEWNS = 0x20000"
definition LX_CLONE_NEWCGROUP :: u64 where "LX_CLONE_NEWCGROUP = 0x2000000"
definition LX_CLONE_NEWUTS :: u64 where "LX_CLONE_NEWUTS = 0x4000000"
definition LX_CLONE_NEWIPC :: u64 where "LX_CLONE_NEWIPC = 0x8000000"
definition LX_CLONE_NEWUSER :: u64 where "LX_CLONE_NEWUSER = 0x10000000"
definition LX_CLONE_NEWPID :: u64 where "LX_CLONE_NEWPID = 0x20000000"
definition LX_CLONE_NEWNET :: u64 where "LX_CLONE_NEWNET = 0x40000000"

definition BADGE_ANOMALY_OP_SET_TIER :: u64 where "BADGE_ANOMALY_OP_SET_TIER = 0xA009"


subsection \<open>Process creation\<close>

definition COMM_BYTES :: nat where [limits]: "COMM_BYTES = 16"

definition procd_handle_spawn :: "procd \<Rightarrow> procd_request \<Rightarrow> procd_reply \<times> procd" where
  "procd_handle_spawn s req =
     (case procd_slot_alloc s of
        None \<Rightarrow> (reply_err EAGAIN, announce PROCD_EV_TABLE_FULL (rq_caller_slot req) 0 s)
      | Some (i, s1) \<Rightarrow>
          let s2 = locked_update i (\<lambda>p.
                let p1 = p\<lparr>p_ppid := rq_caller_slot req, p_pgid := p_synthetic_pid p,
                           p_sid := p_synthetic_pid p, p_state := PROC_STATE_NASCENT,
                           p_tier := rq_initial_tier req, p_exit_code := 0\<rparr>;
                    p2 = (if p_tier p1 \<le> PROC_TIER_3 then bind_default (p_tier p1) p1 else p1)
                in p2\<lparr>p_pledge_mask := rq_initial_pledge req,
                      p_comm := cstr_copy COMM_BYTES (rq_comm req), p_cow_session := 0\<rparr>) s1;
              pid = p_synthetic_pid (g_procs s2 i)
          in (\<lparr>rp_result = of_nat i, rp_out_slot = of_nat i, rp_out_extra = ucast pid\<rparr>,
              announce PROCD_EV_PROC_BORN (of_nat i) pid s2))"

text \<open>The fields a child takes over from its parent in each kind of fork.\<close>

definition inherit :: "proc \<Rightarrow> proc \<Rightarrow> proc" where
  "inherit parent child = child\<lparr>
     p_ppid := p_synthetic_pid parent, p_pgid := p_pgid parent, p_sid := p_sid parent,
     p_state := PROC_STATE_NASCENT, p_tier := p_tier parent, p_functor_fs := p_functor_fs parent,
     p_functor_net := p_functor_net parent, p_functor_proc := p_functor_proc parent,
     p_pledge_mask := p_pledge_mask parent, p_exit_code := 0,
     p_comm := cstr_copy COMM_BYTES (p_comm parent), p_cow_session := p_cow_session parent\<rparr>"

definition do_fork_real :: "procd \<Rightarrow> nat \<Rightarrow> procd_request \<Rightarrow> procd_reply \<times> procd" where
  "do_fork_real s parent req =
     (case procd_slot_alloc s of
        None \<Rightarrow> (reply_err EAGAIN, announce PROCD_EV_TABLE_FULL (rq_caller_slot req) 0 s)
      | Some (i, s1) \<Rightarrow>
          let s2 = locked_update i (inherit (g_procs s1 parent)) s1;
              pid = p_synthetic_pid (g_procs s2 i)
          in (\<lparr>rp_result = of_nat i, rp_out_slot = of_nat i, rp_out_extra = ucast pid\<rparr>,
              announce PROCD_EV_PROC_BORN (of_nat i) pid s2))"

definition do_fork_synth :: "procd \<Rightarrow> nat \<Rightarrow> procd_request \<Rightarrow> procd_reply \<times> procd" where
  "do_fork_synth s parent req =
     (case procd_slot_alloc s of
        None \<Rightarrow> (reply_err EAGAIN, announce PROCD_EV_TABLE_FULL (rq_caller_slot req) 0 s)
      | Some (i, s1) \<Rightarrow>
          let s2 = locked_update i (\<lambda>p. (inherit (g_procs s1 parent) p)\<lparr>
                     p_tier := PROC_TIER_2, p_functor_fs := FFS_ISOLATED,
                     p_functor_net := FNET_SYNTH, p_functor_proc := FPROC_SYNTH_FORK\<rparr>) s1;
              pid = p_synthetic_pid (g_procs s2 i)
          in (\<lparr>rp_result = pid, rp_out_slot = of_nat i, rp_out_extra = ucast pid\<rparr>,
              announce PROCD_EV_SYNTH_FORK (of_nat i) (p_synthetic_pid (g_procs s2 parent)) s2))"

definition procd_handle_fork :: "procd \<Rightarrow> procd_request \<Rightarrow> procd_reply \<times> procd" where
  "procd_handle_fork s req =
     (case procd_table_get (rq_caller_slot req) of
        None \<Rightarrow> (reply_err ESRCH, s)
      | Some parent \<Rightarrow>
          let tier = p_tier (g_procs s parent) in
          if tier = PROC_TIER_0 \<or> tier = PROC_TIER_1 then do_fork_real s parent req
          else if tier = PROC_TIER_2 then do_fork_synth s parent req
          else if tier = PROC_TIER_3
          then (reply_err EPERM,
                announce PROCD_EV_DENIED_TIER3 (rq_caller_slot req) (ucast PROCD_OP_FORK) s)
          else (reply_err EINVAL, s))"


subsection \<open>Exit, wait and exec\<close>

definition gone :: "proc \<Rightarrow> bool" where
  "gone p \<longleftrightarrow> p_state p = PROC_STATE_FREE \<or> p_state p = PROC_STATE_DEAD"

definition procd_handle_exit :: "procd \<Rightarrow> procd_request \<Rightarrow> procd_reply \<times> procd" where
  "procd_handle_exit s req =
     (case procd_table_get (rq_caller_slot req) of
        None \<Rightarrow> (reply_err ESRCH, s)
      | Some i \<Rightarrow>
          if gone (g_procs s i) then (reply_err ESRCH, s)
          else
            let code = rq_exit_status req;
                s1 = locked_update i (\<lambda>p. p\<lparr>p_state := PROC_STATE_ZOMBIE, p_exit_code := code\<rparr>) s;
                p = g_procs s1 i;
                target = (if p_ppid p \<noteq> 0 then p_ppid p else 1)
            in (\<lparr>rp_result = 0, rp_out_slot = 0, rp_out_extra = 0\<rparr>,
                announce PROCD_EV_SIGCHLD target (p_slot p)
                  (announce PROCD_EV_PROC_EXITED (p_slot p) code s1)))"

definition procd_handle_wait :: "procd \<Rightarrow> procd_request \<Rightarrow> procd_reply \<times> procd" where
  "procd_handle_wait s req =
     (case procd_table_get (rq_caller_slot req) of
        None \<Rightarrow> (reply_err ESRCH, s)
      | Some caller \<Rightarrow>
          (case procd_table_first_zombie_child s (p_synthetic_pid (g_procs s caller)) of
             None \<Rightarrow>
               if rq_options req AND 1 \<noteq> 0
               then (\<lparr>rp_result = 0, rp_out_slot = 0, rp_out_extra = 0\<rparr>, s)
               else (reply_err ECHILD, s)
           | Some z \<Rightarrow>
               let status = p_exit_code (g_procs s z);
                   pid = p_synthetic_pid (g_procs s z);
                   s1 = locked_update z (\<lambda>p. p\<lparr>p_state := PROC_STATE_DEAD\<rparr>) s;
                   slot = p_slot (g_procs s1 z)
               in (\<lparr>rp_result = pid, rp_out_slot = slot, rp_out_extra = ucast status\<rparr>,
                   announce PROCD_EV_PROC_REAPED slot status s1)))"

definition procd_handle_exec :: "procd \<Rightarrow> procd_request \<Rightarrow> procd_reply \<times> procd" where
  "procd_handle_exec s req =
     (case procd_table_get (rq_caller_slot req) of
        None \<Rightarrow> (reply_err ESRCH, s)
      | Some i \<Rightarrow>
          if gone (g_procs s i) then (reply_err ESRCH, s)
          else
            let s1 = locked_update i (\<lambda>p. p\<lparr>p_state := PROC_STATE_RUNNING\<rparr>) s; p = g_procs s1 i
            in (\<lparr>rp_result = 0, rp_out_slot = p_slot p, rp_out_extra = ucast (p_synthetic_pid p)\<rparr>,
                announce PROCD_EV_EXEC_OK (p_slot p) 0 s1))"

subsection \<open>Clone\<close>

definition procd_clone_thread :: "procd \<Rightarrow> procd_request \<Rightarrow> procd_reply \<times> procd" where
  "procd_clone_thread s req =
     (case procd_table_get (rq_caller_slot req) of
        None \<Rightarrow> (reply_err ESRCH, s)
      | Some owner \<Rightarrow>
          if gone (g_procs s owner) then (reply_err ESRCH, s)
          else
            (case procd_thread_alloc s of
               None \<Rightarrow> (reply_err EAGAIN, announce PROCD_EV_TABLE_FULL (rq_caller_slot req) 0 s)
             | Some (t, s1) \<Rightarrow>
                 (case procd_thread_at_index t of
                    None \<Rightarrow> (reply_err EAGAIN, s1)
                  | Some t \<Rightarrow>
                      let s2 = s1\<lparr>g_threads := (g_threads s1)(t := (g_threads s1 t)\<lparr>
                                 t_owner_slot := rq_caller_slot req, t_tls_base := rq_tls req,
                                 t_ipc_buffer_vaddr := 0, t_clear_tid_ptr := rq_child_tid_ptr req,
                                 t_robust_list_head := 0\<rparr>)\<rparr>;
                          s3 = locked_update owner (\<lambda>p. p\<lparr>p_n_threads := p_n_threads p + 1\<rparr>) s2;
                          tid = t_tid (g_threads s3 t)
                      in (\<lparr>rp_result = tid, rp_out_slot = rq_caller_slot req, rp_out_extra = of_nat t\<rparr>,
                          announce PROCD_EV_THREAD_BORN (rq_caller_slot req) tid s3))))"

definition procd_clone_fork_like :: "procd \<Rightarrow> procd_request \<Rightarrow> procd_reply \<times> procd" where
  "procd_clone_fork_like s req =
     (case procd_table_get (rq_caller_slot req) of
        None \<Rightarrow> (reply_err ESRCH, s)
      | Some parent \<Rightarrow>
          if gone (g_procs s parent) then (reply_err ESRCH, s)
          else
            (case procd_slot_alloc s of
               None \<Rightarrow> (reply_err EAGAIN, announce PROCD_EV_TABLE_FULL (rq_caller_slot req) 0 s)
             | Some (i, s1) \<Rightarrow>
                 let s2 = locked_update i (\<lambda>p. (inherit (g_procs s1 parent) p)\<lparr>
                            p_ppid := (if rq_flags req AND LX_CLONE_PARENT \<noteq> 0 then p_ppid (g_procs s1 parent)
                                       else p_synthetic_pid (g_procs s1 parent)),
                            p_share_flags := ucast (rq_flags req AND
                              (LX_CLONE_FS OR LX_CLONE_FILES OR LX_CLONE_SIGHAND))\<rparr>) s1;
                     pid = p_synthetic_pid (g_procs s2 i);
                     s3 = announce PROCD_EV_PROC_BORN (of_nat i) pid s2;
                     s4 = (if rq_flags req AND LX_CLONE_VFORK \<noteq> 0
                           then announce PROCD_EV_PROC_BORN (of_nat i) (0xFF000000 OR pid) s3 else s3)
                 in (\<lparr>rp_result = of_nat i, rp_out_slot = of_nat i, rp_out_extra = ucast pid\<rparr>, s4)))"

definition clone_unsupported :: u64 where
  "clone_unsupported =
     LX_CLONE_NEWNS OR LX_CLONE_NEWPID OR LX_CLONE_NEWUSER OR LX_CLONE_NEWNET OR
     LX_CLONE_NEWIPC OR LX_CLONE_NEWUTS OR LX_CLONE_NEWCGROUP OR LX_CLONE_PTRACE"

definition procd_handle_clone :: "procd \<Rightarrow> procd_request \<Rightarrow> procd_reply \<times> procd" where
  "procd_handle_clone s req =
     (let flags = rq_flags req in
      if flags AND clone_unsupported \<noteq> 0
      then (reply_err ENOSYS,
            announce PROCD_EV_CLONE_FLAG_ENOSYS (rq_caller_slot req) (ucast (flags AND clone_unsupported)) s)
      else if flags AND LX_CLONE_THREAD \<noteq> 0
      then if flags AND LX_CLONE_VM = 0 \<or> flags AND LX_CLONE_SIGHAND = 0 then (reply_err EINVAL, s)
           else procd_clone_thread s req
      else procd_clone_fork_like s req)"


subsection \<open>Sessions and process groups\<close>

definition procd_handle_setsid :: "procd \<Rightarrow> procd_request \<Rightarrow> procd_reply \<times> procd" where
  "procd_handle_setsid s req =
     (case procd_table_get (rq_caller_slot req) of
        None \<Rightarrow> (reply_err ESRCH, s)
      | Some i \<Rightarrow>
          let p = g_procs s i in
          if p_state p = PROC_STATE_FREE then (reply_err ESRCH, s)
          else if p_pgid p = p_synthetic_pid p \<and> p_sid p = p_synthetic_pid p then (reply_err EPERM, s)
          else
            let s1 = locked_update i (\<lambda>p. p\<lparr>p_sid := p_synthetic_pid p, p_pgid := p_synthetic_pid p\<rparr>) s;
                p1 = g_procs s1 i
            in (\<lparr>rp_result = p_sid p1, rp_out_slot = p_slot p1, rp_out_extra = ucast (p_synthetic_pid p1)\<rparr>, s1))"

text \<open>The target of \<open>setpgid\<close> and \<open>getpgid\<close>: 0 and the own pid mean the caller.\<close>

definition pgid_target :: "procd \<Rightarrow> nat \<Rightarrow> u32 \<Rightarrow> nat option" where
  "pgid_target s caller target_pid =
     (if target_pid \<noteq> 0 \<and> target_pid \<noteq> p_synthetic_pid (g_procs s caller)
      then procd_table_lookup_by_synthetic_pid s target_pid else Some caller)"

definition procd_handle_setpgid :: "procd \<Rightarrow> procd_request \<Rightarrow> u32 \<Rightarrow> u32 \<Rightarrow> procd_reply \<times> procd" where
  "procd_handle_setpgid s req target_pid new_pgid =
     (case procd_table_get (rq_caller_slot req) of
        None \<Rightarrow> (reply_err ESRCH, s)
      | Some caller \<Rightarrow>
          if p_state (g_procs s caller) = PROC_STATE_FREE then (reply_err ESRCH, s)
          else
            (case pgid_target s caller target_pid of
               None \<Rightarrow> (reply_err ESRCH, s)
             | Some target \<Rightarrow>
                 let pgid = (if new_pgid = 0 then p_synthetic_pid (g_procs s target) else new_pgid);
                     s1 = locked_update target (\<lambda>p. p\<lparr>p_pgid := pgid\<rparr>) s
                 in (\<lparr>rp_result = 0, rp_out_slot = p_slot (g_procs s1 target), rp_out_extra = 0\<rparr>, s1)))"

definition procd_handle_getpgid :: "procd \<Rightarrow> procd_request \<Rightarrow> u32 \<Rightarrow> procd_reply \<times> procd" where
  "procd_handle_getpgid s req target_pid =
     (case procd_table_get (rq_caller_slot req) of
        None \<Rightarrow> (reply_err ESRCH, s)
      | Some caller \<Rightarrow>
          if p_state (g_procs s caller) = PROC_STATE_FREE then (reply_err ESRCH, s)
          else
            (case pgid_target s caller target_pid of
               None \<Rightarrow> (reply_err ESRCH, s)
             | Some target \<Rightarrow>
                 (\<lparr>rp_result = p_pgid (g_procs s target), rp_out_slot = p_slot (g_procs s target),
                   rp_out_extra = 0\<rparr>, s)))"


subsection \<open>Threads\<close>

definition procd_handle_thread_exit :: "procd \<Rightarrow> procd_request \<Rightarrow> procd_reply \<times> procd" where
  "procd_handle_thread_exit s req =
     (case procd_thread_by_tid s (rq_tid req) of
        None \<Rightarrow> (reply_err ESRCH, s)
      | Some t \<Rightarrow>
          let owner_slot = t_owner_slot (g_threads s t);
              s1 = (case procd_table_get owner_slot of
                      None \<Rightarrow> s
                    | Some owner \<Rightarrow>
                        locked_update owner
                          (\<lambda>p. if 0 < p_n_threads p then p\<lparr>p_n_threads := p_n_threads p - 1\<rparr> else p) s);
              found_idx = (case first_idx (\<lambda>i. procd_thread_at_index i = Some t) 1 PROCD_MAX_THREADS of
                             None \<Rightarrow> 0 | Some i \<Rightarrow> i);
              s2 = (if found_idx \<noteq> 0 then snd (procd_thread_free s1 found_idx) else s1)
          in (\<lparr>rp_result = 0, rp_out_slot = owner_slot, rp_out_extra = of_nat found_idx\<rparr>,
              announce PROCD_EV_THREAD_EXITED owner_slot (rq_tid req) s2))"

definition procd_handle_set_robust :: "procd \<Rightarrow> procd_request \<Rightarrow> procd_reply \<times> procd" where
  "procd_handle_set_robust s req =
     (let record_head = (\<lambda>t. s\<lparr>g_threads := (g_threads s)(t := (g_threads s t)\<lparr>t_robust_list_head := rq_robust_head req\<rparr>)\<rparr>);
          ok = (\<lambda>tid. \<lparr>rp_result = 0, rp_out_slot = rq_caller_slot req, rp_out_extra = ucast tid\<rparr>)
      in if rq_tid req = 0
         then (case first_idx (\<lambda>i. case procd_thread_at_index i of
                                     None \<Rightarrow> False
                                   | Some c \<Rightarrow> t_owner_slot (g_threads s c) = rq_caller_slot req)
                      1 PROCD_MAX_THREADS of
                 None \<Rightarrow> (ok 0, s)
               | Some t \<Rightarrow> (ok (t_tid (g_threads s t)), record_head t))
         else (case procd_thread_by_tid s (rq_tid req) of
                 None \<Rightarrow> (reply_err ESRCH, s)
               | Some t \<Rightarrow> (ok (rq_tid req), record_head t)))"


subsection \<open>Badge-gated mutations\<close>

definition functor_word :: "proc \<Rightarrow> u32" where
  "functor_word p = push_bit 16 (ucast (p_functor_fs p)) OR push_bit 8 (ucast (p_functor_net p)) OR
     ucast (p_functor_proc p)"

definition procd_handle_set_tier :: "procd \<Rightarrow> u64 \<Rightarrow> procd_request \<Rightarrow> u32 \<Rightarrow> procd_reply \<times> procd" where
  "procd_handle_set_tier s badge req new_tier =
     (if badge \<noteq> BADGE_ANOMALY_OP_SET_TIER
      then (reply_err EPERM, announce PROCD_EV_BADGE_REJECT (rq_caller_slot req) (ucast PROCD_OP_SET_TIER) s)
      else
        (case procd_table_get (rq_caller_slot req) of
           None \<Rightarrow> (reply_err ESRCH, s)
         | Some i \<Rightarrow>
             if p_state (g_procs s i) = PROC_STATE_FREE then (reply_err ESRCH, s)
             else if PROC_TIER_3 < new_tier then (reply_err EINVAL, s)
             else
               let old = p_tier (g_procs s i);
                   s1 = locked_update i (\<lambda>p. bind_default new_tier (p\<lparr>p_tier := new_tier\<rparr>)) s;
                   p = g_procs s1 i;
                   s2 = announce PROCD_EV_TIER_CHANGED (p_slot p) (push_bit 16 old OR new_tier) s1
               in (\<lparr>rp_result = 0, rp_out_slot = p_slot p, rp_out_extra = 0\<rparr>,
                   announce PROCD_EV_FUNCTOR_REBOUND (p_slot p) (functor_word p) s2)))"

definition procd_handle_set_session :: "procd \<Rightarrow> procd_request \<Rightarrow> u32 \<Rightarrow> procd_reply \<times> procd" where
  "procd_handle_set_session s req comm_present =
     (case procd_table_get (rq_target_slot req) of
        None \<Rightarrow> (reply_err ESRCH, s)
      | Some i \<Rightarrow>
          if p_state (g_procs s i) = PROC_STATE_FREE then (reply_err ESRCH, s)
          else
            let s1 = locked_update i (\<lambda>p.
                       let p1 = p\<lparr>p_cow_session := rq_cow_session req\<rparr>
                       in if comm_present \<noteq> 0 then p1\<lparr>p_comm := cstr_copy COMM_BYTES (rq_comm req)\<rparr> else p1) s
            in (\<lparr>rp_result = 0, rp_out_slot = p_slot (g_procs s1 i), rp_out_extra = 0\<rparr>, s1))"

definition procd_handle_rebind_functor ::
    "procd \<Rightarrow> u64 \<Rightarrow> procd_request \<Rightarrow> u32 \<Rightarrow> u32 \<Rightarrow> u32 \<Rightarrow> procd_reply \<times> procd" where
  "procd_handle_rebind_functor s badge req new_fs new_net new_proc =
     (if badge \<noteq> BADGE_ANOMALY_OP_SET_TIER
      then (reply_err EPERM,
            announce PROCD_EV_BADGE_REJECT (rq_caller_slot req) (ucast PROCD_OP_REBIND_FUNCTOR) s)
      else
        (case procd_table_get (rq_caller_slot req) of
           None \<Rightarrow> (reply_err ESRCH, s)
         | Some i \<Rightarrow>
             if p_state (g_procs s i) = PROC_STATE_FREE then (reply_err ESRCH, s)
             else
               let s1 = locked_update i (\<lambda>p. p\<lparr>p_functor_fs := ucast new_fs,
                           p_functor_net := ucast new_net, p_functor_proc := ucast new_proc\<rparr>) s;
                   p = g_procs s1 i
               in (\<lparr>rp_result = 0, rp_out_slot = p_slot p, rp_out_extra = 0\<rparr>,
                   announce PROCD_EV_FUNCTOR_REBOUND (p_slot p) (functor_word p) s1)))"


subsection \<open>The dispatcher\<close>

text \<open>The eight bytes of a word in memory order, and the C string in the first 15 of 16 bytes.\<close>

definition word_bytes :: "u64 \<Rightarrow> u8 list" where
  "word_bytes w = map (\<lambda>i. ucast (drop_bit (8 * i) w)) [0..<8]"

definition comm_of_words :: "u64 \<Rightarrow> u64 \<Rightarrow> u8 list" where
  "comm_of_words lo hi = takeWhile (\<lambda>b. b \<noteq> 0) (take 15 (word_bytes lo @ word_bytes hi))"

definition zero_request :: procd_request where
  "zero_request = \<lparr>rq_caller_slot = 0, rq_initial_tier = 0, rq_initial_pledge = 0, rq_comm = [],
     rq_flags = 0, rq_tls = 0, rq_child_tid_ptr = 0, rq_which = 0, rq_options = 0,
     rq_exit_status = 0, rq_tid = 0, rq_robust_head = 0, rq_target_slot = 0, rq_cow_session = 0\<rparr>"

definition procd_unpack :: "(nat \<Rightarrow> u64) \<Rightarrow> procd_request" where
  "procd_unpack mr =
     (let op = mr 0; req = zero_request\<lparr>rq_caller_slot := ucast (mr 1)\<rparr> in
      if op = PROCD_OP_SPAWN then
        req\<lparr>rq_initial_tier := ucast (mr 2),
            rq_initial_pledge := push_bit 32 (mr 4) OR (mr 3 AND 0xFFFFFFFF),
            rq_comm := comm_of_words (mr 5) (mr 6)\<rparr>
      else if op = PROCD_OP_SET_SESSION then
        req\<lparr>rq_target_slot := ucast (mr 1), rq_cow_session := ucast (mr 2),
            rq_comm := comm_of_words (mr 3) (mr 4)\<rparr>
      else if op = PROCD_OP_EXIT then req\<lparr>rq_exit_status := ucast (mr 2)\<rparr>
      else if op = PROCD_OP_WAIT then req\<lparr>rq_which := ucast (mr 2), rq_options := ucast (mr 3)\<rparr>
      else if op = PROCD_OP_CLONE then
        req\<lparr>rq_flags := mr 2, rq_tls := mr 3, rq_child_tid_ptr := mr 4\<rparr>
      else if op = PROCD_OP_THREAD_EXIT then req\<lparr>rq_tid := ucast (mr 2)\<rparr>
      else if op = PROCD_OP_SET_ROBUST then req\<lparr>rq_tid := ucast (mr 2), rq_robust_head := mr 3\<rparr>
      else req)"

definition procd_handle :: "procd \<Rightarrow> u64 \<Rightarrow> (nat \<Rightarrow> u64) \<Rightarrow> procd_reply \<times> procd" where
  "procd_handle s badge mr =
     (let op = mr 0; req = procd_unpack mr in
      if op = PROCD_OP_SPAWN then procd_handle_spawn s req
      else if op = PROCD_OP_FORK then procd_handle_fork s req
      else if op = PROCD_OP_EXIT then procd_handle_exit s req
      else if op = PROCD_OP_WAIT then procd_handle_wait s req
      else if op = PROCD_OP_EXEC then procd_handle_exec s req
      else if op = PROCD_OP_CLONE then procd_handle_clone s req
      else if op = PROCD_OP_THREAD_EXIT then procd_handle_thread_exit s req
      else if op = PROCD_OP_SET_ROBUST then procd_handle_set_robust s req
      else if op = PROCD_OP_SETSID then procd_handle_setsid s req
      else if op = PROCD_OP_SETPGID then procd_handle_setpgid s req (ucast (mr 2)) (ucast (mr 3))
      else if op = PROCD_OP_GETPGID then procd_handle_getpgid s req (ucast (mr 2))
      else if op = PROCD_OP_SET_TIER then procd_handle_set_tier s badge req (ucast (mr 2))
      else if op = PROCD_OP_REBIND_FUNCTOR
        then procd_handle_rebind_functor s badge req (ucast (mr 2)) (ucast (mr 3)) (ucast (mr 4))
      else if op = PROCD_OP_SET_SESSION then procd_handle_set_session s req (ucast (mr 5))
      else (reply_err ENOSYS, s))"

text \<open>Whether the dispatcher signals the subscriber notification after the handler.\<close>

definition procd_signals :: "u64 \<Rightarrow> procd_reply \<Rightarrow> bool" where
  "procd_signals op rep =
     (if op = PROCD_OP_CLONE then True
      else if op = PROCD_OP_WAIT then 0 < sint (rp_result rep)
      else if op \<in> {PROCD_OP_SPAWN, PROCD_OP_FORK, PROCD_OP_EXIT, PROCD_OP_EXEC, PROCD_OP_THREAD_EXIT,
                    PROCD_OP_SET_TIER, PROCD_OP_REBIND_FUNCTOR} then 0 \<le> sint (rp_result rep)
      else False)"

record procd_msg =
  pm_badge :: u64
  pm_mrs :: "nat \<Rightarrow> u64"

text \<open>One turn of the loop: reply registers, whether the subscribers are signalled, new state.\<close>

definition procd_dispatch :: "bool \<Rightarrow> procd \<Rightarrow> procd_msg \<Rightarrow> u64 list \<times> bool \<times> procd" where
  "procd_dispatch ev_ntf s m =
     (let (rep, s') = procd_handle s (pm_badge m) (pm_mrs m)
      in ([scast (rp_result rep), ucast (rp_out_slot rep), rp_out_extra rep],
          ev_ntf \<and> procd_signals (pm_mrs m 0) rep, s'))"

definition procd_boot :: "procd_event_ring \<Rightarrow> procd" where
  "procd_boot r = announce PROCD_EV_PROC_BORN 0 0xC0FFEE (procd_shm_init r)"

primrec procd_run :: "procd \<Rightarrow> procd_msg list \<Rightarrow> procd" where
  "procd_run s [] = s"
| "procd_run s (m # ms) = procd_run (snd (procd_handle s (pm_badge m) (pm_mrs m))) ms"

end
