(* ===== verification/ProcInvariant.thy ===== *)
theory ProcInvariant
  imports ProcHandlers
begin

text \<open>
  The transitions of the process server as a step relation that every request handler
  follows, up to the events it announces, and the invariant of its tables: slots are handed
  out in order and never freed, so pid, slot index and allocation order coincide; sequence
  counters are even between requests; and every process counts exactly its live threads.
\<close>

subsection \<open>Announcements touch only the ring\<close>

lemma announce_select [simp]:
  "g_hdr (announce k sl x s) = g_hdr s" "g_procs (announce k sl x s) = g_procs s"
  "g_threads (announce k sl x s) = g_threads s" "g_next_pid (announce k sl x s) = g_next_pid s"
  "g_next_tid (announce k sl x s) = g_next_tid s"
  by (simp_all add: announce_def)

lemma locked_update_select [simp]:
  "g_hdr (locked_update i f s) = g_hdr s" "g_threads (locked_update i f s) = g_threads s"
  "g_next_pid (locked_update i f s) = g_next_pid s" "g_next_tid (locked_update i f s) = g_next_tid s"
  "g_ring (locked_update i f s) = g_ring s"
  "g_procs (locked_update i f s) k =
     (if k = i then procd_seqlock_end (f (procd_seqlock_begin (g_procs s i))) else g_procs s k)"
  by (simp_all add: locked_update_def)

lemma seqlock_select [simp]:
  "p_slot (procd_seqlock_begin p) = p_slot p" "p_synthetic_pid (procd_seqlock_begin p) = p_synthetic_pid p"
  "p_state (procd_seqlock_begin p) = p_state p" "p_tier (procd_seqlock_begin p) = p_tier p"
  "p_ppid (procd_seqlock_begin p) = p_ppid p" "p_pgid (procd_seqlock_begin p) = p_pgid p"
  "p_sid (procd_seqlock_begin p) = p_sid p" "p_n_threads (procd_seqlock_begin p) = p_n_threads p"
  "p_functor_fs (procd_seqlock_begin p) = p_functor_fs p" "p_functor_net (procd_seqlock_begin p) = p_functor_net p"
  "p_functor_proc (procd_seqlock_begin p) = p_functor_proc p" "p_exit_code (procd_seqlock_begin p) = p_exit_code p"
  "p_slot (procd_seqlock_end p) = p_slot p" "p_synthetic_pid (procd_seqlock_end p) = p_synthetic_pid p"
  "p_state (procd_seqlock_end p) = p_state p" "p_tier (procd_seqlock_end p) = p_tier p"
  "p_ppid (procd_seqlock_end p) = p_ppid p" "p_pgid (procd_seqlock_end p) = p_pgid p"
  "p_sid (procd_seqlock_end p) = p_sid p" "p_n_threads (procd_seqlock_end p) = p_n_threads p"
  "p_functor_fs (procd_seqlock_end p) = p_functor_fs p" "p_functor_net (procd_seqlock_end p) = p_functor_net p"
  "p_functor_proc (procd_seqlock_end p) = p_functor_proc p" "p_exit_code (procd_seqlock_end p) = p_exit_code p"
  "p_version (procd_seqlock_begin p) = p_version p OR 1" "p_version (procd_seqlock_end p) = p_version p + 1"
  by (simp_all add: procd_seqlock_begin_def procd_seqlock_end_def)

lemma bind_default_select [simp]:
  "p_slot (bind_default t p) = p_slot p" "p_synthetic_pid (bind_default t p) = p_synthetic_pid p"
  "p_state (bind_default t p) = p_state p" "p_tier (bind_default t p) = p_tier p"
  "p_n_threads (bind_default t p) = p_n_threads p" "p_version (bind_default t p) = p_version p"
  "p_ppid (bind_default t p) = p_ppid p" "p_pgid (bind_default t p) = p_pgid p" "p_sid (bind_default t p) = p_sid p"
  by (simp_all add: bind_default_def split_beta)

definition announces :: "(u32 \<times> u32 \<times> u32) list \<Rightarrow> procd \<Rightarrow> procd" where
  "announces es s = fold (\<lambda>(k, sl, x). announce k sl x) es s"

lemma announces_simps [simp]: "announces [] s = s" "announces ((k, sl, x) # es) s = announces es (announce k sl x s)"
  by (simp_all add: announces_def)

lemma announces_select [simp]:
  "g_hdr (announces es s) = g_hdr s" "g_procs (announces es s) = g_procs s"
  "g_threads (announces es s) = g_threads s" "g_next_pid (announces es s) = g_next_pid s"
  "g_next_tid (announces es s) = g_next_tid s"
  by (induction es arbitrary: s; force)+


subsection \<open>The transitions of the server\<close>

text \<open>The moves of a process state: exit and exec of a process that is neither free nor
  reaped, and the reaping of a zombie.\<close>

definition state_move :: "proc_state \<Rightarrow> proc_state \<Rightarrow> bool" where
  "state_move a b \<longleftrightarrow> a = b \<or>
     (a \<noteq> PROC_STATE_FREE \<and> a \<noteq> PROC_STATE_DEAD \<and> (b = PROC_STATE_ZOMBIE \<or> b = PROC_STATE_RUNNING)) \<or>
     (a = PROC_STATE_ZOMBIE \<and> b = PROC_STATE_DEAD)"

definition same_identity :: "proc \<Rightarrow> proc \<Rightarrow> bool" where
  "same_identity p q \<longleftrightarrow> p_slot q = p_slot p \<and> p_synthetic_pid q = p_synthetic_pid p \<and>
     p_n_threads q = p_n_threads p \<and> p_version q = p_version p"

definition same_confinement :: "proc \<Rightarrow> proc \<Rightarrow> bool" where
  "same_confinement p q \<longleftrightarrow> p_tier q = p_tier p \<and> p_functor_fs q = p_functor_fs p \<and>
     p_functor_net q = p_functor_net p \<and> p_functor_proc q = p_functor_proc p"

definition own_thread :: "u32 \<Rightarrow> u64 \<Rightarrow> u64 \<Rightarrow> procd_thread \<Rightarrow> procd_thread" where
  "own_thread slot tls ctid th = th\<lparr>t_owner_slot := slot, t_tls_base := tls,
     t_ipc_buffer_vaddr := 0, t_clear_tid_ptr := ctid, t_robust_list_head := 0\<rparr>"

definition thread_gone :: "procd \<Rightarrow> nat \<Rightarrow> procd" where
  "thread_gone s t =
     (let s1 = (case procd_table_get (t_owner_slot (g_threads s t)) of
                      None \<Rightarrow> s
                    | Some owner \<Rightarrow>
                        locked_update owner
                          (\<lambda>p. if 0 < p_n_threads p then p\<lparr>p_n_threads := p_n_threads p - 1\<rparr> else p) s)
      in s1\<lparr>g_threads := (g_threads s1)(t := zero_thread)\<rparr>)"

inductive proc_step :: "u64 \<Rightarrow> procd \<Rightarrow> procd \<Rightarrow> bool" for b where
  none: "proc_step b s s"
| born: "procd_slot_alloc s = Some (i, s1) \<Longrightarrow> (\<And>p. same_identity p (f p)) \<Longrightarrow>
     (\<And>p. p_state (f p) = PROC_STATE_NASCENT) \<Longrightarrow> proc_step b s (locked_update i f s1)"
| change: "i < PROCD_MAX_PROCS \<Longrightarrow> p_state (g_procs s i) \<noteq> PROC_STATE_FREE \<Longrightarrow>
     p = procd_seqlock_begin (g_procs s i) \<Longrightarrow> same_identity p (f p) \<Longrightarrow>
     state_move (p_state p) (p_state (f p)) \<Longrightarrow>
     b = BADGE_ANOMALY_OP_SET_TIER \<or> same_confinement p (f p) \<Longrightarrow> proc_step b s (locked_update i f s)"
| thread_born: "procd_table_get slot = Some i \<Longrightarrow> \<not> gone (g_procs s i) \<Longrightarrow>
     procd_thread_alloc s = Some (t, s1) \<Longrightarrow>
     proc_step b s (locked_update i (\<lambda>p. p\<lparr>p_n_threads := p_n_threads p + 1\<rparr>)
        (s1\<lparr>g_threads := (g_threads s1)(t := own_thread slot tls ctid (g_threads s1 t))\<rparr>))"
| thread_end: "procd_thread_by_tid s tid = Some t \<Longrightarrow> proc_step b s (thread_gone s t)"
| robust: "proc_step b s (s\<lparr>g_threads := (g_threads s)(t := (g_threads s t)\<lparr>t_robust_list_head := h\<rparr>)\<rparr>)"

definition handled :: "u64 \<Rightarrow> procd \<Rightarrow> procd \<Rightarrow> bool" where
  "handled b s s' \<longleftrightarrow> (\<exists>s1 es. proc_step b s s1 \<and> s' = announces es s1 \<and> length es \<le> 2)"

lemma handledI: "proc_step b s s1 \<Longrightarrow> s' = announces es s1 \<Longrightarrow> length es \<le> 2 \<Longrightarrow> handled b s s'"
  unfolding handled_def by blast

lemma handled_one:
  "proc_step b s s1 \<Longrightarrow> handled b s s1" "proc_step b s s1 \<Longrightarrow> handled b s (announce k sl x s1)"
  "proc_step b s s1 \<Longrightarrow> handled b s (announce k' sl' x' (announce k sl x s1))"
  using handledI [of b s s1 _ "[]"] handledI [of b s s1 _ "[(k, sl, x)]"]
    handledI [of b s s1 _ "[(k, sl, x), (k', sl', x')]"] by simp_all

lemma handled_none: "handled b s s" "handled b s (announce k sl x s)"
  by (intro handled_one proc_step.none)+

lemma table_get_SomeD: "procd_table_get slot = Some i \<Longrightarrow> i = unat slot \<and> i < PROCD_MAX_PROCS"
  by (auto simp: procd_table_get_def split: if_splits)

lemma inherit_select [simp]:
  "same_identity p (inherit q p)" "p_state (inherit q p) = PROC_STATE_NASCENT"
  by (simp_all add: inherit_def same_identity_def)

lemma spawn_handled: "handled b s (snd (procd_handle_spawn s req))"
  by (auto simp: procd_handle_spawn_def Let_def same_identity_def split: option.splits
      intro!: handled_none handled_one proc_step.born)

lemma fork_handled: "handled b s (snd (procd_handle_fork s req))"
proof -
  have "handled b s (snd (do_fork_real s i req))" for i
    by (auto simp: do_fork_real_def Let_def split: option.splits
        intro!: handled_none handled_one proc_step.born)
  moreover have "handled b s (snd (do_fork_synth s i req))" for i
    by (auto simp: do_fork_synth_def Let_def same_identity_def inherit_def split: option.splits
        intro!: handled_none handled_one proc_step.born)
  ultimately show ?thesis
    by (auto simp: procd_handle_fork_def Let_def split: option.splits intro!: handled_none)
qed

lemmas change_defs = same_identity_def same_confinement_def state_move_def gone_def

lemma exit_handled: "handled b s (snd (procd_handle_exit s req))"
  by (auto simp: procd_handle_exit_def Let_def change_defs split: option.splits dest!: table_get_SomeD
      intro!: handled_none handled_one proc_step.change)

lemma exec_handled: "handled b s (snd (procd_handle_exec s req))"
  by (auto simp: procd_handle_exec_def Let_def change_defs split: option.splits dest!: table_get_SomeD
      intro!: handled_none handled_one proc_step.change)

lemma wait_handled: "handled b s (snd (procd_handle_wait s req))"
  by (auto simp: procd_handle_wait_def procd_table_first_zombie_child_def Let_def change_defs split: option.splits
      dest!: table_get_SomeD first_idx_SomeD intro!: handled_none handled_one proc_step.change)

lemma setsid_handled: "handled b s (snd (procd_handle_setsid s req))"
  by (auto simp: procd_handle_setsid_def Let_def change_defs split: option.splits
      dest!: table_get_SomeD intro!: handled_none handled_one proc_step.change)

lemma pgid_target_SomeD:
  "pgid_target s c pid = Some t \<Longrightarrow> c < PROCD_MAX_PROCS \<Longrightarrow> p_state (g_procs s c) \<noteq> PROC_STATE_FREE \<Longrightarrow>
     t < PROCD_MAX_PROCS \<and> p_state (g_procs s t) \<noteq> PROC_STATE_FREE"
  by (auto simp: pgid_target_def procd_table_lookup_by_synthetic_pid_def split: if_splits dest!: first_idx_SomeD)

lemma setpgid_handled: "handled b s (snd (procd_handle_setpgid s req t g))"
  by (auto simp: procd_handle_setpgid_def Let_def change_defs split: option.splits
      dest!: table_get_SomeD dest: pgid_target_SomeD intro!: handled_none handled_one proc_step.change)

lemma getpgid_handled: "handled b s (snd (procd_handle_getpgid s req t))"
  by (auto simp: procd_handle_getpgid_def Let_def split: option.splits intro!: handled_none)

lemma set_tier_handled: "handled b s (snd (procd_handle_set_tier s b req t))"
  by (auto simp: procd_handle_set_tier_def Let_def change_defs split: option.splits
      dest!: table_get_SomeD intro!: handled_none handled_one proc_step.change)

lemma rebind_handled: "handled b s (snd (procd_handle_rebind_functor s b req x y z))"
  by (auto simp: procd_handle_rebind_functor_def Let_def change_defs split: option.splits
      dest!: table_get_SomeD intro!: handled_none handled_one proc_step.change)

lemma set_session_handled: "handled b s (snd (procd_handle_set_session s req c))"
  by (cases "c = 0") (auto simp: procd_handle_set_session_def Let_def change_defs split: option.splits
      dest!: table_get_SomeD intro!: handled_none handled_one proc_step.change)

lemma clone_thread_handled: "handled b s (snd (procd_clone_thread s req))"
proof (cases "procd_table_get (rq_caller_slot req)")
  case None
  then show ?thesis by (simp add: procd_clone_thread_def handled_none)
next
  case (Some i)
  show ?thesis
  proof (cases "procd_thread_alloc s")
    case None
    with Some show ?thesis by (simp add: procd_clone_thread_def handled_none)
  next
    case (Some p)
    obtain t s1 where p: "p = (t, s1)" by fastforce
    then have "procd_thread_at_index t = Some t"
      using Some by (auto simp: procd_thread_at_index_def procd_thread_alloc_def split: option.splits
          dest!: first_idx_SomeD)
    with Some p \<open>procd_table_get _ = Some i\<close> show ?thesis
      by (auto simp: procd_clone_thread_def Let_def own_thread_def [symmetric]
          intro!: handled_none handled_one proc_step.thread_born)
  qed
qed

lemma clone_fork_like_handled: "handled b s (snd (procd_clone_fork_like s req))"
  by (auto simp: procd_clone_fork_like_def Let_def same_identity_def inherit_def split: option.splits
      intro!: handled_none handled_one proc_step.born)

lemma clone_handled: "handled b s (snd (procd_handle_clone s req))"
  using clone_thread_handled clone_fork_like_handled
  by (auto simp: procd_handle_clone_def Let_def intro!: handled_none)

lemma thread_exit_eq:
  assumes "procd_thread_by_tid s (rq_tid req) = Some t"
  shows "snd (procd_handle_thread_exit s req) =
    announce PROCD_EV_THREAD_EXITED (t_owner_slot (g_threads s t)) (rq_tid req) (thread_gone s t)"
proof -
  have t: "1 \<le> t" "t < PROCD_MAX_THREADS"
    using assms by (auto simp: procd_thread_by_tid_def split: if_splits dest!: first_idx_SomeD)
  have "first_idx (\<lambda>i. procd_thread_at_index i = Some t) 1 PROCD_MAX_THREADS = Some t"
    by (rule first_idx_unique) (use t in \<open>auto simp: procd_thread_at_index_def split: if_splits\<close>)
  with assms t show ?thesis
    by (simp add: procd_handle_thread_exit_def thread_gone_def Let_def procd_thread_free_def)
qed

lemma thread_exit_handled: "handled b s (snd (procd_handle_thread_exit s req))"
proof (cases "procd_thread_by_tid s (rq_tid req)")
  case None
  then show ?thesis by (simp add: procd_handle_thread_exit_def handled_none)
next
  case (Some t)
  then show ?thesis unfolding thread_exit_eq [OF Some]
    by (intro handled_one proc_step.thread_end)
qed

lemma set_robust_handled: "handled b s (snd (procd_handle_set_robust s req))"
  by (auto simp: procd_handle_set_robust_def Let_def split: option.splits
      intro!: handled_none handled_one proc_step.robust)

lemma handle_handled: "handled b s (snd (procd_handle s b mr))"
  using spawn_handled fork_handled exit_handled wait_handled exec_handled clone_handled
    thread_exit_handled set_robust_handled setsid_handled setpgid_handled getpgid_handled
    set_tier_handled rebind_handled set_session_handled handled_none
  by (simp add: procd_handle_def Let_def)

subsection \<open>The invariant of the tables\<close>

definition procs_ok :: "procd \<Rightarrow> bool" where
  "procs_ok s \<longleftrightarrow>
     h_magic (g_hdr s) = PROCD_SHM_MAGIC \<and>
     1 \<le> unat (g_next_pid s) \<and> unat (g_next_pid s) \<le> PROCD_MAX_PROCS \<and>
     p_state (g_procs s 0) = PROC_STATE_DEAD \<and>
     (\<forall>i. p_state (g_procs s i) \<noteq> PROC_STATE_FREE \<longleftrightarrow> i < unat (g_next_pid s)) \<and>
     (\<forall>i < unat (g_next_pid s). p_slot (g_procs s i) = of_nat i \<and> p_synthetic_pid (g_procs s i) = of_nat i) \<and>
     (\<forall>i. even (p_version (g_procs s i)))"

definition owned :: "procd \<Rightarrow> nat \<Rightarrow> nat set" where
  "owned s i = {t. t_tid (g_threads s t) \<noteq> 0 \<and> unat (t_owner_slot (g_threads s t)) = i}"

definition threads_ok :: "procd \<Rightarrow> bool" where
  "threads_ok s \<longleftrightarrow>
     (\<forall>t. t_tid (g_threads s t) \<noteq> 0 \<longrightarrow> 1 \<le> t \<and> t < PROCD_MAX_THREADS \<and>
        unat (t_tid (g_threads s t)) < unat (g_next_tid s) \<and>
        unat (t_owner_slot (g_threads s t)) < unat (g_next_pid s)) \<and>
     (\<forall>t u. t_tid (g_threads s t) \<noteq> 0 \<and> t_tid (g_threads s t) = t_tid (g_threads s u) \<longrightarrow> t = u) \<and>
     0 < unat (g_next_tid s) \<and>
     (\<forall>i < unat (g_next_pid s). unat (p_n_threads (g_procs s i)) = card (owned s i)) \<and>
     (\<forall>i. unat (g_next_pid s) \<le> i \<longrightarrow> p_n_threads (g_procs s i) = 0)"

definition procd_ok :: "procd \<Rightarrow> bool" where
  "procd_ok s \<longleftrightarrow> procs_ok s \<and> threads_ok s"

lemma procs_okD:
  assumes "procs_ok s"
  shows "h_magic (g_hdr s) = PROCD_SHM_MAGIC" "1 \<le> unat (g_next_pid s)" "unat (g_next_pid s) \<le> PROCD_MAX_PROCS"
    "p_state (g_procs s 0) = PROC_STATE_DEAD"
    "p_state (g_procs s i) \<noteq> PROC_STATE_FREE \<longleftrightarrow> i < unat (g_next_pid s)"
    "i < unat (g_next_pid s) \<Longrightarrow> p_slot (g_procs s i) = of_nat i"
    "i < unat (g_next_pid s) \<Longrightarrow> p_synthetic_pid (g_procs s i) = of_nat i"
    "even (p_version (g_procs s i))"
  using assms unfolding procs_ok_def by blast+

lemma procs_okI:
  assumes "h_magic (g_hdr s) = PROCD_SHM_MAGIC" and "1 \<le> unat (g_next_pid s)" and "unat (g_next_pid s) \<le> PROCD_MAX_PROCS"
    and "p_state (g_procs s 0) = PROC_STATE_DEAD"
    and "\<And>i. p_state (g_procs s i) \<noteq> PROC_STATE_FREE \<longleftrightarrow> i < unat (g_next_pid s)"
    and "\<And>i. i < unat (g_next_pid s) \<Longrightarrow> p_slot (g_procs s i) = of_nat i"
    and "\<And>i. i < unat (g_next_pid s) \<Longrightarrow> p_synthetic_pid (g_procs s i) = of_nat i"
    and "\<And>i. even (p_version (g_procs s i))"
  shows "procs_ok s"
  using assms unfolding procs_ok_def by blast

lemma threads_okD:
  assumes "threads_ok s"
  shows "t_tid (g_threads s t) \<noteq> 0 \<Longrightarrow> 1 \<le> t \<and> t < PROCD_MAX_THREADS"
    "t_tid (g_threads s t) \<noteq> 0 \<Longrightarrow> unat (t_tid (g_threads s t)) < unat (g_next_tid s)"
    "t_tid (g_threads s t) \<noteq> 0 \<Longrightarrow> unat (t_owner_slot (g_threads s t)) < unat (g_next_pid s)"
    "t_tid (g_threads s t) \<noteq> 0 \<Longrightarrow> t_tid (g_threads s t) = t_tid (g_threads s u) \<Longrightarrow> t = u"
    "0 < unat (g_next_tid s)"
    "i < unat (g_next_pid s) \<Longrightarrow> unat (p_n_threads (g_procs s i)) = card (owned s i)"
    "unat (g_next_pid s) \<le> i \<Longrightarrow> p_n_threads (g_procs s i) = 0"
  using assms unfolding threads_ok_def by blast+

lemma threads_okI:
  assumes "\<And>t. t_tid (g_threads s t) \<noteq> 0 \<Longrightarrow> 1 \<le> t \<and> t < PROCD_MAX_THREADS"
    and "\<And>t. t_tid (g_threads s t) \<noteq> 0 \<Longrightarrow> unat (t_tid (g_threads s t)) < unat (g_next_tid s)"
    and "\<And>t. t_tid (g_threads s t) \<noteq> 0 \<Longrightarrow> unat (t_owner_slot (g_threads s t)) < unat (g_next_pid s)"
    and "\<And>t u. t_tid (g_threads s t) \<noteq> 0 \<Longrightarrow> t_tid (g_threads s t) = t_tid (g_threads s u) \<Longrightarrow> t = u"
    and "0 < unat (g_next_tid s)"
    and "\<And>i. i < unat (g_next_pid s) \<Longrightarrow> unat (p_n_threads (g_procs s i)) = card (owned s i)"
    and "\<And>i. unat (g_next_pid s) \<le> i \<Longrightarrow> p_n_threads (g_procs s i) = 0"
  shows "threads_ok s"
  using assms unfolding threads_ok_def by blast

lemma procd_ok_announces [simp]: "procd_ok (announces es s) = procd_ok s"
  unfolding procd_ok_def procs_ok_def threads_ok_def owned_def by simp

lemma even_locked: "even (v :: u64) \<Longrightarrow> even ((v OR 1) + 1)"
  by (simp add: even_or_iff)

lemma alloc_next:
  assumes "procs_ok s"
  shows "procd_slot_alloc s = Some (i, s1) \<longleftrightarrow>
    i = unat (g_next_pid s) \<and> i < PROCD_MAX_PROCS \<and>
    s1 = s\<lparr>g_procs := (g_procs s)(i := zero_proc\<lparr>p_slot := of_nat i,
             p_synthetic_pid := g_next_pid s, p_state := PROC_STATE_NASCENT\<rparr>),
           g_next_pid := g_next_pid s + 1\<rparr>"
proof -
  let ?n = "unat (g_next_pid s)"
  have free: "p_state (g_procs s k) = PROC_STATE_FREE \<longleftrightarrow> ?n \<le> k" for k
    using procs_okD(5) [OF assms, of k] by auto
  have "first_idx (\<lambda>i. p_state (g_procs s i) = PROC_STATE_FREE) 1 PROCD_MAX_PROCS =
        (if ?n < PROCD_MAX_PROCS then Some ?n else None)"
    using procs_okD(2,3) [OF assms] by (auto simp: free first_idx_Some_iff first_idx_None_iff)
  then show ?thesis by (auto simp: procd_slot_alloc_def split: if_splits)
qed

lemma born_ok:
  assumes ok: "procd_ok s" and a: "procd_slot_alloc s = Some (i, s1)"
    and f: "\<And>p. same_identity p (f p)" "\<And>p. p_state (f p) = PROC_STATE_NASCENT"
  shows "procd_ok (locked_update i f s1)"
proof -
  have po: "procs_ok s" and th: "threads_ok s" using ok by (simp_all add: procd_ok_def)
  let ?n = "unat (g_next_pid s)" and ?s = "locked_update i f s1"
  have i: "i = ?n" "i < PROCD_MAX_PROCS" and s1: "s1 = s\<lparr>g_procs := (g_procs s)(i := zero_proc\<lparr>p_slot := of_nat i,
             p_synthetic_pid := g_next_pid s, p_state := PROC_STATE_NASCENT\<rparr>),
           g_next_pid := g_next_pid s + 1\<rparr>"
    using a alloc_next [OF po] by auto
  have n1: "unat (g_next_pid s1) = Suc ?n" using i by (simp add: s1 unat_Suc_word limits)
  have ix: "i \<noteq> 0" using i procs_okD(2) [OF po] by simp
  have f': "p_slot (f p) = p_slot p" "p_synthetic_pid (f p) = p_synthetic_pid p" 
    "p_n_threads (f p) = p_n_threads p" "p_version (f p) = p_version p" for p
    using f(1) by (auto simp: same_identity_def)
  have np: "g_next_pid s = of_nat i" using i(1) by simp
  have g: "g_procs ?s k = (if k = i then procd_seqlock_end (f (procd_seqlock_begin (zero_proc\<lparr>p_slot := of_nat i,
             p_synthetic_pid := of_nat i, p_state := PROC_STATE_NASCENT\<rparr>))) else g_procs s k)" for k
    by (simp add: s1 np)
  have n2: "unat (g_next_pid ?s) = Suc i" using n1 i by simp
  have "procs_ok ?s"
  proof (rule procs_okI, unfold n2)
    fix k
    show "(p_state (g_procs ?s k) \<noteq> PROC_STATE_FREE) = (k < Suc i)"
      using procs_okD(5) [OF po, of k] i(1) [symmetric] by (auto simp: g f simp del: locked_update_select(6))
    show "even (p_version (g_procs ?s k))" using procs_okD(8) [OF po, of k] by (simp add: g f' zero_proc_def del: locked_update_select(6))
    assume "k < Suc i"
    then show "p_slot (g_procs ?s k) = of_nat k" "p_synthetic_pid (g_procs ?s k) = of_nat k"
      using procs_okD(6,7) [OF po, of k] i(1) [symmetric] by (auto simp: g f' less_Suc_eq simp del: locked_update_select(6))
  qed (use i(2) ix procs_okD(1,4) [OF po] in \<open>simp_all add: s1\<close>)
  moreover have "threads_ok ?s"
  proof (rule threads_okI)
    have none: "card (owned s i) = 0"
    proof -
      have "owned s i = {}" using i(1) by (auto simp: owned_def dest: threads_okD(3) [OF th])
      then show ?thesis by simp
    qed
    fix k
    assume "k < unat (g_next_pid ?s)"
    then have "k = i \<or> k < ?n" using n1 i(1) by auto
    moreover have "owned ?s k = owned s k" by (simp add: owned_def s1)
    ultimately show "unat (p_n_threads (g_procs ?s k)) = card (owned ?s k)"
      using none threads_okD(6) [OF th, of k] i(1) by (auto simp: f' s1 zero_proc_def)
  next
    fix k assume "unat (g_next_pid ?s) \<le> k"
    then show "p_n_threads (g_procs ?s k) = 0"
      using n1 i(1) threads_okD(7) [OF th, of k] by (auto simp: s1)
  next
    fix t assume t: "t_tid (g_threads ?s t) \<noteq> 0"
    then have t': "t_tid (g_threads s t) \<noteq> 0" by (simp add: s1)
    show "1 \<le> t \<and> t < PROCD_MAX_THREADS" by (rule threads_okD(1) [OF th t'])
    show "unat (t_tid (g_threads ?s t)) < unat (g_next_tid ?s)" using threads_okD(2) [OF th t'] by (simp add: s1)
    show "unat (t_owner_slot (g_threads ?s t)) < unat (g_next_pid ?s)"
      using threads_okD(3) [OF th t'] n2 i(1) by (simp add: s1)
    show "t = u" if "t_tid (g_threads ?s t) = t_tid (g_threads ?s u)" for u
      using threads_okD(4) [OF th t', of u] that by (simp add: s1)
  qed (use threads_okD(5) [OF th] in \<open>simp add: s1\<close>)
  ultimately show ?thesis by (simp add: procd_ok_def)
qed

text \<open>Two states with the same table data are equally well formed.\<close>

lemma procs_ok_cong:
  assumes "procs_ok s" and "g_hdr s' = g_hdr s" and "g_next_pid s' = g_next_pid s"
    and "\<And>i. p_state (g_procs s' i) = p_state (g_procs s i)" and "\<And>i. p_slot (g_procs s' i) = p_slot (g_procs s i)"
    and "\<And>i. p_synthetic_pid (g_procs s' i) = p_synthetic_pid (g_procs s i)"
    and "\<And>i. even (p_version (g_procs s' i))"
  shows "procs_ok s'"
  using assms(1,7) unfolding procs_ok_def assms(2-6) by blast

lemma threads_ok_cong:
  assumes "threads_ok s" and "\<And>t. t_tid (g_threads s' t) = t_tid (g_threads s t)"
    and "\<And>t. t_owner_slot (g_threads s' t) = t_owner_slot (g_threads s t)"
    and "g_next_pid s' = g_next_pid s" and "g_next_tid s' = g_next_tid s"
    and "\<And>i. p_n_threads (g_procs s' i) = p_n_threads (g_procs s i)"
  shows "threads_ok s'"
proof -
  have "threads_ok s' = threads_ok s" by (simp only: threads_ok_def owned_def assms(2-))
  with assms(1) show ?thesis by blast
qed

lemma change_ok:
  assumes ok: "procd_ok s" and i: "p_state (g_procs s i) \<noteq> PROC_STATE_FREE"
    and f: "same_identity (procd_seqlock_begin (g_procs s i)) (f (procd_seqlock_begin (g_procs s i)))"
      "state_move (p_state (g_procs s i)) (p_state (f (procd_seqlock_begin (g_procs s i))))"
  shows "procd_ok (locked_update i f s)"
proof -
  have po: "procs_ok s" and th: "threads_ok s" using ok by (simp_all add: procd_ok_def)
  let ?s = "locked_update i f s"
  have live: "p_state (g_procs ?s k) = PROC_STATE_FREE \<longleftrightarrow> p_state (g_procs s k) = PROC_STATE_FREE" for k
    using i f(2) by (auto simp: state_move_def)
  have "p_state (g_procs ?s 0) = PROC_STATE_DEAD"
    using f(2) procs_okD(4) [OF po] by (auto simp: state_move_def)
  then have "procs_ok ?s"
  proof (rule procs_okI [rotated 3])
    fix k
    show "(p_state (g_procs ?s k) \<noteq> PROC_STATE_FREE) = (k < unat (g_next_pid ?s))"
      using procs_okD(5) [OF po, of k] live [of k] by simp
    show "even (p_version (g_procs ?s k))" using procs_okD(8) [OF po, of k] f(1)
      by (simp add: same_identity_def even_or_iff)
    assume "k < unat (g_next_pid ?s)"
    then show "p_slot (g_procs ?s k) = of_nat k" "p_synthetic_pid (g_procs ?s k) = of_nat k"
      using procs_okD(6,7) [OF po, of k] f(1) by (auto simp: same_identity_def)
  qed (use procs_okD(1-3) [OF po] in simp_all)
  moreover have "threads_ok ?s"
  proof -
    have "p_n_threads (g_procs ?s k) = p_n_threads (g_procs s k)" for k using f(1) by (simp add: same_identity_def)
    then show ?thesis by (intro threads_ok_cong [OF th]) simp_all
  qed
  ultimately show ?thesis by (simp add: procd_ok_def)
qed

lemma finite_owned: "threads_ok s \<Longrightarrow> finite (owned s i)"
  by (rule finite_subset [of _ "{..<PROCD_MAX_THREADS}"]) (auto simp: owned_def dest: threads_okD(1))

lemma card_owned: "threads_ok s \<Longrightarrow> card (owned s i) < PROCD_MAX_THREADS"
proof -
  assume th: "threads_ok s"
  have "owned s i \<subseteq> {1..<PROCD_MAX_THREADS}" using threads_okD(1) [OF th] by (auto simp: owned_def)
  then have "card (owned s i) \<le> card {1..<PROCD_MAX_THREADS}" by (intro card_mono) auto
  then show ?thesis by (simp add: limits)
qed

lemma thread_born_ok:
  assumes ok: "procd_ok s" and left: "unat (g_next_tid s) + 1 < 2 ^ 32"
    and o: "procd_table_get slot = Some i" "\<not> gone (g_procs s i)" and a: "procd_thread_alloc s = Some (t, s1)"
  shows "procd_ok (locked_update i (\<lambda>p. p\<lparr>p_n_threads := p_n_threads p + 1\<rparr>)
        (s1\<lparr>g_threads := (g_threads s1)(t := own_thread slot tls ctid (g_threads s1 t))\<rparr>))" (is "procd_ok ?s")
proof -
  have po: "procs_ok s" and th: "threads_ok s" using ok by (simp_all add: procd_ok_def)
  note i = table_get_SomeD [OF o(1)]
  have live: "i < unat (g_next_pid s)" using procs_okD(5) [OF po, of i] o(2) by (simp add: gone_def)
  have t: "1 \<le> t" "t < PROCD_MAX_THREADS" "t_tid (g_threads s t) = 0"
    and s1: "s1 = s\<lparr>g_threads := (g_threads s)(t := zero_thread\<lparr>t_tid := g_next_tid s, t_state := 1\<rparr>),
                     g_next_tid := g_next_tid s + 1\<rparr>"
    using a by (auto simp: procd_thread_alloc_def split: option.splits dest!: first_idx_SomeD)
  have nt: "unat (g_next_tid s + 1) = Suc (unat (g_next_tid s))" using left by (simp add: unat_Suc_word)
  have nz: "g_next_tid s \<noteq> 0" using threads_okD(5) [OF th] by auto
  have tids: "t_tid (g_threads ?s u) = (if u = t then g_next_tid s else t_tid (g_threads s u))"
    and owner: "t_owner_slot (g_threads ?s u) = (if u = t then slot else t_owner_slot (g_threads s u))" for u
    by (simp_all add: s1 own_thread_def)
  have own: "owned ?s k = (if k = i then insert t (owned s k) else owned s k)" for k
    unfolding owned_def tids owner using i nz t(3) by auto
  have new: "t \<notin> owned s k" for k using t(3) by (simp add: owned_def)
  have gp: "p_n_threads (g_procs ?s k) = (if k = i then p_n_threads (g_procs s i) + 1 else p_n_threads (g_procs s k))" for k
    by (simp add: s1)
  have sel: "g_next_pid ?s = g_next_pid s" "g_next_tid ?s = g_next_tid s + 1" by (simp_all add: s1)
  have "procs_ok ?s"
    by (rule procs_ok_cong [OF po]) (use procs_okD(8) [OF po] in \<open>auto simp: s1 even_or_iff\<close>)
  moreover have "threads_ok ?s"
  proof (rule threads_okI, unfold sel tids owner)
    fix k assume k: "k < unat (g_next_pid s)"
    have "unat (p_n_threads (g_procs s i)) + 1 < 2 ^ 32"
      using card_owned [OF th, of i] threads_okD(6) [OF th live] by (simp add: limits)
    then have "unat (p_n_threads (g_procs s i) + 1) = Suc (card (owned s i))"
      using threads_okD(6) [OF th live] by (simp add: unat_Suc_word)
    then show "unat (p_n_threads (g_procs ?s k)) = card (owned ?s k)"
      using threads_okD(6) [OF th k] new finite_owned [OF th] unfolding own gp by auto
  next
    fix k assume "unat (g_next_pid s) \<le> k"
    then show "p_n_threads (g_procs ?s k) = 0" using threads_okD(7) [OF th, of k] live by (auto simp: s1)
  next
    fix u assume u: "(if u = t then g_next_tid s else t_tid (g_threads s u)) \<noteq> 0"
    show "1 \<le> u \<and> u < PROCD_MAX_THREADS" using u t threads_okD(1) [OF th, of u] by (auto split: if_splits)
    show "unat (if u = t then g_next_tid s else t_tid (g_threads s u)) < unat (g_next_tid s + 1)"
      using u nt threads_okD(2) [OF th, of u] by (auto split: if_splits)
    show "unat (if u = t then slot else t_owner_slot (g_threads s u)) < unat (g_next_pid s)"
      using u live i threads_okD(3) [OF th, of u] by (auto split: if_splits)
    fix v assume eq: "(if u = t then g_next_tid s else t_tid (g_threads s u)) =
      (if v = t then g_next_tid s else t_tid (g_threads s v))"
    have "t_tid (g_threads s w) \<noteq> g_next_tid s" for w
      using threads_okD(2) [OF th, of w] nz by (cases "t_tid (g_threads s w) = 0") auto
    with u eq threads_okD(4) [OF th, of u v] show "u = v" by (metis (full_types))
  qed (use nt in simp)
  ultimately show ?thesis by (simp add: procd_ok_def)
qed

lemma thread_gone_ok:
  assumes ok: "procd_ok s" and t: "procd_thread_by_tid s tid = Some t"
  shows "procd_ok (thread_gone s t)" (is "procd_ok ?s")
proof -
  have po: "procs_ok s" and th: "threads_ok s" using ok by (simp_all add: procd_ok_def)
  have tid: "t_tid (g_threads s t) \<noteq> 0"
    using t by (auto simp: procd_thread_by_tid_def split: if_splits dest!: first_idx_SomeD)
  let ?o = "unat (t_owner_slot (g_threads s t))"
  have live: "?o < unat (g_next_pid s)" by (rule threads_okD(3) [OF th tid])
  then have get: "procd_table_get (t_owner_slot (g_threads s t)) = Some ?o"
    using procs_okD(3) [OF po] by (simp add: procd_table_get_def)
  have mem: "t \<in> owned s ?o" using tid by (simp add: owned_def)
  then have pos: "0 < card (owned s ?o)" using finite_owned [OF th] by (auto simp: card_gt_0_iff)
  then have n: "0 < p_n_threads (g_procs s ?o)" using threads_okD(6) [OF th live] by (simp add: word_less_nat_alt)
  have s': "?s = (locked_update ?o (\<lambda>p. if 0 < p_n_threads p then p\<lparr>p_n_threads := p_n_threads p - 1\<rparr> else p) s)
      \<lparr>g_threads := (g_threads s)(t := zero_thread)\<rparr>"
    by (simp add: thread_gone_def get)
  have gp: "p_n_threads (g_procs ?s k) = (if k = ?o then p_n_threads (g_procs s ?o) - 1 else p_n_threads (g_procs s k))" for k
    using n by (simp add: s')
  have tids: "t_tid (g_threads ?s u) = (if u = t then 0 else t_tid (g_threads s u))"
    and owner: "u \<noteq> t \<Longrightarrow> t_owner_slot (g_threads ?s u) = t_owner_slot (g_threads s u)" for u
    by (simp_all add: s' zero_thread_def)
  have own: "owned ?s k = owned s k - {t}" for k
    unfolding owned_def tids using owner by (auto split: if_splits)
  have sel: "g_next_pid ?s = g_next_pid s" "g_next_tid ?s = g_next_tid s" by (simp_all add: s')
  have "procs_ok ?s"
    by (rule procs_ok_cong [OF po]) (use procs_okD(8) [OF po] in \<open>auto simp: s' even_or_iff\<close>)
  moreover have "threads_ok ?s"
  proof (rule threads_okI, unfold sel tids)
    fix k assume k: "k < unat (g_next_pid s)"
    have "unat (p_n_threads (g_procs s ?o) - 1) = card (owned s ?o) - 1"
      using n threads_okD(6) [OF th live] pos by (simp add: unat_minus_one word_less_nat_alt word_neq_0_conv)
    moreover have "t \<notin> owned s k" if "k \<noteq> ?o" using that by (simp add: owned_def)
    ultimately show "unat (p_n_threads (g_procs ?s k)) = card (owned ?s k)"
      using threads_okD(6) [OF th k] mem finite_owned [OF th] unfolding own gp
      by (cases "k = ?o") (simp_all add: card_Diff_singleton)
  next
    fix k assume "unat (g_next_pid s) \<le> k"
    then show "p_n_threads (g_procs ?s k) = 0" using threads_okD(7) [OF th, of k] live unfolding gp by auto
  next
    fix u assume u: "(if u = t then 0 else t_tid (g_threads s u)) \<noteq> 0"
    then have ut: "u \<noteq> t" "t_tid (g_threads s u) \<noteq> 0" by (auto split: if_splits)
    show "1 \<le> u \<and> u < PROCD_MAX_THREADS" by (rule threads_okD(1) [OF th ut(2)])
    show "unat (if u = t then 0 else t_tid (g_threads s u)) < unat (g_next_tid s)"
      using ut(1) threads_okD(2) [OF th ut(2)] by simp
    show "unat (t_owner_slot (g_threads ?s u)) < unat (g_next_pid s)"
      using threads_okD(3) [OF th ut(2)] by (simp add: owner [OF ut(1)])
    show "u = v" if "(if u = t then 0 else t_tid (g_threads s u)) = (if v = t then 0 else t_tid (g_threads s v))" for v
      using threads_okD(4) [OF th ut(2), of v] that ut by (auto split: if_splits)
  qed (rule threads_okD(5) [OF th])
  ultimately show ?thesis by (simp add: procd_ok_def)
qed

lemma robust_ok:
  assumes "procd_ok s"
  shows "procd_ok (s\<lparr>g_threads := (g_threads s)(t := (g_threads s t)\<lparr>t_robust_list_head := h\<rparr>)\<rparr>)"
proof -
  have po: "procs_ok s" and th: "threads_ok s" using assms by (simp_all add: procd_ok_def)
  show ?thesis unfolding procd_ok_def
    by (intro conjI procs_ok_cong [OF po] threads_ok_cong [OF th]) (use procs_okD(8) [OF po] in simp_all)
qed

lemma proc_step_ok:
  assumes "proc_step b s s'" and "procd_ok s" and "unat (g_next_tid s) + 1 < 2 ^ 32"
  shows "procd_ok s'"
  using assms(1)
proof (cases rule: proc_step.cases)
  case (born i s1 f)
  then show ?thesis using born_ok [OF assms(2) born(2)] by blast
next
  case (change i p f)
  then show ?thesis using change_ok [OF assms(2) change(3), of f] by simp
next
  case (thread_born slot i t s1 tls ctid)
  then show ?thesis using thread_born_ok [OF assms(2,3)] by blast
next
  case (thread_end tid t)
  then show ?thesis using thread_gone_ok [OF assms(2)] by blast
qed (use assms(2) robust_ok in simp_all)

lemma proc_step_tid:
  assumes "proc_step b s s'"
  shows "unat (g_next_tid s') \<le> unat (g_next_tid s) + 1"
  using assms
proof (cases rule: proc_step.cases)
  case (born i s1 f)
  then show ?thesis by (auto simp: procd_slot_alloc_def split: option.splits)
next
  case (thread_born slot i t s1 tls ctid)
  then have "g_next_tid s' = g_next_tid s + 1"
    by (auto simp: procd_thread_alloc_def split: option.splits)
  then show ?thesis by (simp add: unat_word_ariths)
qed (auto simp: thread_gone_def Let_def split: option.splits)

lemma handle_ok:
  assumes "procd_ok s" and "unat (g_next_tid s) + 1 < 2 ^ 32"
  shows "procd_ok (snd (procd_handle s b mr))"
    and "unat (g_next_tid (snd (procd_handle s b mr))) \<le> unat (g_next_tid s) + 1"
proof -
  obtain s1 es where h: "proc_step b s s1" "snd (procd_handle s b mr) = announces es s1"
    using handle_handled [of b s mr] unfolding handled_def by blast
  from proc_step_ok [OF h(1) assms] proc_step_tid [OF h(1)] h(2)
  show "procd_ok (snd (procd_handle s b mr))"
    "unat (g_next_tid (snd (procd_handle s b mr))) \<le> unat (g_next_tid s) + 1" by simp_all
qed

lemma run_ok:
  "procd_ok s \<Longrightarrow> unat (g_next_tid s) + length ms < 2 ^ 32 \<Longrightarrow> procd_ok (procd_run s ms)"
proof (induction ms arbitrary: s)
  case Nil
  then show ?case by simp
next
  case (Cons m ms)
  let ?s1 = "snd (procd_handle s (pm_badge m) (pm_mrs m))"
  have one: "unat (g_next_tid s) + 1 < 2 ^ 32" using Cons.prems(2) by simp
  have "unat (g_next_tid ?s1) + length ms < 2 ^ 32"
    using handle_ok(2) [OF Cons.prems(1) one, of "pm_badge m" "pm_mrs m"] Cons.prems(2) by simp
  from Cons.IH [OF handle_ok(1) [OF Cons.prems(1) one] this] show ?case by simp
qed

lemma boot_ok: "procd_ok (procd_boot r)"
proof -
  have "owned (procd_boot r) i = {}" for i
    by (simp add: owned_def procd_boot_def procd_shm_init_def procd_table_init_def Let_def zero_thread_def)
  then show ?thesis
    by (auto simp: procd_ok_def procs_ok_def threads_ok_def procd_boot_def procd_shm_init_def
        procd_table_init_def Let_def zero_proc_def zero_thread_def limits)
qed

lemma boot_next_tid: "g_next_tid (procd_boot r) = 1"
  by (simp add: procd_boot_def procd_shm_init_def procd_table_init_def Let_def)

end
