(* ===== verification/ProcSafety.thy ===== *)
theory ProcSafety
  imports ProcInvariant
begin

text \<open>
  The guarantees of the process server, over arbitrary requests by arbitrary clients: the
  table invariant, the authority over tiers and functor bindings, the life cycle of slots,
  the behaviour of fork, clone and wait, and the delivery of events to subscribers.
\<close>

interpretation procd_slots: slot_pool 1 PROCD_MAX_PROCS "\<lambda>_. True"
  "\<lambda>s. {i. p_state (g_procs s i) \<noteq> PROC_STATE_FREE}" procd_slot_alloc
proof unfold_locales
  fix s i s'
  assume a: "procd_slot_alloc s = Some (i, s')"
  then show "i \<in> {1..<PROCD_MAX_PROCS} - {i. p_state (g_procs s i) \<noteq> PROC_STATE_FREE}"
    by (auto simp: procd_slot_alloc_def split: option.splits dest!: first_idx_SomeD)
  show "{i. p_state (g_procs s' i) \<noteq> PROC_STATE_FREE} = insert i {i. p_state (g_procs s i) \<noteq> PROC_STATE_FREE}"
    using a by (auto simp: procd_slot_alloc_def split: option.splits if_splits)
next
  fix s
  show "(procd_slot_alloc s = None) = ({1..<PROCD_MAX_PROCS} \<subseteq> {i. p_state (g_procs s i) \<noteq> PROC_STATE_FREE})"
    by (auto simp: procd_slot_alloc_def first_idx_None_iff split: option.splits dest!: first_idx_SomeD)
qed simp

interpretation procd_tslots: slot_pool 1 PROCD_MAX_THREADS "\<lambda>_. True"
  "\<lambda>s. {i. \<not> (t_state (g_threads s i) = 0 \<and> t_tid (g_threads s i) = 0)}" procd_thread_alloc
proof unfold_locales
  fix s i s'
  assume a: "procd_thread_alloc s = Some (i, s')"
  then show "i \<in> {1..<PROCD_MAX_THREADS} - {i. \<not> (t_state (g_threads s i) = 0 \<and> t_tid (g_threads s i) = 0)}"
    by (auto simp: procd_thread_alloc_def split: option.splits dest!: first_idx_SomeD)
  show "{i. \<not> (t_state (g_threads s' i) = 0 \<and> t_tid (g_threads s' i) = 0)} =
    insert i {i. \<not> (t_state (g_threads s i) = 0 \<and> t_tid (g_threads s i) = 0)}"
    using a by (auto simp: procd_thread_alloc_def split: option.splits if_splits)
next
  fix s
  show "(procd_thread_alloc s = None) =
    ({1..<PROCD_MAX_THREADS} \<subseteq> {i. \<not> (t_state (g_threads s i) = 0 \<and> t_tid (g_threads s i) = 0)})"
    by (auto simp: procd_thread_alloc_def first_idx_None_iff split: option.splits dest!: first_idx_SomeD)
qed simp

subsection \<open>What one step may change\<close>

lemma alloc_other: "procd_slot_alloc s = Some (i, s1) \<Longrightarrow> k \<noteq> i \<Longrightarrow> g_procs s1 k = g_procs s k"
  "procd_slot_alloc s = Some (i, s1) \<Longrightarrow> p_state (g_procs s i) = PROC_STATE_FREE"
  by (auto simp: procd_slot_alloc_def split: option.splits dest!: first_idx_SomeD)

lemma thread_alloc_procs: "procd_thread_alloc s = Some (t, s1) \<Longrightarrow> g_procs s1 = g_procs s"
  by (auto simp: procd_thread_alloc_def split: option.splits)

lemma step_state_move:
  assumes "proc_step b s s'" and "p_state (g_procs s k) \<noteq> PROC_STATE_FREE"
  shows "state_move (p_state (g_procs s k)) (p_state (g_procs s' k))"
  using assms(1)
proof (cases rule: proc_step.cases)
  case (born i s1 f)
  with assms(2) alloc_other [OF born(2)] show ?thesis by (cases "k = i") (auto simp: state_move_def)
next
  case (change i p f)
  then show ?thesis by (auto simp: state_move_def)
next
  case (thread_born slot i t s1 tls ctid)
  with thread_alloc_procs [OF thread_born(4)] show ?thesis by (auto simp: state_move_def)
next
  case (thread_end tid t)
  then show ?thesis by (auto simp: state_move_def thread_gone_def Let_def split: option.splits)
qed (auto simp: state_move_def)

lemma step_confinement:
  assumes "proc_step b s s'" and "p_state (g_procs s k) \<noteq> PROC_STATE_FREE" and "b \<noteq> BADGE_ANOMALY_OP_SET_TIER"
  shows "same_confinement (g_procs s k) (g_procs s' k)"
  using assms(1)
proof (cases rule: proc_step.cases)
  case (born i s1 f)
  with assms(2) alloc_other [OF born(2)] show ?thesis by (cases "k = i") (auto simp: same_confinement_def)
next
  case (change i p f)
  with assms(3) show ?thesis by (auto simp: same_confinement_def)
next
  case (thread_born slot i t s1 tls ctid)
  with thread_alloc_procs [OF thread_born(4)] show ?thesis by (auto simp: same_confinement_def)
next
  case (thread_end tid t)
  then show ?thesis by (auto simp: same_confinement_def thread_gone_def Let_def split: option.splits)
qed (auto simp: same_confinement_def)

lemma handle_state_move:
  "p_state (g_procs s k) \<noteq> PROC_STATE_FREE \<Longrightarrow>
     state_move (p_state (g_procs s k)) (p_state (g_procs (snd (procd_handle s b mr)) k))"
  using handle_handled [of b s mr] step_state_move unfolding handled_def by fastforce

lemma run_dead: "p_state (g_procs s k) = PROC_STATE_DEAD \<Longrightarrow> p_state (g_procs (procd_run s ms) k) = PROC_STATE_DEAD"
proof (induction ms arbitrary: s)
  case (Cons m ms)
  from handle_state_move [of s k "pm_badge m" "pm_mrs m"] Cons show ?case by (simp add: state_move_def)
qed simp

lemma run_not_free:
  "p_state (g_procs s k) \<noteq> PROC_STATE_FREE \<Longrightarrow> p_state (g_procs (procd_run s ms) k) \<noteq> PROC_STATE_FREE"
proof (induction ms arbitrary: s)
  case (Cons m ms)
  from handle_state_move [of s k "pm_badge m" "pm_mrs m"] Cons.prems
  have "p_state (g_procs (snd (procd_handle s (pm_badge m) (pm_mrs m))) k) \<noteq> PROC_STATE_FREE"
    by (auto simp: state_move_def)
  from Cons.IH [OF this] show ?case by simp
qed simp

subsection \<open>The event log\<close>

lemma step_ring: "proc_step b s s' \<Longrightarrow> g_ring s' = g_ring s \<and> g_hdr s' = g_hdr s"
  by (cases rule: proc_step.cases)
    (auto simp: procd_slot_alloc_def procd_thread_alloc_def thread_gone_def Let_def split: option.splits)

lemma announces_ring:
  "h_magic (g_hdr s) = PROCD_SHM_MAGIC \<Longrightarrow> g_ring (announces es s) = ev.publish_all (g_ring s) es"
proof (induction es arbitrary: s)
  case (Cons e es)
  obtain k sl x where e: "e = (k, sl, x)" by (cases e)
  from Cons show ?case by (simp add: e announce_def procd_shm_ring_def)
qed simp

lemma handle_events:
  assumes "procd_ok s"
  shows "\<exists>es. length es \<le> 2 \<and> g_ring (snd (procd_handle s b mr)) = ev.publish_all (g_ring s) es"
proof -
  obtain s1 es where h: "proc_step b s s1" "snd (procd_handle s b mr) = announces es s1" "length es \<le> 2"
    using handle_handled [of b s mr] unfolding handled_def by blast
  from step_ring [OF h(1)] assms announces_ring [of s1 es] h(2,3) show ?thesis
    by (auto simp: procd_ok_def procs_ok_def)
qed

lemma spawn_SomeD:
  assumes "procs_ok s" and "unat (g_next_pid s) < PROCD_MAX_PROCS"
  shows "\<exists>s2. procd_handle_spawn s req =
     (\<lparr>rp_result = g_next_pid s, rp_out_slot = g_next_pid s, rp_out_extra = ucast (g_next_pid s)\<rparr>,
      announce PROCD_EV_PROC_BORN (g_next_pid s) (g_next_pid s) s2) \<and>
     g_ring s2 = g_ring s \<and> g_hdr s2 = g_hdr s \<and>
     (\<forall>k. k \<noteq> unat (g_next_pid s) \<longrightarrow> g_procs s2 k = g_procs s k) \<and>
     p_tier (g_procs s2 (unat (g_next_pid s))) = rq_initial_tier req"
proof -
  obtain s1 where a: "procd_slot_alloc s = Some (unat (g_next_pid s), s1)"
    using alloc_next [OF assms(1)] assms(2) by blast
  then have s1: "s1 = s\<lparr>g_procs := (g_procs s)(unat (g_next_pid s) := zero_proc\<lparr>p_slot := g_next_pid s,
             p_synthetic_pid := g_next_pid s, p_state := PROC_STATE_NASCENT\<rparr>),
           g_next_pid := g_next_pid s + 1\<rparr>"
    using alloc_next [OF assms(1)] by simp
  show ?thesis
    using a by (auto simp: procd_handle_spawn_def Let_def s1 intro!: exI)
qed

subsection \<open>Concrete states\<close>

definition procd_message :: "u64 \<Rightarrow> u64 list \<Rightarrow> procd_msg" where
  "procd_message badge mrs = \<lparr>pm_badge = badge, pm_mrs = (\<lambda>n. if n < length mrs then mrs ! n else 0)\<rparr>"

text \<open>
  A table with no thread: the processes \<open>ps\<close> in slots 1, 2, \<dots>, as the allocator numbers them.
\<close>

definition table_of :: "proc list \<Rightarrow> procd" where
  "table_of ps = (procd_boot procd_event_ring_init)\<lparr>g_next_pid := of_nat (Suc (length ps)),
     g_procs := (\<lambda>i. if i = 0 then zero_proc\<lparr>p_state := PROC_STATE_DEAD\<rparr>
                     else if i \<le> length ps then (ps ! (i - 1))\<lparr>p_slot := of_nat i, p_synthetic_pid := of_nat i\<rparr>
                     else zero_proc)\<rparr>"

lemma table_of_select:
  "length ps < 256 \<Longrightarrow> unat (g_next_pid (table_of ps)) = Suc (length ps)" "g_next_tid (table_of ps) = 1"
  by (simp_all add: table_of_def boot_next_tid unat_of_nat_small del: of_nat_Suc)

lemma table_of_ok:
  assumes "length ps < 256"
    and "\<forall>p \<in> set ps. p_state p \<noteq> PROC_STATE_FREE \<and> p_version p = 0 \<and> p_n_threads p = 0"
  shows "procd_ok (table_of ps)"
proof -
  have p: "p_state (ps ! (i - 1)) \<noteq> PROC_STATE_FREE" "p_version (ps ! (i - 1)) = 0" "p_n_threads (ps ! (i - 1)) = 0"
    if "0 < i" "i \<le> length ps" for i
    using assms(2) that by (simp_all add: Suc_le_eq)
  have "procs_ok (table_of ps)"
    by (rule procs_okI, unfold table_of_select(1) [OF assms(1)])
      (use assms(1) p in \<open>auto simp: table_of_def procd_boot_def procd_shm_init_def procd_table_init_def
        Let_def zero_proc_def limits\<close>)
  moreover have "owned (table_of ps) i = {}" for i
    by (simp add: owned_def table_of_def procd_boot_def procd_shm_init_def procd_table_init_def Let_def zero_thread_def)
  then have "threads_ok (table_of ps)"
    by (intro threads_okI)
      (use p in \<open>auto simp: table_of_def procd_boot_def procd_shm_init_def procd_table_init_def
        Let_def zero_proc_def zero_thread_def\<close>)
  ultimately show ?thesis by (simp add: procd_ok_def)
qed

text \<open>A shell in slot 1 (tier 0) and a child of it in slot 2, at tier 3, that has exited with status 7.\<close>

definition shell_and_child :: procd where
  "shell_and_child = table_of [zero_proc\<lparr>p_state := PROC_STATE_RUNNING\<rparr>,
     zero_proc\<lparr>p_state := PROC_STATE_ZOMBIE, p_ppid := 1, p_tier := 3, p_exit_code := 7\<rparr>]"

lemma shell_and_child_ok: "procd_ok shell_and_child" "procs_ok shell_and_child"
  "unat (g_next_pid shell_and_child) = 3"
proof -
  show ok: "procd_ok shell_and_child"
    unfolding shell_and_child_def by (rule table_of_ok) (simp_all add: zero_proc_def)
  then show "procs_ok shell_and_child" by (simp add: procd_ok_def)
qed (simp add: shell_and_child_def table_of_select)

text \<open>A table whose 255 processes have all been reaped.\<close>

definition all_reaped :: procd where
  "all_reaped = table_of (replicate 255 (zero_proc\<lparr>p_state := PROC_STATE_DEAD\<rparr>))"

lemma all_reaped_ok: "procd_ok all_reaped" "unat (g_next_pid all_reaped) = PROCD_MAX_PROCS"
proof -
  show "procd_ok all_reaped" unfolding all_reaped_def by (rule table_of_ok) (simp_all add: zero_proc_def)
qed (simp add: all_reaped_def table_of_select limits)


subsection \<open>Properties\<close>

text \<open>
  C9 (table invariant). After any sequence of fewer than \<open>2^32 - 1\<close> requests, from any badges
  and with any message registers, the tables are well formed: slots below the pid counter
  are exactly those ever handed out, slot number and pid coincide with the index, sequence
  counters are even, thread ids are unique, every thread belongs to a slot in use, and each
  process's \<open>n_threads\<close> is the exact number of its live threads.
\<close>

theorem procd_run_invariant:
  assumes "length ms < 2 ^ 32 - 1"
  shows "procd_ok (procd_run (procd_boot r) ms)"
  by (rule run_ok [OF boot_ok]) (use assms in \<open>simp add: boot_next_tid\<close>)

theorem procd_run_invariant_witness:
  "length [procd_message 0 [PROCD_OP_SPAWN, 0, 0]] < 2 ^ 32 - 1 \<and>
   procd_ok (procd_run (procd_boot procd_event_ring_init) [procd_message 0 [PROCD_OP_SPAWN, 0, 0]])"
  using procd_run_invariant [of "[procd_message 0 [PROCD_OP_SPAWN, 0, 0]]" procd_event_ring_init] by simp

text \<open>
  C10 (tier authority). Unless the request carries the badge of the anomaly detector, no
  request changes the tier or a functor binding of a process that exists.
\<close>

theorem procd_tier_authority:
  assumes "badge \<noteq> BADGE_ANOMALY_OP_SET_TIER" and "p_state (g_procs s k) \<noteq> PROC_STATE_FREE"
  shows "same_confinement (g_procs s k) (g_procs (snd (procd_handle s badge mr)) k)"
  using handle_handled [of badge s mr] step_confinement [OF _ assms(2,1)] unfolding handled_def by fastforce

theorem procd_tier_authority_witness:
  "p_state (g_procs shell_and_child 2) \<noteq> PROC_STATE_FREE \<and>
   same_confinement (g_procs shell_and_child 2)
     (g_procs (snd (procd_handle shell_and_child 7 (\<lambda>n. [PROCD_OP_SET_TIER, 2, 0] ! n))) 2)"
proof -
  have "(7 :: u64) \<noteq> BADGE_ANOMALY_OP_SET_TIER" "p_state (g_procs shell_and_child 2) \<noteq> PROC_STATE_FREE"
    by (simp_all add: BADGE_ANOMALY_OP_SET_TIER_def shell_and_child_def table_of_def)
  then show ?thesis using procd_tier_authority by blast
qed

text \<open>
  A process that has been reaped stays reaped, and no slot in use ever
  becomes free again, whatever is requested.
\<close>

lemma procd_reaped_is_final:
  "(p_state (g_procs s k) = PROC_STATE_DEAD \<longrightarrow> p_state (g_procs (procd_run s ms) k) = PROC_STATE_DEAD) \<and>
   (p_state (g_procs s k) \<noteq> PROC_STATE_FREE \<longrightarrow> p_state (g_procs (procd_run s ms) k) \<noteq> PROC_STATE_FREE)"
  using run_dead run_not_free by blast

text \<open>
  C12 (lifetime capacity). Once the 255 slots have been handed out, every later spawn fails
  with \<open>-EAGAIN\<close> and leaves the tables unchanged, no matter how many of the processes have
  exited and been reaped in between.
\<close>

theorem procd_exhausted_forever:
  assumes ok: "procd_ok s" and left: "unat (g_next_tid s) + length ms < 2 ^ 32"
    and full: "unat (g_next_pid s) = PROCD_MAX_PROCS" and s': "s' = procd_run s ms"
  shows "procd_handle_spawn s' req =
    (reply_err EAGAIN, announce PROCD_EV_TABLE_FULL (rq_caller_slot req) 0 s')"
proof -
  have "p_state (g_procs s' k) \<noteq> PROC_STATE_FREE" if "k < PROCD_MAX_PROCS" for k
    unfolding s' using that full ok procs_okD(5) [of s k] by (intro run_not_free) (simp add: procd_ok_def)
  then have "procd_slot_alloc s' = None"
    by (simp add: procd_slot_alloc_def first_idx_None_iff split: option.splits)
  then show ?thesis by (simp add: procd_handle_spawn_def)
qed

theorem procd_exhausted_forever_witness:
  "procd_handle_spawn (procd_run all_reaped [procd_message 0 [PROCD_OP_WAIT, 1]]) zero_request =
    (reply_err EAGAIN, announce PROCD_EV_TABLE_FULL (rq_caller_slot zero_request) 0
       (procd_run all_reaped [procd_message 0 [PROCD_OP_WAIT, 1]]))"
  by (rule procd_exhausted_forever [OF all_reaped_ok(1) _ all_reaped_ok(2) refl])
    (simp add: all_reaped_def table_of_select)

text \<open>
  With a free slot, a fork by a process of tier 0 or 1 creates exactly one
  child, with the tier, functors and pledge of the parent and the parent's pid as ppid; at
  tier 2 it creates a decoy confined to the synthetic functors; at tier 3 it is refused and
  changes no table; every other process is untouched in all cases.
\<close>

lemma procd_fork_by_tier:
  assumes ok: "procs_ok s" and room: "unat (g_next_pid s) < PROCD_MAX_PROCS"
    and parent: "unat (rq_caller_slot req) < unat (g_next_pid s)"
    and fork: "procd_handle_fork s req = (rep, s')"
  defines "p \<equiv> g_procs s (unat (rq_caller_slot req))" and "n \<equiv> unat (g_next_pid s)"
  shows "(\<forall>k. k \<noteq> n \<longrightarrow> g_procs s' k = g_procs s k) \<and>
    (p_tier p \<le> PROC_TIER_1 \<longrightarrow> rp_result rep = g_next_pid s \<and> same_confinement p (g_procs s' n) \<and>
       p_ppid (g_procs s' n) = p_synthetic_pid p \<and> p_pledge_mask (g_procs s' n) = p_pledge_mask p) \<and>
    (p_tier p = PROC_TIER_2 \<longrightarrow> rp_result rep = g_next_pid s \<and> p_tier (g_procs s' n) = PROC_TIER_2 \<and>
       (p_functor_fs (g_procs s' n), p_functor_net (g_procs s' n), p_functor_proc (g_procs s' n))
         = procd_default_functor_for_tier PROC_TIER_2) \<and>
    (p_tier p = PROC_TIER_3 \<longrightarrow> rep = reply_err EPERM \<and> g_procs s' = g_procs s \<and> g_next_pid s' = g_next_pid s)"
proof -
  let ?i = "unat (rq_caller_slot req)"
  have get: "procd_table_get (rq_caller_slot req) = Some ?i"
    using parent room by (simp add: procd_table_get_def)
  have inp: "?i \<noteq> n" using parent by (simp add: n_def)
  obtain s1 where a: "procd_slot_alloc s = Some (n, s1)"
    using alloc_next [OF ok] room by (simp add: n_def)
  then have s1: "s1 = s\<lparr>g_procs := (g_procs s)(n := zero_proc\<lparr>p_slot := g_next_pid s,
             p_synthetic_pid := g_next_pid s, p_state := PROC_STATE_NASCENT\<rparr>),
           g_next_pid := g_next_pid s + 1\<rparr>"
    using alloc_next [OF ok] by (simp add: n_def)
  have nn: "of_nat n = g_next_pid s" by (simp add: n_def)
  have le1: "p_tier p \<le> PROC_TIER_1 \<longleftrightarrow> p_tier p = PROC_TIER_0 \<or> p_tier p = PROC_TIER_1"
    by (auto simp: tier_defs word_le_nat_alt unat_eq_zero[symmetric] le_Suc_eq word_unat_eq_iff)
  have real: "procd_handle_fork s req = do_fork_real s ?i req" if "p_tier p \<le> PROC_TIER_1"
    using that get le1 by (auto simp: procd_handle_fork_def Let_def p_def)
  consider "p_tier p \<le> PROC_TIER_1" | "p_tier p = PROC_TIER_2" | "p_tier p = PROC_TIER_3"
    | "\<not> p_tier p \<le> PROC_TIER_1" "p_tier p \<noteq> PROC_TIER_2" "p_tier p \<noteq> PROC_TIER_3" by blast
  then show ?thesis
  proof cases
    case 1
    then have "p_tier p \<noteq> PROC_TIER_2" "p_tier p \<noteq> PROC_TIER_3" unfolding le1 by (auto simp: tier_defs)
    with 1 real fork a inp show ?thesis
      by (auto simp: do_fork_real_def Let_def s1 nn inherit_def same_confinement_def p_def [symmetric]
          procd_seqlock_begin_def procd_seqlock_end_def)
  next
    case 2
    then have "\<not> p_tier p \<le> PROC_TIER_1" "p_tier p \<noteq> PROC_TIER_3" unfolding le1 by (auto simp: tier_defs)
    with 2 get fork a inp le1 show ?thesis
      by (auto simp: procd_handle_fork_def do_fork_synth_def Let_def s1 nn inherit_def p_def [symmetric]
          procd_default_functor_for_tier_def tier_defs)
  next
    case 3
    then have "\<not> p_tier p \<le> PROC_TIER_1" "p_tier p \<noteq> PROC_TIER_2" unfolding le1 by (auto simp: tier_defs)
    with 3 get fork le1 show ?thesis
      by (auto simp: procd_handle_fork_def Let_def p_def [symmetric])
  next
    case 4
    with get fork le1 show ?thesis by (auto simp: procd_handle_fork_def Let_def p_def [symmetric])
  qed
qed

text \<open>
  Clone does not ask the tier: a clone without the thread flag (and without a namespace
  flag) by a process that fork refuses because it is confined at tier 3 creates a child of
  tier 3 all the same.
\<close>

lemma procd_clone_ignores_tier:
  assumes ok: "procs_ok s" and room: "unat (g_next_pid s) < PROCD_MAX_PROCS"
    and parent: "unat (rq_caller_slot req) < unat (g_next_pid s)" "\<not> gone (g_procs s (unat (rq_caller_slot req)))"
      "p_tier (g_procs s (unat (rq_caller_slot req))) = PROC_TIER_3"
    and flags: "rq_flags req AND clone_unsupported = 0" "rq_flags req AND LX_CLONE_THREAD = 0"
  shows "fst (procd_handle_fork s req) = reply_err EPERM \<and>
    rp_result (fst (procd_handle_clone s req)) = g_next_pid s \<and>
    p_state (g_procs (snd (procd_handle_clone s req)) (unat (g_next_pid s))) = PROC_STATE_NASCENT \<and>
    p_tier (g_procs (snd (procd_handle_clone s req)) (unat (g_next_pid s))) = PROC_TIER_3"
proof -
  let ?i = "unat (rq_caller_slot req)" and ?n = "unat (g_next_pid s)"
  have get: "procd_table_get (rq_caller_slot req) = Some ?i"
    using parent(1) room by (simp add: procd_table_get_def)
  obtain s1 where a: "procd_slot_alloc s = Some (?n, s1)" and s1: "g_procs s1 ?i = g_procs s ?i"
    using alloc_next [OF ok] room parent(1) by simp
  show ?thesis
    using get a s1 parent flags
    by (simp add: procd_handle_fork_def procd_handle_clone_def procd_clone_fork_like_def Let_def tier_defs
        inherit_def)
qed

text \<open>
  C15 (wait). A wait reaps the lowest-numbered zombie child of the caller: the reply carries
  its pid and exit status, it becomes reaped, and no other process changes. Without a zombie
  child nothing changes and the answer is 0 under \<open>WNOHANG\<close> and \<open>-ECHILD\<close> otherwise.
\<close>

theorem procd_wait_reaps:
  assumes ok: "procs_ok s" and caller: "unat (rq_caller_slot req) < unat (g_next_pid s)"
    and wait: "procd_handle_wait s req = (rep, s')"
  defines "Z \<equiv> {k. p_state (g_procs s k) = PROC_STATE_ZOMBIE \<and> p_ppid (g_procs s k) = rq_caller_slot req}"
  shows "(Z = {} \<longrightarrow> s' = s \<and> rp_result rep = (if rq_options req AND 1 \<noteq> 0 then 0 else - ECHILD)) \<and>
    (Z \<noteq> {} \<longrightarrow> (let z = (LEAST k. k \<in> Z) in
       rp_result rep = of_nat z \<and> rp_out_extra rep = ucast (p_exit_code (g_procs s z)) \<and>
       p_state (g_procs s' z) = PROC_STATE_DEAD \<and> (\<forall>k. k \<noteq> z \<longrightarrow> g_procs s' k = g_procs s k)))"
proof -
  let ?i = "unat (rq_caller_slot req)"
  have get: "procd_table_get (rq_caller_slot req) = Some ?i"
    using caller procs_okD(3) [OF ok] by (simp add: procd_table_get_def)
  have pid: "p_synthetic_pid (g_procs s ?i) = rq_caller_slot req" using procs_okD(7) [OF ok caller] by simp
  have range: "1 \<le> k \<and> k < PROCD_MAX_PROCS" if "k \<in> Z" for k
    using that procs_okD(3,4) [OF ok] procs_okD(5) [OF ok, of k] by (cases "k = 0") (auto simp: Z_def)
  show ?thesis
  proof (cases "procd_table_first_zombie_child s (rq_caller_slot req)")
    case None
    then have none: "1 \<le> k \<Longrightarrow> k < PROCD_MAX_PROCS \<Longrightarrow> k \<notin> Z" for k
      unfolding procd_table_first_zombie_child_def Z_def by (simp add: first_idx_None_iff)
    have "Z = {}" using range none by blast
    with None wait get pid show ?thesis by (auto simp: procd_handle_wait_def reply_err_def)
  next
    case (Some z)
    note F = first_idx_SomeD [OF Some [unfolded procd_table_first_zombie_child_def]]
    have z: "z \<in> Z" using F by (simp add: Z_def)
    have least: "z \<le> k" if "k \<in> Z" for k
    proof (rule ccontr)
      assume "\<not> z \<le> k"
      then have "k < z" by simp
      with F range [OF that] have "\<not> (p_state (g_procs s k) = PROC_STATE_ZOMBIE \<and> p_ppid (g_procs s k) = rq_caller_slot req)"
        by blast
      with that show False by (simp add: Z_def)
    qed
    have L: "(LEAST k. k \<in> Z) = z" by (rule Least_equality) (use z least in auto)
    have "p_synthetic_pid (g_procs s z) = of_nat z"
      using z procs_okD(5,7) [OF ok, of z] by (simp add: Z_def)
    with Some wait get pid z show ?thesis
      by (auto simp: procd_handle_wait_def Let_def L)
  qed
qed

theorem procd_wait_reaps_witness:
  "rp_result (fst (procd_handle_wait shell_and_child (zero_request\<lparr>rq_caller_slot := 1\<rparr>))) = 2 \<and>
   rp_out_extra (fst (procd_handle_wait shell_and_child (zero_request\<lparr>rq_caller_slot := 1\<rparr>))) = 7 \<and>
   p_state (g_procs (snd (procd_handle_wait shell_and_child (zero_request\<lparr>rq_caller_slot := 1\<rparr>))) 2) = PROC_STATE_DEAD"
proof -
  let ?r = "zero_request\<lparr>rq_caller_slot := 1\<rparr>"
  let ?Z = "{k. p_state (g_procs shell_and_child k) = PROC_STATE_ZOMBIE \<and> p_ppid (g_procs shell_and_child k) = 1}"
  have n: "p_state (g_procs shell_and_child 2) = PROC_STATE_ZOMBIE"
    "p_ppid (g_procs shell_and_child 2) = 1" "p_state (g_procs shell_and_child 1) \<noteq> PROC_STATE_ZOMBIE"
    "p_state (g_procs shell_and_child 0) \<noteq> PROC_STATE_ZOMBIE" "p_exit_code (g_procs shell_and_child 2) = 7"
    by (simp_all add: shell_and_child_def table_of_def)
  have "(LEAST k. k \<in> ?Z) = 2"
  proof (rule Least_equality)
    show "2 \<le> k" if "k \<in> ?Z" for k
    proof (rule ccontr)
      assume "\<not> 2 \<le> k"
      then have "k = 0 \<or> k = 1" by auto
      with that n show False by auto
    qed
  qed (use n in simp)
  moreover have "?Z \<noteq> {}" using n by auto
  ultimately show ?thesis
    using procd_wait_reaps [OF shell_and_child_ok(2) _ surjective_pairing, of ?r] n shell_and_child_ok(3)
    by (simp add: Let_def)
qed

text \<open>
  A subscriber that has drained the ring up to the end of the log
  receives, after a spawn that succeeds, exactly one event: the birth of the new process.
\<close>

lemma procd_spawn_observed:
  assumes ok: "procs_ok s" and room: "unat (g_next_pid s) < PROCD_MAX_PROCS"
    and log: "ring_log (g_ring s) h" and small: "length h + 1 < 2 ^ 64"
    and tail: "unat tail = length h" and n: "1 \<le> unat n"
  shows "\<exists>tail'. procd_event_drain (g_ring (snd (procd_handle_spawn s req))) tail n =
    ([\<lparr>ev_seq = of_nat (length h), ev_kind = PROCD_EV_PROC_BORN, ev_slot = g_next_pid s, ev_extra32 = g_next_pid s\<rparr>],
     tail', False) \<and> unat tail' = length h + 1"
proof -
  obtain s2 where s2: "procd_handle_spawn s req =
     (\<lparr>rp_result = g_next_pid s, rp_out_slot = g_next_pid s, rp_out_extra = ucast (g_next_pid s)\<rparr>,
      announce PROCD_EV_PROC_BORN (g_next_pid s) (g_next_pid s) s2)" "g_ring s2 = g_ring s" "g_hdr s2 = g_hdr s"
    using spawn_SomeD [OF ok room] by blast
  then have "g_ring (snd (procd_handle_spawn s req)) =
    ev.publish_all (g_ring s) [(PROCD_EV_PROC_BORN, g_next_pid s, g_next_pid s)]"
    using procs_okD(1) [OF ok] by (simp add: announce_def procd_shm_ring_def)
  moreover have "ev.number (length h) [(PROCD_EV_PROC_BORN, g_next_pid s, g_next_pid s)] =
    [\<lparr>ev_seq = of_nat (length h), ev_kind = PROCD_EV_PROC_BORN, ev_slot = g_next_pid s, ev_extra32 = g_next_pid s\<rparr>]"
    by (simp add: ev.number_def)
  ultimately show ?thesis
    using ev.reader_keeps_up [OF log, of "[(PROCD_EV_PROC_BORN, g_next_pid s, g_next_pid s)]" n tail] small tail n
    by (simp add: limits)
qed

text \<open>
  A process group set with \<open>setpgid\<close> on an existing target is the one
  \<open>getpgid\<close> then reports for it to every caller; 0 as the new group means the target's pid.
\<close>

lemma procd_setpgid_getpgid:
  assumes ok: "procs_ok s" and caller: "unat (rq_caller_slot req) < unat (g_next_pid s)"
    and target: "0 < unat target" "unat target < unat (g_next_pid s)"
    and other: "unat (rq_caller_slot req') < unat (g_next_pid s)"
    and set: "procd_handle_setpgid s req target g = (rep, s')"
  shows "rep = \<lparr>rp_result = 0, rp_out_slot = target, rp_out_extra = 0\<rparr> \<and>
    rp_result (fst (procd_handle_getpgid s' req' target)) = (if g = 0 then target else g)"
proof -
  have get: "procd_table_get (rq_caller_slot r) = Some (unat (rq_caller_slot r))"
    if "unat (rq_caller_slot r) < unat (g_next_pid s)" for r :: procd_request
    using that procs_okD(3) [OF ok] by (simp add: procd_table_get_def)
  have live: "p_state (g_procs s k) \<noteq> PROC_STATE_FREE" "p_slot (g_procs s k) = of_nat k"
    "p_synthetic_pid (g_procs s k) = of_nat k" if "k < unat (g_next_pid s)" for k
    using that procs_okD(5,6,7) [OF ok, of k] by simp_all
  have tgt: "pgid_target u (unat (rq_caller_slot r)) target = Some (unat target)"
    if "unat (rq_caller_slot r) < unat (g_next_pid s)"
      and u: "\<And>k. p_synthetic_pid (g_procs u k) = p_synthetic_pid (g_procs s k)"
        "\<And>k. p_state (g_procs u k) = p_state (g_procs s k)" for u and r :: procd_request
  proof (cases "target = rq_caller_slot r")
    case True
    with that live show ?thesis by (simp add: pgid_target_def)
  next
    case False
    have "first_idx (\<lambda>i. p_synthetic_pid (g_procs u i) = target \<and> p_state (g_procs u i) \<noteq> PROC_STATE_FREE)
        1 PROCD_MAX_PROCS = Some (unat target)"
    proof (rule first_idx_unique)
      fix k assume "p_synthetic_pid (g_procs u k) = target \<and> p_state (g_procs u k) \<noteq> PROC_STATE_FREE" "k < PROCD_MAX_PROCS"
      with procs_okD(5,7) [OF ok, of k] u show "k = unat target" by (auto simp: limits unat_of_nat_small)
    qed (use target live(1,3) [OF target(2)] procs_okD(3) [OF ok] u in auto)
    with False target live that show ?thesis
      by (auto simp: pgid_target_def procd_table_lookup_by_synthetic_pid_def)
  qed
  let ?f = "\<lambda>p. p\<lparr>p_pgid := if g = 0 then target else g\<rparr>"
  have s': "s' = locked_update (unat target) ?f s"
    and rep: "rep = \<lparr>rp_result = 0, rp_out_slot = target, rp_out_extra = 0\<rparr>"
    using set get [OF caller] live [OF caller] live [OF target(2)] tgt [OF caller, of s]
    by (auto simp: procd_handle_setpgid_def Let_def)
  have "pgid_target s' (unat (rq_caller_slot req')) target = Some (unat target)"
    by (rule tgt [OF other]) (simp_all add: s')
  moreover have "p_state (g_procs s' (unat (rq_caller_slot req'))) \<noteq> PROC_STATE_FREE"
    "p_pgid (g_procs s' (unat target)) = (if g = 0 then target else g)"
    using live(1) [OF other] live(1) [OF target(2)] by (simp_all add: s')
  ultimately show ?thesis using rep get [OF other] by (simp add: procd_handle_getpgid_def)
qed

end
