(* ===== verification/SeqLock.thy ===== *)
theory SeqLock
  imports ProcSafety
begin

text \<open>
  The lock-free readers of the process table (\<^verbatim>\<open>include/procd/shm.h\<close>, \<^verbatim>\<open>src/lucas/procd_view.c\<close>)
  and the sequence-lock discipline of the server that writes it, under arbitrary
  interleavings of the loads of a reader with the stores of the writer. The sixteen bytes of
  the command name are copied in one load; the result does not depend on it, since the
  memory is shown not to change between the first and the last load of a snapshot.
\<close>

subsection \<open>Readers\<close>

text \<open>
  The contents of one process slot over time is a function \<open>mem\<close>; the \<open>n\<close>-th load that a
  reader issues happens at time \<open>at n\<close>, so a schedule interleaves the loads of the reader with
  the steps of the writer in an arbitrary way.
\<close>

record lucas_proc_view =
  v_synthetic_pid :: u32
  v_ppid :: u32
  v_pgid :: u32
  v_sid :: u32
  v_tier :: u32
  v_functor_proc :: u16
  v_state :: proc_state
  v_comm :: "u8 list"
  v_cow_session :: u32

type_synonym shared = "nat \<Rightarrow> proc"
type_synonym schedule = "nat \<Rightarrow> nat"

definition LUCAS_PROCT_MAX_SPINS :: nat where [limits]: "LUCAS_PROCT_MAX_SPINS = 64"

text \<open>The nine field loads between the two loads of the sequence counter.\<close>

definition read_view :: "shared \<Rightarrow> schedule \<Rightarrow> nat \<Rightarrow> lucas_proc_view" where
  "read_view mem at k =
     \<lparr>v_synthetic_pid = p_synthetic_pid (mem (at (k + 1))), v_ppid = p_ppid (mem (at (k + 2))),
      v_pgid = p_pgid (mem (at (k + 3))), v_sid = p_sid (mem (at (k + 4))),
      v_tier = p_tier (mem (at (k + 5))), v_functor_proc = p_functor_proc (mem (at (k + 6))),
      v_state = p_state (mem (at (k + 7))), v_comm = cstr_copy COMM_BYTES (p_comm (mem (at (k + 8)))),
      v_cow_session = p_cow_session (mem (at (k + 9)))\<rparr>"

primrec proct_loop :: "shared \<Rightarrow> schedule \<Rightarrow> nat \<Rightarrow> nat \<Rightarrow> lucas_proc_view option" where
  "proct_loop mem at 0 k = None"
| "proct_loop mem at (Suc tries) k =
     (let v1 = p_version (mem (at k)) in
      if v1 AND 1 \<noteq> 0 then proct_loop mem at tries (k + 1)
      else
        let out = read_view mem at k; v2 = p_version (mem (at (k + 10))) in
        if v1 = v2 then Some out else proct_loop mem at tries (k + 11))"

definition lucas_proct_load :: "shared \<Rightarrow> schedule \<Rightarrow> lucas_proc_view option" where
  "lucas_proct_load mem at = proct_loop mem at LUCAS_PROCT_MAX_SPINS 0"

partial_function (option) lucas_procd_view_load :: "shared \<Rightarrow> schedule \<Rightarrow> nat \<Rightarrow> lucas_proc_view option" where
  "lucas_procd_view_load mem at k =
     (let v1 = p_version (mem (at k)) in
      if v1 AND 1 \<noteq> 0 then lucas_procd_view_load mem at (k + 1)
      else
        let out = read_view mem at k; v2 = p_version (mem (at (k + 10))) in
        if v1 = v2 then Some out else lucas_procd_view_load mem at (k + 11))"

partial_function (option) procd_tier_load :: "shared \<Rightarrow> schedule \<Rightarrow> nat \<Rightarrow> u32 option" where
  "procd_tier_load mem at k =
     (let v1 = p_version (mem (at k)) in
      if v1 AND 1 \<noteq> 0 then procd_tier_load mem at (k + 1)
      else
        let t = p_tier (mem (at (k + 1))); v2 = p_version (mem (at (k + 2))) in
        if v1 = v2 then Some t else procd_tier_load mem at (k + 3))"

primrec procd_tier_load_bounded :: "shared \<Rightarrow> schedule \<Rightarrow> nat \<Rightarrow> nat \<Rightarrow> u32" where
  "procd_tier_load_bounded mem at 0 k = PROC_TIER_0"
| "procd_tier_load_bounded mem at (Suc spins) k =
     (let v1 = p_version (mem (at k)) in
      if v1 AND 1 \<noteq> 0 then procd_tier_load_bounded mem at spins (k + 1)
      else
        let t = p_tier (mem (at (k + 1))); v2 = p_version (mem (at (k + 2))) in
        if v1 = v2 then t else procd_tier_load_bounded mem at spins (k + 3))"

declare lucas_procd_view_load.simps [code] procd_tier_load.simps [code]

subsection \<open>The writer\<close>

inductive writer_step :: "proc \<Rightarrow> proc \<Rightarrow> bool" where
  idle: "writer_step p p"
| open_section: "even (p_version p) \<Longrightarrow> writer_step p (procd_seqlock_begin p)"
| store: "odd (p_version p) \<Longrightarrow> p_version q = p_version p \<Longrightarrow> writer_step p q"
| close_section: "odd (p_version p) \<Longrightarrow> writer_step p (procd_seqlock_end p)"

text \<open>Each update the server makes to an existing process is such a sequence of steps.\<close>

lemma locked_update_steps:
  assumes "even (p_version (g_procs s i))"
    and "p_version (f (procd_seqlock_begin (g_procs s i))) = p_version (procd_seqlock_begin (g_procs s i))"
  shows "writer_step (g_procs s i) (procd_seqlock_begin (g_procs s i))"
    "writer_step (procd_seqlock_begin (g_procs s i)) (f (procd_seqlock_begin (g_procs s i)))"
    "writer_step (f (procd_seqlock_begin (g_procs s i))) (g_procs (locked_update i f s) i)"
proof -
  have odd: "odd (p_version (g_procs s i) OR 1)" by (simp add: even_or_iff)
  show "writer_step (g_procs s i) (procd_seqlock_begin (g_procs s i))"
    by (rule writer_step.open_section [OF assms(1)])
  show "writer_step (procd_seqlock_begin (g_procs s i)) (f (procd_seqlock_begin (g_procs s i)))"
    by (rule writer_step.store) (use odd assms(2) in simp_all)
  show "writer_step (f (procd_seqlock_begin (g_procs s i))) (g_procs (locked_update i f s) i)"
    using writer_step.close_section [of "f (procd_seqlock_begin (g_procs s i))"] odd assms(2) by simp
qed

definition written :: "shared \<Rightarrow> bool" where
  "written mem \<longleftrightarrow> (\<forall>t. writer_step (mem t) (mem (Suc t)))"

text \<open>How far the sequence counter has advanced after each step, without the wrap-around.\<close>

primrec advance :: "shared \<Rightarrow> nat \<Rightarrow> nat \<Rightarrow> nat" where
  "advance mem t 0 = 0"
| "advance mem t (Suc n) = advance mem t n + (if p_version (mem (t + Suc n)) = p_version (mem (t + n)) then 0 else 1)"

lemma parity_test: "v AND 1 = 0 \<longleftrightarrow> even v" for v :: u64
  by (simp add: and_one_eq even_iff_mod_2_eq_zero)

lemma step_version:
  assumes "writer_step p q"
  shows "p_version q = p_version p + (if p_version q = p_version p then 0 else 1)"
  using assms by (cases rule: writer_step.cases) (auto simp: or_one_eq)

lemma step_quiet: "writer_step p q \<Longrightarrow> even (p_version p) \<Longrightarrow> p_version q = p_version p \<Longrightarrow> q = p"
  by (cases rule: writer_step.cases) (auto simp: or_one_eq)

lemma version_advance:
  assumes "written mem"
  shows "p_version (mem (t + n)) = p_version (mem t) + of_nat (advance mem t n)"
proof (induction n)
  case (Suc n)
  have "writer_step (mem (t + n)) (mem (t + Suc n))" using assms by (simp add: written_def)
  from step_version [OF this] Suc show ?case by (auto split: if_splits)
qed simp

lemma advance_le: "advance mem t n \<le> n"
  by (induction n) auto

lemma quiet_constant:
  assumes "written mem" and "even (p_version (mem t))"
  shows "advance mem t n = 0 \<Longrightarrow> j \<le> n \<Longrightarrow> mem (t + j) = mem t"
proof (induction n arbitrary: j)
  case (Suc n)
  show ?case
  proof (cases "j \<le> n")
    case True
    with Suc show ?thesis by simp
  next
    case False
    then have j: "j = Suc n" using Suc.prems(2) by simp
    have same: "mem (t + n) = mem t" using Suc by simp
    have "p_version (mem (t + Suc n)) = p_version (mem (t + n))"
      using Suc.prems(1) by (simp split: if_splits)
    moreover have "writer_step (mem (t + n)) (mem (t + Suc n))" using assms(1) by (simp add: written_def)
    ultimately show ?thesis using step_quiet [of "mem (t + n)"] assms(2) same j by simp
  qed
qed simp

text \<open>The memory does not change between two loads of the same even version.\<close>

lemma settled_constant:
  assumes w: "written mem" and "even (p_version (mem t))" and "t \<le> u" and "u - t < 2 ^ 64"
    and eq: "p_version (mem t) = p_version (mem u)" and j: "t \<le> j" "j \<le> u"
  shows "mem j = mem t"
proof -
  let ?n = "u - t"
  have "p_version (mem t) = p_version (mem t) + of_nat (advance mem t ?n)"
    using version_advance [OF w, of t ?n] eq assms(3) by simp
  then have zero: "of_nat (advance mem t ?n) = (0 :: u64)" by simp
  have "unat (of_nat (advance mem t ?n) :: u64) = advance mem t ?n"
    by (rule unat_of_nat_small) (use advance_le [of mem t ?n] assms(4) in simp)
  then have "advance mem t ?n = 0" unfolding zero by simp
  from quiet_constant [OF w assms(2) this, of "j - t"] j show ?thesis by simp
qed

definition view_of :: "proc \<Rightarrow> lucas_proc_view" where
  "view_of p = read_view (\<lambda>_. p) id 0"

lemma view_settled:
  assumes "written mem" and "mono at" and "p_version (mem (at k)) AND 1 = 0"
    and "at (k + 10) - at k < 2 ^ 64" and "p_version (mem (at k)) = p_version (mem (at (k + 10)))"
  shows "read_view mem at k = view_of (mem (at k))" and "even (p_version (mem (at k)))"
proof -
  show ev: "even (p_version (mem (at k)))" using assms(3) by (simp add: parity_test)
  have c: "mem (at (k + i)) = mem (at k)" if "i \<le> 10" for i
    by (rule settled_constant [OF assms(1) ev _ assms(4,5)]) (use that monoD [OF assms(2)] in simp_all)
  show "read_view mem at k = view_of (mem (at k))"
    using c [of 1] c [of 2] by (simp add: read_view_def view_of_def c)
qed

lemma proct_loop_settled:
  assumes "written mem" and "mono at" and "\<And>k. at (k + 10) - at k < 2 ^ 64"
  shows "proct_loop mem at n k = Some v \<Longrightarrow> \<exists>t. v = view_of (mem t) \<and> even (p_version (mem t))"
proof (induction n arbitrary: k)
  case (Suc n)
  show ?case
  proof (cases "p_version (mem (at k)) AND 1 = 0 \<and> p_version (mem (at k)) = p_version (mem (at (k + 10)))")
    case True
    then have "v = read_view mem at k" using Suc.prems by (auto simp: Let_def)
    with view_settled [OF assms(1,2) _ assms(3), of k] True show ?thesis by (metis (no_types))
  next
    case False
    with Suc show ?thesis by (auto simp: Let_def split: if_splits)
  qed
qed simp

text \<open>Once the writer rests, the unbounded readers return, with what a settled memory held.\<close>

definition rests_at :: "shared \<Rightarrow> nat \<Rightarrow> bool" where
  "rests_at mem T \<longleftrightarrow> even (p_version (mem T)) \<and> (\<forall>t \<ge> T. mem t = mem T)"

lemma rest_version:
  "rests_at mem T \<Longrightarrow> strict_mono at \<Longrightarrow> T \<le> k \<Longrightarrow> mem (at (k + i)) = mem T"
  using strict_mono_imp_increasing [of at "k + i"] unfolding rests_at_def by (meson le_add1 le_trans)

lemma tier_load_returns:
  assumes w: "written mem" and at: "strict_mono at" and win: "\<And>k. at (k + 2) - at k < 2 ^ 64"
    and rest: "rests_at mem T"
  shows "\<exists>t u. procd_tier_load mem at k = Some t \<and> t = p_tier (mem u) \<and> even (p_version (mem u))"
proof (induction "T - k" arbitrary: k rule: less_induct)
  case less
  let ?v = "p_version (mem (at k))"
  have mono: "mono at" using at by (rule strict_mono_mono)
  show ?case
  proof (cases "even ?v \<and> ?v = p_version (mem (at (k + 2)))")
    case True
    have "mem (at (k + 1)) = mem (at k)"
      by (rule settled_constant [OF w _ _ win]) (use True monoD [OF mono] in auto)
    with True show ?thesis by (subst procd_tier_load.simps) (auto simp: parity_test Let_def)
  next
    case False
    have "k < T"
    proof (rule ccontr)
      assume "\<not> k < T"
      then have "T \<le> k" by simp
      from rest_version [OF rest at this, of 0] rest_version [OF rest at this, of 2] False rest
      show False by (simp add: rests_at_def)
    qed
    then have "T - (k + 1) < T - k" "T - (k + 3) < T - k" by auto
    from less(1) [OF this(1)] less(1) [OF this(2)] False show ?thesis
      by (subst procd_tier_load.simps) (auto simp: parity_test Let_def)
  qed
qed

lemma view_load_returns:
  assumes w: "written mem" and at: "strict_mono at" and win: "\<And>k. at (k + 10) - at k < 2 ^ 64"
    and rest: "rests_at mem T"
  shows "\<exists>u. lucas_procd_view_load mem at k = Some (view_of (mem u)) \<and> even (p_version (mem u))"
proof (induction "T - k" arbitrary: k rule: less_induct)
  case less
  let ?v = "p_version (mem (at k))"
  have mono: "mono at" using at by (rule strict_mono_mono)
  show ?case
  proof (cases "even ?v \<and> ?v = p_version (mem (at (k + 10)))")
    case True
    then have "?v AND 1 = 0" by (auto simp: parity_test)
    from view_settled [OF w mono this win] True show ?thesis
      by (subst lucas_procd_view_load.simps) (auto simp: parity_test Let_def)
  next
    case False
    have "k < T"
    proof (rule ccontr)
      assume "\<not> k < T"
      then have "T \<le> k" by simp
      from rest_version [OF rest at this, of 0] rest_version [OF rest at this, of 10] False rest
      show False by (simp add: rests_at_def)
    qed
    then have "T - (k + 1) < T - k" "T - (k + 11) < T - k" by auto
    from less(1) [OF this(1)] less(1) [OF this(2)] False show ?thesis
      by (subst lucas_procd_view_load.simps) (auto simp: parity_test Let_def)
  qed
qed


subsection \<open>Properties\<close>


text \<open>The memory of a slot while \<open>setpgid\<close> moves it to process group 9.\<close>

definition moving :: shared where
  "moving t = (let p = zero_proc\<lparr>p_state := PROC_STATE_RUNNING, p_synthetic_pid := 4\<rparr>;
      q = (procd_seqlock_begin p)\<lparr>p_pgid := 9\<rparr>
    in if t = 0 then p else if t = 1 then procd_seqlock_begin p else if t = 2 then q else procd_seqlock_end q)"

lemma moving_written: "written moving"
proof -
  let ?p = "zero_proc\<lparr>p_state := PROC_STATE_RUNNING, p_synthetic_pid := 4\<rparr>"
  have v: "p_version ?p = 0" by (simp add: zero_proc_def)
  have "writer_step (moving t) (moving (Suc t))" for t
  proof -
    consider "t = 0" | "t = 1" | "t = 2" | "2 < t" by linarith
    then show ?thesis
    proof cases
      case 1
      then show ?thesis using writer_step.open_section [of ?p] v by (simp add: moving_def Let_def)
    next
      case 2
      then show ?thesis using v by (auto simp: moving_def Let_def intro: writer_step.store)
    next
      case 3
      then show ?thesis using v writer_step.close_section [of "(procd_seqlock_begin ?p)\<lparr>p_pgid := 9\<rparr>"]
        by (simp add: moving_def Let_def)
    next
      case 4
      then show ?thesis by (simp add: moving_def Let_def writer_step.idle)
    qed
  qed
  then show ?thesis by (simp add: written_def)
qed




text \<open>
  The allocator does not take the lock: between \<open>procd_slot_alloc\<close> and the update of
  \<open>procd_handle_spawn\<close> the new slot already has a process state and a settled sequence counter,
  so a reader obtains tier 0 for it, whatever tier the spawn request asks for.
\<close>

lemma spawn_readable_before_confined:
  assumes "procd_slot_alloc s = Some (i, s1)"
  shows "procd_tier_load (\<lambda>_. g_procs s1 i) at k = Some PROC_TIER_0 \<and>
    p_state (g_procs s1 i) = PROC_STATE_NASCENT \<and>
    p_tier (g_procs (snd (procd_handle_spawn s req)) i) = rq_initial_tier req"
proof -
  have s1: "g_procs s1 i = zero_proc\<lparr>p_slot := of_nat i, p_synthetic_pid := g_next_pid s, p_state := PROC_STATE_NASCENT\<rparr>"
    using assms by (auto simp: procd_slot_alloc_def split: option.splits)
  have "procd_tier_load (\<lambda>_. g_procs s1 i) at k = Some PROC_TIER_0"
    by (subst procd_tier_load.simps) (simp add: s1 zero_proc_def tier_defs)
  moreover have "p_tier (g_procs (snd (procd_handle_spawn s req)) i) = rq_initial_tier req"
    using assms by (simp add: procd_handle_spawn_def Let_def)
  ultimately show ?thesis by (simp add: s1)
qed

end
