(* ===== verification/SotfsGraph.thy ===== *)
theory SotfsGraph
  imports Prelude
begin

text \<open>
  The in-memory graph of sotFS (\<^verbatim>\<open>include/sotfs/graph.h\<close>, \<^verbatim>\<open>src/sotfs/graph.c\<close>): tables of
  inodes, of named parent-child edges and of block mappings, their circular allocators, edge
  lookup and path resolution. Ids are the 1-based C integers, 0 is ``none''; names and paths
  are the lists of characters before the terminating NUL. The curvature annotation of edges
  belongs to another component and is left out.
\<close>

subsection \<open>Data\<close>

definition SOTFS_MAX_INODES :: nat where [limits]: "SOTFS_MAX_INODES = 1024"
definition SOTFS_MAX_EDGES :: nat where [limits]: "SOTFS_MAX_EDGES = 2048"
definition SOTFS_MAX_BLOCKS :: nat where [limits]: "SOTFS_MAX_BLOCKS = 49152"
definition SOTFS_MAX_NAME :: nat where [limits]: "SOTFS_MAX_NAME = 128"
definition SOTFS_BLOCK_SIZE :: nat where [limits]: "SOTFS_BLOCK_SIZE = 4096"

datatype sotfs_inode_kind = SOTFS_KIND_FREE | SOTFS_KIND_FILE | SOTFS_KIND_DIR | SOTFS_KIND_SYMLINK

record sotfs_inode =
  i_id :: int
  i_kind :: sotfs_inode_kind
  i_mode :: u32
  i_size :: u32
  i_generation :: u32
  i_nlink :: int
  i_functor_persistence :: u8
  i_orphan :: u8
  i_open_count :: u8
  i_mtime_sec :: u64
  i_atime_sec :: u64
  i_ctime_sec :: u64

record sotfs_edge =
  e_id :: int
  e_parent_id :: int
  e_child_id :: int
  e_name :: string

record sotfs_block =
  b_id :: int
  b_file_id :: int
  b_offset :: u32
  b_length :: u32
  b_disk_blk :: int

record sotfs_graph =
  inodes :: "sotfs_inode arr"
  edges :: "sotfs_edge arr"
  blocks :: "sotfs_block arr"
  next_inode_hint :: nat
  next_edge_hint :: nat
  next_block_hint :: nat
  root_id :: int

definition zero_inode :: sotfs_inode where
  "zero_inode = \<lparr>i_id = 0, i_kind = SOTFS_KIND_FREE, i_mode = 0, i_size = 0, i_generation = 0, i_nlink = 0,
     i_functor_persistence = 0, i_orphan = 0, i_open_count = 0, i_mtime_sec = 0, i_atime_sec = 0, i_ctime_sec = 0\<rparr>"

definition zero_edge :: sotfs_edge where
  "zero_edge = \<lparr>e_id = 0, e_parent_id = 0, e_child_id = 0, e_name = []\<rparr>"

definition zero_block :: sotfs_block where
  "zero_block = \<lparr>b_id = 0, b_file_id = 0, b_offset = 0, b_length = 0, b_disk_blk = 0\<rparr>"

text \<open>\<open>_inode_slot\<close>, \<open>_edge_slot\<close> and \<open>_block_slot\<close>: the index of a 1-based id, if it is in range.\<close>

definition id_slot :: "nat \<Rightarrow> int \<Rightarrow> nat option" where
  "id_slot cap n = (if n \<le> 0 \<or> int cap < n then None else Some (nat (n - 1)))"

abbreviation inode_slot :: "int \<Rightarrow> nat option" where "inode_slot \<equiv> id_slot SOTFS_MAX_INODES"
abbreviation edge_slot :: "int \<Rightarrow> nat option" where "edge_slot \<equiv> id_slot SOTFS_MAX_EDGES"
abbreviation block_slot :: "int \<Rightarrow> nat option" where "block_slot \<equiv> id_slot SOTFS_MAX_BLOCKS"

lemma id_slot_Some_iff: "id_slot cap n = Some k \<longleftrightarrow> n = int k + 1 \<and> k < cap"
  by (auto simp: id_slot_def)


subsection \<open>Allocation\<close>

definition sotfs_alloc_inode :: "sotfs_graph \<Rightarrow> sotfs_inode_kind \<Rightarrow> u32 \<Rightarrow> int \<times> sotfs_graph" where
  "sotfs_alloc_inode g kind mode =
     (case ring_idx (\<lambda>slot. i_id (inodes g slot) = 0) (next_inode_hint g) SOTFS_MAX_INODES of
        None \<Rightarrow> (0, g)
      | Some slot \<Rightarrow>
          (int slot + 1,
           g\<lparr>inodes := (inodes g)(slot := (inodes g slot)\<lparr>i_id := int slot + 1, i_kind := kind, i_mode := mode,
                i_size := 0, i_generation := 0, i_nlink := (if kind = SOTFS_KIND_DIR then 2 else 1)\<rparr>),
             next_inode_hint := (slot + 1) mod SOTFS_MAX_INODES\<rparr>))"

definition sotfs_alloc_edge :: "sotfs_graph \<Rightarrow> int \<Rightarrow> int \<Rightarrow> string \<Rightarrow> int \<times> sotfs_graph" where
  "sotfs_alloc_edge g parent_id child_id name =
     (case ring_idx (\<lambda>slot. e_id (edges g slot) = 0) (next_edge_hint g) SOTFS_MAX_EDGES of
        None \<Rightarrow> (0, g)
      | Some slot \<Rightarrow>
          (int slot + 1,
           g\<lparr>edges := (edges g)(slot := (edges g slot)\<lparr>e_id := int slot + 1, e_parent_id := parent_id,
                e_child_id := child_id, e_name := cstr_copy SOTFS_MAX_NAME name\<rparr>),
             next_edge_hint := (slot + 1) mod SOTFS_MAX_EDGES\<rparr>))"

definition sotfs_graph_init :: sotfs_graph where
  "sotfs_graph_init =
     (let g = \<lparr>inodes = (\<lambda>_. zero_inode), edges = (\<lambda>_. zero_edge), blocks = (\<lambda>_. zero_block),
               next_inode_hint = 0, next_edge_hint = 0, next_block_hint = 0, root_id = 0\<rparr>;
          (rid, g1) = sotfs_alloc_inode g SOTFS_KIND_DIR 493
      in g1\<lparr>root_id := rid\<rparr>)"

definition sotfs_free_inode :: "sotfs_graph \<Rightarrow> int \<Rightarrow> sotfs_graph" where
  "sotfs_free_inode g n =
     (case inode_slot n of None \<Rightarrow> g | Some slot \<Rightarrow> g\<lparr>inodes := (inodes g)(slot := zero_inode)\<rparr>)"

definition sotfs_free_edge :: "sotfs_graph \<Rightarrow> int \<Rightarrow> sotfs_graph" where
  "sotfs_free_edge g n =
     (case edge_slot n of None \<Rightarrow> g | Some slot \<Rightarrow> g\<lparr>edges := (edges g)(slot := zero_edge)\<rparr>)"


subsection \<open>Lookup and path resolution\<close>

text \<open>
  The comparison loop of \<open>sotfs_find_edge\<close>: it stops at the first difference, at the
  terminator, or after \<open>SOTFS_MAX_NAME\<close> equal characters (which counts as different).
\<close>

fun name_eq :: "nat \<Rightarrow> string \<Rightarrow> string \<Rightarrow> bool" where
  "name_eq 0 en n = False"
| "name_eq (Suc k) [] [] = True"
| "name_eq (Suc k) (c # en) (d # n) = (if c = d then name_eq k en n else False)"
| "name_eq (Suc k) _ _ = False"

definition sotfs_find_edge :: "sotfs_graph \<Rightarrow> int \<Rightarrow> string \<Rightarrow> int" where
  "sotfs_find_edge g parent_id name =
     (case first_idx (\<lambda>i. e_id (edges g i) \<noteq> 0 \<and> e_parent_id (edges g i) = parent_id \<and>
                          name_eq SOTFS_MAX_NAME (e_name (edges g i)) name) 0 SOTFS_MAX_EDGES of
        None \<Rightarrow> 0
      | Some i \<Rightarrow> e_id (edges g i))"

text \<open>The component at the front of a path: up to the next slash, at most 127 characters.\<close>

definition component_of :: "string \<Rightarrow> string" where
  "component_of p = takeWhile (\<lambda>c. c \<noteq> CHR ''/'') (take (SOTFS_MAX_NAME - 1) p)"

function resolve_loop :: "sotfs_graph \<Rightarrow> int \<Rightarrow> string \<Rightarrow> int" where
  "resolve_loop g cur_id p =
     (if p = [] then cur_id
      else
        let component = component_of p in
        if component = [] then resolve_loop g cur_id (tl p)
        else
          let rest = drop (length component) p;
              rest' = (if rest \<noteq> [] \<and> hd rest = CHR ''/'' then tl rest else rest);
              edge_id = sotfs_find_edge g cur_id component
          in if edge_id = 0 then 0
             else case edge_slot edge_id of
                    None \<Rightarrow> 0
                  | Some slot \<Rightarrow> resolve_loop g (e_child_id (edges g slot)) rest')"
  by pat_completeness auto
termination
  by (relation "measure (\<lambda>(g, cur_id, p). length p)") (auto simp: Let_def split: if_splits intro: less_le_trans [OF diff_less_Suc])

declare resolve_loop.simps [simp del]

definition sotfs_resolve_path_from :: "sotfs_graph \<Rightarrow> int \<Rightarrow> string \<Rightarrow> int" where
  "sotfs_resolve_path_from g root path =
     (if path = [] \<or> hd path \<noteq> CHR ''/'' then 0
      else resolve_loop g (if 0 < root then root else root_id g) (tl path))"

definition sotfs_resolve_path :: "sotfs_graph \<Rightarrow> string \<Rightarrow> int" where
  "sotfs_resolve_path g path = sotfs_resolve_path_from g (root_id g) path"

end
