(* ===== verification/SotfsRewrite.thy ===== *)
theory SotfsRewrite
  imports SotfsGraph
begin

text \<open>
  The namespace operations of sotFS (\<^verbatim>\<open>src/sotfs/rewrite.c\<close>): double-pushout style rewrites
  of the graph with their application conditions as early returns, and the reference
  counting of open inodes. Every operation returns the C result code and the new graph.
\<close>

subsection \<open>Result codes\<close>

definition SOTFS_OK :: int where [limits]: "SOTFS_OK = 0"
definition SOTFS_ERR_EXISTS :: int where [limits]: "SOTFS_ERR_EXISTS = -1"
definition SOTFS_ERR_NOENT :: int where [limits]: "SOTFS_ERR_NOENT = -2"
definition SOTFS_ERR_NOTDIR :: int where [limits]: "SOTFS_ERR_NOTDIR = -3"
definition SOTFS_ERR_ISDIR :: int where [limits]: "SOTFS_ERR_ISDIR = -4"
definition SOTFS_ERR_NOTEMPTY :: int where [limits]: "SOTFS_ERR_NOTEMPTY = -5"
definition SOTFS_ERR_NOSPACE :: int where [limits]: "SOTFS_ERR_NOSPACE = -6"
definition SOTFS_ERR_NAMETOOLONG :: int where [limits]: "SOTFS_ERR_NAMETOOLONG = -7"
definition SOTFS_ERR_INVAL :: int where [limits]: "SOTFS_ERR_INVAL = -8"


lemma err_neq_ok [simp]:
  "SOTFS_ERR_EXISTS \<noteq> SOTFS_OK" "SOTFS_ERR_NOENT \<noteq> SOTFS_OK" "SOTFS_ERR_NOTDIR \<noteq> SOTFS_OK"
  "SOTFS_ERR_ISDIR \<noteq> SOTFS_OK" "SOTFS_ERR_NOTEMPTY \<noteq> SOTFS_OK" "SOTFS_ERR_NOSPACE \<noteq> SOTFS_OK"
  "SOTFS_ERR_NAMETOOLONG \<noteq> SOTFS_OK" "SOTFS_ERR_INVAL \<noteq> SOTFS_OK"
  by (simp_all add: limits)


subsection \<open>Helpers\<close>

definition dir_has_children :: "sotfs_graph \<Rightarrow> int \<Rightarrow> bool" where
  "dir_has_children g dir_id =
     (first_idx (\<lambda>i. e_id (edges g i) \<noteq> 0 \<and> e_parent_id (edges g i) = dir_id) 0 SOTFS_MAX_EDGES \<noteq> None)"

text \<open>The check that an id names a live directory, which every rewrite makes of its parents.\<close>

definition check_dir :: "sotfs_graph \<Rightarrow> int \<Rightarrow> int" where
  "check_dir g n =
     (case inode_slot n of
        None \<Rightarrow> SOTFS_ERR_NOENT
      | Some slot \<Rightarrow>
          if i_id (inodes g slot) = 0 then SOTFS_ERR_NOENT
          else if i_kind (inodes g slot) \<noteq> SOTFS_KIND_DIR then SOTFS_ERR_NOTDIR
          else SOTFS_OK)"


subsection \<open>Creation\<close>

definition rewrite_create :: "sotfs_inode_kind \<Rightarrow> sotfs_graph \<Rightarrow> int \<Rightarrow> string \<Rightarrow> u32 \<Rightarrow> int \<times> sotfs_graph" where
  "rewrite_create kind g parent_id name mode =
     (if name = [] then (SOTFS_ERR_INVAL, g)
      else if SOTFS_MAX_NAME \<le> length name then (SOTFS_ERR_NAMETOOLONG, g)
      else if check_dir g parent_id \<noteq> SOTFS_OK then (check_dir g parent_id, g)
      else if sotfs_find_edge g parent_id name \<noteq> 0 then (SOTFS_ERR_EXISTS, g)
      else
        let (file_id, g1) = sotfs_alloc_inode g kind mode in
        if file_id = 0 then (SOTFS_ERR_NOSPACE, g1)
        else
          let (edge_id, g2) = sotfs_alloc_edge g1 parent_id file_id name in
          if edge_id = 0 then (SOTFS_ERR_NOSPACE, sotfs_free_inode g2 file_id)
          else (file_id, g2))"

definition sotfs_rewrite_create_file :: "sotfs_graph \<Rightarrow> int \<Rightarrow> string \<Rightarrow> u32 \<Rightarrow> int \<times> sotfs_graph" where
  "sotfs_rewrite_create_file = rewrite_create SOTFS_KIND_FILE"

definition sotfs_rewrite_mkdir :: "sotfs_graph \<Rightarrow> int \<Rightarrow> string \<Rightarrow> u32 \<Rightarrow> int \<times> sotfs_graph" where
  "sotfs_rewrite_mkdir = rewrite_create SOTFS_KIND_DIR"


subsection \<open>Removal of files and reference counting\<close>

definition sotfs_free_file_storage :: "sotfs_graph \<Rightarrow> int \<Rightarrow> sotfs_graph" where
  "sotfs_free_file_storage g file_id =
     (case inode_slot file_id of
        None \<Rightarrow> g
      | Some slot \<Rightarrow>
          if i_id (inodes g slot) = 0 then g
          else sotfs_free_inode
                 (g\<lparr>blocks := (\<lambda>i. if i < SOTFS_MAX_BLOCKS \<and> b_id (blocks g i) \<noteq> 0 \<and> b_file_id (blocks g i) = file_id
                                then zero_block else blocks g i)\<rparr>) file_id)"

definition upd_inode :: "sotfs_graph \<Rightarrow> nat \<Rightarrow> (sotfs_inode \<Rightarrow> sotfs_inode) \<Rightarrow> sotfs_graph" where
  "upd_inode g slot f = g\<lparr>inodes := (inodes g)(slot := f (inodes g slot))\<rparr>"

definition sotfs_rewrite_unlink :: "sotfs_graph \<Rightarrow> int \<Rightarrow> string \<Rightarrow> int \<times> sotfs_graph" where
  "sotfs_rewrite_unlink g parent_id name =
     (if name = [] then (SOTFS_ERR_INVAL, g)
      else if check_dir g parent_id \<noteq> SOTFS_OK then (check_dir g parent_id, g)
      else
        let edge_id = sotfs_find_edge g parent_id name in
        if edge_id = 0 then (SOTFS_ERR_NOENT, g)
        else case edge_slot edge_id of
          None \<Rightarrow> (SOTFS_ERR_INVAL, g)
        | Some eslot \<Rightarrow>
            let child_id = e_child_id (edges g eslot) in
            (case inode_slot child_id of
               None \<Rightarrow> (SOTFS_ERR_INVAL, g)
             | Some cslot \<Rightarrow>
                 if i_kind (inodes g cslot) = SOTFS_KIND_DIR then (SOTFS_ERR_ISDIR, g)
                 else
                   let g1 = upd_inode (sotfs_free_edge g edge_id) cslot (\<lambda>i. i\<lparr>i_nlink := i_nlink i - 1\<rparr>) in
                   if i_nlink (inodes g1 cslot) \<le> 0 then
                     if i_open_count (inodes g1 cslot) > 0
                     then (SOTFS_OK, upd_inode g1 cslot (\<lambda>i. i\<lparr>i_orphan := 1\<rparr>))
                     else (SOTFS_OK, sotfs_free_file_storage g1 child_id)
                   else (SOTFS_OK, g1)))"

definition sotfs_inode_open :: "sotfs_graph \<Rightarrow> int \<Rightarrow> sotfs_graph" where
  "sotfs_inode_open g file_id =
     (case inode_slot file_id of
        None \<Rightarrow> g
      | Some slot \<Rightarrow>
          if i_id (inodes g slot) = 0 then g
          else if i_open_count (inodes g slot) < 255
          then upd_inode g slot (\<lambda>i. i\<lparr>i_open_count := i_open_count i + 1\<rparr>)
          else g)"

definition sotfs_inode_close :: "sotfs_graph \<Rightarrow> int \<Rightarrow> sotfs_graph" where
  "sotfs_inode_close g file_id =
     (case inode_slot file_id of
        None \<Rightarrow> g
      | Some slot \<Rightarrow>
          if i_id (inodes g slot) = 0 then g
          else
            let g1 = (if i_open_count (inodes g slot) > 0
                      then upd_inode g slot (\<lambda>i. i\<lparr>i_open_count := i_open_count i - 1\<rparr>) else g) in
            if i_open_count (inodes g1 slot) = 0 \<and> i_orphan (inodes g1 slot) \<noteq> 0
            then sotfs_free_file_storage g1 file_id
            else g1)"


subsection \<open>Removal of directories, renaming\<close>

definition sotfs_rewrite_rmdir :: "sotfs_graph \<Rightarrow> int \<Rightarrow> string \<Rightarrow> int \<times> sotfs_graph" where
  "sotfs_rewrite_rmdir g parent_id name =
     (if name = [] then (SOTFS_ERR_INVAL, g)
      else if check_dir g parent_id \<noteq> SOTFS_OK then (check_dir g parent_id, g)
      else
        let edge_id = sotfs_find_edge g parent_id name in
        if edge_id = 0 then (SOTFS_ERR_NOENT, g)
        else case edge_slot edge_id of
          None \<Rightarrow> (SOTFS_ERR_INVAL, g)
        | Some eslot \<Rightarrow>
            let child_id = e_child_id (edges g eslot) in
            (case inode_slot child_id of
               None \<Rightarrow> (SOTFS_ERR_INVAL, g)
             | Some cslot \<Rightarrow>
                 if i_kind (inodes g cslot) \<noteq> SOTFS_KIND_DIR then (SOTFS_ERR_NOTDIR, g)
                 else if dir_has_children g child_id then (SOTFS_ERR_NOTEMPTY, g)
                 else (SOTFS_OK, sotfs_free_inode (sotfs_free_edge g edge_id) child_id)))"

definition sotfs_rewrite_rename :: "sotfs_graph \<Rightarrow> int \<Rightarrow> string \<Rightarrow> int \<Rightarrow> string \<Rightarrow> int \<times> sotfs_graph" where
  "sotfs_rewrite_rename g p_src old_name p_dst new_name =
     (if old_name = [] then (SOTFS_ERR_INVAL, g)
      else if new_name = [] then (SOTFS_ERR_INVAL, g)
      else if SOTFS_MAX_NAME \<le> length old_name then (SOTFS_ERR_NAMETOOLONG, g)
      else if SOTFS_MAX_NAME \<le> length new_name then (SOTFS_ERR_NAMETOOLONG, g)
      else if check_dir g p_src \<noteq> SOTFS_OK then (check_dir g p_src, g)
      else if check_dir g p_dst \<noteq> SOTFS_OK then (check_dir g p_dst, g)
      else
        let old_edge_id = sotfs_find_edge g p_src old_name in
        if old_edge_id = 0 then (SOTFS_ERR_NOENT, g)
        else case edge_slot old_edge_id of
          None \<Rightarrow> (SOTFS_ERR_INVAL, g)
        | Some eslot \<Rightarrow>
            let child_id = e_child_id (edges g eslot) in
            if sotfs_find_edge g p_dst new_name \<noteq> 0 then (SOTFS_ERR_EXISTS, g)
            else
              let (new_edge_id, g1) = sotfs_alloc_edge g p_dst child_id new_name in
              if new_edge_id = 0 then (SOTFS_ERR_NOSPACE, g1)
              else (SOTFS_OK, sotfs_free_edge g1 old_edge_id))"

end
