(* ===== verification/SotfsSpec.thy ===== *)
theory SotfsSpec
  imports SotfsRewrite
begin

text \<open>
  The well-formedness invariant of the sotFS graph, an abstract file system (a map from
  directory and name to inode, the kinds and the open counts of the live inodes), and the
  refinement of the abstract operations by the rewrites of \<^verbatim>\<open>src/sotfs/rewrite.c\<close>, error
  codes included.
\<close>

subsection \<open>Live inodes and edges\<close>

definition live :: "sotfs_graph \<Rightarrow> int \<Rightarrow> bool" where
  "live g n \<longleftrightarrow> (case inode_slot n of None \<Rightarrow> False | Some slot \<Rightarrow> i_id (inodes g slot) \<noteq> 0)"

definition inode_of :: "sotfs_graph \<Rightarrow> int \<Rightarrow> sotfs_inode" where
  "inode_of g n = inodes g (nat (n - 1))"

definition edge_at :: "sotfs_graph \<Rightarrow> nat \<Rightarrow> int \<Rightarrow> string \<Rightarrow> int \<Rightarrow> bool" where
  "edge_at g s p nm c \<longleftrightarrow> s < SOTFS_MAX_EDGES \<and> e_id (edges g s) \<noteq> 0 \<and>
     e_parent_id (edges g s) = p \<and> e_name (edges g s) = nm \<and> e_child_id (edges g s) = c"

definition is_dir :: "sotfs_graph \<Rightarrow> int \<Rightarrow> bool" where
  "is_dir g n \<longleftrightarrow> live g n \<and> i_kind (inode_of g n) = SOTFS_KIND_DIR"

lemma live_iff: "live g n \<longleftrightarrow> (\<exists>s<SOTFS_MAX_INODES. n = int s + 1 \<and> i_id (inodes g s) \<noteq> 0)"
  by (auto simp: live_def id_slot_Some_iff split: option.splits)
     (metis id_slot_Some_iff not_Some_eq)

lemma inode_of_slot [simp]: "inode_of g (int s + 1) = inodes g s"
  by (simp add: inode_of_def)

lemma check_dir_ok: "check_dir g n = SOTFS_OK \<longleftrightarrow> is_dir g n"
  by (auto simp: check_dir_def is_dir_def live_def inode_of_def limits id_slot_def split: option.splits)

lemma check_dir_NOENT: "\<not> live g n \<Longrightarrow> check_dir g n = SOTFS_ERR_NOENT"
  by (auto simp: check_dir_def live_def split: option.splits)

lemma check_dir_NOTDIR: "live g n \<Longrightarrow> \<not> is_dir g n \<Longrightarrow> check_dir g n = SOTFS_ERR_NOTDIR"
  by (auto simp: check_dir_def live_def is_dir_def inode_of_def id_slot_def split: option.splits if_splits)


subsection \<open>The invariant\<close>

text \<open>Every slot is either cleared or carries its own 1-based id; stored names fit and are not empty.\<close>

definition tables_ok :: "sotfs_graph \<Rightarrow> bool" where
  "tables_ok g \<longleftrightarrow>
     (\<forall>s<SOTFS_MAX_INODES. inodes g s = zero_inode \<or> i_id (inodes g s) = int s + 1) \<and>
     (\<forall>s<SOTFS_MAX_EDGES. edges g s = zero_edge \<or> (e_id (edges g s) = int s + 1 \<and>
        e_name (edges g s) \<noteq> [] \<and> length (e_name (edges g s)) < SOTFS_MAX_NAME)) \<and>
     (\<forall>s<SOTFS_MAX_BLOCKS. blocks g s = zero_block \<or> b_id (blocks g s) = int s + 1)"

text \<open>A live inode is well kinded, has the link count its kind gives it, and is an orphan only while open.\<close>

definition inode_ok :: "sotfs_inode \<Rightarrow> bool" where
  "inode_ok i \<longleftrightarrow> i_kind i \<noteq> SOTFS_KIND_FREE \<and>
     (i_kind i = SOTFS_KIND_DIR \<longrightarrow> i_nlink i = 2 \<and> i_orphan i = 0) \<and>
     (i_kind i \<noteq> SOTFS_KIND_DIR \<longrightarrow> i_nlink i = (if i_orphan i = 0 then 1 else 0)) \<and>
     (i_orphan i \<noteq> 0 \<longrightarrow> i_open_count i \<noteq> 0)"

text \<open>
  The graph is a forest over the set \<open>R\<close> of mount roots: a name is bound once per directory,
  edges lead from live directories to live inodes that are neither roots nor orphans, an
  inode has one incoming edge unless it is a root or an orphan, blocks belong to live files.
\<close>

definition edges_ok :: "int set \<Rightarrow> sotfs_graph \<Rightarrow> bool" where
  "edges_ok R g \<longleftrightarrow>
     (\<forall>s p nm c. edge_at g s p nm c \<longrightarrow> is_dir g p \<and> live g c \<and> c \<notin> R \<and> i_orphan (inode_of g c) = 0) \<and>
     (\<forall>s s' p nm c c'. edge_at g s p nm c \<longrightarrow> edge_at g s' p nm c' \<longrightarrow> s = s') \<and>
     (\<forall>s s' p p' nm nm' c. edge_at g s p nm c \<longrightarrow> edge_at g s' p' nm' c \<longrightarrow> s = s') \<and>
     (\<forall>c. live g c \<longrightarrow> c \<notin> R \<longrightarrow> i_orphan (inode_of g c) = 0 \<longrightarrow> (\<exists>s p nm. edge_at g s p nm c))"

definition graph_ok :: "int set \<Rightarrow> sotfs_graph \<Rightarrow> bool" where
  "graph_ok R g \<longleftrightarrow> tables_ok g \<and> edges_ok R g \<and>
     (\<forall>n. live g n \<longrightarrow> inode_ok (inode_of g n)) \<and>
     (\<forall>r\<in>R. live g r) \<and> root_id g \<in> R \<and> is_dir g (root_id g) \<and>
     (\<forall>s<SOTFS_MAX_BLOCKS. b_id (blocks g s) \<noteq> 0 \<longrightarrow> live g (b_file_id (blocks g s)) \<and> \<not> is_dir g (b_file_id (blocks g s)))"

lemma tables_okD:
  assumes "tables_ok g"
  shows "s < SOTFS_MAX_INODES \<Longrightarrow> i_id (inodes g s) = 0 \<Longrightarrow> inodes g s = zero_inode"
    and "s < SOTFS_MAX_INODES \<Longrightarrow> i_id (inodes g s) \<noteq> 0 \<Longrightarrow> i_id (inodes g s) = int s + 1"
    and "s < SOTFS_MAX_EDGES \<Longrightarrow> e_id (edges g s) = 0 \<Longrightarrow> edges g s = zero_edge"
    and "s < SOTFS_MAX_EDGES \<Longrightarrow> e_id (edges g s) \<noteq> 0 \<Longrightarrow> e_id (edges g s) = int s + 1"
    and "s < SOTFS_MAX_EDGES \<Longrightarrow> e_id (edges g s) \<noteq> 0 \<Longrightarrow> length (e_name (edges g s)) < SOTFS_MAX_NAME"
    and "s < SOTFS_MAX_EDGES \<Longrightarrow> e_id (edges g s) \<noteq> 0 \<Longrightarrow> e_name (edges g s) \<noteq> []"
  using assms unfolding tables_ok_def by (auto simp: zero_inode_def zero_edge_def zero_block_def)

lemma graph_okD:
  assumes "graph_ok R g"
  shows "tables_ok g" and "edges_ok R g" and "live g n \<Longrightarrow> inode_ok (inode_of g n)"
    and "r \<in> R \<Longrightarrow> live g r" and "root_id g \<in> R" and "is_dir g (root_id g)"
    and "s < SOTFS_MAX_BLOCKS \<Longrightarrow> b_id (blocks g s) \<noteq> 0 \<Longrightarrow>
          live g (b_file_id (blocks g s)) \<and> \<not> is_dir g (b_file_id (blocks g s))"
  using assms unfolding graph_ok_def by blast+

lemma edges_okD:
  assumes "edges_ok R g"
  shows "edge_at g s p nm c \<Longrightarrow> is_dir g p"
    and "edge_at g s p nm c \<Longrightarrow> live g c"
    and "edge_at g s p nm c \<Longrightarrow> c \<notin> R"
    and "edge_at g s p nm c \<Longrightarrow> i_orphan (inode_of g c) = 0"
    and "edge_at g s p nm c \<Longrightarrow> edge_at g s' p nm c' \<Longrightarrow> s' = s"
    and "edge_at g s p nm c \<Longrightarrow> edge_at g s' p' nm' c \<Longrightarrow> s' = s"
    and "live g c \<Longrightarrow> c \<notin> R \<Longrightarrow> i_orphan (inode_of g c) = 0 \<Longrightarrow> \<exists>s p nm. edge_at g s p nm c"
  using assms unfolding edges_ok_def by metis+

lemma edge_at_fun: "edge_at g s p nm c \<Longrightarrow> edge_at g s p' nm' c' \<Longrightarrow> p' = p \<and> nm' = nm \<and> c' = c"
  by (auto simp: edge_at_def)


subsection \<open>Lookup\<close>

lemma name_eq_iff: "length en < k \<Longrightarrow> name_eq k en n \<longleftrightarrow> en = n"
  by (induction k en n rule: name_eq.induct) auto

lemma find_edge_cases:
  assumes t: "tables_ok g"
  shows "(sotfs_find_edge g p nm = 0 \<and> (\<forall>s c. \<not> edge_at g s p nm c)) \<or>
         (\<exists>s c. sotfs_find_edge g p nm = int s + 1 \<and> edge_at g s p nm c)"
proof -
  let ?P = "\<lambda>i. e_id (edges g i) \<noteq> 0 \<and> e_parent_id (edges g i) = p \<and> name_eq SOTFS_MAX_NAME (e_name (edges g i)) nm"
  have P: "i < SOTFS_MAX_EDGES \<Longrightarrow> ?P i \<longleftrightarrow> edge_at g i p nm (e_child_id (edges g i))" for i
    using tables_okD(5) [OF t, of i] name_eq_iff by (auto simp: edge_at_def)
  show ?thesis
  proof (cases "first_idx ?P 0 SOTFS_MAX_EDGES")
    case None
    then have z: "\<not> ?P i" if "i < SOTFS_MAX_EDGES" for i using first_idx_NoneD [OF None _ that] by simp
    have "\<not> edge_at g s p nm c" for s c
    proof
      assume e: "edge_at g s p nm c"
      then have "s < SOTFS_MAX_EDGES" by (simp add: edge_at_def)
      with z [OF this] P [OF this] e show False by (simp add: edge_at_def)
    qed
    with None show ?thesis by (simp add: sotfs_find_edge_def)
  next
    case (Some i)
    then have i: "i < SOTFS_MAX_EDGES" "?P i" using first_idx_SomeD [OF Some] by simp_all
    have "e_id (edges g i) = int i + 1" by (rule tables_okD(4) [OF t i(1)]) (use i(2) in simp)
    with Some P [OF i(1)] i(2) show ?thesis by (auto simp: sotfs_find_edge_def)
  qed
qed

definition lookup :: "sotfs_graph \<Rightarrow> int \<times> string \<Rightarrow> int option" where
  "lookup g = (\<lambda>(p, nm). case edge_slot (sotfs_find_edge g p nm) of None \<Rightarrow> None | Some s \<Rightarrow> Some (e_child_id (edges g s)))"

lemma edge_at_slot: "edge_at g s p nm c \<Longrightarrow> edge_slot (int s + 1) = Some s \<and> e_child_id (edges g s) = c"
  by (simp add: edge_at_def id_slot_Some_iff)

lemma lookup_iff:
  assumes t: "tables_ok g" and e: "edges_ok R g"
  shows "lookup g (p, nm) = Some c \<longleftrightarrow> (\<exists>s. edge_at g s p nm c)"
  using find_edge_cases [OF t, of p nm]
proof (elim disjE exE conjE)
  assume "sotfs_find_edge g p nm = 0" "\<forall>s c. \<not> edge_at g s p nm c"
  then show ?thesis by (simp add: lookup_def id_slot_def)
next
  fix s d assume f: "sotfs_find_edge g p nm = int s + 1" and a: "edge_at g s p nm d"
  have l: "lookup g (p, nm) = Some d" using edge_at_slot [OF a] f by (simp add: lookup_def)
  show ?thesis
  proof
    assume "lookup g (p, nm) = Some c" with l a show "\<exists>s. edge_at g s p nm c" by auto
  next
    assume "\<exists>s. edge_at g s p nm c"
    then obtain s' where s': "edge_at g s' p nm c" ..
    have "s' = s" by (rule edges_okD(5) [OF e a s'])
    with s' a have "c = d" by (simp add: edge_at_def)
    with l show "lookup g (p, nm) = Some c" by simp
  qed
qed

lemma find_edge_0_iff:
  assumes t: "tables_ok g" and e: "edges_ok R g"
  shows "sotfs_find_edge g p nm = 0 \<longleftrightarrow> lookup g (p, nm) = None"
  using find_edge_cases [OF t, of p nm]
proof (elim disjE exE conjE)
  assume "sotfs_find_edge g p nm = 0" "\<forall>s c. \<not> edge_at g s p nm c"
  then show ?thesis by (simp add: lookup_def id_slot_def)
next
  fix s d assume f: "sotfs_find_edge g p nm = int s + 1" and a: "edge_at g s p nm d"
  then show ?thesis using edge_at_slot [OF a] by (simp add: lookup_def)
qed

lemma find_edge_SomeE:
  assumes t: "tables_ok g" and f: "sotfs_find_edge g p nm \<noteq> 0"
  obtains s c where "sotfs_find_edge g p nm = int s + 1" "edge_at g s p nm c"
    "edge_slot (sotfs_find_edge g p nm) = Some s" "e_child_id (edges g s) = c"
  using find_edge_cases [OF t, of p nm] f edge_at_slot by metis

subsection \<open>Effect of the primitives\<close>

lemma edge_at_cong: "edges g = edges h \<Longrightarrow> edge_at g = edge_at h"
  by (intro ext) (simp add: edge_at_def)

lemma live_cong: "inodes g = inodes h \<Longrightarrow> live g = live h \<and> inode_of g = inode_of h \<and> is_dir g = is_dir h"
proof -
  assume h: "inodes g = inodes h"
  have l: "live g = live h" by (rule ext) (simp add: live_def h split: option.splits)
  have i: "inode_of g = inode_of h" by (rule ext) (simp add: inode_of_def h)
  show ?thesis using l i by (simp add: is_dir_def [abs_def])
qed

lemma graph_ok_cong:
  assumes "inodes g = inodes h" "edges g = edges h" "blocks g = blocks h" "root_id g = root_id h"
  shows "graph_ok R g \<longleftrightarrow> graph_ok R h"
proof -
  have "tables_ok g = tables_ok h" by (simp add: tables_ok_def assms)
  moreover have "edges_ok R g = edges_ok R h"
    by (simp only: edges_ok_def edge_at_cong [OF assms(2)] live_cong [OF assms(1)])
  ultimately show ?thesis
    by (simp only: graph_ok_def live_cong [OF assms(1)] assms(3,4))
qed

definition new_inode :: "nat \<Rightarrow> sotfs_inode_kind \<Rightarrow> u32 \<Rightarrow> sotfs_inode" where
  "new_inode s kind mode = zero_inode\<lparr>i_id := int s + 1, i_kind := kind, i_mode := mode,
     i_size := 0, i_generation := 0, i_nlink := (if kind = SOTFS_KIND_DIR then 2 else 1)\<rparr>"

lemma alloc_inode_cases:
  assumes t: "tables_ok g"
  shows "(sotfs_alloc_inode g kind mode = (0, g) \<and> (\<forall>s<SOTFS_MAX_INODES. i_id (inodes g s) \<noteq> 0)) \<or>
    (\<exists>s<SOTFS_MAX_INODES. i_id (inodes g s) = 0 \<and>
       sotfs_alloc_inode g kind mode = (int s + 1, g\<lparr>inodes := (inodes g)(s := new_inode s kind mode),
             next_inode_hint := (s + 1) mod SOTFS_MAX_INODES\<rparr>))"
proof (cases "ring_idx (\<lambda>slot. i_id (inodes g slot) = 0) (next_inode_hint g) SOTFS_MAX_INODES")
  case None
  then show ?thesis using iffD1 [OF ring_idx_None_iff None] by (simp add: sotfs_alloc_inode_def)
next
  case (Some s)
  with ring_idx_SomeD [OF Some] have "s < SOTFS_MAX_INODES" "i_id (inodes g s) = 0" by simp_all
  with Some tables_okD(1) [OF t this] show ?thesis
    by (auto simp: sotfs_alloc_inode_def new_inode_def)
qed

definition new_edge :: "nat \<Rightarrow> int \<Rightarrow> int \<Rightarrow> string \<Rightarrow> sotfs_edge" where
  "new_edge s p c nm = \<lparr>e_id = int s + 1, e_parent_id = p, e_child_id = c, e_name = nm\<rparr>"

lemma alloc_edge_cases:
  assumes nm: "length name < SOTFS_MAX_NAME"
  shows "(sotfs_alloc_edge g p c name = (0, g) \<and> (\<forall>s<SOTFS_MAX_EDGES. e_id (edges g s) \<noteq> 0)) \<or>
    (\<exists>s<SOTFS_MAX_EDGES. e_id (edges g s) = 0 \<and>
       sotfs_alloc_edge g p c name = (int s + 1, g\<lparr>edges := (edges g)(s := new_edge s p c name),
             next_edge_hint := (s + 1) mod SOTFS_MAX_EDGES\<rparr>))"
proof (cases "ring_idx (\<lambda>slot. e_id (edges g slot) = 0) (next_edge_hint g) SOTFS_MAX_EDGES")
  case None
  then show ?thesis using iffD1 [OF ring_idx_None_iff None] by (simp add: sotfs_alloc_edge_def)
next
  case (Some s)
  with ring_idx_SomeD [OF Some] have "s < SOTFS_MAX_EDGES" "e_id (edges g s) = 0" by simp_all
  with Some nm show ?thesis
    by (cases "edges g s") (auto simp: sotfs_alloc_edge_def new_edge_def cstr_copy_id intro!: exI [of _ s])
qed


subsection \<open>The abstract file system\<close>

record afs =
  tree :: "int \<times> string \<Rightarrow> int option"
  kinds :: "int \<Rightarrow> sotfs_inode_kind option"
  opens :: "int \<Rightarrow> nat"

definition absfs :: "sotfs_graph \<Rightarrow> afs" where
  "absfs g = \<lparr>tree = lookup g,
     kinds = (\<lambda>n. if live g n then Some (i_kind (inode_of g n)) else None),
     opens = (\<lambda>n. if live g n then unat (i_open_count (inode_of g n)) else 0)\<rparr>"

datatype fs_op =
    FsCreate int string u32 | FsMkdir int string u32 | FsUnlink int string | FsRmdir int string
  | FsRename int string int string | FsOpen int | FsClose int

definition fs_step :: "fs_op \<Rightarrow> sotfs_graph \<Rightarrow> int \<times> sotfs_graph" where
  "fs_step op g =
     (case op of
        FsCreate p nm m \<Rightarrow> sotfs_rewrite_create_file g p nm m
      | FsMkdir p nm m \<Rightarrow> sotfs_rewrite_mkdir g p nm m
      | FsUnlink p nm \<Rightarrow> sotfs_rewrite_unlink g p nm
      | FsRmdir p nm \<Rightarrow> sotfs_rewrite_rmdir g p nm
      | FsRename p nm q m \<Rightarrow> sotfs_rewrite_rename g p nm q m
      | FsOpen n \<Rightarrow> (SOTFS_OK, sotfs_inode_open g n)
      | FsClose n \<Rightarrow> (SOTFS_OK, sotfs_inode_close g n))"

definition dir_err :: "afs \<Rightarrow> int \<Rightarrow> int" where
  "dir_err fs p = (case kinds fs p of None \<Rightarrow> SOTFS_ERR_NOENT
     | Some k \<Rightarrow> if k = SOTFS_KIND_DIR then SOTFS_OK else SOTFS_ERR_NOTDIR)"

definition name_err :: "string \<Rightarrow> int" where
  "name_err nm = (if nm = [] then SOTFS_ERR_INVAL else if SOTFS_MAX_NAME \<le> length nm then SOTFS_ERR_NAMETOOLONG else SOTFS_OK)"

definition fs_drop :: "int \<Rightarrow> afs \<Rightarrow> afs" where
  "fs_drop n fs = fs\<lparr>kinds := (kinds fs)(n := None), opens := (opens fs)(n := 0)\<rparr>"

definition fs_full_inodes :: "afs \<Rightarrow> bool" where
  "fs_full_inodes fs \<longleftrightarrow> card (dom (kinds fs)) = SOTFS_MAX_INODES"

definition fs_full_edges :: "afs \<Rightarrow> bool" where
  "fs_full_edges fs \<longleftrightarrow> card (dom (tree fs)) = SOTFS_MAX_EDGES"

definition spec_create :: "sotfs_inode_kind \<Rightarrow> int \<Rightarrow> string \<Rightarrow> afs \<Rightarrow> int \<Rightarrow> afs \<Rightarrow> bool" where
  "spec_create kind p nm fs r fs' \<longleftrightarrow>
     (if name_err nm \<noteq> SOTFS_OK then r = name_err nm \<and> fs' = fs
      else if dir_err fs p \<noteq> SOTFS_OK then r = dir_err fs p \<and> fs' = fs
      else if tree fs (p, nm) \<noteq> None then r = SOTFS_ERR_EXISTS \<and> fs' = fs
      else if fs_full_inodes fs \<or> fs_full_edges fs then r = SOTFS_ERR_NOSPACE \<and> fs' = fs
      else 0 < r \<and> kinds fs r = None \<and>
           fs' = \<lparr>tree = (tree fs)((p, nm) \<mapsto> r), kinds = (kinds fs)(r \<mapsto> kind), opens = opens fs\<rparr>)"

definition spec_unlink :: "int \<Rightarrow> string \<Rightarrow> afs \<Rightarrow> int \<Rightarrow> afs \<Rightarrow> bool" where
  "spec_unlink p nm fs r fs' \<longleftrightarrow>
     (if nm = [] then r = SOTFS_ERR_INVAL \<and> fs' = fs
      else if dir_err fs p \<noteq> SOTFS_OK then r = dir_err fs p \<and> fs' = fs
      else case tree fs (p, nm) of None \<Rightarrow> r = SOTFS_ERR_NOENT \<and> fs' = fs
         | Some c \<Rightarrow>
             if kinds fs c = Some SOTFS_KIND_DIR then r = SOTFS_ERR_ISDIR \<and> fs' = fs
             else r = SOTFS_OK \<and>
                  fs' = (let fs1 = fs\<lparr>tree := (tree fs)((p, nm) := None)\<rparr> in
                         if opens fs c = 0 then fs_drop c fs1 else fs1))"

definition spec_rmdir :: "int \<Rightarrow> string \<Rightarrow> afs \<Rightarrow> int \<Rightarrow> afs \<Rightarrow> bool" where
  "spec_rmdir p nm fs r fs' \<longleftrightarrow>
     (if nm = [] then r = SOTFS_ERR_INVAL \<and> fs' = fs
      else if dir_err fs p \<noteq> SOTFS_OK then r = dir_err fs p \<and> fs' = fs
      else case tree fs (p, nm) of None \<Rightarrow> r = SOTFS_ERR_NOENT \<and> fs' = fs
         | Some c \<Rightarrow>
             if kinds fs c \<noteq> Some SOTFS_KIND_DIR then r = SOTFS_ERR_NOTDIR \<and> fs' = fs
             else if \<exists>m. tree fs (c, m) \<noteq> None then r = SOTFS_ERR_NOTEMPTY \<and> fs' = fs
             else r = SOTFS_OK \<and> fs' = fs_drop c (fs\<lparr>tree := (tree fs)((p, nm) := None)\<rparr>))"

definition spec_rename :: "int \<Rightarrow> string \<Rightarrow> int \<Rightarrow> string \<Rightarrow> afs \<Rightarrow> int \<Rightarrow> afs \<Rightarrow> bool" where
  "spec_rename p nm q m fs r fs' \<longleftrightarrow>
     (if nm = [] \<or> m = [] then r = SOTFS_ERR_INVAL \<and> fs' = fs
      else if SOTFS_MAX_NAME \<le> length nm \<or> SOTFS_MAX_NAME \<le> length m then r = SOTFS_ERR_NAMETOOLONG \<and> fs' = fs
      else if dir_err fs p \<noteq> SOTFS_OK then r = dir_err fs p \<and> fs' = fs
      else if dir_err fs q \<noteq> SOTFS_OK then r = dir_err fs q \<and> fs' = fs
      else case tree fs (p, nm) of None \<Rightarrow> r = SOTFS_ERR_NOENT \<and> fs' = fs
         | Some c \<Rightarrow>
             if tree fs (q, m) \<noteq> None then r = SOTFS_ERR_EXISTS \<and> fs' = fs
             else if fs_full_edges fs then r = SOTFS_ERR_NOSPACE \<and> fs' = fs
             else r = SOTFS_OK \<and> fs' = fs\<lparr>tree := (tree fs)((q, m) \<mapsto> c, (p, nm) := None)\<rparr>)"

definition spec_open :: "int \<Rightarrow> afs \<Rightarrow> afs" where
  "spec_open n fs = (if kinds fs n = None then fs else fs\<lparr>opens := (opens fs)(n := min 255 (opens fs n + 1))\<rparr>)"

definition spec_close :: "int set \<Rightarrow> int \<Rightarrow> afs \<Rightarrow> afs" where
  "spec_close R n fs =
     (if kinds fs n = None then fs
      else if opens fs n \<le> 1 \<and> n \<notin> R \<and> n \<notin> ran (tree fs) then fs_drop n fs
      else fs\<lparr>opens := (opens fs)(n := opens fs n - 1)\<rparr>)"

definition fs_spec :: "int set \<Rightarrow> fs_op \<Rightarrow> afs \<Rightarrow> int \<Rightarrow> afs \<Rightarrow> bool" where
  "fs_spec R op fs r fs' =
     (case op of
        FsCreate p nm m \<Rightarrow> spec_create SOTFS_KIND_FILE p nm fs r fs'
      | FsMkdir p nm m \<Rightarrow> spec_create SOTFS_KIND_DIR p nm fs r fs'
      | FsUnlink p nm \<Rightarrow> spec_unlink p nm fs r fs'
      | FsRmdir p nm \<Rightarrow> spec_rmdir p nm fs r fs'
      | FsRename p nm q m \<Rightarrow> spec_rename p nm q m fs r fs'
      | FsOpen n \<Rightarrow> r = SOTFS_OK \<and> fs' = spec_open n fs
      | FsClose n \<Rightarrow> r = SOTFS_OK \<and> fs' = spec_close R n fs)"

subsection \<open>Elementary changes of the graph\<close>

lemma lookup_eqI:
  assumes "tables_ok g" "edges_ok R g"
    and "\<And>q m c. (\<exists>t. edge_at g t q m c) \<longleftrightarrow> f (q, m) = Some c"
  shows "lookup g = f"
proof (rule ext)
  fix x :: "int \<times> string"
  obtain q m where x: "x = (q, m)" by (cases x)
  have "lookup g (q, m) = Some c \<longleftrightarrow> f (q, m) = Some c" for c
    using lookup_iff [OF assms(1,2)] assms(3) by simp
  then show "lookup g x = f x" by (metis x option.exhaust)
qed

lemma live_new:
  assumes "s < SOTFS_MAX_INODES" "i_id (inodes g s) = 0"
  shows "\<not> live g (int s + 1)"
  using assms by (simp add: live_iff)

text \<open>
  The invariant speaks of a set \<open>R\<close> of inodes that need no parent. The rewrites go through
  states in which the inode they work on is detached: it is then added to \<open>R\<close>.
\<close>

lemma graph_okI:
  assumes "tables_ok g" "edges_ok R g" "\<And>n. live g n \<Longrightarrow> inode_ok (inode_of g n)"
    and "\<And>r. r \<in> R \<Longrightarrow> live g r" "root_id g \<in> R" "is_dir g (root_id g)"
    and "\<And>s. s < SOTFS_MAX_BLOCKS \<Longrightarrow> b_id (blocks g s) \<noteq> 0 \<Longrightarrow>
          live g (b_file_id (blocks g s)) \<and> \<not> is_dir g (b_file_id (blocks g s))"
  shows "graph_ok R g"
  unfolding graph_ok_def using assms by simp

lemma edges_okI:
  assumes "\<And>s p nm c. edge_at g s p nm c \<Longrightarrow> is_dir g p \<and> live g c \<and> c \<notin> R \<and> i_orphan (inode_of g c) = 0"
    and "\<And>s s' p nm c c'. edge_at g s p nm c \<Longrightarrow> edge_at g s' p nm c' \<Longrightarrow> s = s'"
    and "\<And>s s' p p' nm nm' c. edge_at g s p nm c \<Longrightarrow> edge_at g s' p' nm' c \<Longrightarrow> s = s'"
    and "\<And>c. live g c \<Longrightarrow> c \<notin> R \<Longrightarrow> i_orphan (inode_of g c) = 0 \<Longrightarrow> \<exists>s p nm. edge_at g s p nm c"
  shows "edges_ok R g"
  unfolding edges_ok_def
  apply (intro conjI allI impI)
        apply (simp_all add: assms(1))
    apply (erule (1) assms(2))
   apply (erule (1) assms(3))
  apply (erule (2) assms(4))
  done

abbreviation put_inode :: "sotfs_graph \<Rightarrow> nat \<Rightarrow> sotfs_inode \<Rightarrow> sotfs_graph" where
  "put_inode g s i \<equiv> g\<lparr>inodes := (inodes g)(s := i)\<rparr>"

abbreviation put_edge :: "sotfs_graph \<Rightarrow> nat \<Rightarrow> sotfs_edge \<Rightarrow> sotfs_graph" where
  "put_edge g s e \<equiv> g\<lparr>edges := (edges g)(s := e)\<rparr>"

lemma put_inode_simps:
  assumes "s < SOTFS_MAX_INODES" "i_id i \<noteq> 0"
  shows "live (put_inode g s i) n \<longleftrightarrow> n = int s + 1 \<or> live g n"
    and "inodes (put_inode g s i) s = i"
    and "live g n \<Longrightarrow> n \<noteq> int s + 1 \<Longrightarrow> inode_of (put_inode g s i) n = inode_of g n"
    and "live g n \<Longrightarrow> n \<noteq> int s + 1 \<Longrightarrow> is_dir (put_inode g s i) n = is_dir g n"
    and "edge_at (put_inode g s i) = edge_at g"
proof -
  show l: "live (put_inode g s i) n \<longleftrightarrow> n = int s + 1 \<or> live g n"
    using assms by (auto simp: live_iff)
  show "inodes (put_inode g s i) s = i" by simp
  show i: "inode_of (put_inode g s i) n = inode_of g n" if "live g n" "n \<noteq> int s + 1"
    using that by (auto simp: inode_of_def live_iff)
  show "is_dir (put_inode g s i) n = is_dir g n" if "live g n" "n \<noteq> int s + 1"
    using l i that by (simp add: is_dir_def)
  show "edge_at (put_inode g s i) = edge_at g" by (rule edge_at_cong) simp
qed

lemma put_inode_ok:
  assumes ok: "graph_ok R g" and s: "s < SOTFS_MAX_INODES" "i_id (inodes g s) = 0"
    and k: "kind \<noteq> SOTFS_KIND_FREE"
  shows "graph_ok (insert (int s + 1) R) (put_inode g s (new_inode s kind mode))" (is "graph_ok ?R ?h")
proof -
  have nz: "i_id (new_inode s kind mode) \<noteq> 0" by (simp add: new_inode_def)
  note simps = put_inode_simps [OF s(1) nz, of g]
  note t = graph_okD(1) [OF ok] and ed = graph_okD(2) [OF ok]
  have nl: "\<not> live g (int s + 1)" by (rule live_new [OF s])
  have keep: "inode_of ?h n = inode_of g n" "is_dir ?h n = is_dir g n" if "live g n" for n
    using simps(3,4) [OF that] nl that by metis+
  have dir: "is_dir ?h n" if "is_dir g n" for n using keep(2) that is_dir_def by blast
  show ?thesis
  proof (rule graph_okI)
    show "tables_ok ?h" using t by (auto simp: tables_ok_def new_inode_def)
    show "edges_ok ?R ?h"
    proof (rule edges_okI)
      fix t p nm c assume "edge_at ?h t p nm c"
      then have a: "edge_at g t p nm c" by (simp only: simps(5))
      have c: "live g c" by (rule edges_okD(2) [OF ed a])
      show "is_dir ?h p \<and> live ?h c \<and> c \<notin> ?R \<and> i_orphan (inode_of ?h c) = 0"
        using dir [OF edges_okD(1) [OF ed a]] edges_okD(3,4) [OF ed a] c nl keep(1) [OF c] simps(1) by auto
    next
      show "edge_at ?h t p nm c \<Longrightarrow> edge_at ?h t' p nm c' \<Longrightarrow> t = t'" for t t' p nm c c'
        unfolding simps(5) by (rule edges_okD(5) [OF ed])
      show "edge_at ?h t p nm c \<Longrightarrow> edge_at ?h t' p' nm' c \<Longrightarrow> t = t'" for t t' p p' nm nm' c
        unfolding simps(5) by (rule edges_okD(6) [OF ed])
      show "\<exists>t p nm. edge_at ?h t p nm c" if "live ?h c" "c \<notin> ?R" "i_orphan (inode_of ?h c) = 0" for c
        using that edges_okD(7) [OF ed, of c] keep(1) [of c] unfolding simps(5) by (simp add: simps(1))
    qed
    show "inode_ok (inode_of ?h n)" if "live ?h n" for n
    proof (cases "n = int s + 1")
      case True
      then show ?thesis using k simps(2) by (simp add: inode_ok_def new_inode_def zero_inode_def)
    next
      case False
      then show ?thesis using that simps(1) keep(1) graph_okD(3) [OF ok] by simp
    qed
    show "live ?h r" if "r \<in> ?R" for r using that graph_okD(4) [OF ok] simps(1) by blast
    show "root_id ?h \<in> ?R" using graph_okD(5) [OF ok] by simp
    show "is_dir ?h (root_id ?h)" using dir [OF graph_okD(6) [OF ok]] by simp
    show "live ?h (b_file_id (blocks ?h b)) \<and> \<not> is_dir ?h (b_file_id (blocks ?h b))"
      if "b < SOTFS_MAX_BLOCKS" "b_id (blocks ?h b) \<noteq> 0" for b
      using graph_okD(7) [OF ok, of b] that keep(2) simps(1) by simp
  qed
qed

lemma put_edge_simps:
  "live (put_edge g s e) = live g" "inode_of (put_edge g s e) = inode_of g" "is_dir (put_edge g s e) = is_dir g"
  using live_cong [of "put_edge g s e" g] by simp_all

lemma edge_at_new:
  assumes "s < SOTFS_MAX_EDGES" "e_id (edges g s) = 0"
  shows "edge_at (put_edge g s (new_edge s p c nm)) t q m d \<longleftrightarrow> (t = s \<and> q = p \<and> m = nm \<and> d = c) \<or> edge_at g t q m d"
  using assms by (auto simp: edge_at_def new_edge_def)

lemma edge_at_clear:
  "edge_at (put_edge g s zero_edge) t q m d \<longleftrightarrow> t \<noteq> s \<and> edge_at g t q m d"
  by (auto simp: edge_at_def zero_edge_def)

lemma put_edge_ok:
  assumes ok: "graph_ok (insert c R) g" and c: "c \<notin> R" "i_orphan (inode_of g c) = 0" "root_id g \<noteq> c"
    and s: "s < SOTFS_MAX_EDGES" "e_id (edges g s) = 0" and p: "is_dir g p" and l: "lookup g (p, nm) = None"
    and nm: "nm \<noteq> []" "length nm < SOTFS_MAX_NAME"
  shows "graph_ok R (put_edge g s (new_edge s p c nm))" (is "graph_ok R ?h")
proof -
  note t = graph_okD(1) [OF ok] and ed = graph_okD(2) [OF ok]
  note simps = put_edge_simps [of g s "new_edge s p c nm"] and at = edge_at_new [OF s, of p c nm]
  have no: "\<not> edge_at g t p nm d" for t d using lookup_iff [OF t ed, of p nm d] l by auto
  have nc: "\<not> edge_at g t q m c" for t q m using edges_okD(3) [OF ed] by blast
  have lc: "live g c" using graph_okD(4) [OF ok] by blast
  show ?thesis
  proof (rule graph_okI)
    show "tables_ok ?h" using t nm by (auto simp: tables_ok_def new_edge_def)
    show "edges_ok R ?h"
    proof (rule edges_okI)
      fix t q m d assume "edge_at ?h t q m d"
      then consider "q = p" "d = c" | "edge_at g t q m d" unfolding at by blast
      then show "is_dir ?h q \<and> live ?h d \<and> d \<notin> R \<and> i_orphan (inode_of ?h d) = 0"
        unfolding simps by cases (use p lc c edges_okD(1-4) [OF ed] in blast)+
    next
      show "edge_at ?h t q m d \<Longrightarrow> edge_at ?h t' q m d' \<Longrightarrow> t = t'" for t t' q m d d'
        unfolding at using no edges_okD(5) [OF ed] by blast
      show "edge_at ?h t q m d \<Longrightarrow> edge_at ?h t' q' m' d \<Longrightarrow> t = t'" for t t' q q' m m' d
        unfolding at using nc edges_okD(6) [OF ed] by blast
      show "\<exists>t q m. edge_at ?h t q m d" if "live ?h d" "d \<notin> R" "i_orphan (inode_of ?h d) = 0" for d
        using that edges_okD(7) [OF ed, of d] unfolding at simps by blast
    qed
    show "root_id ?h \<in> R" using graph_okD(5) [OF ok] c by simp
  qed (unfold simps, use graph_okD [OF ok] in simp_all)
qed

lemma clear_edge_ok:
  assumes ok: "graph_ok R g" and e: "edge_at g s p nm c"
  shows "graph_ok (insert c R) (put_edge g s zero_edge)" (is "graph_ok ?R ?h")
proof -
  note t = graph_okD(1) [OF ok] and ed = graph_okD(2) [OF ok]
  note simps = put_edge_simps [of g s zero_edge] and at = edge_at_clear [of g s]
  have nc: "\<not> (t \<noteq> s \<and> edge_at g t q m c)" for t q m using edges_okD(6) [OF ed e] by blast
  show ?thesis
  proof (rule graph_okI)
    show "tables_ok ?h" using t by (auto simp: tables_ok_def)
    show "edges_ok ?R ?h"
    proof (rule edges_okI)
      fix t q m d assume "edge_at ?h t q m d"
      then have "edge_at g t q m d" "d \<noteq> c" unfolding at using nc by auto
      then show "is_dir ?h q \<and> live ?h d \<and> d \<notin> ?R \<and> i_orphan (inode_of ?h d) = 0"
        unfolding simps using edges_okD(1-4) [OF ed] by blast
    next
      show "edge_at ?h t q m d \<Longrightarrow> edge_at ?h t' q m d' \<Longrightarrow> t = t'" for t t' q m d d'
        unfolding at using edges_okD(5) [OF ed] by blast
      show "edge_at ?h t q m d \<Longrightarrow> edge_at ?h t' q' m' d \<Longrightarrow> t = t'" for t t' q q' m m' d
        unfolding at using edges_okD(6) [OF ed] by blast
      show "\<exists>t q m. edge_at ?h t q m d" if "live ?h d" "d \<notin> ?R" "i_orphan (inode_of ?h d) = 0" for d
      proof -
        have d: "live g d" "d \<noteq> c" "d \<notin> R" "i_orphan (inode_of g d) = 0" using that unfolding simps by auto
        obtain t q m where "edge_at g t q m d" using edges_okD(7) [OF ed d(1,3,4)] by blast
        then show ?thesis unfolding at using d(2) edge_at_fun [OF e] by metis
      qed
    qed
    show "live ?h r" if "r \<in> ?R" for r unfolding simps using that graph_okD(4) [OF ok] edges_okD(2) [OF ed e] by blast
  qed (unfold simps, use graph_okD [OF ok] in simp_all)
qed

lemma clear_inode_simps:
  assumes "s < SOTFS_MAX_INODES"
  shows "live (put_inode g s zero_inode) n \<longleftrightarrow> n \<noteq> int s + 1 \<and> live g n"
    and "live g n \<Longrightarrow> n \<noteq> int s + 1 \<Longrightarrow> inode_of (put_inode g s zero_inode) n = inode_of g n"
    and "is_dir (put_inode g s zero_inode) n \<longleftrightarrow> n \<noteq> int s + 1 \<and> is_dir g n"
    and "edge_at (put_inode g s zero_inode) = edge_at g"
proof -
  show l: "live (put_inode g s zero_inode) n \<longleftrightarrow> n \<noteq> int s + 1 \<and> live g n"
    using assms by (auto simp: live_iff zero_inode_def)
  show i: "inode_of (put_inode g s zero_inode) n = inode_of g n" if "live g n" "n \<noteq> int s + 1"
    using that by (auto simp: inode_of_def live_iff)
  show "is_dir (put_inode g s zero_inode) n \<longleftrightarrow> n \<noteq> int s + 1 \<and> is_dir g n"
    using l i by (auto simp: is_dir_def)
  show "edge_at (put_inode g s zero_inode) = edge_at g" by (rule edge_at_cong) simp
qed

lemma clear_inode_ok:
  assumes ok: "graph_ok (insert (int s + 1) R) g" and s: "s < SOTFS_MAX_INODES" "int s + 1 \<notin> R"
    and r: "root_id g \<noteq> int s + 1" and nch: "\<And>t nm c. \<not> edge_at g t (int s + 1) nm c"
    and nb: "\<And>b. b < SOTFS_MAX_BLOCKS \<Longrightarrow> b_id (blocks g b) \<noteq> 0 \<Longrightarrow> b_file_id (blocks g b) \<noteq> int s + 1"
  shows "graph_ok R (put_inode g s zero_inode)" (is "graph_ok R ?h")
proof -
  note t = graph_okD(1) [OF ok] and ed = graph_okD(2) [OF ok]
  note simps = clear_inode_simps [OF s(1), of g]
  show ?thesis
  proof (rule graph_okI)
    show "tables_ok ?h" using t by (auto simp: tables_ok_def)
    show "edges_ok R ?h"
    proof (rule edges_okI)
      fix t q m d assume "edge_at ?h t q m d"
      then have a: "edge_at g t q m d" by (simp only: simps(4))
      then have "d \<noteq> int s + 1" "q \<noteq> int s + 1" using edges_okD(3) [OF ed a] nch by auto
      then show "is_dir ?h q \<and> live ?h d \<and> d \<notin> R \<and> i_orphan (inode_of ?h d) = 0"
        using edges_okD(1-4) [OF ed a] simps(1-3) by simp
    next
      show "edge_at ?h t q m d \<Longrightarrow> edge_at ?h t' q m d' \<Longrightarrow> t = t'" for t t' q m d d'
        unfolding simps(4) by (rule edges_okD(5) [OF ed])
      show "edge_at ?h t q m d \<Longrightarrow> edge_at ?h t' q' m' d \<Longrightarrow> t = t'" for t t' q q' m m' d
        unfolding simps(4) by (rule edges_okD(6) [OF ed])
      show "\<exists>t q m. edge_at ?h t q m d" if "live ?h d" "d \<notin> R" "i_orphan (inode_of ?h d) = 0" for d
        using that edges_okD(7) [OF ed, of d] simps(1,2) unfolding simps(4) by simp
    qed
    show "inode_ok (inode_of ?h n)" if "live ?h n" for n using that simps(1,2) graph_okD(3) [OF ok] by simp
    show "live ?h n" if "n \<in> R" for n using that s(2) graph_okD(4) [OF ok, of n] simps(1) by auto
    show "root_id ?h \<in> R" using graph_okD(5) [OF ok] r by simp
    show "is_dir ?h (root_id ?h)" using graph_okD(6) [OF ok] r simps(3) by simp
    show "live ?h (b_file_id (blocks ?h b)) \<and> \<not> is_dir ?h (b_file_id (blocks ?h b))"
      if "b < SOTFS_MAX_BLOCKS" "b_id (blocks ?h b) \<noteq> 0" for b
      using graph_okD(7) [OF ok, of b] that nb simps(1,3) by simp
  qed
qed

lemma modify_inode_ok:
  assumes ok: "graph_ok R' g" and s: "s < SOTFS_MAX_INODES" "i_id (inodes g s) \<noteq> 0"
    and j: "i_id j = i_id (inodes g s)" "i_kind j = i_kind (inodes g s)" "inode_ok j"
    and o: "(R' = R \<and> i_orphan j = i_orphan (inodes g s)) \<or>
            (R' = insert (int s + 1) R \<and> int s + 1 \<notin> R \<and> root_id g \<noteq> int s + 1 \<and> i_orphan j \<noteq> 0)"
  shows "graph_ok R (put_inode g s j)" (is "graph_ok R ?h")
proof -
  note t = graph_okD(1) [OF ok] and ed = graph_okD(2) [OF ok]
  have jz: "i_id j \<noteq> 0" using s j by simp
  note simps = put_inode_simps [OF s(1) jz, of g]
  have lc: "live g (int s + 1)" using s by (auto simp: live_iff)
  have l: "live ?h = live g" using simps(1) lc by auto
  have k: "i_kind (inode_of ?h n) = i_kind (inode_of g n)" if "live g n" for n
    using simps(3) [OF that] j(2) by (cases "n = int s + 1") simp_all
  have d: "is_dir ?h = is_dir g" by (rule ext) (use k l in \<open>auto simp: is_dir_def\<close>)
  have sub: "R \<subseteq> R'" using o by auto
  have e0: "i_orphan (inode_of ?h c) = i_orphan (inode_of g c)" if "edge_at g t q m c" for t q m c
    using simps(3) [OF edges_okD(2) [OF ed that]] edges_okD(3) [OF ed that] o by (cases "c = int s + 1") auto
  have e1: "c \<notin> R' \<and> i_orphan (inode_of g c) = 0" if "live g c" "c \<notin> R" "i_orphan (inode_of ?h c) = 0" for c
    using simps(3) [OF that(1)] that(2,3) o by (cases "c = int s + 1") auto
  show ?thesis
  proof (rule graph_okI)
    show "tables_ok ?h" using t s j tables_okD(2) [OF t s] by (auto simp: tables_ok_def)
    show "edges_ok R ?h"
    proof (rule edges_okI, unfold simps(5) l d)
      show "is_dir g q \<and> live g c \<and> c \<notin> R \<and> i_orphan (inode_of ?h c) = 0" if "edge_at g t q m c" for t q m c
        using edges_okD(1-4) [OF ed that] e0 [OF that] sub by auto
      show "edge_at g t q m c \<Longrightarrow> edge_at g t' q m c' \<Longrightarrow> t = t'" for t t' q m c c' by (rule edges_okD(5) [OF ed])
      show "edge_at g t q m c \<Longrightarrow> edge_at g t' q' m' c \<Longrightarrow> t = t'" for t t' q q' m m' c by (rule edges_okD(6) [OF ed])
      show "\<exists>t q m. edge_at g t q m c" if "live g c" "c \<notin> R" "i_orphan (inode_of ?h c) = 0" for c
        using edges_okD(7) [OF ed that(1)] e1 [OF that] by blast
    qed
    show "inode_ok (inode_of ?h n)" if "live ?h n" for n
      using that graph_okD(3) [OF ok, of n] simps(3) [of n] j(3) by (cases "n = int s + 1") (simp_all add: l)
    show "live ?h r" if "r \<in> R" for r using graph_okD(4) [OF ok, of r] that sub unfolding l by blast
    show "root_id ?h \<in> R" using graph_okD(5) [OF ok] o by auto
  qed (unfold d l, use graph_okD [OF ok] in simp_all)
qed

lemma orphan_detached:
  assumes ok: "graph_ok R g" and c: "live g c" "i_orphan (inode_of g c) \<noteq> 0"
  shows "graph_ok (insert c R) g"
proof -
  note t = graph_okD(1) [OF ok] and ed = graph_okD(2) [OF ok]
  show ?thesis
  proof (rule graph_okI)
    show "edges_ok (insert c R) g"
    proof (rule edges_okI)
      show "is_dir g q \<and> live g d \<and> d \<notin> insert c R \<and> i_orphan (inode_of g d) = 0" if "edge_at g t q m d" for t q m d
        using edges_okD(1-4) [OF ed that] c(2) by auto
      show "edge_at g t q m d \<Longrightarrow> edge_at g t' q m d' \<Longrightarrow> t = t'" for t t' q m d d' by (rule edges_okD(5) [OF ed])
      show "edge_at g t q m d \<Longrightarrow> edge_at g t' q' m' d \<Longrightarrow> t = t'" for t t' q q' m m' d by (rule edges_okD(6) [OF ed])
      show "\<exists>t q m. edge_at g t q m d" if "live g d" "d \<notin> insert c R" "i_orphan (inode_of g d) = 0" for d
        using edges_okD(7) [OF ed that(1)] that by blast
    qed
    show "live g r" if "r \<in> insert c R" for r using that c graph_okD(4) [OF ok] by blast
  qed (use graph_okD [OF ok] in simp_all)
qed

lemma blocks_irrelevant:
  assumes ok: "graph_ok R g" and b: "\<And>i. i < SOTFS_MAX_BLOCKS \<Longrightarrow> bl i = blocks g i \<or> bl i = zero_block"
  shows "graph_ok R (g\<lparr>blocks := bl\<rparr>)" (is "graph_ok R ?h")
proof -
  note t = graph_okD(1) [OF ok] and ed = graph_okD(2) [OF ok]
  have l: "live ?h = live g" "inode_of ?h = inode_of g" "is_dir ?h = is_dir g" using live_cong [of ?h g] by simp_all
  have e: "edge_at ?h = edge_at g" by (rule edge_at_cong) simp
  show ?thesis
  proof (rule graph_okI)
    have "bl i = zero_block \<or> b_id (bl i) = int i + 1" if "i < SOTFS_MAX_BLOCKS" for i
      using b [OF that] t that unfolding tables_ok_def by metis
    then show "tables_ok ?h" using t by (simp add: tables_ok_def)
    show "edges_ok R ?h" using ed by (simp only: edges_ok_def l e)
    show "live ?h (b_file_id (blocks ?h s)) \<and> \<not> is_dir ?h (b_file_id (blocks ?h s))"
      if "s < SOTFS_MAX_BLOCKS" "b_id (blocks ?h s) \<noteq> 0" for s
      using b [OF that(1)] that graph_okD(7) [OF ok that(1)] unfolding l by (auto simp: zero_block_def)
  qed (unfold l, use graph_okD [OF ok] in simp_all)
qed

lemma free_storage_ok:
  assumes ok: "graph_ok (insert c R) g" and c: "c \<notin> R" "root_id g \<noteq> c" "\<not> is_dir g c"
  shows "graph_ok R (sotfs_free_file_storage g c)"
proof -
  have "live g c" using graph_okD(4) [OF ok] by blast
  then obtain s where s: "s < SOTFS_MAX_INODES" "c = int s + 1" "i_id (inodes g s) \<noteq> 0" by (auto simp: live_iff)
  have sl: "inode_slot c = Some s" using s by (simp add: id_slot_Some_iff)
  let ?bl = "\<lambda>i. if i < SOTFS_MAX_BLOCKS \<and> b_id (blocks g i) \<noteq> 0 \<and> b_file_id (blocks g i) = c then zero_block else blocks g i"
  let ?g = "g\<lparr>blocks := ?bl\<rparr>"
  have "graph_ok (insert c R) ?g" by (rule blocks_irrelevant [OF ok]) auto
  then have ok': "graph_ok (insert (int s + 1) R) ?g" by (simp only: s(2))
  have "graph_ok R (put_inode ?g s zero_inode)"
  proof (rule clear_inode_ok [OF ok' s(1)])
    show "int s + 1 \<notin> R" "root_id ?g \<noteq> int s + 1" using c s(2) by simp_all
    have d: "\<not> is_dir ?g (int s + 1)" using c(3) s(2) live_cong [of ?g g] by simp
    then show "\<not> edge_at ?g t (int s + 1) nm d" for t nm d
      using edges_okD(1) [OF graph_okD(2) [OF ok']] by blast
    show "b_file_id (blocks ?g b) \<noteq> int s + 1" if "b < SOTFS_MAX_BLOCKS" "b_id (blocks ?g b) \<noteq> 0" for b
      using that s(2) by (auto simp: zero_block_def split: if_splits)
  qed
  moreover have "sotfs_free_file_storage g c = put_inode ?g s zero_inode"
    using s sl by (simp add: sotfs_free_file_storage_def sotfs_free_inode_def)
  ultimately show ?thesis by simp
qed

subsection \<open>The abstraction of the elementary changes\<close>

lemma lookup_cong: "edges g = edges h \<Longrightarrow> lookup g = lookup h"
proof -
  assume e: "edges g = edges h"
  have "sotfs_find_edge g p nm = sotfs_find_edge h p nm" for p nm by (simp only: sotfs_find_edge_def e)
  then show ?thesis by (simp only: lookup_def e)
qed

lemma absfs_cong: "inodes g = inodes h \<Longrightarrow> edges g = edges h \<Longrightarrow> absfs g = absfs h"
  using live_cong [of g h] lookup_cong [of g h] by (simp add: absfs_def cong: if_cong)

lemma absfs_sel [simp]:
  "tree (absfs g) = lookup g"
  "kinds (absfs g) n = (if live g n then Some (i_kind (inode_of g n)) else None)"
  "opens (absfs g) n = (if live g n then unat (i_open_count (inode_of g n)) else 0)"
  by (simp_all add: absfs_def)

lemma lookup_new_edge:
  assumes ok: "graph_ok R g" and ok': "graph_ok R' (put_edge g s (new_edge s p c nm))"
    and s: "s < SOTFS_MAX_EDGES" "e_id (edges g s) = 0" and l: "lookup g (p, nm) = None"
  shows "lookup (put_edge g s (new_edge s p c nm)) = (lookup g)((p, nm) \<mapsto> c)"
proof (rule lookup_eqI [OF graph_okD(1,2) [OF ok']], unfold edge_at_new [OF s])
  note lk = lookup_iff [OF graph_okD(1,2) [OF ok]]
  have no: "\<not> edge_at g t p nm d" for t d using lk [of p nm d] l by auto
  show "(\<exists>t. (t = s \<and> q = p \<and> m = nm \<and> d = c) \<or> edge_at g t q m d) \<longleftrightarrow> ((lookup g)((p, nm) \<mapsto> c)) (q, m) = Some d" for q m d
    using no lk [of q m d] by auto
qed

lemma lookup_clear_edge:
  assumes ok: "graph_ok R g" and ok': "graph_ok R' (put_edge g s zero_edge)" and e: "edge_at g s p nm c"
  shows "lookup (put_edge g s zero_edge) = (lookup g)((p, nm) := None)"
proof (rule lookup_eqI [OF graph_okD(1,2) [OF ok']], unfold edge_at_clear)
  note lk = lookup_iff [OF graph_okD(1,2) [OF ok]]
  show "(\<exists>t. t \<noteq> s \<and> edge_at g t q m d) \<longleftrightarrow> ((lookup g)((p, nm) := None)) (q, m) = Some d" for q m d
  proof (cases "(q, m) = (p, nm)")
    case True
    then show ?thesis using edges_okD(5) [OF graph_okD(2) [OF ok] e] by auto
  next
    case False
    then have "t \<noteq> s" if "edge_at g t q m d" for t using that edge_at_fun [OF e] by blast
    with False show ?thesis using lk [of q m d] by auto
  qed
qed

lemma edge_lookup: "graph_ok R g \<Longrightarrow> edge_at g s p nm c \<Longrightarrow> lookup g (p, nm) = Some c"
  using lookup_iff [OF graph_okD(1,2)] by blast

lemma absfs_put_inode:
  assumes "s < SOTFS_MAX_INODES" "i_id i \<noteq> 0"
  shows "absfs (put_inode g s i) = \<lparr>tree = lookup g, kinds = (kinds (absfs g))(int s + 1 \<mapsto> i_kind i),
     opens = (opens (absfs g))(int s + 1 := unat (i_open_count i))\<rparr>"
proof -
  have i: "inode_of (put_inode g s i) n = inode_of g n" if "live g n" "n \<noteq> int s + 1" for n
    by (rule put_inode_simps(3) [OF assms that])
  have l: "lookup (put_inode g s i) = lookup g" by (rule lookup_cong) simp
  show ?thesis
    by (simp add: absfs_def l, intro conjI ext) (auto simp: put_inode_simps(1) [OF assms] i)
qed

lemma absfs_clear_inode:
  assumes "s < SOTFS_MAX_INODES"
  shows "absfs (put_inode g s zero_inode) = fs_drop (int s + 1) (absfs g)"
proof -
  have i: "inode_of (put_inode g s zero_inode) n = inode_of g n" if "live g n" "n \<noteq> int s + 1" for n
    by (rule clear_inode_simps(2) [OF assms that])
  have l: "lookup (put_inode g s zero_inode) = lookup g" by (rule lookup_cong) simp
  show ?thesis
    by (simp add: absfs_def fs_drop_def l, intro conjI ext) (auto simp: clear_inode_simps(1) [OF assms] i)
qed

lemma absfs_put_edge: "absfs (put_edge g s e) = (absfs g)\<lparr>tree := lookup (put_edge g s e)\<rparr>"
  by (simp add: absfs_def put_edge_simps cong: if_cong)

lemma absfs_free_storage:
  assumes "live g c"
  shows "absfs (sotfs_free_file_storage g c) = fs_drop c (absfs g)"
proof -
  obtain s where s: "s < SOTFS_MAX_INODES" "c = int s + 1" "i_id (inodes g s) \<noteq> 0" using assms by (auto simp: live_iff)
  have sl: "inode_slot c = Some s" using s by (simp add: id_slot_Some_iff)
  have "absfs (sotfs_free_file_storage g c) = absfs (put_inode g s zero_inode)"
    by (rule absfs_cong) (use s sl in \<open>simp_all add: sotfs_free_file_storage_def sotfs_free_inode_def\<close>)
  then show ?thesis using absfs_clear_inode [OF s(1)] s(2) by simp
qed


subsection \<open>Exhaustion\<close>

lemma card_full_iff: "card {s. s < N \<and> P s} = (N::nat) \<longleftrightarrow> (\<forall>s<N. P s)"
proof
  assume c: "card {s. s < N \<and> P s} = N"
  have "{s. s < N \<and> P s} = {..<N}" by (rule card_subset_eq) (auto simp: c)
  then show "\<forall>s<N. P s" by blast
next
  assume "\<forall>s<N. P s"
  then have "{s. s < N \<and> P s} = {..<N}" by auto
  then show "card {s. s < N \<and> P s} = N" by simp
qed

lemma full_inodes_iff: "fs_full_inodes (absfs g) \<longleftrightarrow> (\<forall>s<SOTFS_MAX_INODES. i_id (inodes g s) \<noteq> 0)"
proof -
  have "dom (kinds (absfs g)) = (\<lambda>s. int s + 1) ` {s. s < SOTFS_MAX_INODES \<and> i_id (inodes g s) \<noteq> 0}"
    by (auto simp: dom_def live_iff split: if_splits)
  then have "card (dom (kinds (absfs g))) = card {s. s < SOTFS_MAX_INODES \<and> i_id (inodes g s) \<noteq> 0}"
    by (simp add: card_image inj_on_def)
  then show ?thesis unfolding fs_full_inodes_def by (simp only: card_full_iff)
qed

lemma full_edges_iff:
  assumes ok: "graph_ok R g"
  shows "fs_full_edges (absfs g) \<longleftrightarrow> (\<forall>s<SOTFS_MAX_EDGES. e_id (edges g s) \<noteq> 0)"
proof -
  note lk = lookup_iff [OF graph_okD(1,2) [OF ok]] and ed = graph_okD(2) [OF ok]
  let ?S = "{s. s < SOTFS_MAX_EDGES \<and> e_id (edges g s) \<noteq> 0}"
  let ?f = "\<lambda>s. (e_parent_id (edges g s), e_name (edges g s))"
  have at: "s \<in> ?S \<Longrightarrow> ?f s = (p, nm) \<Longrightarrow> edge_at g s p nm (e_child_id (edges g s))" for s p nm
    by (simp add: edge_at_def)
  have "dom (lookup g) = ?f ` ?S"
  proof (intro set_eqI iffI)
    fix x assume "x \<in> dom (lookup g)"
    then obtain p nm c where x: "x = (p, nm)" and "lookup g (p, nm) = Some c" by (cases x) auto
    then obtain s where "edge_at g s p nm c" using lk by blast
    then show "x \<in> ?f ` ?S" by (auto simp: x edge_at_def)
  next
    fix x assume "x \<in> ?f ` ?S"
    then obtain s where s: "s \<in> ?S" and x: "x = ?f s" by blast
    then have "lookup g x = Some (e_child_id (edges g s))" using lk at [OF s] by blast
    then show "x \<in> dom (lookup g)" by blast
  qed
  moreover have "inj_on ?f ?S"
    by (rule inj_onI) (metis at edges_okD(5) [OF ed] prod.inject)
  ultimately have "card (dom (lookup g)) = card ?S" by (simp add: card_image)
  then show ?thesis unfolding fs_full_edges_def absfs_sel(1) by (simp only: card_full_iff)
qed

lemma dir_err_absfs: "dir_err (absfs g) p = check_dir g p"
  using check_dir_ok [of g p] check_dir_NOENT [of g p] check_dir_NOTDIR [of g p]
  by (auto simp: dir_err_def is_dir_def)

lemma name_err_iff: "name_err nm = SOTFS_OK \<longleftrightarrow> nm \<noteq> [] \<and> length nm < SOTFS_MAX_NAME"
  by (auto simp: name_err_def)

end
