(* ===== verification/SotfsRefine.thy ===== *)
theory SotfsRefine
  imports SotfsSpec
begin

text \<open>
  Every rewrite of \<^verbatim>\<open>src/sotfs/rewrite.c\<close> keeps the invariant of the graph and refines the
  abstract file system, on every branch.
\<close>

subsection \<open>Creation\<close>

lemma create_guards:
  assumes ok: "graph_ok R g" and r: "rewrite_create kind g p nm mode = (r, g')"
    and n: "\<not> (name_err nm = SOTFS_OK \<and> check_dir g p = SOTFS_OK \<and> sotfs_find_edge g p nm = 0)"
  shows "g' = g \<and> spec_create kind p nm (absfs g) r (absfs g)"
  using r n find_edge_0_iff [OF graph_okD(1,2) [OF ok], of p nm]
  by (auto simp: spec_create_def rewrite_create_def dir_err_absfs name_err_def split: if_splits)

lemma create_link_refines:
  assumes ok: "graph_ok R g" and d: "is_dir g p" and l: "lookup g (p, nm) = None"
    and nm: "nm \<noteq> []" "length nm < SOTFS_MAX_NAME" and k: "kind \<noteq> SOTFS_KIND_FREE"
    and s: "s < SOTFS_MAX_INODES" "i_id (inodes g s) = 0" and e: "e < SOTFS_MAX_EDGES" "e_id (edges g e) = 0"
    and g': "inodes g' = (inodes g)(s := new_inode s kind mode)" "edges g' = (edges g)(e := new_edge e p (int s + 1) nm)"
      "blocks g' = blocks g" "root_id g' = root_id g"
  shows "graph_ok R g' \<and> absfs g' =
    \<lparr>tree = (lookup g)((p, nm) \<mapsto> int s + 1), kinds = (kinds (absfs g))(int s + 1 \<mapsto> kind), opens = opens (absfs g)\<rparr>"
proof -
  let ?g1 = "put_inode g s (new_inode s kind mode)"
  let ?g2 = "put_edge ?g1 e (new_edge e p (int s + 1) nm)"
  have nz: "i_id (new_inode s kind mode) \<noteq> 0" by (simp add: new_inode_def)
  have nl: "\<not> live g (int s + 1)" by (rule live_new [OF s])
  have fR: "int s + 1 \<notin> R" using nl graph_okD(4) [OF ok] by blast
  have ok1: "graph_ok (insert (int s + 1) R) ?g1" by (rule put_inode_ok [OF ok s k])
  have l1: "lookup ?g1 (p, nm) = None" using l lookup_cong [of ?g1 g] by simp
  have e1: "e_id (edges ?g1 e) = 0" using e by simp
  have d1: "is_dir ?g1 p" using d nl put_inode_simps(4) [OF s(1) nz, of g p] by (auto simp: is_dir_def)
  have ok2: "graph_ok R ?g2"
  proof (rule put_edge_ok [OF ok1 fR _ _ e(1) e1 d1 l1 nm])
    show "i_orphan (inode_of ?g1 (int s + 1)) = 0" by (simp add: new_inode_def zero_inode_def)
    show "root_id ?g1 \<noteq> int s + 1" using graph_okD(5) [OF ok] fR by auto
  qed
  have "inodes g' = inodes ?g2" "edges g' = edges ?g2" "blocks g' = blocks ?g2" "root_id g' = root_id ?g2"
    using g' by simp_all
  note c = graph_ok_cong [OF this] absfs_cong [OF this(1,2)]
  have "lookup ?g2 = (lookup g)((p, nm) \<mapsto> int s + 1)"
    using lookup_new_edge [OF ok1 ok2 e(1) e1 l1] lookup_cong [of ?g1 g] by simp
  moreover have "(opens (absfs g))(int s + 1 := 0) = opens (absfs g)" using nl by (auto simp: fun_eq_iff)
  ultimately have "absfs ?g2 = \<lparr>tree = (lookup g)((p, nm) \<mapsto> int s + 1),
      kinds = (kinds (absfs g))(int s + 1 \<mapsto> kind), opens = opens (absfs g)\<rparr>"
    unfolding absfs_put_edge absfs_put_inode [OF s(1) nz] by (simp add: new_inode_def zero_inode_def)
  with ok2 c show ?thesis by simp
qed

lemma create_refines:
  assumes ok: "graph_ok R g" and k: "kind \<noteq> SOTFS_KIND_FREE" and r: "rewrite_create kind g p nm mode = (r, g')"
  shows "graph_ok R g' \<and> spec_create kind p nm (absfs g) r (absfs g')"
proof (cases "name_err nm = SOTFS_OK \<and> check_dir g p = SOTFS_OK \<and> sotfs_find_edge g p nm = 0")
  case False
  with create_guards [OF ok r] ok show ?thesis by simp
next
  case True
  note t = graph_okD(1) [OF ok]
  have nm: "nm \<noteq> []" "length nm < SOTFS_MAX_NAME" using True name_err_iff by auto
  have l: "lookup g (p, nm) = None" using True find_edge_0_iff [OF t graph_okD(2) [OF ok]] by simp
  have d: "is_dir g p" using True check_dir_ok by simp
  have spec: "spec_create kind p nm (absfs g) r fs' \<longleftrightarrow>
      (if fs_full_inodes (absfs g) \<or> fs_full_edges (absfs g) then r = SOTFS_ERR_NOSPACE \<and> fs' = absfs g
      else 0 < r \<and> \<not> live g r \<and>
           fs' = \<lparr>tree = (lookup g)((p, nm) \<mapsto> r), kinds = (kinds (absfs g))(r \<mapsto> kind), opens = opens (absfs g)\<rparr>)" for fs'
    using True l by (simp add: spec_create_def dir_err_absfs)
  from alloc_inode_cases [OF t, of kind mode] show ?thesis
  proof (elim disjE exE conjE)
    assume a: "sotfs_alloc_inode g kind mode = (0, g)" and f: "\<forall>s<SOTFS_MAX_INODES. i_id (inodes g s) \<noteq> 0"
    have "r = SOTFS_ERR_NOSPACE" "g' = g" using r a True nm by (auto simp: rewrite_create_def)
    with ok f show ?thesis unfolding spec by (simp add: full_inodes_iff)
  next
    fix s assume s: "s < SOTFS_MAX_INODES" "i_id (inodes g s) = 0"
      and a: "sotfs_alloc_inode g kind mode = (int s + 1, g\<lparr>inodes := (inodes g)(s := new_inode s kind mode),
             next_inode_hint := (s + 1) mod SOTFS_MAX_INODES\<rparr>)" (is "_ = (_, ?g1)")
    have nf: "\<not> fs_full_inodes (absfs g)" using s by (auto simp: full_inodes_iff)
    have sl: "inode_slot (int s + 1) = Some s" using s(1) by (simp add: id_slot_Some_iff)
    from alloc_edge_cases [OF nm(2), of ?g1 p "int s + 1"] show ?thesis
    proof (elim disjE exE conjE)
      assume b: "sotfs_alloc_edge ?g1 p (int s + 1) nm = (0, ?g1)" and f: "\<forall>e<SOTFS_MAX_EDGES. e_id (edges ?g1 e) \<noteq> 0"
      have rr: "r = SOTFS_ERR_NOSPACE" "g' = sotfs_free_inode ?g1 (int s + 1)"
        using r a b True nm by (auto simp: rewrite_create_def)
      have i: "inodes g' = inodes g" using rr(2) tables_okD(1) [OF t s] sl
        by (simp add: sotfs_free_inode_def fun_upd_idem)
      have e: "edges g' = edges g" "blocks g' = blocks g" "root_id g' = root_id g"
        using rr(2) sl by (simp_all add: sotfs_free_inode_def)
      show ?thesis unfolding spec
        using ok graph_ok_cong [OF i e] absfs_cong [OF i e(1)] f full_edges_iff [OF ok] rr(1) by simp
    next
      fix e assume e: "e < SOTFS_MAX_EDGES" "e_id (edges ?g1 e) = 0"
        and b: "sotfs_alloc_edge ?g1 p (int s + 1) nm = (int e + 1, ?g1\<lparr>edges := (edges ?g1)(e := new_edge e p (int s + 1) nm),
             next_edge_hint := (e + 1) mod SOTFS_MAX_EDGES\<rparr>)" (is "_ = (_, ?g2)")
      have e': "e_id (edges g e) = 0" using e by simp
      have rr: "r = int s + 1" "g' = ?g2" using r a b True nm by (auto simp: rewrite_create_def)
      have "graph_ok R g' \<and> absfs g' =
          \<lparr>tree = (lookup g)((p, nm) \<mapsto> int s + 1), kinds = (kinds (absfs g))(int s + 1 \<mapsto> kind), opens = opens (absfs g)\<rparr>"
        by (rule create_link_refines [OF ok d l nm k s e(1) e']) (simp_all add: rr)
      moreover have "\<not> fs_full_edges (absfs g)" using full_edges_iff [OF ok] e(1) e' by auto
      ultimately show ?thesis unfolding spec using nf live_new [OF s] rr(1) by simp
    qed
  qed
qed


subsection \<open>Unlinking, last close\<close>

text \<open>The state after the edge to \<open>c\<close> is removed: \<open>c\<close> is detached.\<close>

lemma detach:
  assumes ok: "graph_ok R g" and e: "edge_at g s p nm c"
  shows "graph_ok (insert c R) (sotfs_free_edge g (int s + 1))" and "c \<notin> R" and "root_id g \<noteq> c" and "live g c"
    and "sotfs_free_edge g (int s + 1) = put_edge g s zero_edge"
    and "absfs (sotfs_free_edge g (int s + 1)) = (absfs g)\<lparr>tree := (lookup g)((p, nm) := None)\<rparr>"
proof -
  show f: "sotfs_free_edge g (int s + 1) = put_edge g s zero_edge"
    using edge_at_slot [OF e] by (simp add: sotfs_free_edge_def)
  show ok1: "graph_ok (insert c R) (sotfs_free_edge g (int s + 1))" unfolding f by (rule clear_edge_ok [OF ok e])
  show "c \<notin> R" "live g c" using edges_okD(2,3) [OF graph_okD(2) [OF ok] e] by auto
  then show "root_id g \<noteq> c" using graph_okD(5) [OF ok] by auto
  show "absfs (sotfs_free_edge g (int s + 1)) = (absfs g)\<lparr>tree := (lookup g)((p, nm) := None)\<rparr>"
    using lookup_clear_edge [OF ok ok1 [unfolded f] e] unfolding f absfs_put_edge by simp
qed

lemma live_slotE:
  assumes "live g c"
  obtains s where "s < SOTFS_MAX_INODES" "c = int s + 1" "inode_slot c = Some s" "i_id (inodes g s) \<noteq> 0" "inode_of g c = inodes g s"
  using assms by (auto simp: live_iff id_slot_Some_iff)

lemma free_storage_cong:
  assumes "live g c" "live h c" "\<And>s. int s + 1 \<noteq> c \<Longrightarrow> inodes g s = inodes h s"
    "edges g = edges h" "blocks g = blocks h" "root_id g = root_id h"
  shows "graph_ok R (sotfs_free_file_storage g c) \<longleftrightarrow> graph_ok R (sotfs_free_file_storage h c)"
    and "absfs (sotfs_free_file_storage g c) = absfs (sotfs_free_file_storage h c)"
proof -
  obtain s where s: "s < SOTFS_MAX_INODES" "c = int s + 1" "inode_slot c = Some s" "i_id (inodes g s) \<noteq> 0" "i_id (inodes h s) \<noteq> 0"
    using assms(1,2) live_slotE by (metis option.inject)
  have "(inodes g)(s := zero_inode) = (inodes h)(s := zero_inode)" using assms(3) s(2) by (auto simp: fun_eq_iff)
  then have e: "inodes (sotfs_free_file_storage g c) = inodes (sotfs_free_file_storage h c)"
    "edges (sotfs_free_file_storage g c) = edges (sotfs_free_file_storage h c)"
    "blocks (sotfs_free_file_storage g c) = blocks (sotfs_free_file_storage h c)"
    "root_id (sotfs_free_file_storage g c) = root_id (sotfs_free_file_storage h c)"
    using s assms(4-6) by (simp_all add: sotfs_free_file_storage_def sotfs_free_inode_def cong: if_cong)
  show "graph_ok R (sotfs_free_file_storage g c) \<longleftrightarrow> graph_ok R (sotfs_free_file_storage h c)" by (rule graph_ok_cong [OF e])
  show "absfs (sotfs_free_file_storage g c) = absfs (sotfs_free_file_storage h c)" by (rule absfs_cong [OF e(1,2)])
qed

lemma unlink_found:
  assumes ok: "graph_ok R g" and e: "edge_at g es p nm c" and nd: "\<not> is_dir g c" and cs: "inode_slot c = Some cs"
    and h: "h = upd_inode (sotfs_free_edge g (int es + 1)) cs (\<lambda>i. i\<lparr>i_nlink := i_nlink i - 1\<rparr>)"
    and g': "g' = (if i_open_count (inodes h cs) > 0 then upd_inode h cs (\<lambda>i. i\<lparr>i_orphan := 1\<rparr>) else sotfs_free_file_storage h c)"
  shows "i_nlink (inodes h cs) = 0"
    and "graph_ok R g' \<and> absfs g' = (let fs1 = (absfs g)\<lparr>tree := (lookup g)((p, nm) := None)\<rparr> in
           if opens (absfs g) c = 0 then fs_drop c fs1 else fs1)"
proof -
  let ?f = "sotfs_free_edge g (int es + 1)"
  note det = detach [OF ok e]
  obtain s where s: "s < SOTFS_MAX_INODES" "c = int s + 1" "inode_slot c = Some s" "i_id (inodes g s) \<noteq> 0" "inode_of g c = inodes g s"
    using det(4) by (rule live_slotE)
  have scs: "s = cs" using cs s(3) by simp
  have f: "inodes ?f = inodes g" "edges ?f = (edges g)(es := zero_edge)" "root_id ?f = root_id g" by (simp_all add: det(5))
  have i: "inode_ok (inodes g cs)" "i_orphan (inodes g cs) = 0" "i_kind (inodes g cs) \<noteq> SOTFS_KIND_DIR"
    using graph_okD(3) [OF ok det(4)] edges_okD(4) [OF graph_okD(2) [OF ok] e] nd det(4) s(5) scs by (auto simp: is_dir_def)
  show nl: "i_nlink (inodes h cs) = 0" using i by (simp add: h upd_inode_def f inode_ok_def)
  have op: "opens (absfs g) c = unat (i_open_count (inodes h cs))" using det(4) s(5) scs by (simp add: h upd_inode_def f)
  have lf: "live ?f c" using det(4) live_cong [OF f(1)] by simp
  show "graph_ok R g' \<and> absfs g' = (let fs1 = (absfs g)\<lparr>tree := (lookup g)((p, nm) := None)\<rparr> in
           if opens (absfs g) c = 0 then fs_drop c fs1 else fs1)"
  proof (cases "i_open_count (inodes h cs) > 0")
    case True
    let ?j = "(inodes g cs)\<lparr>i_nlink := 0, i_orphan := 1\<rparr>"
    have g'j: "g' = put_inode ?f cs ?j" using True nl by (simp add: g' h upd_inode_def f)
    have oc: "i_open_count (inodes g cs) \<noteq> 0" using True by (simp add: h upd_inode_def f word_neq_0_conv)
    have "graph_ok R (put_inode ?f cs ?j)"
      by (rule modify_inode_ok [OF det(1)]) (use s scs i oc det(2,3) in \<open>simp_all add: f inode_ok_def\<close>)
    moreover have "absfs (put_inode ?f cs ?j) = absfs ?f"
    proof -
      have k: "(kinds (absfs ?f))(c \<mapsto> i_kind ?j) = kinds (absfs ?f)" "(opens (absfs ?f))(c := unat (i_open_count ?j)) = opens (absfs ?f)"
        using lf s(2,5) scs f(1) by (auto simp: fun_eq_iff inode_of_def)
      have z: "i_id ?j \<noteq> 0" using s(4) scs by simp
      show ?thesis using absfs_put_inode [OF s(1) z, of ?f] k s(2) scs by (simp add: absfs_sel(1) [symmetric] del: absfs_sel)
    qed
    moreover have "opens (absfs g) c \<noteq> 0" using True op by (simp add: word_neq_0_conv unat_eq_0)
    ultimately show ?thesis unfolding g'j det(6) [symmetric] Let_def by simp
  next
    case False
    have lh: "live h c" using s scs by (auto simp: live_iff h upd_inode_def f)
    have c: "\<And>t. int t + 1 \<noteq> c \<Longrightarrow> inodes ?f t = inodes h t" "edges ?f = edges h" "blocks ?f = blocks h" "root_id ?f = root_id h"
      using s(2) scs by (auto simp: h upd_inode_def f)
    have "graph_ok R (sotfs_free_file_storage ?f c)"
      by (rule free_storage_ok [OF det(1,2)]) (use det(3) nd live_cong [OF f(1)] in \<open>simp_all add: f\<close>)
    moreover have "opens (absfs g) c = 0" using False op by (simp add: word_gt_0 unat_eq_0)
    moreover have "g' = sotfs_free_file_storage h c" using False by (simp add: g')
    ultimately show ?thesis
      using free_storage_cong [OF lf lh c] absfs_free_storage [OF lf] det(6) by (simp add: Let_def)
  qed
qed

lemma unlink_refines:
  assumes ok: "graph_ok R g" and r: "sotfs_rewrite_unlink g p nm = (r, g')"
  shows "graph_ok R g' \<and> spec_unlink p nm (absfs g) r (absfs g')"
proof (cases "nm \<noteq> [] \<and> check_dir g p = SOTFS_OK \<and> sotfs_find_edge g p nm \<noteq> 0")
  case False
  then have "g' = g \<and> spec_unlink p nm (absfs g) r (absfs g)"
    using r find_edge_0_iff [OF graph_okD(1,2) [OF ok], of p nm]
    by (auto simp: spec_unlink_def sotfs_rewrite_unlink_def dir_err_absfs split: if_splits)
  with ok show ?thesis by simp
next
  case True
  then obtain es c where e: "sotfs_find_edge g p nm = int es + 1" "edge_at g es p nm c"
      "edge_slot (sotfs_find_edge g p nm) = Some es" "e_child_id (edges g es) = c"
    using find_edge_SomeE [OF graph_okD(1) [OF ok]] by metis
  have lc: "live g c" by (rule edges_okD(2) [OF graph_okD(2) [OF ok] e(2)])
  then obtain cs where cs: "inode_slot c = Some cs" "inode_of g c = inodes g cs" by (rule live_slotE)
  note lk = edge_lookup [OF ok e(2)]
  show ?thesis
  proof (cases "is_dir g c")
    case d: True
    then have "r = SOTFS_ERR_ISDIR \<and> g' = g" using r True e cs by (simp add: sotfs_rewrite_unlink_def Let_def is_dir_def)
    with ok d lk True lc show ?thesis by (simp add: spec_unlink_def dir_err_absfs is_dir_def)
  next
    case d: False
    then have k: "i_kind (inodes g cs) \<noteq> SOTFS_KIND_DIR" using lc cs(2) by (simp add: is_dir_def)
    define h where "h = upd_inode (sotfs_free_edge g (int es + 1)) cs (\<lambda>i. i\<lparr>i_nlink := i_nlink i - 1\<rparr>)"
    note uf = unlink_found [OF ok e(2) d cs(1) h_def refl]
    have "r = SOTFS_OK \<and> g' = (if i_open_count (inodes h cs) > 0 then upd_inode h cs (\<lambda>i. i\<lparr>i_orphan := 1\<rparr>) else sotfs_free_file_storage h c)"
      using r True e cs k uf(1) by (simp add: sotfs_rewrite_unlink_def Let_def h_def [symmetric] split: if_splits)
    with uf(2) lk True lc cs(2) k show ?thesis by (simp add: spec_unlink_def dir_err_absfs)
  qed
qed

lemma dir_has_children_iff: "dir_has_children g d \<longleftrightarrow> (\<exists>s nm c. edge_at g s d nm c)"
  by (auto simp: dir_has_children_def first_idx_None_iff edge_at_def)

lemma rmdir_refines:
  assumes ok: "graph_ok R g" and r: "sotfs_rewrite_rmdir g p nm = (r, g')"
  shows "graph_ok R g' \<and> spec_rmdir p nm (absfs g) r (absfs g')"
proof (cases "nm \<noteq> [] \<and> check_dir g p = SOTFS_OK \<and> sotfs_find_edge g p nm \<noteq> 0")
  case False
  then have "g' = g \<and> spec_rmdir p nm (absfs g) r (absfs g)"
    using r find_edge_0_iff [OF graph_okD(1,2) [OF ok], of p nm]
    by (auto simp: spec_rmdir_def sotfs_rewrite_rmdir_def dir_err_absfs split: if_splits)
  with ok show ?thesis by simp
next
  case True
  then obtain es c where e: "sotfs_find_edge g p nm = int es + 1" "edge_at g es p nm c"
      "edge_slot (sotfs_find_edge g p nm) = Some es" "e_child_id (edges g es) = c"
    using find_edge_SomeE [OF graph_okD(1) [OF ok]] by metis
  note det = detach [OF ok e(2)]
  obtain cs where cs: "cs < SOTFS_MAX_INODES" "c = int cs + 1" "inode_slot c = Some cs" "inode_of g c = inodes g cs"
    using live_slotE [OF det(4)] by metis
  note lk = edge_lookup [OF ok e(2)]
  have ch: "dir_has_children g c \<longleftrightarrow> (\<exists>m. lookup g (c, m) \<noteq> None)"
    unfolding dir_has_children_iff using lookup_iff [OF graph_okD(1,2) [OF ok]] by (metis not_None_eq)
  have spec: "spec_rmdir p nm (absfs g) r fs' \<longleftrightarrow>
     (if \<not> is_dir g c then r = SOTFS_ERR_NOTDIR \<and> fs' = absfs g
      else if dir_has_children g c then r = SOTFS_ERR_NOTEMPTY \<and> fs' = absfs g
      else r = SOTFS_OK \<and> fs' = fs_drop c ((absfs g)\<lparr>tree := (lookup g)((p, nm) := None)\<rparr>))" for fs'
    using True lk det(4) ch by (simp add: spec_rmdir_def dir_err_absfs is_dir_def)
  show ?thesis
  proof (cases "is_dir g c \<and> \<not> dir_has_children g c")
    case False
    then have "g' = g" "(if \<not> is_dir g c then r = SOTFS_ERR_NOTDIR else r = SOTFS_ERR_NOTEMPTY)"
      using r True e cs det(4) by (auto simp: sotfs_rewrite_rmdir_def Let_def is_dir_def split: if_splits)
    with ok False show ?thesis unfolding spec by (simp split: if_splits)
  next
    case d: True
    let ?f = "sotfs_free_edge g (int es + 1)"
    have rr: "r = SOTFS_OK" "g' = put_inode ?f cs zero_inode"
      using r True e cs d det(4) by (simp_all add: sotfs_rewrite_rmdir_def Let_def is_dir_def sotfs_free_inode_def)
    have "graph_ok R (put_inode ?f cs zero_inode)"
    proof (rule clear_inode_ok)
      show "graph_ok (insert (int cs + 1) R) ?f" "cs < SOTFS_MAX_INODES" "int cs + 1 \<notin> R" using det(1,2) cs by simp_all
      show "root_id ?f \<noteq> int cs + 1" using det(3,5) cs(2) by simp
      show "\<not> edge_at ?f t (int cs + 1) m b" for t m b
        using d unfolding det(5) edge_at_clear dir_has_children_iff cs(2) by blast
      show "b_file_id (blocks ?f b) \<noteq> int cs + 1" if "b < SOTFS_MAX_BLOCKS" "b_id (blocks ?f b) \<noteq> 0" for b
        using graph_okD(7) [OF ok, of b] that d det(5) cs(2) by auto
    qed
    then show ?thesis unfolding spec unfolding rr using absfs_clear_inode [OF cs(1), of ?f] det(6) d cs(2) by simp
  qed
qed

lemma rename_refines:
  assumes ok: "graph_ok R g" and r: "sotfs_rewrite_rename g p nm q m = (r, g')"
  shows "graph_ok R g' \<and> spec_rename p nm q m (absfs g) r (absfs g')"
proof (cases "name_err nm = SOTFS_OK \<and> name_err m = SOTFS_OK \<and> check_dir g p = SOTFS_OK \<and> check_dir g q = SOTFS_OK
    \<and> sotfs_find_edge g p nm \<noteq> 0 \<and> sotfs_find_edge g q m = 0")
  case False
  have sl: "\<exists>es. edge_slot (sotfs_find_edge g p nm) = Some es" if "sotfs_find_edge g p nm \<noteq> 0"
    using find_edge_SomeE [OF graph_okD(1) [OF ok] that] by metis
  from False have "g' = g \<and> spec_rename p nm q m (absfs g) r (absfs g)"
    using r sl find_edge_0_iff [OF graph_okD(1,2) [OF ok], of p nm] find_edge_0_iff [OF graph_okD(1,2) [OF ok], of q m]
    by (auto simp: spec_rename_def sotfs_rewrite_rename_def dir_err_absfs name_err_iff split: if_splits)
  with ok show ?thesis by simp
next
  case True
  then have nm: "nm \<noteq> []" "length nm < SOTFS_MAX_NAME" "m \<noteq> []" "length m < SOTFS_MAX_NAME" by (auto simp: name_err_iff)
  from True obtain es c where e: "sotfs_find_edge g p nm = int es + 1" "edge_at g es p nm c"
      "edge_slot (sotfs_find_edge g p nm) = Some es" "e_child_id (edges g es) = c"
    using find_edge_SomeE [OF graph_okD(1) [OF ok]] by metis
  note det = detach [OF ok e(2)] and lk = edge_lookup [OF ok e(2)]
  let ?f = "sotfs_free_edge g (int es + 1)"
  have l: "lookup g (q, m) = None" using True find_edge_0_iff [OF graph_okD(1,2) [OF ok]] by simp
  have spec: "spec_rename p nm q m (absfs g) r fs' \<longleftrightarrow>
     (if fs_full_edges (absfs g) then r = SOTFS_ERR_NOSPACE \<and> fs' = absfs g
      else r = SOTFS_OK \<and> fs' = (absfs g)\<lparr>tree := (lookup g)((q, m) \<mapsto> c, (p, nm) := None)\<rparr>)" for fs'
    using True nm lk l by (simp add: spec_rename_def dir_err_absfs)
  from alloc_edge_cases [OF nm(4), of g q c] show ?thesis
  proof (elim disjE exE conjE)
    assume a: "sotfs_alloc_edge g q c m = (0, g)" and f: "\<forall>s<SOTFS_MAX_EDGES. e_id (edges g s) \<noteq> 0"
    have "r = SOTFS_ERR_NOSPACE" "g' = g" using r True nm e a by (simp_all add: sotfs_rewrite_rename_def)
    with ok f show ?thesis unfolding spec by (simp add: full_edges_iff [OF ok])
  next
    fix s assume s: "s < SOTFS_MAX_EDGES" "e_id (edges g s) = 0"
      and a: "sotfs_alloc_edge g q c m = (int s + 1, g\<lparr>edges := (edges g)(s := new_edge s q c m),
             next_edge_hint := (s + 1) mod SOTFS_MAX_EDGES\<rparr>)"
    have ns: "es \<noteq> s" using e(2) s(2) by (auto simp: edge_at_def)
    let ?h = "put_edge ?f s (new_edge s q c m)"
    have rr: "r = SOTFS_OK" using r True nm e a by (simp add: sotfs_rewrite_rename_def)
    have gg: "inodes g' = inodes ?h" "edges g' = edges ?h" "blocks g' = blocks ?h" "root_id g' = root_id ?h"
      using r True nm e a ns det(5) edge_at_slot [OF e(2)]
      by (auto simp: sotfs_rewrite_rename_def sotfs_free_edge_def fun_upd_twist)
    have s': "e_id (edges ?f s) = 0" using s(2) ns det(5) by simp
    have sd: "is_dir ?f = is_dir g" "inode_of ?f = inode_of g" unfolding det(5) put_edge_simps by simp_all
    have lf: "lookup ?f = (lookup g)((p, nm) := None)" using det(6) absfs_sel(1) [of ?f] by simp
    have l': "lookup ?f (q, m) = None" using l lf by simp
    have ok': "graph_ok R ?h"
      by (rule put_edge_ok [OF det(1,2) _ _ s(1) s' _ l' nm(3,4)])
         (use edges_okD(4) [OF graph_okD(2) [OF ok] e(2)] det(3,5) sd True check_dir_ok in simp_all)
    have "(q, m) \<noteq> (p, nm)" using l lk by auto
    then have "lookup ?h = (lookup g)((q, m) \<mapsto> c, (p, nm) := None)"
      using lookup_new_edge [OF det(1) ok' s(1) s' l'] lf by (simp add: fun_upd_twist)
    then have "absfs ?h = (absfs g)\<lparr>tree := (lookup g)((q, m) \<mapsto> c, (p, nm) := None)\<rparr>"
      unfolding absfs_put_edge det(6) by simp
    moreover have "\<not> fs_full_edges (absfs g)" using full_edges_iff [OF ok] s by auto
    ultimately show ?thesis unfolding spec using ok' graph_ok_cong [OF gg] absfs_cong [OF gg(1,2)] rr by simp
  qed
qed

subsection \<open>Opening and closing\<close>

lemma orphan_iff:
  assumes ok: "graph_ok R g" and l: "live g n"
  shows "i_orphan (inode_of g n) \<noteq> 0 \<and> n \<notin> R \<longleftrightarrow> n \<notin> R \<and> n \<notin> ran (lookup g)"
proof -
  note ed = graph_okD(2) [OF ok]
  have "n \<in> ran (lookup g) \<longleftrightarrow> (\<exists>s p nm. edge_at g s p nm n)"
    using lookup_iff [OF graph_okD(1) [OF ok] ed] by (auto simp: ran_def)
  then show ?thesis using edges_okD(4) [OF ed] edges_okD(7) [OF ed l] by blast
qed

lemma set_open_refines:
  assumes ok: "graph_ok R g" and s: "s < SOTFS_MAX_INODES" "i_id (inodes g s) \<noteq> 0"
    and w: "i_orphan (inodes g s) \<noteq> 0 \<longrightarrow> w \<noteq> 0"
  shows "graph_ok R (upd_inode g s (\<lambda>i. i\<lparr>i_open_count := w\<rparr>))"
    and "absfs (upd_inode g s (\<lambda>i. i\<lparr>i_open_count := w\<rparr>)) = (absfs g)\<lparr>opens := (opens (absfs g))(int s + 1 := unat w)\<rparr>"
proof -
  let ?j = "(inodes g s)\<lparr>i_open_count := w\<rparr>"
  have l: "live g (int s + 1)" using s by (auto simp: live_iff)
  have u: "upd_inode g s (\<lambda>i. i\<lparr>i_open_count := w\<rparr>) = put_inode g s ?j" by (simp add: upd_inode_def)
  have jz: "i_id ?j \<noteq> 0" using s by simp
  show "graph_ok R (upd_inode g s (\<lambda>i. i\<lparr>i_open_count := w\<rparr>))" unfolding u
    by (rule modify_inode_ok [OF ok s]) (use graph_okD(3) [OF ok l] w in \<open>auto simp: inode_ok_def\<close>)
  have "(kinds (absfs g))(int s + 1 \<mapsto> i_kind ?j) = kinds (absfs g)" using l by (auto simp: fun_eq_iff)
  then show "absfs (upd_inode g s (\<lambda>i. i\<lparr>i_open_count := w\<rparr>)) = (absfs g)\<lparr>opens := (opens (absfs g))(int s + 1 := unat w)\<rparr>"
    unfolding u absfs_put_inode [OF s(1) jz] by simp
qed

lemma absfs_opens_idem: "n' = opens (absfs g) n \<Longrightarrow> (absfs g)\<lparr>opens := (opens (absfs g))(n := n')\<rparr> = absfs g"
  by (simp del: absfs_sel)

lemma open_refines:
  assumes ok: "graph_ok R g"
  shows "graph_ok R (sotfs_inode_open g n) \<and> absfs (sotfs_inode_open g n) = spec_open n (absfs g)"
proof (cases "live g n")
  case False
  then have "sotfs_inode_open g n = g" by (auto simp: sotfs_inode_open_def live_def split: option.splits)
  with False ok show ?thesis by (simp add: spec_open_def)
next
  case True
  then obtain s where s: "s < SOTFS_MAX_INODES" "n = int s + 1" "inode_slot n = Some s" "i_id (inodes g s) \<noteq> 0" "inode_of g n = inodes g s"
    by (rule live_slotE)
  let ?c = "i_open_count (inodes g s)"
  have so: "spec_open n (absfs g) = (absfs g)\<lparr>opens := (opens (absfs g))(n := min 255 (unat ?c + 1))\<rparr>"
    using True s(5) by (simp add: spec_open_def)
  show ?thesis
  proof (cases "?c < 255")
    case lt: True
    have uc: "unat ?c < 255" using lt by (simp add: word_less_nat_alt)
    have uw: "unat (?c + 1) = min 255 (unat ?c + 1)" using uc unat_Suc_word [of ?c] by simp
    then have nz: "?c + 1 \<noteq> 0" by (metis Suc_eq_plus1 min_def nat.distinct(1) unat_0 zero_neq_numeral)
    have "sotfs_inode_open g n = upd_inode g s (\<lambda>i. i\<lparr>i_open_count := ?c + 1\<rparr>)"
      using lt s by (simp add: sotfs_inode_open_def upd_inode_def)
    then show ?thesis using set_open_refines [OF ok s(1,4), of "?c + 1"] nz uw s(2) unfolding so by simp
  next
    case False
    have "unat ?c < 256" using unsigned_less [of ?c] by simp
    then have uc: "unat ?c = 255" using False by (simp add: word_less_nat_alt)
    have "sotfs_inode_open g n = g" using False s by (simp add: sotfs_inode_open_def)
    moreover have "spec_open n (absfs g) = absfs g"
      unfolding so by (rule absfs_opens_idem) (use uc s(5) True in simp)
    ultimately show ?thesis using ok by simp
  qed
qed

lemma close_refines:
  assumes ok: "graph_ok R g" and nR: "i_orphan (inode_of g n) \<noteq> 0 \<longrightarrow> n \<notin> R"
  shows "graph_ok R (sotfs_inode_close g n) \<and> absfs (sotfs_inode_close g n) = spec_close R n (absfs g)"
proof (cases "live g n")
  case False
  then have "sotfs_inode_close g n = g" by (auto simp: sotfs_inode_close_def live_def split: option.splits)
  with False ok show ?thesis by (simp add: spec_close_def)
next
  case True
  then obtain s where s: "s < SOTFS_MAX_INODES" "n = int s + 1" "inode_slot n = Some s" "i_id (inodes g s) \<noteq> 0" "inode_of g n = inodes g s"
    by (rule live_slotE)
  let ?c = "i_open_count (inodes g s)"
  define w where "w = (if ?c > 0 then ?c - 1 else 0)"
  let ?g1 = "upd_inode g s (\<lambda>i. i\<lparr>i_open_count := w\<rparr>)"
  have g1: "(if ?c > 0 then upd_inode g s (\<lambda>i. i\<lparr>i_open_count := i_open_count i - 1\<rparr>) else g) = ?g1"
  proof (cases "?c > 0")
    case False
    then have "(inodes g s)\<lparr>i_open_count := 0\<rparr> = inodes g s" by (simp add: word_gt_0)
    with False show ?thesis by (simp add: upd_inode_def w_def)
  qed (simp add: upd_inode_def w_def)
  have uc: "unat w = unat ?c - 1"
    by (auto simp: w_def word_gt_0 unat_minus_one)
  have cl: "sotfs_inode_close g n = (if unat ?c \<le> 1 \<and> i_orphan (inodes g s) \<noteq> 0 then sotfs_free_file_storage ?g1 n else ?g1)"
  proof -
    have "i_open_count (inodes ?g1 s) = 0 \<longleftrightarrow> unat ?c \<le> 1" using uc by (simp add: upd_inode_def unat_eq_0 [symmetric])
    moreover have "i_orphan (inodes ?g1 s) = i_orphan (inodes g s)" by (simp add: upd_inode_def)
    ultimately show ?thesis using s g1 by (simp add: sotfs_inode_close_def Let_def)
  qed
  have sc: "spec_close R n (absfs g) = (if unat ?c \<le> 1 \<and> i_orphan (inodes g s) \<noteq> 0 then fs_drop n (absfs g)
      else (absfs g)\<lparr>opens := (opens (absfs g))(n := unat ?c - 1)\<rparr>)"
    using True s(5) orphan_iff [OF ok True] nR by (auto simp: spec_close_def)
  show ?thesis
  proof (cases "unat ?c \<le> 1 \<and> i_orphan (inodes g s) \<noteq> 0")
    case False
    have "i_orphan (inodes g s) \<noteq> 0 \<longrightarrow> w \<noteq> 0"
      using False uc by (auto simp: unat_eq_0 [symmetric] simp del: unat_eq_0)
    from set_open_refines [OF ok s(1,4) this] show ?thesis unfolding cl sc if_not_P [OF False] uc s(2) [symmetric] by simp
  next
    case dr: True
    have c: "\<And>t. int t + 1 \<noteq> n \<Longrightarrow> inodes ?g1 t = inodes g t" "edges ?g1 = edges g" "blocks ?g1 = blocks g" "root_id ?g1 = root_id g"
      using s(2) by (auto simp: upd_inode_def)
    have l1: "live ?g1 n" using s by (auto simp: live_iff upd_inode_def)
    have nr: "n \<notin> R" using nR dr s(5) by simp
    have "root_id g \<noteq> n" using graph_okD(5) [OF ok] nr by auto
    moreover have "\<not> is_dir g n" using graph_okD(3) [OF ok True] dr s(5) by (auto simp: inode_ok_def is_dir_def)
    ultimately have "graph_ok R (sotfs_free_file_storage g n)"
      using free_storage_ok [OF orphan_detached [OF ok True] nr] dr s(5) by simp
    then show ?thesis using dr free_storage_cong [OF l1 True c] absfs_free_storage [OF True] unfolding cl sc by simp
  qed
qed


subsection \<open>Every operation refines the abstract file system\<close>

definition fs_ok :: "int set \<Rightarrow> sotfs_graph \<Rightarrow> bool" where
  "fs_ok R g \<longleftrightarrow> graph_ok R g \<and> (\<forall>r\<in>R. is_dir g r)"

lemma spec_keeps_roots:
  assumes "fs_spec R op fs r fs'" "kinds fs n = Some k" "n \<in> R" "n \<notin> ran (tree fs)"
  shows "kinds fs' n = Some k"
proof (cases op)
  case (FsCreate p nm m)
  then show ?thesis using assms by (auto simp: fs_spec_def spec_create_def split: if_splits)
next
  case (FsMkdir p nm m)
  then show ?thesis using assms by (auto simp: fs_spec_def spec_create_def split: if_splits)
next
  case (FsUnlink p nm)
  then show ?thesis using assms
    by (auto simp: fs_spec_def spec_unlink_def fs_drop_def Let_def ran_def split: if_splits option.splits)
next
  case (FsRmdir p nm)
  then show ?thesis using assms
    by (auto simp: fs_spec_def spec_rmdir_def fs_drop_def ran_def split: if_splits option.splits)
next
  case (FsRename p nm q m)
  then show ?thesis using assms by (auto simp: fs_spec_def spec_rename_def split: if_splits option.splits)
next
  case (FsOpen x)
  then show ?thesis using assms by (auto simp: fs_spec_def spec_open_def)
next
  case (FsClose x)
  then show ?thesis using assms by (auto simp: fs_spec_def spec_close_def fs_drop_def)
qed

lemma fs_step_refines:
  assumes ok: "fs_ok R g" and r: "fs_step op g = (r, g')"
  shows "fs_ok R g'" and "fs_spec R op (absfs g) r (absfs g')"
proof -
  have g: "graph_ok R g" and d: "\<And>n. n \<in> R \<Longrightarrow> is_dir g n" using ok by (auto simp: fs_ok_def)
  have nR: "i_orphan (inode_of g n) \<noteq> 0 \<longrightarrow> n \<notin> R" for n
    using d [of n] graph_okD(3) [OF g, of n] by (auto simp: is_dir_def inode_ok_def)
  have "graph_ok R g' \<and> fs_spec R op (absfs g) r (absfs g')"
  proof (cases op)
    case (FsCreate p nm m)
    then show ?thesis using r create_refines [OF g, of SOTFS_KIND_FILE p nm m r g']
      by (simp add: fs_step_def fs_spec_def sotfs_rewrite_create_file_def)
  next
    case (FsMkdir p nm m)
    then show ?thesis using r create_refines [OF g, of SOTFS_KIND_DIR p nm m r g']
      by (simp add: fs_step_def fs_spec_def sotfs_rewrite_mkdir_def)
  next
    case (FsUnlink p nm)
    then show ?thesis using r unlink_refines [OF g, of p nm r g'] by (simp add: fs_step_def fs_spec_def)
  next
    case (FsRmdir p nm)
    then show ?thesis using r rmdir_refines [OF g, of p nm r g'] by (simp add: fs_step_def fs_spec_def)
  next
    case (FsRename p nm q m)
    then show ?thesis using r rename_refines [OF g, of p nm q m r g'] by (simp add: fs_step_def fs_spec_def)
  next
    case (FsOpen x)
    then show ?thesis using r open_refines [OF g, of x] by (auto simp: fs_step_def fs_spec_def)
  next
    case (FsClose x)
    then show ?thesis using r close_refines [OF g nR, of x] by (auto simp: fs_step_def fs_spec_def)
  qed
  then have sp: "fs_spec R op (absfs g) r (absfs g')" and g': "graph_ok R g'" by auto
  have "is_dir g' n" if "n \<in> R" for n
  proof -
    have "n \<notin> ran (tree (absfs g))"
      using lookup_iff [OF graph_okD(1,2) [OF g]] edges_okD(3) [OF graph_okD(2) [OF g]] that by (auto simp: ran_def)
    then have "kinds (absfs g') n = Some SOTFS_KIND_DIR"
      using spec_keeps_roots [OF sp _ that] d [OF that] by (simp add: is_dir_def)
    then show ?thesis by (simp add: is_dir_def split: if_splits)
  qed
  with g' show "fs_ok R g'" by (simp add: fs_ok_def)
  show "fs_spec R op (absfs g) r (absfs g')" by (rule sp)
qed

end
