(* ===== verification/SotfsSafety.thy ===== *)
theory SotfsSafety
  imports SotfsRefine
begin

text \<open>
  The properties of the sotFS namespace: runs from the initial graph follow the abstract
  file system, path resolution, round trips, atomicity of failures, deletion on last close,
  and what renaming does not check.
\<close>

subsection \<open>Path resolution is a walk over the components\<close>

fun split_slash :: "string \<Rightarrow> string list" where
  "split_slash [] = [[]]"
| "split_slash (c # cs) =
     (if c = CHR ''/'' then [] # split_slash cs
      else (c # hd (split_slash cs)) # tl (split_slash cs))"

definition components :: "string \<Rightarrow> string list" where
  "components p = filter (\<lambda>c. c \<noteq> []) (split_slash p)"

fun walk :: "(int \<times> string \<Rightarrow> int option) \<Rightarrow> int \<Rightarrow> string list \<Rightarrow> int option" where
  "walk t n [] = Some n"
| "walk t n (c # cs) = (case t (n, c) of None \<Rightarrow> None | Some m \<Rightarrow> walk t m cs)"

lemma split_slash_not_Nil [simp]: "split_slash p \<noteq> []"
  by (induction p) auto

lemma split_slash_hd:
  "split_slash p = takeWhile (\<lambda>c. c \<noteq> CHR ''/'') p #
     (if dropWhile (\<lambda>c. c \<noteq> CHR ''/'') p = [] then [] else split_slash (tl (dropWhile (\<lambda>c. c \<noteq> CHR ''/'') p)))"
  by (induction p) auto

lemma components_Nil [simp]: "components [] = []"
  by (simp add: components_def)

lemma components_slash: "hd p = CHR ''/'' \<Longrightarrow> p \<noteq> [] \<Longrightarrow> components p = components (tl p)"
  by (cases p) (auto simp: components_def)

lemma components_step:
  assumes "p \<noteq> []" "hd p \<noteq> CHR ''/''"
  shows "components p = takeWhile (\<lambda>c. c \<noteq> CHR ''/'') p # components (tl (dropWhile (\<lambda>c. c \<noteq> CHR ''/'') p))"
proof -
  have "takeWhile (\<lambda>c. c \<noteq> CHR ''/'') p \<noteq> []" using assms by (cases p) auto
  then show ?thesis unfolding components_def
    by (cases "dropWhile (\<lambda>c. c \<noteq> CHR ''/'') p = []") (simp_all only: split_slash_hd [of p] if_True if_False, simp_all)
qed

lemma component_of_eq:
  assumes "length (takeWhile (\<lambda>c. c \<noteq> CHR ''/'') p) < SOTFS_MAX_NAME"
  shows "component_of p = takeWhile (\<lambda>c. c \<noteq> CHR ''/'') p"
proof -
  have l: "length (takeWhile (\<lambda>c. c \<noteq> CHR ''/'') p) \<le> SOTFS_MAX_NAME - 1" using assms by simp
  have "takeWhile P (take n p) = takeWhile P p" if "length (takeWhile P p) \<le> n" for P :: "char \<Rightarrow> bool" and n
    using that by (induction p arbitrary: n) (auto simp: take_Cons' split: if_splits)
  from this [OF l] show ?thesis by (simp add: component_of_def)
qed

lemma resolve_loop_walk:
  assumes t: "tables_ok g" and e: "edges_ok R g"
  shows "\<forall>c\<in>set (components p). length c < SOTFS_MAX_NAME \<Longrightarrow>
    resolve_loop g n p = (case walk (lookup g) n (components p) of None \<Rightarrow> 0 | Some m \<Rightarrow> m)"
proof (induction p arbitrary: n rule: length_induct)
  case (1 p n)
  consider "p = []" | "p \<noteq> []" "hd p = CHR ''/''" | "p \<noteq> []" "hd p \<noteq> CHR ''/''" by blast
  then show ?case
  proof cases
    case 1
    then show ?thesis by (simp add: resolve_loop.simps)
  next
    case 2
    then have "component_of p = []" by (cases p) (auto simp: component_of_def SOTFS_MAX_NAME_def)
    then have "resolve_loop g n p = resolve_loop g n (tl p)" using 2 by (subst resolve_loop.simps) simp
    then show ?thesis using "1.IH" "1.prems" 2 components_slash [OF 2(2,1)] by simp
  next
    case 3
    let ?P = "\<lambda>c. c \<noteq> CHR ''/''"
    let ?c = "takeWhile ?P p" and ?r = "dropWhile ?P p"
    note cs = components_step [OF 3]
    have c: "component_of p = ?c" using component_of_eq "1.prems" cs by simp
    have ne: "?c \<noteq> []" using 3 by (cases p) auto
    have rest: "drop (length ?c) p = ?r" by (simp add: dropWhile_eq_drop)
    have rest': "(if ?r \<noteq> [] \<and> hd ?r = CHR ''/'' then tl ?r else ?r) = tl ?r"
    proof (cases "?r = []")
      case False
      then have "hd ?r = CHR ''/''" using hd_dropWhile [of ?P p] by blast
      with False show ?thesis by (simp only: simp_thms if_True)
    qed (simp only: simp_thms if_False list.sel)
    have len: "length (tl ?r) < length p" 
    proof -
      have "length ?r < length p" using 3 length_dropWhile_le [of ?P "tl p"] by (cases p) simp_all
      then show ?thesis by simp
    qed
    have unf: "resolve_loop g n p = (if sotfs_find_edge g n ?c = 0 then 0
        else case edge_slot (sotfs_find_edge g n ?c) of None \<Rightarrow> 0
             | Some s \<Rightarrow> resolve_loop g (e_child_id (edges g s)) (tl ?r))"
      using 3 ne by (subst resolve_loop.simps) (simp only: c Let_def rest rest' if_False)
    show ?thesis
    proof (cases "sotfs_find_edge g n ?c = 0")
      case True
      then show ?thesis using find_edge_0_iff [OF t e] unf cs by simp
    next
      case False
      then obtain s d where s: "edge_at g s n ?c d" "edge_slot (sotfs_find_edge g n ?c) = Some s" "e_child_id (edges g s) = d"
        using find_edge_SomeE [OF t] by metis
      have "lookup g (n, ?c) = Some d" using lookup_iff [OF t e] s(1) by blast
      then show ?thesis using False s unf cs "1.IH" len "1.prems" by simp
    qed
  qed
qed

subsection \<open>Runs\<close>

fun fs_run :: "fs_op list \<Rightarrow> sotfs_graph \<Rightarrow> int list \<times> sotfs_graph" where
  "fs_run [] g = ([], g)"
| "fs_run (op # ops) g = (case fs_step op g of (r, g1) \<Rightarrow> case fs_run ops g1 of (rs, g2) \<Rightarrow> (r # rs, g2))"

inductive fs_trace :: "int set \<Rightarrow> afs \<Rightarrow> fs_op list \<Rightarrow> int list \<Rightarrow> afs \<Rightarrow> bool" for R where
  fs_trace_Nil: "fs_trace R fs [] [] fs"
| fs_trace_Cons: "fs_spec R op fs r fs1 \<Longrightarrow> fs_trace R fs1 ops rs fs2 \<Longrightarrow> fs_trace R fs (op # ops) (r # rs) fs2"

definition fs_init :: afs where
  "fs_init = \<lparr>tree = (\<lambda>_. None), kinds = (\<lambda>_. None)(1 \<mapsto> SOTFS_KIND_DIR), opens = (\<lambda>_. 0)\<rparr>"

definition root_dir_inode :: sotfs_inode where
  "root_dir_inode = zero_inode\<lparr>i_id := 1, i_kind := SOTFS_KIND_DIR, i_mode := 493, i_nlink := 2\<rparr>"

lemma ring_idx_here: "0 < n \<Longrightarrow> P (h mod n) \<Longrightarrow> ring_idx P h n = Some (h mod n)"
  unfolding ring_idx_def by (subst first_idx.simps) simp

lemma graph_init_eq:
  "sotfs_graph_init = \<lparr>inodes = (\<lambda>_. zero_inode)(0 := root_dir_inode), edges = (\<lambda>_. zero_edge), blocks = (\<lambda>_. zero_block),
     next_inode_hint = 1, next_edge_hint = 0, next_block_hint = 0, root_id = 1\<rparr>"
proof -
  have "ring_idx (\<lambda>slot::nat. i_id zero_inode = 0) 0 SOTFS_MAX_INODES = Some 0"
    using ring_idx_here [of SOTFS_MAX_INODES "\<lambda>slot. i_id zero_inode = 0" 0] by (simp add: SOTFS_MAX_INODES_def zero_inode_def)
  then show ?thesis
    by (simp add: sotfs_graph_init_def sotfs_alloc_inode_def root_dir_inode_def Let_def)
       (simp add: SOTFS_MAX_INODES_def zero_inode_def)
qed

lemma init_live: "live sotfs_graph_init n \<longleftrightarrow> n = 1" "inode_of sotfs_graph_init 1 = root_dir_inode" "\<not> edge_at sotfs_graph_init s p nm c"
  by (auto simp: graph_init_eq live_iff inode_of_def edge_at_def zero_inode_def zero_edge_def root_dir_inode_def SOTFS_MAX_INODES_def)

lemma init_ok: "fs_ok {1} sotfs_graph_init"
proof -
  have d: "is_dir sotfs_graph_init n \<longleftrightarrow> n = 1" for n
    using init_live(1,2) by (auto simp: is_dir_def root_dir_inode_def)
  have "graph_ok {1} sotfs_graph_init"
  proof (rule graph_okI)
    show "tables_ok sotfs_graph_init" by (auto simp: tables_ok_def graph_init_eq root_dir_inode_def)
    show "edges_ok {1} sotfs_graph_init" by (rule edges_okI) (use init_live in auto)
    show "inode_ok (inode_of sotfs_graph_init n)" if "live sotfs_graph_init n" for n
      using that init_live(1,2) by (simp add: inode_ok_def root_dir_inode_def zero_inode_def)
    show "root_id sotfs_graph_init \<in> {1}" "is_dir sotfs_graph_init (root_id sotfs_graph_init)"
      using d by (simp_all add: graph_init_eq)
  qed (auto simp: init_live(1), simp_all add: graph_init_eq zero_block_def)
  with d show ?thesis by (simp add: fs_ok_def)
qed

lemma init_abs: "absfs sotfs_graph_init = fs_init"
proof -
  have "lookup sotfs_graph_init = (\<lambda>_. None)"
    by (rule lookup_eqI [OF graph_okD(1,2)]) (use init_ok init_live(3) in \<open>auto simp: fs_ok_def\<close>)
  then show ?thesis using init_live(1,2)
    by (auto simp: absfs_def fs_init_def fun_eq_iff root_dir_inode_def zero_inode_def)
qed

lemma fs_run_refines:
  "fs_ok R g \<Longrightarrow> fs_run ops g = (rs, g') \<Longrightarrow> fs_ok R g' \<and> fs_trace R (absfs g) ops rs (absfs g')"
proof (induction ops arbitrary: g rs)
  case Nil
  then show ?case by (simp add: fs_trace_Nil)
next
  case (Cons op ops)
  obtain r g1 rs1 where s: "fs_step op g = (r, g1)" and r: "fs_run ops g1 = (rs1, g')" and rs: "rs = r # rs1"
    using Cons.prems(2) by (auto split: prod.splits)
  note st = fs_step_refines [OF Cons.prems(1) s]
  from Cons.IH [OF st(1) r] st(2) show ?case unfolding rs by (auto intro: fs_trace_Cons)
qed

subsection \<open>A concrete graph\<close>

lemma spec_create_posD:
  assumes "spec_create kind p nm fs r fs'" "0 < r"
  shows "name_err nm = SOTFS_OK" "dir_err fs p = SOTFS_OK" "tree fs (p, nm) = None" "kinds fs r = None"
    "fs' = \<lparr>tree = (tree fs)((p, nm) \<mapsto> r), kinds = (kinds fs)(r \<mapsto> kind), opens = opens fs\<rparr>"
  using assms by (auto simp: spec_create_def name_err_def dir_err_def limits split: if_splits option.splits)

definition one_graph :: "sotfs_inode_kind \<Rightarrow> string \<Rightarrow> u32 \<Rightarrow> sotfs_graph" where
  "one_graph kind nm mode = sotfs_graph_init\<lparr>inodes := (inodes sotfs_graph_init)(1 := new_inode 1 kind mode),
     edges := (edges sotfs_graph_init)(0 := new_edge 0 1 2 nm), next_inode_hint := 2, next_edge_hint := 1\<rparr>"

lemma init_lookup: "lookup sotfs_graph_init = (\<lambda>_. None)"
proof -
  have "lookup sotfs_graph_init = tree fs_init" unfolding init_abs [symmetric] by simp
  then show ?thesis by (simp add: fs_init_def)
qed

lemma one_graph_create:
  assumes nm: "name_err nm = SOTFS_OK"
  shows "rewrite_create kind sotfs_graph_init 1 nm mode = (2, one_graph kind nm mode)"
proof -
  have ok: "graph_ok {1} sotfs_graph_init" using init_ok by (simp add: fs_ok_def)
  have f: "sotfs_find_edge sotfs_graph_init 1 nm = 0"
    using find_edge_0_iff [OF graph_okD(1,2) [OF ok]] by (simp add: init_lookup)
  have d: "check_dir sotfs_graph_init 1 = SOTFS_OK"
    using graph_okD(6) [OF ok] by (simp add: check_dir_ok graph_init_eq)
  have a: "sotfs_alloc_inode sotfs_graph_init kind mode =
      (2, sotfs_graph_init\<lparr>inodes := (inodes sotfs_graph_init)(1 := new_inode 1 kind mode), next_inode_hint := 2\<rparr>)"
    using ring_idx_here [of SOTFS_MAX_INODES "\<lambda>slot. i_id (inodes sotfs_graph_init slot) = 0" 1]
    by (simp add: sotfs_alloc_inode_def graph_init_eq SOTFS_MAX_INODES_def zero_inode_def new_inode_def)
  have cn: "cstr_copy SOTFS_MAX_NAME nm = nm" using nm by (simp add: cstr_copy_id name_err_iff)
  have b: "sotfs_alloc_edge (sotfs_graph_init\<lparr>inodes := i, next_inode_hint := 2\<rparr>) 1 2 nm =
      (1, sotfs_graph_init\<lparr>inodes := i, next_inode_hint := 2, edges := (edges sotfs_graph_init)(0 := new_edge 0 1 2 nm),
         next_edge_hint := 1\<rparr>)" for i
    using ring_idx_here [of SOTFS_MAX_EDGES "\<lambda>slot. e_id (edges sotfs_graph_init slot) = 0" 0] cn
    by (simp add: sotfs_alloc_edge_def graph_init_eq SOTFS_MAX_EDGES_def zero_edge_def new_edge_def)
  show ?thesis using nm by (simp add: rewrite_create_def f d a b one_graph_def name_err_iff)
qed

lemma one_graph_ok:
  assumes "name_err nm = SOTFS_OK" "kind \<noteq> SOTFS_KIND_FREE"
  shows "fs_ok {1} (one_graph kind nm mode)" and "lookup (one_graph kind nm mode) = (\<lambda>_. None)((1, nm) \<mapsto> 2)"
proof -
  have ok: "graph_ok {1} sotfs_graph_init" using init_ok by (simp add: fs_ok_def)
  note r = create_refines [OF ok assms(2) one_graph_create [OF assms(1)]]
  have "0 < (2::int)" by simp
  note sp = spec_create_posD [OF conjunct2 [OF r, unfolded init_abs] this]
  have "is_dir (one_graph kind nm mode) 1"
    using graph_okD(6) [OF conjunct1 [OF r]] by (simp add: one_graph_def graph_init_eq)
  with r show "fs_ok {1} (one_graph kind nm mode)" by (simp add: fs_ok_def)
  show "lookup (one_graph kind nm mode) = (\<lambda>_. None)((1, nm) \<mapsto> 2)"
    using arg_cong [OF sp(5), of tree] by (simp add: fs_init_def)
qed

definition tmp_graph :: sotfs_graph where
  "tmp_graph = one_graph SOTFS_KIND_DIR ''tmp'' 511"

lemma tmp_graph_ok: "fs_ok {1} tmp_graph"
  unfolding tmp_graph_def by (rule one_graph_ok) (simp_all add: name_err_def SOTFS_MAX_NAME_def)

lemma tmp_graph_lookup: "lookup tmp_graph = (\<lambda>_. None)((1, ''tmp'') \<mapsto> 2)"
  unfolding tmp_graph_def by (rule one_graph_ok) (simp_all add: name_err_def SOTFS_MAX_NAME_def)

lemma tmp_graph_root [simp]: "root_id tmp_graph = 1"
  by (simp add: tmp_graph_def one_graph_def graph_init_eq)


subsection \<open>Properties\<close>

text \<open>
  C21. Every sequence of namespace operations, started from the initial graph, keeps the
  graph well formed (one binding per name and directory, one parent per inode, link counts
  and orphans right, blocks only of live files) and returns, step by step, exactly the codes
  and effects of the abstract file system: all error codes in their order of precedence,
  \<open>NOSPACE\<close> exactly when a table is full, orphans kept until their last close.
\<close>

theorem sotfs_run_refines:
  "case fs_run ops sotfs_graph_init of (rs, g) \<Rightarrow> fs_ok {1} g \<and> fs_trace {1} fs_init ops rs (absfs g)"
  using fs_run_refines [OF init_ok, of ops] by (auto simp: init_abs split: prod.splits)

text \<open>
  C22. On a well-formed graph, resolving an absolute path whose components are shorter than
  the name limit is the walk through the directory map over the non-empty components of the
  path: empty components and trailing slashes are skipped, and 0 means a missing component.
\<close>

theorem sotfs_resolve_path_walk:
  assumes "fs_ok R g" and "\<forall>c\<in>set (components p). length c < SOTFS_MAX_NAME"
  shows "sotfs_resolve_path g (CHR ''/'' # p) =
    (case walk (tree (absfs g)) (root_id g) (components p) of None \<Rightarrow> 0 | Some n \<Rightarrow> n)"
proof -
  have ok: "graph_ok R g" using assms(1) by (simp add: fs_ok_def)
  have "0 < root_id g" using graph_okD(6) [OF ok] by (auto simp: is_dir_def live_iff)
  then show ?thesis using resolve_loop_walk [OF graph_okD(1,2) [OF ok] assms(2)]
    by (simp add: sotfs_resolve_path_def sotfs_resolve_path_from_def)
qed

theorem sotfs_resolve_path_walk_witness:
  "sotfs_resolve_path tmp_graph ''//tmp/'' = 2"
proof -
  have "components ''/tmp/'' = [''tmp'']" by (simp add: components_def)
  with sotfs_resolve_path_walk [OF tmp_graph_ok, of "''/tmp/''"] show ?thesis
    by (simp add: tmp_graph_lookup SOTFS_MAX_NAME_def)
qed

lemma split_slash_append: "split_slash (p @ CHR ''/'' # q) = split_slash p @ split_slash q"
  by (induction p) auto

lemma components_append: "components (p @ CHR ''/'' # q) = components p @ components q"
  by (simp add: components_def split_slash_append)

lemma components_name: "nm \<noteq> [] \<Longrightarrow> CHR ''/'' \<notin> set nm \<Longrightarrow> components nm = [nm]"
proof -
  assume n: "nm \<noteq> []" "CHR ''/'' \<notin> set nm"
  have "split_slash nm = [nm]" using n(2) by (induction nm) auto
  with n show ?thesis by (simp add: components_def)
qed

lemma walk_append: "walk t n (cs @ ds) = (case walk t n cs of None \<Rightarrow> None | Some m \<Rightarrow> walk t m ds)"
  by (induction cs arbitrary: n) (auto split: option.splits)

lemma walk_mono: "walk t n cs = Some m \<Longrightarrow> t \<subseteq>\<^sub>m t' \<Longrightarrow> walk t' n cs = Some m"
  by (induction cs arbitrary: n) (auto simp: map_le_def dom_def split: option.splits)

lemma prim_root_id [simp]:
  "root_id (sotfs_free_inode g n) = root_id g" "root_id (sotfs_free_edge g n) = root_id g"
  "root_id (sotfs_free_file_storage g n) = root_id g" "root_id (upd_inode g s f) = root_id g"
  "root_id (snd (sotfs_alloc_inode g k m)) = root_id g" "root_id (snd (sotfs_alloc_edge g p c nm)) = root_id g"
  by (simp_all add: sotfs_free_inode_def sotfs_free_edge_def sotfs_free_file_storage_def upd_inode_def
        sotfs_alloc_inode_def sotfs_alloc_edge_def split: option.splits)

lemma fs_step_root_id: "fs_step op g = (r, g') \<Longrightarrow> root_id g' = root_id g"
proof -
  have ai: "sotfs_alloc_inode h k m = (n, h') \<Longrightarrow> root_id h' = root_id h" for h k m n h'
    using prim_root_id(5) [of h k m] by simp
  have ae: "sotfs_alloc_edge h p c nm = (n, h') \<Longrightarrow> root_id h' = root_id h" for h p c nm n h'
    using prim_root_id(6) [of h p c nm] by simp
  have c: "root_id (snd (rewrite_create k g p nm m)) = root_id g" for k p nm m
    by (auto simp: rewrite_create_def Let_def ai ae split: prod.splits)
  have u: "root_id (snd (sotfs_rewrite_unlink g p nm)) = root_id g" "root_id (snd (sotfs_rewrite_rmdir g p nm)) = root_id g" for p nm
    by (simp_all add: sotfs_rewrite_unlink_def sotfs_rewrite_rmdir_def Let_def split: option.splits)
  have n: "root_id (snd (sotfs_rewrite_rename g p nm q m)) = root_id g" for p nm q m
    by (auto simp: sotfs_rewrite_rename_def Let_def ae split: option.splits prod.splits)
  have o: "root_id (sotfs_inode_open g n) = root_id g" "root_id (sotfs_inode_close g n) = root_id g" for n
    by (simp_all add: sotfs_inode_open_def sotfs_inode_close_def Let_def split: option.splits)
  assume "fs_step op g = (r, g')"
  then have "g' = snd (fs_step op g)" by simp
  then show ?thesis
    by (cases op) (simp_all add: fs_step_def sotfs_rewrite_create_file_def sotfs_rewrite_mkdir_def c u n o)
qed

lemma resolve_nonzero_iff:
  assumes ok: "fs_ok R g" and short: "\<forall>c\<in>set (components d). length c < SOTFS_MAX_NAME" and p: "p \<noteq> 0"
  shows "sotfs_resolve_path g (CHR ''/'' # d) = p \<longleftrightarrow> walk (lookup g) (root_id g) (components d) = Some p"
proof -
  have g: "graph_ok R g" using ok by (simp add: fs_ok_def)
  have "0 < root_id g" using graph_okD(6) [OF g] by (auto simp: is_dir_def live_iff)
  moreover have "m \<noteq> 0" if "walk (lookup g) n cs = Some m" "n \<noteq> 0" for n m cs
    using that
  proof (induction cs arbitrary: n)
    case (Cons c cs)
    then obtain k where k: "lookup g (n, c) = Some k" "walk (lookup g) k cs = Some m" by (auto split: option.splits)
    then obtain s where "edge_at g s n c k" using lookup_iff [OF graph_okD(1,2) [OF g]] by blast
    then have "live g k" by (rule edges_okD(2) [OF graph_okD(2) [OF g]])
    then have "k \<noteq> 0" by (auto simp: live_iff)
    with Cons.IH k(2) show ?case by blast
  qed simp
  ultimately show ?thesis
    using resolve_loop_walk [OF graph_okD(1,2) [OF g] short, of "root_id g"] p
    by (simp add: sotfs_resolve_path_def sotfs_resolve_path_from_def split: option.splits)
qed

text \<open>
  Creating a file and resolving its path are inverse: when a directory path resolves to
  \<open>p\<close> and creating \<open>nm\<close> there returns the id \<open>r\<close>, the path of the new file resolves to \<open>r\<close>,
  and every path that resolved before still resolves to the same inode.
\<close>

lemma sotfs_create_resolve:
  assumes ok: "fs_ok R g" and c: "sotfs_rewrite_create_file g p nm mode = (r, g')" and r: "0 < r"
    and short: "\<forall>c\<in>set (components d). length c < SOTFS_MAX_NAME" and s: "CHR ''/'' \<notin> set nm"
    and p: "sotfs_resolve_path g (CHR ''/'' # d) = p"
  shows "sotfs_resolve_path g' (CHR ''/'' # d @ CHR ''/'' # nm) = r \<and>
    (\<forall>q. (\<forall>c\<in>set (components q). length c < SOTFS_MAX_NAME) \<longrightarrow> sotfs_resolve_path g (CHR ''/'' # q) \<noteq> 0 \<longrightarrow>
      sotfs_resolve_path g' (CHR ''/'' # q) = sotfs_resolve_path g (CHR ''/'' # q))"
proof -
  have st: "fs_step (FsCreate p nm mode) g = (r, g')" using c by (simp add: fs_step_def)
  have ok': "fs_ok R g'" by (rule fs_step_refines(1) [OF ok st])
  have rt: "root_id g' = root_id g" by (rule fs_step_root_id [OF st])
  have "spec_create SOTFS_KIND_FILE p nm (absfs g) r (absfs g')"
    using fs_step_refines(2) [OF ok st] by (simp add: fs_spec_def)
  note sp = spec_create_posD [OF this r]
  have nm: "name_err nm = SOTFS_OK" and d: "dir_err (absfs g) p = SOTFS_OK" and no: "lookup g (p, nm) = None"
    using sp(1-3) by simp_all
  have l': "lookup g' = (lookup g)((p, nm) \<mapsto> r)" using arg_cong [OF sp(5), of tree] by simp
  have le: "lookup g \<subseteq>\<^sub>m lookup g'" using no unfolding l' by (auto simp: map_le_def)
  have "is_dir g p" using d check_dir_ok dir_err_absfs by metis
  then have p0: "p \<noteq> 0" by (auto simp: is_dir_def live_iff)
  have "walk (lookup g) (root_id g) (components d) = Some p" using resolve_nonzero_iff [OF ok short p0] p by blast
  then have w: "walk (lookup g') (root_id g') (components d @ [nm]) = Some r"
    using walk_mono [OF _ le] unfolding rt walk_append by (simp add: l')
  have cs: "components (d @ CHR ''/'' # nm) = components d @ [nm]"
    using components_append components_name [OF _ s] nm by (simp add: name_err_iff)
  have "sotfs_resolve_path g' (CHR ''/'' # d @ CHR ''/'' # nm) = r"
    using resolve_nonzero_iff [OF ok', of "d @ CHR ''/'' # nm" r] w cs short nm r by (auto simp: name_err_iff)
  moreover have "sotfs_resolve_path g' (CHR ''/'' # q) = sotfs_resolve_path g (CHR ''/'' # q)"
    if q: "\<forall>c\<in>set (components q). length c < SOTFS_MAX_NAME" "sotfs_resolve_path g (CHR ''/'' # q) \<noteq> 0" for q
    using resolve_nonzero_iff [OF ok' q] resolve_nonzero_iff [OF ok q] walk_mono [OF _ le] rt by metis
  ultimately show ?thesis by blast
qed

lemma tmp_create: "fst (sotfs_rewrite_create_file tmp_graph 2 ''a'' 420) = 3"
proof -
  have ok: "graph_ok {1} tmp_graph" using tmp_graph_ok by (simp add: fs_ok_def)
  have f: "sotfs_find_edge tmp_graph 2 ''a'' = 0"
    using find_edge_0_iff [OF graph_okD(1,2) [OF ok]] by (simp add: tmp_graph_lookup)
  have d: "check_dir tmp_graph 2 = SOTFS_OK"
    by (simp add: check_dir_def id_slot_def SOTFS_MAX_INODES_def tmp_graph_def one_graph_def new_inode_def)
  have a: "fst (sotfs_alloc_inode tmp_graph SOTFS_KIND_FILE 420) = 3"
    using ring_idx_here [of SOTFS_MAX_INODES "\<lambda>slot. i_id (inodes tmp_graph slot) = 0" 2]
    by (simp add: sotfs_alloc_inode_def tmp_graph_def one_graph_def graph_init_eq SOTFS_MAX_INODES_def zero_inode_def)
  have b: "fst (sotfs_alloc_edge (snd (sotfs_alloc_inode tmp_graph SOTFS_KIND_FILE 420)) 2 3 ''a'') = 2"
    using ring_idx_here [of SOTFS_MAX_INODES "\<lambda>slot. i_id (inodes tmp_graph slot) = 0" 2]
      ring_idx_here [of SOTFS_MAX_EDGES "\<lambda>slot. e_id (edges tmp_graph slot) = 0" 1]
    by (simp add: sotfs_alloc_edge_def sotfs_alloc_inode_def tmp_graph_def one_graph_def graph_init_eq SOTFS_MAX_INODES_def
          SOTFS_MAX_EDGES_def zero_inode_def zero_edge_def)
  show ?thesis using a b f d
    by (simp add: sotfs_rewrite_create_file_def rewrite_create_def SOTFS_MAX_NAME_def split_def Let_def)
qed

lemma create_failure:
  assumes t: "tables_ok g" and c: "rewrite_create k g p nm m = (r, g')" and r: "r < 0"
  shows "inodes g' = inodes g \<and> edges g' = edges g \<and> blocks g' = blocks g"
proof (cases "nm \<noteq> [] \<and> length nm < SOTFS_MAX_NAME \<and> check_dir g p = SOTFS_OK \<and> sotfs_find_edge g p nm = 0")
  case False
  then have "g' = g" using c by (auto simp: rewrite_create_def split: if_splits)
  then show ?thesis by simp
next
  case True
  from alloc_inode_cases [OF t, of k m] show ?thesis
  proof (elim disjE exE conjE)
    assume "sotfs_alloc_inode g k m = (0, g)"
    then have "g' = g" using c True by (auto simp: rewrite_create_def)
    then show ?thesis by simp
  next
    fix s assume s: "s < SOTFS_MAX_INODES" "i_id (inodes g s) = 0"
      and a: "sotfs_alloc_inode g k m = (int s + 1, g\<lparr>inodes := (inodes g)(s := new_inode s k m),
             next_inode_hint := (s + 1) mod SOTFS_MAX_INODES\<rparr>)" (is "_ = (_, ?g1)")
    obtain e g2 where b: "sotfs_alloc_edge ?g1 p (int s + 1) nm = (e, g2)" by fastforce
    have "e = 0" using c True a b r by (auto simp: rewrite_create_def split: if_splits)
    then have g2: "g2 = ?g1" using alloc_edge_cases [of nm ?g1 p "int s + 1"] True b by auto
    have g': "g' = sotfs_free_inode ?g1 (int s + 1)" using c True a b g2 \<open>e = 0\<close> by (auto simp: rewrite_create_def)
    have "inode_slot (int s + 1) = Some s" using s(1) by (simp add: id_slot_Some_iff)
    then show ?thesis using g' tables_okD(1) [OF t s] by (simp add: sotfs_free_inode_def fun_upd_idem)
  qed
qed

lemma rewrite_failure:
  assumes "r < 0"
  shows "sotfs_rewrite_unlink g p nm = (r, g') \<Longrightarrow> g' = g" and "sotfs_rewrite_rmdir g p nm = (r, g') \<Longrightarrow> g' = g"
  using assms by (auto simp: sotfs_rewrite_unlink_def sotfs_rewrite_rmdir_def Let_def SOTFS_OK_def split: if_splits option.splits)

lemma rename_failure:
  assumes r: "r < 0" and s: "sotfs_rewrite_rename g p nm q m = (r, g')"
  shows "g' = g"
proof -
  have a: "n = 0 \<Longrightarrow> h = g" if "sotfs_alloc_edge g q c m = (n, h)" for c n h
    using that by (auto simp: sotfs_alloc_edge_def split: option.splits)
  show ?thesis using r s
    by (auto simp: sotfs_rewrite_rename_def Let_def SOTFS_OK_def a split: if_splits option.splits prod.splits)
qed

text \<open>
  C24. A namespace operation that returns an error leaves the inode, edge and block tables
  and the root exactly as they were, also on the branch that runs out of edges after it has
  allocated an inode: only the allocation hint may have moved.
\<close>

theorem sotfs_failure_atomic:
  assumes ok: "fs_ok R g" and st: "fs_step op g = (r, g')" and r: "r < 0"
  shows "inodes g' = inodes g \<and> edges g' = edges g \<and> blocks g' = blocks g \<and> root_id g' = root_id g"
proof -
  have t: "tables_ok g" using ok graph_okD(1) by (auto simp: fs_ok_def)
  have "inodes g' = inodes g \<and> edges g' = edges g \<and> blocks g' = blocks g"
    using st r
    by (cases op)
       (auto simp: fs_step_def sotfs_rewrite_create_file_def sotfs_rewrite_mkdir_def SOTFS_OK_def
          dest: create_failure [OF t] rewrite_failure [OF r] rename_failure [OF r])
  then show ?thesis using fs_step_root_id [OF st] by simp
qed


theorem sotfs_failure_atomic_witness:
  "fst (fs_step (FsMkdir 1 ''tmp'' 511) tmp_graph) = SOTFS_ERR_EXISTS \<and>
   edges (snd (fs_step (FsMkdir 1 ''tmp'' 511) tmp_graph)) = edges tmp_graph"
proof -
  obtain r g' where st: "fs_step (FsMkdir 1 ''tmp'' 511) tmp_graph = (r, g')" by fastforce
  have "spec_create SOTFS_KIND_DIR 1 ''tmp'' (absfs tmp_graph) r (absfs g')"
    using fs_step_refines(2) [OF tmp_graph_ok st] by (simp add: fs_spec_def)
  moreover have "is_dir tmp_graph 1" using graph_okD(6) [of "{1}" tmp_graph] tmp_graph_ok by (simp add: fs_ok_def)
  ultimately have r: "r = SOTFS_ERR_EXISTS"
    by (simp add: spec_create_def name_err_def SOTFS_MAX_NAME_def dir_err_absfs tmp_graph_lookup check_dir_ok del: absfs_sel(2,3))
  with sotfs_failure_atomic [OF tmp_graph_ok st] st show ?thesis by (simp add: SOTFS_ERR_EXISTS_def)
qed

lemma free_storage_dead: "\<not> live (sotfs_free_file_storage g c) c"
proof (cases "live g c")
  case True
  then obtain s where "s < SOTFS_MAX_INODES" "c = int s + 1" "inode_slot c = Some s" "i_id (inodes g s) \<noteq> 0"
    by (rule live_slotE)
  then show ?thesis by (auto simp: sotfs_free_file_storage_def sotfs_free_inode_def live_iff zero_inode_def)
next
  case False
  then have "sotfs_free_file_storage g c = g" by (auto simp: sotfs_free_file_storage_def live_def split: option.splits)
  with False show ?thesis by simp
qed

lemma close_keeps_blocks: "live (sotfs_inode_close g c) c \<Longrightarrow> blocks (sotfs_inode_close g c) = blocks g"
  by (auto simp: sotfs_inode_close_def free_storage_dead upd_inode_def Let_def split: option.splits if_splits)

lemma blocks_free_edge [simp]: "blocks (sotfs_free_edge g n) = blocks g"
  by (simp add: sotfs_free_edge_def split: option.splits)

lemma unlink_keeps_blocks:
  assumes ok: "graph_ok R g" and l: "lookup g (p, nm) = Some c" and u: "sotfs_rewrite_unlink g p nm = (r, g')" and c: "live g' c"
  shows "blocks g' = blocks g"
proof (cases "sotfs_find_edge g p nm = 0")
  case True
  then show ?thesis using l find_edge_0_iff [OF graph_okD(1,2) [OF ok]] by simp
next
  case False
  obtain s d where s: "edge_at g s p nm d" "edge_slot (sotfs_find_edge g p nm) = Some s" "e_child_id (edges g s) = d"
    using find_edge_SomeE [OF graph_okD(1) [OF ok] False] by metis
  have "d = c" using edge_lookup [OF ok s(1)] l by simp
  then show ?thesis using u s c False free_storage_dead
    by (auto simp: sotfs_rewrite_unlink_def Let_def upd_inode_def split: option.splits if_splits)
qed

lemma unique_parent:
  assumes g: "graph_ok R g" and l: "lookup g (p, nm) = Some c" "lookup g (q, m) = Some c"
  shows "(q, m) = (p, nm)"
proof -
  obtain s t where e: "edge_at g s p nm c" "edge_at g t q m c"
    using l lookup_iff [OF graph_okD(1,2) [OF g]] by blast
  have "t = s" by (rule edges_okD(6) [OF graph_okD(2) [OF g] e])
  with e edge_at_fun show ?thesis by blast
qed

lemma close_orphan_step:
  assumes ok: "fs_ok R g" and l: "live g c" and o: "c \<notin> R" "c \<notin> ran (lookup g)" and n: "opens (absfs g) c = Suc k"
  shows "fs_ok R (sotfs_inode_close g c)" "lookup (sotfs_inode_close g c) = lookup g"
    and "live (sotfs_inode_close g c) c \<longleftrightarrow> 0 < k"
    and "0 < k \<Longrightarrow> opens (absfs (sotfs_inode_close g c)) c = k"
    and "0 < k \<Longrightarrow> blocks (sotfs_inode_close g c) = blocks g"
proof -
  have st: "fs_step (FsClose c) g = (SOTFS_OK, sotfs_inode_close g c)" by (simp add: fs_step_def)
  show "fs_ok R (sotfs_inode_close g c)" by (rule fs_step_refines(1) [OF ok st])
  have kc: "kinds (absfs g) c \<noteq> None" using l by simp
  have "absfs (sotfs_inode_close g c) = spec_close R c (absfs g)"
    using fs_step_refines(2) [OF ok st] by (simp add: fs_spec_def)
  also have "\<dots> = (if k = 0 then fs_drop c (absfs g) else (absfs g)\<lparr>opens := (opens (absfs g))(c := k)\<rparr>)"
    using kc o n by (auto simp: spec_close_def simp del: absfs_sel(2,3))
  finally have a: "absfs (sotfs_inode_close g c) = \<dots>" .
  show "lookup (sotfs_inode_close g c) = lookup g" using arg_cong [OF a, of tree] by (simp add: fs_drop_def split: if_splits)
  have "kinds (absfs (sotfs_inode_close g c)) c = (if k = 0 then None else kinds (absfs g) c)" unfolding a by (simp add: fs_drop_def)
  then show l': "live (sotfs_inode_close g c) c \<longleftrightarrow> 0 < k" using kc by (auto split: if_splits)
  show "opens (absfs (sotfs_inode_close g c)) c = k" if "0 < k" unfolding a using that by simp
  show "blocks (sotfs_inode_close g c) = blocks g" if "0 < k" using close_keeps_blocks l' that by blast
qed

lemma close_orphan_run:
  assumes "fs_ok R g" "live g c" "c \<notin> R" "c \<notin> ran (lookup g)" "opens (absfs g) c = Suc k"
  shows "(\<forall>j\<le>k. live (((\<lambda>h. sotfs_inode_close h c) ^^ j) g) c \<and> blocks (((\<lambda>h. sotfs_inode_close h c) ^^ j) g) = blocks g) \<and>
    \<not> live (((\<lambda>h. sotfs_inode_close h c) ^^ Suc k) g) c"
  using assms
proof (induction k arbitrary: g)
  case 0
  then show ?case using close_orphan_step(3) [OF 0] by simp
next
  case (Suc k)
  note s = close_orphan_step [OF Suc.prems]
  have IH: "(\<forall>j\<le>k. live (((\<lambda>h. sotfs_inode_close h c) ^^ j) (sotfs_inode_close g c)) c \<and>
      blocks (((\<lambda>h. sotfs_inode_close h c) ^^ j) (sotfs_inode_close g c)) = blocks (sotfs_inode_close g c)) \<and>
    \<not> live (((\<lambda>h. sotfs_inode_close h c) ^^ Suc k) (sotfs_inode_close g c)) c"
  proof (rule Suc.IH [OF s(1) _ Suc.prems(3)])
    show "live (sotfs_inode_close g c) c" using s(3) by simp
    show "c \<notin> ran (lookup (sotfs_inode_close g c))" unfolding s(2) by (rule Suc.prems(4))
    show "opens (absfs (sotfs_inode_close g c)) c = Suc k" by (rule s(4)) simp
  qed
  have sw: "((\<lambda>h. sotfs_inode_close h c) ^^ Suc i) g = ((\<lambda>h. sotfs_inode_close h c) ^^ i) (sotfs_inode_close g c)" for i
    by (simp only: funpow_Suc_right o_apply)
  show ?case
  proof (intro conjI allI impI)
    fix j assume "j \<le> Suc k"
    then show "live (((\<lambda>h. sotfs_inode_close h c) ^^ j) g) c" "blocks (((\<lambda>h. sotfs_inode_close h c) ^^ j) g) = blocks g"
      using IH s(5) Suc.prems(2) by (cases j; simp add: sw del: funpow.simps(2))+
  next
    show "\<not> live (((\<lambda>h. sotfs_inode_close h c) ^^ Suc (Suc k)) g) c" unfolding sw [of "Suc k"] using IH by blast
  qed
qed

lemma spec_unlink_openD:
  assumes "spec_unlink p nm fs SOTFS_OK fs'" "tree fs (p, nm) = Some c" "0 < opens fs c"
  shows "fs' = fs\<lparr>tree := (tree fs)((p, nm) := None)\<rparr>"
  using assms by (simp add: spec_unlink_def Let_def err_neq_ok [symmetric] split: if_splits)

text \<open>
  C25. Delete on last close: when a file with \<open>k > 0\<close> counted handles is unlinked, its inode
  stays live and no block mapping changes during the first \<open>k - 1\<close> closes, and the \<open>k\<close>-th
  close frees the inode, after which no block mapping belongs to it.
\<close>

theorem sotfs_delete_on_last_close:
  assumes ok: "fs_ok R g" and u: "sotfs_rewrite_unlink g p nm = (SOTFS_OK, g')"
    and c: "tree (absfs g) (p, nm) = Some c" and k: "opens (absfs g) c = k" "0 < k"
  shows "(\<forall>j<k. live (((\<lambda>h. sotfs_inode_close h c) ^^ j) g') c \<and> blocks (((\<lambda>h. sotfs_inode_close h c) ^^ j) g') = blocks g) \<and>
    \<not> live (((\<lambda>h. sotfs_inode_close h c) ^^ k) g') c \<and>
    (\<forall>b<SOTFS_MAX_BLOCKS. b_id (blocks (((\<lambda>h. sotfs_inode_close h c) ^^ k) g') b) \<noteq> 0 \<longrightarrow>
        b_file_id (blocks (((\<lambda>h. sotfs_inode_close h c) ^^ k) g') b) \<noteq> c)"
proof -
  have st: "fs_step (FsUnlink p nm) g = (SOTFS_OK, g')" using u by (simp add: fs_step_def)
  have g: "graph_ok R g" and ok': "fs_ok R g'" using ok fs_step_refines(1) [OF ok st] by (auto simp: fs_ok_def)
  have l: "lookup g (p, nm) = Some c" using c by simp
  then obtain s where e: "edge_at g s p nm c" using lookup_iff [OF graph_okD(1,2) [OF g]] by blast
  have cR: "c \<notin> R" by (rule edges_okD(3) [OF graph_okD(2) [OF g] e])
  have sp: "spec_unlink p nm (absfs g) SOTFS_OK (absfs g')"
    using fs_step_refines(2) [OF ok st] by (simp add: fs_spec_def)
  have a: "absfs g' = (absfs g)\<lparr>tree := (lookup g)((p, nm) := None)\<rparr>"
    using spec_unlink_openD [OF sp c] k by simp
  have "kinds (absfs g') c = kinds (absfs g) c" unfolding a by simp
  then have lc: "live g' c" using edges_okD(2) [OF graph_okD(2) [OF g] e] by (simp split: if_splits)
  have l': "lookup g' = (lookup g)((p, nm) := None)" using arg_cong [OF a, of tree] by simp
  have nr: "c \<notin> ran (lookup g')"
  proof
    assume "c \<in> ran (lookup g')"
    then obtain q m where q: "(q, m) \<noteq> (p, nm)" "lookup g (q, m) = Some c"
      unfolding l' by (auto simp: ran_def split: if_splits)
    with unique_parent [OF g l] show False by blast
  qed
  have "opens (absfs g') c = Suc (k - 1)" using k unfolding a by simp
  from close_orphan_run [OF ok' lc cR nr this] k(2) unlink_keeps_blocks [OF g l u lc]
  have r: "\<forall>j<k. live (((\<lambda>h. sotfs_inode_close h c) ^^ j) g') c \<and> blocks (((\<lambda>h. sotfs_inode_close h c) ^^ j) g') = blocks g"
    and d: "\<not> live (((\<lambda>h. sotfs_inode_close h c) ^^ k) g') c" by (auto simp: less_Suc_eq_le)
  have "fs_ok R (((\<lambda>h. sotfs_inode_close h c) ^^ j) g')" for j
    by (induction j) (use ok' fs_step_refines(1) [where op = "FsClose c"] in \<open>auto simp: fs_step_def\<close>)
  then have "graph_ok R (((\<lambda>h. sotfs_inode_close h c) ^^ k) g')" by (simp add: fs_ok_def)
  from graph_okD(7) [OF this] d have "\<forall>b<SOTFS_MAX_BLOCKS. b_id (blocks (((\<lambda>h. sotfs_inode_close h c) ^^ k) g') b) \<noteq> 0 \<longrightarrow>
        b_file_id (blocks (((\<lambda>h. sotfs_inode_close h c) ^^ k) g') b) \<noteq> c" by metis
  with r d show ?thesis by (intro conjI)
qed

definition open_graph :: sotfs_graph where
  "open_graph = sotfs_inode_open (one_graph SOTFS_KIND_FILE ''f'' 420) 2"

lemma open_graph_facts:
  "fs_ok {1} open_graph" "lookup open_graph (1, ''f'') = Some 2" "opens (absfs open_graph) 2 = 1"
  "kinds (absfs open_graph) 2 = Some SOTFS_KIND_FILE"
proof -
  let ?g = "one_graph SOTFS_KIND_FILE ''f'' 420"
  have nm: "name_err ''f'' = SOTFS_OK" by (simp add: name_err_def SOTFS_MAX_NAME_def)
  have k: "SOTFS_KIND_FILE \<noteq> SOTFS_KIND_FREE" by simp
  note g = one_graph_ok [OF nm k, of 420]
  have st: "fs_step (FsOpen 2) ?g = (SOTFS_OK, open_graph)" by (simp add: fs_step_def open_graph_def)
  show "fs_ok {1} open_graph" by (rule fs_step_refines(1) [OF g(1) st])
  have a: "absfs open_graph = spec_open 2 (absfs ?g)" using fs_step_refines(2) [OF g(1) st] by (simp add: fs_spec_def)
  have l: "live ?g 2" and i: "inode_of ?g 2 = new_inode 1 SOTFS_KIND_FILE 420"
    by (simp_all add: live_def inode_of_def id_slot_def SOTFS_MAX_INODES_def one_graph_def new_inode_def)
  have b: "absfs open_graph = (absfs ?g)\<lparr>opens := (opens (absfs ?g))(2 := 1)\<rparr>"
    unfolding a spec_open_def using l i by (simp add: new_inode_def zero_inode_def)
  show "lookup open_graph (1, ''f'') = Some 2" using arg_cong [OF b, of tree] g(2) by simp
  show "opens (absfs open_graph) 2 = 1" unfolding b by simp
  show "kinds (absfs open_graph) 2 = Some SOTFS_KIND_FILE" unfolding b using l i by (simp add: new_inode_def)
qed

theorem sotfs_delete_on_last_close_witness:
  "live (snd (sotfs_rewrite_unlink open_graph 1 ''f'')) 2 \<and>
   \<not> live (sotfs_inode_close (snd (sotfs_rewrite_unlink open_graph 1 ''f'')) 2) 2"
proof -
  note f = open_graph_facts
  obtain r g' where u: "sotfs_rewrite_unlink open_graph 1 ''f'' = (r, g')" by fastforce
  have ok: "graph_ok {1} open_graph" using f(1) by (simp add: fs_ok_def)
  have d: "is_dir open_graph 1" using f(1) by (simp add: fs_ok_def)
  have "spec_unlink 1 ''f'' (absfs open_graph) r (absfs g')" using unlink_refines [OF ok u] by blast
  then have "r = SOTFS_OK"
    using f(2,4) d by (simp add: spec_unlink_def dir_err_absfs check_dir_ok del: absfs_sel(2,3))
  with u have u: "sotfs_rewrite_unlink open_graph 1 ''f'' = (SOTFS_OK, g')" by simp
  have t: "tree (absfs open_graph) (1, ''f'') = Some 2" using f(2) by simp
  from sotfs_delete_on_last_close [OF f(1) u t f(3)] show ?thesis unfolding u by simp
qed


text \<open>
  C26. Renaming a directory \<open>d\<close> into itself is not refused: it succeeds whenever the name is
  new and an edge slot is free, leaves \<open>d\<close> as its own and only parent, and no path from any
  mount root reaches \<open>d\<close> any more, so that the whole subtree is lost while it keeps its inodes.
\<close>

theorem sotfs_rename_into_itself:
  assumes ok: "fs_ok R g" and l: "tree (absfs g) (p, nm) = Some d" and d: "kinds (absfs g) d = Some SOTFS_KIND_DIR"
    and m: "name_err m = SOTFS_OK" "tree (absfs g) (d, m) = None" and n: "\<not> fs_full_edges (absfs g)"
  shows "\<exists>g'. sotfs_rewrite_rename g p nm d m = (SOTFS_OK, g') \<and> tree (absfs g') (d, m) = Some d \<and>
    live g' d \<and> (\<forall>r\<in>R. \<forall>cs. walk (tree (absfs g')) r cs \<noteq> Some d)"
proof -
  obtain r g' where st: "sotfs_rewrite_rename g p nm d m = (r, g')" by fastforce
  have g: "graph_ok R g" using ok by (simp add: fs_ok_def)
  have lk: "lookup g (p, nm) = Some d" using l by simp
  then obtain s where e: "edge_at g s p nm d" using lookup_iff [OF graph_okD(1,2) [OF g]] by blast
  have p: "is_dir g p" and dR: "d \<notin> R" and ld: "live g d" using edges_okD(1-3) [OF graph_okD(2) [OF g] e] by auto
  have dd: "is_dir g d" using d ld by (simp add: is_dir_def)
  have nm: "nm \<noteq> []" "length nm < SOTFS_MAX_NAME"
    using tables_okD(5,6) [OF graph_okD(1) [OF g], of s] e by (auto simp: edge_at_def)
  note rr = rename_refines [OF g st]
  have sp: "r = SOTFS_OK \<and> absfs g' = (absfs g)\<lparr>tree := (lookup g)((d, m) \<mapsto> d, (p, nm) := None)\<rparr>"
    using conjunct2 [OF rr] m n nm lk p dd
    by (simp add: spec_rename_def name_err_iff dir_err_absfs check_dir_ok leD del: absfs_sel(2,3))
  have ne: "(d, m) \<noteq> (p, nm)" using lk m(2) by auto
  have t: "tree (absfs g') = (lookup g)((d, m) \<mapsto> d, (p, nm) := None)" using sp by (metis afs.select_convs(1) afs.surjective afs.update_convs(1))
  have only: "q = d" if "tree (absfs g') (q, x) = Some d" for q x
    using that unique_parent [OF g lk] unfolding t by (auto split: if_splits)
  have nowalk: "walk (tree (absfs g')) a cs \<noteq> Some d" if "a \<noteq> d" for a cs
    using that
  proof (induction cs arbitrary: a)
    case (Cons c cs)
    show ?case
    proof (cases "tree (absfs g') (a, c)")
      case (Some b)
      then have "b \<noteq> d" using only [of a c] Cons.prems by auto
      then show ?thesis using Some Cons.IH by simp
    qed simp
  qed simp
  have "kinds (absfs g') d = kinds (absfs g) d" using sp by simp
  then have "live g' d" using ld by (simp split: if_splits)
  moreover have "tree (absfs g') (d, m) = Some d" unfolding t using ne by auto
  moreover have "\<forall>r\<in>R. \<forall>cs. walk (tree (absfs g')) r cs \<noteq> Some d" using nowalk dR by (intro ballI allI) metis
  ultimately show ?thesis using st sp by blast
qed

theorem sotfs_rename_into_itself_witness:
  "\<exists>g'. sotfs_rewrite_rename tmp_graph 1 ''tmp'' 2 ''x'' = (SOTFS_OK, g') \<and> live g' 2 \<and>
     (\<forall>cs. walk (tree (absfs g')) 1 cs \<noteq> Some 2)"
proof -
  have l: "live tmp_graph 2" and k: "i_kind (inode_of tmp_graph 2) = SOTFS_KIND_DIR"
    by (simp_all add: live_def inode_of_def id_slot_def SOTFS_MAX_INODES_def tmp_graph_def one_graph_def new_inode_def)
  have "\<not> fs_full_edges (absfs tmp_graph)"
    by (simp add: fs_full_edges_def tmp_graph_lookup SOTFS_MAX_EDGES_def)
  with sotfs_rename_into_itself [OF tmp_graph_ok, of 1 "''tmp''" 2 "''x''"] l k show ?thesis
    by (auto simp: tmp_graph_lookup name_err_def SOTFS_MAX_NAME_def)
qed

subsection \<open>Reachability from the mount roots\<close>

definition reach :: "(int \<times> string \<Rightarrow> int option) \<Rightarrow> int set \<Rightarrow> int \<Rightarrow> bool" where
  "reach t R x \<longleftrightarrow> (\<exists>r\<in>R. \<exists>cs. walk t r cs = Some x)"

definition fs_connected :: "int set \<Rightarrow> afs \<Rightarrow> bool" where
  "fs_connected R fs \<longleftrightarrow> (\<forall>c\<in>ran (tree fs). reach (tree fs) R c)"

lemma reach_mono: "reach t R x \<Longrightarrow> t \<subseteq>\<^sub>m t' \<Longrightarrow> reach t' R x"
  unfolding reach_def using walk_mono by blast

lemma reach_step: "reach t R p \<Longrightarrow> t (p, nm) = Some c \<Longrightarrow> reach t R c"
proof -
  assume "reach t R p" and c: "t (p, nm) = Some c"
  then obtain r cs where r: "r \<in> R" "walk t r cs = Some p" by (auto simp: reach_def)
  then have "walk t r (cs @ [nm]) = Some c" using c by (simp add: walk_append)
  with r(1) show ?thesis unfolding reach_def by blast
qed

lemma walk_cut:
  assumes c: "t e = Some c"
  shows "walk t a cs = Some x \<Longrightarrow> walk (t(e := None)) a cs = Some x \<or> (\<exists>ds. walk (t(e := None)) c ds = Some x)"
proof (induction cs arbitrary: a)
  case (Cons k cs)
  then obtain b where b: "t (a, k) = Some b" "walk t b cs = Some x" by (auto split: option.splits)
  show ?case
  proof (cases "(a, k) = e")
    case True
    then have "b = c" using b(1) c by simp
    with Cons.IH [OF b(2)] show ?thesis by blast
  next
    case False
    with Cons.IH [OF b(2)] b(1) show ?thesis by auto
  qed
qed simp

lemma reach_cut:
  assumes "t e = Some c" "reach t R x"
  shows "reach (t(e := None)) R x \<or> (\<exists>ds. walk (t(e := None)) c ds = Some x)"
proof -
  obtain r cs where "r \<in> R" "walk t r cs = Some x" using assms(2) by (auto simp: reach_def)
  with walk_cut [of t, OF assms(1)] show ?thesis unfolding reach_def by blast
qed

lemma connected_add:
  assumes c: "fs_connected R fs" and p: "reach (tree fs) R p" and no: "tree fs (p, nm) = None"
    and t: "tree fs' = (tree fs)((p, nm) \<mapsto> n)"
  shows "fs_connected R fs'"
  unfolding fs_connected_def
proof
  fix x assume "x \<in> ran (tree fs')"
  then have x: "x = n \<or> x \<in> ran (tree fs)" using no unfolding t by (auto simp: ran_def split: if_splits)
  have le: "tree fs \<subseteq>\<^sub>m tree fs'" using no unfolding t by (auto simp: map_le_def)
  from x show "reach (tree fs') R x"
  proof
    assume "x = n"
    then have "tree fs' (p, nm) = Some x" by (simp add: t)
    then show ?thesis by (rule reach_step [OF reach_mono [OF p le]])
  next
    assume "x \<in> ran (tree fs)"
    then show ?thesis using c reach_mono [OF _ le] by (auto simp: fs_connected_def)
  qed
qed

lemma connected_remove_leaf:
  assumes c: "fs_connected R fs" and e: "tree fs e = Some n" and leaf: "\<And>m. tree fs (n, m) = None"
    and u: "\<And>f. tree fs f = Some n \<Longrightarrow> f = e" and t: "tree fs' = (tree fs)(e := None)"
  shows "fs_connected R fs'"
  unfolding fs_connected_def
proof
  fix x assume "x \<in> ran (tree fs')"
  then obtain f where f: "f \<noteq> e" "tree fs f = Some x" unfolding t by (auto simp: ran_def split: if_splits)
  then have xn: "x \<noteq> n" using u by blast
  have "reach (tree fs) R x" using c ranI [of "tree fs", OF f(2)] by (simp add: fs_connected_def)
  from reach_cut [of "tree fs", OF e this] show "reach (tree fs') R x"
  proof
    assume "\<exists>ds. walk ((tree fs)(e := None)) n ds = Some x"
    then obtain ds where ds: "walk ((tree fs)(e := None)) n ds = Some x" ..
    have "((tree fs)(e := None)) (n, m) = None" for m using leaf by simp
    then have "ds = []" using ds by (cases ds) (simp_all del: fun_upd_apply)
    with ds xn show ?thesis by simp
  qed (simp add: t)
qed

lemma connected_move:
  assumes c: "fs_connected R fs" and e: "tree fs e = Some n" and no: "tree fs (q, m) = None"
    and q: "reach (tree fs) R q" and out: "\<And>cs. walk (tree fs) n cs \<noteq> Some q"
    and t: "tree fs' = (tree fs)((q, m) \<mapsto> n, e := None)"
  shows "fs_connected R fs'"
  unfolding fs_connected_def
proof
  let ?t = "(tree fs)(e := None)"
  have ne: "(q, m) \<noteq> e" using e no by auto
  have le: "?t \<subseteq>\<^sub>m tree fs'" and le0: "?t \<subseteq>\<^sub>m tree fs" using no unfolding t by (auto simp: map_le_def)
  have qn: "tree fs' (q, m) = Some n" using ne unfolding t by auto
  have "reach ?t R q" using reach_cut [of "tree fs", OF e q] out walk_mono [OF _ le0] by blast
  then have n: "reach (tree fs') R n" using reach_step [OF reach_mono [OF _ le] qn] by blast
  fix x assume "x \<in> ran (tree fs')"
  then have "x = n \<or> x \<in> ran (tree fs)" unfolding t by (auto simp: ran_def split: if_splits)
  then show "reach (tree fs') R x"
  proof
    assume "x \<in> ran (tree fs)"
    then have "reach (tree fs) R x" using c by (auto simp: fs_connected_def)
    from reach_cut [of "tree fs", OF e this] show ?thesis
    proof
      assume "\<exists>ds. walk ?t n ds = Some x"
      then obtain ds where "walk (tree fs') n ds = Some x" using walk_mono [OF _ le] by blast
      moreover obtain r cs where "r \<in> R" "walk (tree fs') r cs = Some n" using n by (auto simp: reach_def)
      ultimately have "walk (tree fs') r (cs @ ds) = Some x" by (simp add: walk_append)
      with \<open>r \<in> R\<close> show ?thesis unfolding reach_def by blast
    qed (rule reach_mono [OF _ le])
  qed (use n in simp)
qed


lemma dir_reach:
  assumes ok: "graph_ok R g" and c: "fs_connected R (absfs g)" and d: "dir_err (absfs g) p = SOTFS_OK"
  shows "reach (lookup g) R p"
proof (cases "p \<in> R")
  case True
  have "walk (lookup g) p [] = Some p" by simp
  with True show ?thesis unfolding reach_def by blast
next
  case False
  have p: "is_dir g p" using d by (simp add: dir_err_absfs check_dir_ok)
  then have "i_orphan (inode_of g p) = 0" using graph_okD(3) [OF ok] by (auto simp: is_dir_def inode_ok_def)
  then obtain s q nm where "edge_at g s q nm p" using edges_okD(7) [OF graph_okD(2) [OF ok] _ False] p by (auto simp: is_dir_def)
  then have "lookup g (q, nm) = Some p" using lookup_iff [OF graph_okD(1,2) [OF ok]] by blast
  then show ?thesis using c ranI [of "lookup g"] by (simp add: fs_connected_def)
qed

lemma file_has_no_entries:
  assumes ok: "graph_ok R g" and k: "kinds (absfs g) n \<noteq> Some SOTFS_KIND_DIR"
  shows "lookup g (n, m) = None"
proof (rule ccontr)
  assume "lookup g (n, m) \<noteq> None"
  then obtain s c where "edge_at g s n m c" using lookup_iff [OF graph_okD(1,2) [OF ok]] by blast
  then have "is_dir g n" by (rule edges_okD(1) [OF graph_okD(2) [OF ok]])
  with k show False by (simp add: is_dir_def)
qed

lemma connected_same: "fs_connected R fs \<Longrightarrow> tree fs' = tree fs \<Longrightarrow> fs_connected R fs'"
  by (simp add: fs_connected_def)

lemma spec_connected:
  assumes sp: "fs_spec R op fs r fs'" and c: "fs_connected R fs"
    and dr: "\<And>p. dir_err fs p = SOTFS_OK \<Longrightarrow> reach (tree fs) R p"
    and leaf: "\<And>n m. kinds fs n \<noteq> Some SOTFS_KIND_DIR \<Longrightarrow> tree fs (n, m) = None"
    and u: "\<And>e f n. tree fs e = Some n \<Longrightarrow> tree fs f = Some n \<Longrightarrow> f = e"
    and mv: "\<And>p nm q m n cs. op = FsRename p nm q m \<Longrightarrow> tree fs (p, nm) = Some n \<Longrightarrow> walk (tree fs) n cs \<noteq> Some q"
  shows "fs_connected R fs'"
proof -
  have cr: "fs_connected R fs'" if "spec_create k p nm fs r fs'" for k p nm
    using that connected_add [OF c dr, of p nm fs' r] c by (auto simp: spec_create_def split: if_splits)
  have rm: "fs_connected R fs'" if "tree fs (p, nm) = Some n" "\<And>m. tree fs (n, m) = None"
      "tree fs' = (tree fs)((p, nm) := None)" for p nm n
    using connected_remove_leaf [OF c that(1,2) _ that(3)] u [OF that(1)] by blast
  show ?thesis
  proof (cases op)
    case (FsUnlink p nm)
    then have "fs' = fs \<or> (\<exists>n. tree fs (p, nm) = Some n \<and> kinds fs n \<noteq> Some SOTFS_KIND_DIR \<and>
        tree fs' = (tree fs)((p, nm) := None))"
      using sp by (auto simp: fs_spec_def spec_unlink_def fs_drop_def Let_def split: if_splits option.splits)
    then show ?thesis using c rm leaf by blast
  next
    case (FsRmdir p nm)
    then have "fs' = fs \<or> (\<exists>n. tree fs (p, nm) = Some n \<and> (\<forall>m. tree fs (n, m) = None) \<and>
        tree fs' = (tree fs)((p, nm) := None))"
      using sp by (auto simp: fs_spec_def spec_rmdir_def fs_drop_def split: if_splits option.splits)
    then show ?thesis using c rm by blast
  next
    case (FsRename p nm q m)
    then have "fs' = fs \<or> (\<exists>n. tree fs (p, nm) = Some n \<and> tree fs (q, m) = None \<and> dir_err fs q = SOTFS_OK \<and>
        tree fs' = (tree fs)((q, m) \<mapsto> n, (p, nm) := None))"
      using sp by (auto simp: fs_spec_def spec_rename_def split: if_splits option.splits)
    then show ?thesis
    proof (elim disjE exE conjE)
      fix n assume n: "tree fs (p, nm) = Some n" "tree fs (q, m) = None" "dir_err fs q = SOTFS_OK"
        "tree fs' = (tree fs)((q, m) \<mapsto> n, (p, nm) := None)"
      show ?thesis by (rule connected_move [OF c n(1,2) dr [OF n(3)] mv [OF FsRename n(1)] n(4)])
    qed (use c in simp)
  next
    case (FsOpen n)
    then show ?thesis using sp connected_same [OF c, of fs'] by (simp add: fs_spec_def spec_open_def split: if_splits)
  next
    case (FsClose n)
    then show ?thesis using sp connected_same [OF c, of fs'] by (simp add: fs_spec_def spec_close_def fs_drop_def split: if_splits)
  qed (use sp cr in \<open>auto simp: fs_spec_def\<close>)
qed

text \<open>
  C27. Nothing else loses files: when every named inode is reachable from a mount root, it
  still is after any operation, provided that a rename does not move a directory below itself.
\<close>

theorem sotfs_stays_connected:
  assumes ok: "fs_ok R g" and c: "fs_connected R (absfs g)" and st: "fs_step op g = (r, g')"
    and mv: "\<And>p nm q m n cs. op = FsRename p nm q m \<Longrightarrow> tree (absfs g) (p, nm) = Some n \<Longrightarrow>
      walk (tree (absfs g)) n cs \<noteq> Some q"
  shows "fs_connected R (absfs g')"
proof -
  have g: "graph_ok R g" using ok by (simp add: fs_ok_def)
  show ?thesis
  proof (rule spec_connected [OF fs_step_refines(2) [OF ok st] c])
    show "reach (tree (absfs g)) R p" if "dir_err (absfs g) p = SOTFS_OK" for p
      using dir_reach [OF g c that] by simp
    show "tree (absfs g) (n, m) = None" if "kinds (absfs g) n \<noteq> Some SOTFS_KIND_DIR" for n m
      using file_has_no_entries [OF g that] by simp
    show "f = e" if "tree (absfs g) e = Some n" "tree (absfs g) f = Some n" for e f n
      using that unique_parent [OF g, of "fst e" "snd e" n "fst f" "snd f"] by (simp add: prod_eq_iff)
  qed (rule mv)
qed

theorem sotfs_stays_connected_witness:
  "fs_connected {1} (absfs (snd (fs_step (FsRmdir 1 ''tmp'') tmp_graph)))"
proof -
  obtain r g' where st: "fs_step (FsRmdir 1 ''tmp'') tmp_graph = (r, g')" by fastforce
  have "walk (tree (absfs tmp_graph)) 1 [''tmp''] = Some 2" by (simp add: tmp_graph_lookup)
  then have "fs_connected {1} (absfs tmp_graph)"
    unfolding fs_connected_def reach_def by (auto simp: tmp_graph_lookup ran_def split: if_splits intro!: exI [of _ "[''tmp'']"])
  from sotfs_stays_connected [OF tmp_graph_ok this st] st show ?thesis by simp
qed

end
