(* ===== verification/Storage.thy ===== *)
theory Storage
  imports Prelude
begin

text \<open>
  The byte-addressed storage backends of sotFS: the operation table of \<^verbatim>\<open>include/sotfs/wal.h\<close>,
  the RAM buffer (\<^verbatim>\<open>src/sotfs/storage_ram.c\<close>) and the read-modify-write layer over 512-byte
  sectors (\<^verbatim>\<open>src/sotfs/storage_virtio_blk.c\<close>). The virtio device itself is a parameter: a
  function that reads a sector and one that writes a sector, either of which may fail. The
  locale \<open>storage\<close> is the contract the block store and the log rely on; it is interpreted on
  the RAM operations and proved of the sector layer for every device that answers faithfully.
\<close>

subsection \<open>Byte images\<close>

definition put_bytes :: "(nat \<Rightarrow> 'a) \<Rightarrow> nat \<Rightarrow> 'a list \<Rightarrow> nat \<Rightarrow> 'a" where
  "put_bytes img off bs = (\<lambda>i. if off \<le> i \<and> i < off + length bs then bs ! (i - off) else img i)"

definition get_bytes :: "(nat \<Rightarrow> 'a) \<Rightarrow> nat \<Rightarrow> nat \<Rightarrow> 'a list" where
  "get_bytes img off n = map img [off..<off + n]"

lemma length_get_bytes [simp]: "length (get_bytes img off n) = n"
  by (simp add: get_bytes_def)

lemma nth_get_bytes [simp]: "i < n \<Longrightarrow> get_bytes img off n ! i = img (off + i)"
  by (simp add: get_bytes_def)

lemma put_bytes_Nil [simp]: "put_bytes img off [] = img"
  by (auto simp: put_bytes_def fun_eq_iff)

lemma get_put_same: "length bs = n \<Longrightarrow> get_bytes (put_bytes img off bs) off n = bs"
  by (auto simp: list_eq_iff_nth_eq put_bytes_def)

lemma get_put_other: "off' + n \<le> off \<or> off + length bs \<le> off' \<Longrightarrow> get_bytes (put_bytes img off bs) off' n = get_bytes img off' n"
  by (auto simp: list_eq_iff_nth_eq put_bytes_def)

lemma get_put_sub:
  "off \<le> a \<Longrightarrow> a + n \<le> off + length bs \<Longrightarrow> get_bytes (put_bytes img off bs) a n = take n (drop (a - off) bs)"
  by (auto simp: list_eq_iff_nth_eq put_bytes_def)

lemma put_bytes_append: "put_bytes img off (xs @ ys) = put_bytes (put_bytes img off xs) (off + length xs) ys"
  by (auto simp: put_bytes_def nth_append fun_eq_iff)

lemma get_bytes_append: "get_bytes img off (m + n) = get_bytes img off m @ get_bytes img (off + m) n"
  by (auto simp: list_eq_iff_nth_eq nth_append)

lemma put_bytes_comm: "a + length xs \<le> b \<Longrightarrow> put_bytes (put_bytes img a xs) b ys = put_bytes (put_bytes img b ys) a xs"
  by (auto simp: put_bytes_def fun_eq_iff)


subsection \<open>Little-endian integers\<close>

definition le_bytes :: "nat \<Rightarrow> nat \<Rightarrow> u8 list" where
  "le_bytes k n = map (\<lambda>i. of_nat (n div 256 ^ i)) [0..<k]"

fun le_nat :: "u8 list \<Rightarrow> nat" where
  "le_nat [] = 0"
| "le_nat (b # bs) = unat b + 256 * le_nat bs"

lemma length_le_bytes [simp]: "length (le_bytes k n) = k"
  by (simp add: le_bytes_def)

lemma le_bytes_Suc: "le_bytes (Suc k) n = of_nat n # le_bytes k (n div 256)"
proof -
  have "[0..<Suc k] = 0 # map Suc [0..<k]" by (simp add: map_Suc_upt upt_conv_Cons del: upt_Suc)
  then show ?thesis by (simp add: le_bytes_def div_mult2_eq mult.commute del: upt_Suc)
qed

lemma le_nat_le_bytes: "le_nat (le_bytes k n) = n mod 256 ^ k"
proof (induction k arbitrary: n)
  case 0
  then show ?case by (simp add: le_bytes_def)
next
  case (Suc k)
  have "unat (of_nat n :: u8) = n mod 256" by (simp add: unsigned_of_nat take_bit_eq_mod)
  then show ?case using Suc [of "n div 256"]
    by (simp add: le_bytes_Suc mod_mult2_eq [of n 256 "256 ^ k"] add.commute)
qed

lemma le_nat_bound: "le_nat bs < 256 ^ length bs"
proof (induction bs)
  case (Cons b bs)
  have "unat b < 256" using unsigned_less [of b] by simp
  with Cons show ?case by simp
qed simp


subsection \<open>The operation table\<close>

record 's sotfs_storage_ops =
  write_block :: "'s \<Rightarrow> nat \<Rightarrow> u8 list \<Rightarrow> int \<times> 's"
  read_block :: "'s \<Rightarrow> nat \<Rightarrow> nat \<Rightarrow> int \<times> u8 list"
  st_flush :: "'s \<Rightarrow> int"
  capacity_bytes :: "'s \<Rightarrow> nat"

text \<open>
  The contract: within the capacity every access succeeds, a write replaces exactly its bytes
  of the image, a read returns the bytes of the image; beyond the capacity nothing is written.
\<close>

locale storage =
  fixes ops :: "'s sotfs_storage_ops"
    and img :: "'s \<Rightarrow> nat \<Rightarrow> u8"
    and cap :: nat
  assumes write_ok: "off + length bs \<le> cap \<Longrightarrow>
      \<exists>s'. write_block ops s off bs = (int (length bs), s') \<and> img s' = put_bytes (img s) off bs"
    and read_ok: "off + n \<le> cap \<Longrightarrow> read_block ops s off n = (int n, get_bytes (img s) off n)"
    and write_full: "cap < off + length bs \<Longrightarrow> off + length bs < 2 ^ 64 \<Longrightarrow> \<exists>r. write_block ops s off bs = (r, s) \<and> r < 0"
    and capacity: "capacity_bytes ops s = cap"
    and cap_small: "cap < 2 ^ 31"


subsection \<open>The RAM backend\<close>

definition SOTFS_RAM_STORAGE_BYTES :: nat where [limits]: "SOTFS_RAM_STORAGE_BYTES = 64 * 1024"

definition ram_write_block :: "(nat \<Rightarrow> u8) \<Rightarrow> nat \<Rightarrow> u8 list \<Rightarrow> int \<times> (nat \<Rightarrow> u8)" where
  "ram_write_block m offset buf =
     (if SOTFS_RAM_STORAGE_BYTES < (offset + length buf) mod 2 ^ 64 then (-28, m)
      else (int (length buf), put_bytes m offset buf))"

definition ram_read_block :: "(nat \<Rightarrow> u8) \<Rightarrow> nat \<Rightarrow> nat \<Rightarrow> int \<times> u8 list" where
  "ram_read_block m offset len =
     (if SOTFS_RAM_STORAGE_BYTES < (offset + len) mod 2 ^ 64 then (-22, [])
      else (int len, get_bytes m offset len))"

definition ram_flush :: "(nat \<Rightarrow> u8) \<Rightarrow> int" where
  "ram_flush m = 0"

definition ram_capacity_bytes :: "(nat \<Rightarrow> u8) \<Rightarrow> nat" where
  "ram_capacity_bytes m = SOTFS_RAM_STORAGE_BYTES"

definition ram_ops :: "(nat \<Rightarrow> u8) sotfs_storage_ops" where
  "ram_ops = \<lparr>write_block = ram_write_block, read_block = ram_read_block, st_flush = ram_flush,
     capacity_bytes = ram_capacity_bytes\<rparr>"

interpretation ram: storage ram_ops "\<lambda>m. m" SOTFS_RAM_STORAGE_BYTES
  by unfold_locales
     (simp_all add: ram_ops_def ram_write_block_def ram_read_block_def ram_capacity_bytes_def SOTFS_RAM_STORAGE_BYTES_def)


subsection \<open>The sector layer of the virtio backend\<close>

definition VBLK_SECTOR_SIZE :: nat where [limits]: "VBLK_SECTOR_SIZE = 512"
definition SOTFS_IMG_TOTAL_BYTES :: nat where [limits]: "SOTFS_IMG_TOTAL_BYTES = 528 * 1024 * 1024"

definition VBLK_CAPACITY :: nat where [limits]: "VBLK_CAPACITY = SOTFS_IMG_TOTAL_BYTES"

type_synonym 'd sector_read = "'d \<Rightarrow> nat \<Rightarrow> u8 list option"
type_synonym 'd sector_write = "'d \<Rightarrow> nat \<Rightarrow> u8 list \<Rightarrow> bool \<times> 'd"

text \<open>\<open>memcpy\<close> of \<open>bs\<close> into a sector buffer at \<open>off\<close>.\<close>

definition overlay :: "'a list \<Rightarrow> nat \<Rightarrow> 'a list \<Rightarrow> 'a list" where
  "overlay buf off bs = take off buf @ bs @ drop (off + length bs) buf"

text \<open>Read, modify and write one sector.\<close>

definition rmw_sector :: "'d sector_read \<Rightarrow> 'd sector_write \<Rightarrow> 'd \<Rightarrow> nat \<Rightarrow> nat \<Rightarrow> u8 list \<Rightarrow> bool \<times> 'd" where
  "rmw_sector rd wr d sector off bs =
     (case rd d sector of None \<Rightarrow> (False, d) | Some buf \<Rightarrow> wr d sector (overlay buf off bs))"

function write_sectors :: "'d sector_read \<Rightarrow> 'd sector_write \<Rightarrow> 'd \<Rightarrow> nat \<Rightarrow> u8 list \<Rightarrow> bool \<times> 'd" where
  "write_sectors rd wr d sector p =
     (if VBLK_SECTOR_SIZE \<le> length p then
        (case wr d sector (take VBLK_SECTOR_SIZE p) of
           (False, d1) \<Rightarrow> (False, d1)
         | (True, d1) \<Rightarrow> write_sectors rd wr d1 (sector + 1) (drop VBLK_SECTOR_SIZE p))
      else if p \<noteq> [] then rmw_sector rd wr d sector 0 p
      else (True, d))"
  by pat_completeness auto
termination
  by (relation "measure (\<lambda>(rd, wr, d, sector, p). length p)") (auto simp: VBLK_SECTOR_SIZE_def)

declare write_sectors.simps [simp del]

definition vblk_write_block :: "'d sector_read \<Rightarrow> 'd sector_write \<Rightarrow> 'd \<Rightarrow> nat \<Rightarrow> u8 list \<Rightarrow> int \<times> 'd" where
  "vblk_write_block rd wr d offset buf =
     (if VBLK_CAPACITY < (offset + length buf) mod 2 ^ 64 then (-28, d)
      else
        let sector = offset div VBLK_SECTOR_SIZE; off_in_s = offset mod VBLK_SECTOR_SIZE in
        if off_in_s \<noteq> 0 then
          let can = min (VBLK_SECTOR_SIZE - off_in_s) (length buf) in
          (case rmw_sector rd wr d sector off_in_s (take can buf) of
             (False, d1) \<Rightarrow> (-5, d1)
           | (True, d1) \<Rightarrow>
               (case write_sectors rd wr d1 (sector + 1) (drop can buf) of
                  (ok, d2) \<Rightarrow> ((if ok then int (length buf) else -5), d2)))
        else
          (case write_sectors rd wr d sector buf of
             (ok, d2) \<Rightarrow> ((if ok then int (length buf) else -5), d2)))"

function read_sectors :: "'d sector_read \<Rightarrow> 'd \<Rightarrow> nat \<Rightarrow> nat \<Rightarrow> u8 list option" where
  "read_sectors rd d sector remaining =
     (if VBLK_SECTOR_SIZE \<le> remaining then
        (case rd d sector of
           None \<Rightarrow> None
         | Some s \<Rightarrow> map_option (\<lambda>r. s @ r) (read_sectors rd d (sector + 1) (remaining - VBLK_SECTOR_SIZE)))
      else if 0 < remaining then map_option (take remaining) (rd d sector)
      else Some [])"
  by pat_completeness auto
termination
  by (relation "measure (\<lambda>(rd, d, sector, r). r)") (auto simp: VBLK_SECTOR_SIZE_def)

declare read_sectors.simps [simp del]

definition vblk_read_block :: "'d sector_read \<Rightarrow> 'd \<Rightarrow> nat \<Rightarrow> nat \<Rightarrow> int \<times> u8 list" where
  "vblk_read_block rd d offset len =
     (if VBLK_CAPACITY < (offset + len) mod 2 ^ 64 then (-22, [])
      else
        let sector = offset div VBLK_SECTOR_SIZE; off_in_s = offset mod VBLK_SECTOR_SIZE;
            res = (if off_in_s \<noteq> 0 then
                     let can = min (VBLK_SECTOR_SIZE - off_in_s) len in
                     case rd d sector of
                       None \<Rightarrow> None
                     | Some s \<Rightarrow> map_option (\<lambda>r. take can (drop off_in_s s) @ r) (read_sectors rd d (sector + 1) (len - can))
                   else read_sectors rd d sector len)
        in case res of None \<Rightarrow> (-5, []) | Some bs \<Rightarrow> (int len, bs))"

definition vblk_flush :: "'d \<Rightarrow> int" where
  "vblk_flush d = 0"

definition vblk_capacity_bytes :: "'d \<Rightarrow> nat" where
  "vblk_capacity_bytes d = VBLK_CAPACITY"

definition vblk_ops :: "'d sector_read \<Rightarrow> 'd sector_write \<Rightarrow> 'd sotfs_storage_ops" where
  "vblk_ops rd wr = \<lparr>write_block = vblk_write_block rd wr, read_block = vblk_read_block rd,
     st_flush = vblk_flush, capacity_bytes = vblk_capacity_bytes\<rparr>"

text \<open>
  What the layer relies on of the device: sectors of the image are read and written as a
  whole, and the device does not fail within its capacity.
\<close>

definition sector_ok :: "'d sector_read \<Rightarrow> 'd sector_write \<Rightarrow> ('d \<Rightarrow> nat \<Rightarrow> u8) \<Rightarrow> bool" where
  "sector_ok rd wr img \<longleftrightarrow>
     (\<forall>d s. VBLK_SECTOR_SIZE * s + VBLK_SECTOR_SIZE \<le> VBLK_CAPACITY \<longrightarrow>
        rd d s = Some (get_bytes (img d) (VBLK_SECTOR_SIZE * s) VBLK_SECTOR_SIZE)) \<and>
     (\<forall>d s bs. VBLK_SECTOR_SIZE * s + VBLK_SECTOR_SIZE \<le> VBLK_CAPACITY \<longrightarrow> length bs = VBLK_SECTOR_SIZE \<longrightarrow>
        fst (wr d s bs) \<and> img (snd (wr d s bs)) = put_bytes (img d) (VBLK_SECTOR_SIZE * s) bs)"

lemma sector_okD:
  assumes "sector_ok rd wr img" "VBLK_SECTOR_SIZE * s + VBLK_SECTOR_SIZE \<le> VBLK_CAPACITY"
  shows "rd d s = Some (get_bytes (img d) (VBLK_SECTOR_SIZE * s) VBLK_SECTOR_SIZE)"
    and "length bs = VBLK_SECTOR_SIZE \<Longrightarrow> \<exists>d'. wr d s bs = (True, d') \<and> img d' = put_bytes (img d) (VBLK_SECTOR_SIZE * s) bs"
  using assms unfolding sector_ok_def by (auto simp: prod_eq_iff)

lemma sector_fits:
  "VBLK_SECTOR_SIZE * s + n \<le> VBLK_CAPACITY \<Longrightarrow> 0 < n \<Longrightarrow> VBLK_SECTOR_SIZE * s + VBLK_SECTOR_SIZE \<le> VBLK_CAPACITY"
  by (simp add: limits)

lemma length_overlay: "off + length bs \<le> length buf \<Longrightarrow> length (overlay buf off bs) = length buf"
  by (simp add: overlay_def)

lemma put_overlay:
  assumes "off + length bs \<le> n"
  shows "put_bytes img a (overlay (get_bytes img a n) off bs) = put_bytes img (a + off) bs"
proof
  fix i
  have l: "length (overlay (get_bytes img a n) off bs) = n" using assms by (simp add: overlay_def)
  show "put_bytes img a (overlay (get_bytes img a n) off bs) i = put_bytes img (a + off) bs i"
  proof (cases "a \<le> i \<and> i < a + n")
    case True
    then have "overlay (get_bytes img a n) off bs ! (i - a) = put_bytes img (a + off) bs i"
      using assms by (auto simp: overlay_def nth_append put_bytes_def min_def)
    with True l show ?thesis by (simp add: put_bytes_def)
  next
    case False
    with l assms show ?thesis by (auto simp: put_bytes_def)
  qed
qed

lemma rmw_sector_ok:
  assumes d: "sector_ok rd wr img" and s: "VBLK_SECTOR_SIZE * s + VBLK_SECTOR_SIZE \<le> VBLK_CAPACITY"
    and b: "off + length bs \<le> VBLK_SECTOR_SIZE"
  shows "\<exists>d'. rmw_sector rd wr d s off bs = (True, d') \<and> img d' = put_bytes (img d) (VBLK_SECTOR_SIZE * s + off) bs"
proof -
  let ?buf = "overlay (get_bytes (img d) (VBLK_SECTOR_SIZE * s) VBLK_SECTOR_SIZE) off bs"
  have "length ?buf = VBLK_SECTOR_SIZE" using b by (simp add: length_overlay)
  from sector_okD(2) [OF d s this, of d] show ?thesis
    using sector_okD(1) [OF d s, of d] put_overlay [OF b] by (auto simp: rmw_sector_def)
qed

lemma write_sectors_ok:
  assumes d: "sector_ok rd wr img"
  shows "VBLK_SECTOR_SIZE * s + length p \<le> VBLK_CAPACITY \<Longrightarrow>
    \<exists>d'. write_sectors rd wr x s p = (True, d') \<and> img d' = put_bytes (img x) (VBLK_SECTOR_SIZE * s) p"
proof (induction p arbitrary: x s rule: length_induct)
  case (1 p)
  consider "VBLK_SECTOR_SIZE \<le> length p" | "\<not> VBLK_SECTOR_SIZE \<le> length p" "p \<noteq> []" | "p = []" by blast
  then show ?case
  proof cases
    case 1
    have s: "VBLK_SECTOR_SIZE * s + VBLK_SECTOR_SIZE \<le> VBLK_CAPACITY" using 1 "1.prems" by simp
    obtain d1 where d1: "wr x s (take VBLK_SECTOR_SIZE p) = (True, d1)"
      "img d1 = put_bytes (img x) (VBLK_SECTOR_SIZE * s) (take VBLK_SECTOR_SIZE p)"
      using sector_okD(2) [OF d s, of "take VBLK_SECTOR_SIZE p" x] 1 by auto
    have "length (drop VBLK_SECTOR_SIZE p) < length p" using 1 by (simp add: VBLK_SECTOR_SIZE_def)
    moreover have "VBLK_SECTOR_SIZE * (s + 1) + length (drop VBLK_SECTOR_SIZE p) \<le> VBLK_CAPACITY" using 1 "1.prems" by simp
    ultimately obtain d2 where d2: "write_sectors rd wr d1 (s + 1) (drop VBLK_SECTOR_SIZE p) = (True, d2)"
      "img d2 = put_bytes (img d1) (VBLK_SECTOR_SIZE * (s + 1)) (drop VBLK_SECTOR_SIZE p)"
      using "1.IH" by blast
    have "write_sectors rd wr x s p = (True, d2)" using 1 d1 d2 by (subst write_sectors.simps) simp
    moreover have "img d2 = put_bytes (img x) (VBLK_SECTOR_SIZE * s) p"
    proof -
      have "VBLK_SECTOR_SIZE * (s + 1) = VBLK_SECTOR_SIZE * s + length (take VBLK_SECTOR_SIZE p)" using 1 by simp
      then show ?thesis
        using put_bytes_append [of "img x" "VBLK_SECTOR_SIZE * s" "take VBLK_SECTOR_SIZE p" "drop VBLK_SECTOR_SIZE p"]
        by (simp only: d1(2) d2(2) append_take_drop_id)
    qed
    ultimately show ?thesis by blast
  next
    case 2
    then have s: "VBLK_SECTOR_SIZE * s + VBLK_SECTOR_SIZE \<le> VBLK_CAPACITY" using sector_fits "1.prems" by blast
    have b: "0 + length p \<le> VBLK_SECTOR_SIZE" using 2 by simp
    show ?thesis using rmw_sector_ok [OF d s b, of x] 2 by (subst write_sectors.simps) simp
  next
    case 3
    then show ?thesis by (subst write_sectors.simps) (simp add: VBLK_SECTOR_SIZE_def)
  qed
qed

lemma read_sectors_ok:
  assumes d: "sector_ok rd wr img"
  shows "VBLK_SECTOR_SIZE * s + n \<le> VBLK_CAPACITY \<Longrightarrow> read_sectors rd x s n = Some (get_bytes (img x) (VBLK_SECTOR_SIZE * s) n)"
proof (induction n arbitrary: s rule: less_induct)
  case (less n)
  consider "VBLK_SECTOR_SIZE \<le> n" | "\<not> VBLK_SECTOR_SIZE \<le> n" "0 < n" | "n = 0" by blast
  then show ?case
  proof cases
    case 1
    have s: "VBLK_SECTOR_SIZE * s + VBLK_SECTOR_SIZE \<le> VBLK_CAPACITY" using 1 less.prems by simp
    have e: "VBLK_SECTOR_SIZE + VBLK_SECTOR_SIZE * s = VBLK_SECTOR_SIZE * s + VBLK_SECTOR_SIZE" by (rule add.commute)
    have "n - VBLK_SECTOR_SIZE < n" using 1 by (simp add: VBLK_SECTOR_SIZE_def)
    then have "read_sectors rd x (s + 1) (n - VBLK_SECTOR_SIZE) =
        Some (get_bytes (img x) (VBLK_SECTOR_SIZE * (s + 1)) (n - VBLK_SECTOR_SIZE))"
      using less 1 by simp
    then show ?thesis
      using 1 sector_okD(1) [OF d s, of x] get_bytes_append [of "img x" "VBLK_SECTOR_SIZE * s" VBLK_SECTOR_SIZE "n - VBLK_SECTOR_SIZE"]
      by (subst read_sectors.simps) (simp add: e)
  next
    case 2
    then have s: "VBLK_SECTOR_SIZE * s + VBLK_SECTOR_SIZE \<le> VBLK_CAPACITY" using sector_fits less.prems by blast
    have "take n (get_bytes (img x) (VBLK_SECTOR_SIZE * s) VBLK_SECTOR_SIZE) = get_bytes (img x) (VBLK_SECTOR_SIZE * s) n"
      using 2 by (auto simp: list_eq_iff_nth_eq)
    then show ?thesis using 2 sector_okD(1) [OF d s, of x] by (subst read_sectors.simps) simp
  next
    case 3
    then show ?thesis by (subst read_sectors.simps) (simp add: VBLK_SECTOR_SIZE_def get_bytes_def)
  qed
qed

lemma vblk_no_wrap: "off + n \<le> VBLK_CAPACITY \<Longrightarrow> \<not> VBLK_CAPACITY < (off + n) mod 2 ^ 64"
  using mod_less_eq_dividend [of "off + n" "2 ^ 64"] by linarith

lemma vblk_write_ok:
  assumes d: "sector_ok rd wr img" and c: "off + length bs \<le> VBLK_CAPACITY"
  shows "\<exists>d'. vblk_write_block rd wr x off bs = (int (length bs), d') \<and> img d' = put_bytes (img x) off bs"
proof -
  let ?V = VBLK_SECTOR_SIZE
  let ?s = "off div ?V" and ?o = "off mod ?V"
  have os: "off = ?V * ?s + ?o" by simp
  have oV: "?o < ?V" by (simp add: VBLK_SECTOR_SIZE_def)
  show ?thesis
  proof (cases "?o = 0")
    case True
    have so: "?V * ?s = off" using os True by linarith
    then have f: "?V * ?s + length bs \<le> VBLK_CAPACITY" using c by simp
    show ?thesis using write_sectors_ok [OF d f, of x] True vblk_no_wrap [OF c] unfolding so
      by (auto simp: vblk_write_block_def Let_def)
  next
    case False
    let ?can = "min (?V - ?o) (length bs)"
    have sf: "?V * ?s + ?V \<le> VBLK_CAPACITY"
      by (rule sector_fits [of _ "?o + length bs"]) (use c os False in linarith)+
    have b: "?o + length (take ?can bs) \<le> ?V" using oV by simp
    obtain d1 where d1: "rmw_sector rd wr x ?s ?o (take ?can bs) = (True, d1)" "img d1 = put_bytes (img x) off (take ?can bs)"
      using rmw_sector_ok [OF d sf b, of x] os by auto
    have w: "\<exists>d2. write_sectors rd wr d1 (?s + 1) (drop ?can bs) = (True, d2) \<and> img d2 = put_bytes (img d1) (off + length (take ?can bs)) (drop ?can bs)"
    proof (cases "length bs \<le> ?V - ?o")
      case True
      then have "drop ?can bs = []" by simp
      then show ?thesis by (subst write_sectors.simps) (simp add: VBLK_SECTOR_SIZE_def)
    next
      case False
      then have can: "?can = ?V - ?o" by simp
      have a: "?V * (?s + 1) = off + ?can" unfolding can using os oV
        by (simp only: distrib_left mult_1_right)
      have "?V * (?s + 1) + length (drop ?can bs) \<le> VBLK_CAPACITY" unfolding a using c False can by simp
      from write_sectors_ok [OF d this, of d1] show ?thesis unfolding a by simp
    qed
    then obtain d2 where d2: "write_sectors rd wr d1 (?s + 1) (drop ?can bs) = (True, d2)"
      "img d2 = put_bytes (img d1) (off + length (take ?can bs)) (drop ?can bs)" by blast
    have "img d2 = put_bytes (img x) off bs"
      using put_bytes_append [of "img x" off "take ?can bs" "drop ?can bs"] by (simp only: d1(2) d2(2) append_take_drop_id)
    moreover have "vblk_write_block rd wr x off bs = (int (length bs), d2)"
      using False d1(1) d2(1) vblk_no_wrap [OF c] by (simp add: vblk_write_block_def Let_def)
    ultimately show ?thesis by blast
  qed
qed

lemma vblk_read_ok:
  assumes d: "sector_ok rd wr img" and c: "off + n \<le> VBLK_CAPACITY"
  shows "vblk_read_block rd x off n = (int n, get_bytes (img x) off n)"
proof -
  let ?V = VBLK_SECTOR_SIZE
  let ?s = "off div ?V" and ?o = "off mod ?V"
  have os: "off = ?V * ?s + ?o" by simp
  have oV: "?o < ?V" by (simp add: VBLK_SECTOR_SIZE_def)
  show ?thesis
  proof (cases "?o = 0")
    case True
    have so: "?V * ?s = off" using os True by linarith
    then have f: "?V * ?s + n \<le> VBLK_CAPACITY" using c by simp
    show ?thesis using read_sectors_ok [OF d f, of x] True vblk_no_wrap [OF c] unfolding so
      by (simp add: vblk_read_block_def Let_def)
  next
    case False
    let ?can = "min (?V - ?o) n"
    have sf: "?V * ?s + ?V \<le> VBLK_CAPACITY"
      by (rule sector_fits [of _ "?o + n"]) (use c os False in linarith)+
    have h: "take ?can (drop ?o (get_bytes (img x) (?V * ?s) ?V)) = get_bytes (img x) off ?can"
      using os oV by (auto simp: list_eq_iff_nth_eq add.assoc [symmetric])
    have w: "read_sectors rd x (?s + 1) (n - ?can) = Some (get_bytes (img x) (off + ?can) (n - ?can))"
    proof (cases "n \<le> ?V - ?o")
      case True
      then have "n - ?can = 0" by simp
      then show ?thesis by (subst read_sectors.simps) (simp add: VBLK_SECTOR_SIZE_def get_bytes_def)
    next
      case False
      then have can: "?can = ?V - ?o" by simp
      have a: "?V * (?s + 1) = off + ?can" unfolding can using os oV
        by (simp only: distrib_left mult_1_right)
      have "?V * (?s + 1) + (n - ?can) \<le> VBLK_CAPACITY" unfolding a using c False can by simp
      from read_sectors_ok [OF d this, of x] show ?thesis unfolding a .
    qed
    have "get_bytes (img x) off n = get_bytes (img x) off ?can @ get_bytes (img x) (off + ?can) (n - ?can)"
      using get_bytes_append [of "img x" off ?can "n - ?can"] by simp
    then show ?thesis using False sector_okD(1) [OF d sf, of x] h w vblk_no_wrap [OF c]
      by (simp add: vblk_read_block_def Let_def)
  qed
qed

lemma vblk_storage: "sector_ok rd wr img \<Longrightarrow> storage (vblk_ops rd wr) img VBLK_CAPACITY"
  by unfold_locales
     (simp_all add: vblk_ops_def vblk_write_ok vblk_read_ok vblk_capacity_bytes_def, simp_all add: vblk_write_block_def limits)

text \<open>
  C28. For every device that reads and writes whole sectors faithfully, the read-modify-write
  layer behaves as one byte array: a write at any offset and of any length within the capacity
  replaces exactly its bytes, also in the partly covered first and last sectors, and every
  later read of any range returns the bytes of the updated array.
\<close>

theorem vblk_is_a_byte_array:
  assumes "sector_ok rd wr img" "off + length bs \<le> VBLK_CAPACITY"
  shows "\<exists>d'. vblk_write_block rd wr d off bs = (int (length bs), d') \<and> img d' = put_bytes (img d) off bs \<and>
    (\<forall>a n. a + n \<le> VBLK_CAPACITY \<longrightarrow> vblk_read_block rd d' a n = (int n, get_bytes (put_bytes (img d) off bs) a n))"
  using vblk_write_ok [OF assms, of d] vblk_read_ok [OF assms(1)] by auto

theorem vblk_is_a_byte_array_witness:
  "\<exists>d'. vblk_write_block (\<lambda>m s. Some (get_bytes m (512 * s) 512)) (\<lambda>m s bs. (True, put_bytes m (512 * s) bs)) (\<lambda>_. 0) 510 [1, 2, 3] = (3, d') \<and>
     vblk_read_block (\<lambda>m s. Some (get_bytes m (512 * s) 512)) d' 509 5 = (5, [0, 1, 2, 3, 0])"
proof -
  have "sector_ok (\<lambda>m s. Some (get_bytes m (512 * s) 512)) (\<lambda>m s bs. (True, put_bytes m (512 * s) bs)) (\<lambda>m. m)"
    by (simp add: sector_ok_def VBLK_SECTOR_SIZE_def)
  from vblk_is_a_byte_array [OF this, of 510 "[1, 2, 3]" "\<lambda>_. 0"]
  obtain d' where d': "vblk_write_block (\<lambda>m s. Some (get_bytes m (512 * s) 512)) (\<lambda>m s bs. (True, put_bytes m (512 * s) bs)) (\<lambda>_. 0) 510 [1, 2, 3] = (3, d')"
    and r: "vblk_read_block (\<lambda>m s. Some (get_bytes m (512 * s) 512)) d' 509 5 = (5, get_bytes (put_bytes (\<lambda>_. 0) 510 [1, 2, 3]) 509 5)"
    by (auto simp: limits)
  have "get_bytes (put_bytes (\<lambda>_. 0) 510 [1, 2, 3]) 509 5 = [0, 1, 2, 3, 0 :: u8]"
    by (simp add: get_bytes_def put_bytes_def upt_rec)
  with d' r show ?thesis by auto
qed

end
