(* ===== verification/Blkdev.thy ===== *)
theory Blkdev
  imports Storage
begin

unbundle bit_operations_syntax

text \<open>
  The block store of sotFS (\<^verbatim>\<open>src/sotfs/blkdev.c\<close>): a superblock, a bitmap of used blocks and a
  heap of 4 KiB blocks in a region of a storage backend, read and written through a cache of
  256 slots with least-recently-used replacement and write-back. The operation table of the
  backend is an argument of every operation. Byte offsets and block counts are unbounded
  naturals: the regions in use lie far below the 64-bit limit.
\<close>

subsection \<open>State\<close>

definition SOTFS_BLKDEV_MAGIC :: nat where [limits]: "SOTFS_BLKDEV_MAGIC = 0x53464442"
definition SOTFS_BLKDEV_VERSION :: nat where [limits]: "SOTFS_BLKDEV_VERSION = 1"
definition SOTFS_BLKDEV_BLOCK_SIZE :: nat where [limits]: "SOTFS_BLKDEV_BLOCK_SIZE = 4096"
definition SOTFS_BLKDEV_CACHE_SLOTS :: nat where [limits]: "SOTFS_BLKDEV_CACHE_SLOTS = 256"
definition BLKDEV_BITMAP_MAX :: nat where [limits]: "BLKDEV_BITMAP_MAX = 16384"

record cache_slot =
  cs_id :: int
  cs_dirty :: bool
  cs_lru :: u64
  cs_data :: "u8 list"

record 's blkdev =
  g_st :: 's
  g_region_off :: nat
  g_total_blocks :: nat
  g_bitmap_off :: nat
  g_bitmap_bytes :: nat
  g_heap_off :: nat
  g_used :: nat
  g_bitmap_dirty :: bool
  g_bitmap :: "u8 arr"
  g_cache :: "cache_slot arr"
  g_lru_tick :: u64


subsection \<open>Backend helpers, geometry\<close>

definition st_result :: "int \<Rightarrow> nat \<Rightarrow> int" where
  "st_result r len = (if r = int len then 0 else if r < 0 then r else -5)"

definition st_write :: "'s sotfs_storage_ops \<Rightarrow> 's blkdev \<Rightarrow> nat \<Rightarrow> u8 list \<Rightarrow> int \<times> 's blkdev" where
  "st_write ops b off buf =
     (case write_block ops (g_st b) off buf of (r, s') \<Rightarrow> (st_result r (length buf), b\<lparr>g_st := s'\<rparr>))"

definition st_read :: "'s sotfs_storage_ops \<Rightarrow> 's blkdev \<Rightarrow> nat \<Rightarrow> nat \<Rightarrow> int \<times> u8 list" where
  "st_read ops b off len = (case read_block ops (g_st b) off len of (r, bs) \<Rightarrow> (st_result r len, bs))"

definition round_up_4k :: "nat \<Rightarrow> nat" where
  "round_up_4k v = (v + (SOTFS_BLKDEV_BLOCK_SIZE - 1)) div SOTFS_BLKDEV_BLOCK_SIZE * SOTFS_BLKDEV_BLOCK_SIZE"

fun geometry_loop :: "nat \<Rightarrow> nat \<Rightarrow> nat" where
  "geometry_loop avail 0 = 0"
| "geometry_loop avail (Suc blocks) =
     (if Suc blocks * SOTFS_BLKDEV_BLOCK_SIZE + round_up_4k ((Suc blocks + 7) div 8) \<le> avail
      then Suc blocks else geometry_loop avail blocks)"

definition compute_geometry :: "'s blkdev \<Rightarrow> nat \<Rightarrow> nat \<Rightarrow> 's blkdev" where
  "compute_geometry b region_off region_bytes =
     (let avail = (if SOTFS_BLKDEV_BLOCK_SIZE < region_bytes then region_bytes - SOTFS_BLKDEV_BLOCK_SIZE else 0);
          blocks = geometry_loop avail (avail div SOTFS_BLKDEV_BLOCK_SIZE)
      in b\<lparr>g_region_off := region_off, g_bitmap_off := region_off + SOTFS_BLKDEV_BLOCK_SIZE,
           g_bitmap_bytes := (blocks + 7) div 8,
           g_heap_off := region_off + SOTFS_BLKDEV_BLOCK_SIZE + round_up_4k ((blocks + 7) div 8),
           g_total_blocks := min blocks (BLKDEV_BITMAP_MAX * 8)\<rparr>)"


subsection \<open>Bitmap\<close>

definition bit_get :: "'s blkdev \<Rightarrow> nat \<Rightarrow> bool" where
  "bit_get b i \<longleftrightarrow> (drop_bit (i mod 8) (g_bitmap b (i div 8))) AND 1 \<noteq> 0"

definition bit_set :: "'s blkdev \<Rightarrow> nat \<Rightarrow> 's blkdev" where
  "bit_set b i = b\<lparr>g_bitmap := (g_bitmap b)(i div 8 := g_bitmap b (i div 8) OR push_bit (i mod 8) 1)\<rparr>"

definition bit_clr :: "'s blkdev \<Rightarrow> nat \<Rightarrow> 's blkdev" where
  "bit_clr b i = b\<lparr>g_bitmap := (g_bitmap b)(i div 8 := g_bitmap b (i div 8) AND NOT (push_bit (i mod 8) 1))\<rparr>"

definition bitmap_popcount :: "'s blkdev \<Rightarrow> nat" where
  "bitmap_popcount b = count_idx (bit_get b) (g_total_blocks b)"

definition bitmap_phys :: "'s blkdev \<Rightarrow> nat" where
  "bitmap_phys b =
     (let bm = round_up_4k (g_bitmap_bytes b);
          bm1 = (if bm = 0 then SOTFS_BLKDEV_BLOCK_SIZE else bm)
      in if BLKDEV_BITMAP_MAX < bm1 then BLKDEV_BITMAP_MAX else bm1)"

definition bitmap_flush :: "'s sotfs_storage_ops \<Rightarrow> 's blkdev \<Rightarrow> int \<times> 's blkdev" where
  "bitmap_flush ops b =
     (case st_write ops b (g_bitmap_off b) (get_bytes (g_bitmap b) 0 (bitmap_phys b)) of
        (r, b1) \<Rightarrow> (r, if r = 0 then b1\<lparr>g_bitmap_dirty := False\<rparr> else b1))"


subsection \<open>Cache\<close>

definition block_off :: "'s blkdev \<Rightarrow> int \<Rightarrow> nat" where
  "block_off b n = g_heap_off b + nat (n - 1) * SOTFS_BLKDEV_BLOCK_SIZE"

definition upd_slot :: "'s blkdev \<Rightarrow> nat \<Rightarrow> (cache_slot \<Rightarrow> cache_slot) \<Rightarrow> 's blkdev" where
  "upd_slot b i f = b\<lparr>g_cache := (g_cache b)(i := f (g_cache b i))\<rparr>"

definition slot_writeback :: "'s sotfs_storage_ops \<Rightarrow> 's blkdev \<Rightarrow> nat \<Rightarrow> int \<times> 's blkdev" where
  "slot_writeback ops b i =
     (let s = g_cache b i in
      if \<not> cs_dirty s \<or> cs_id s = 0 then (0, upd_slot b i (\<lambda>s. s\<lparr>cs_dirty := False\<rparr>))
      else case st_write ops b (block_off b (cs_id s)) (cs_data s) of
             (r, b1) \<Rightarrow> (r, if r = 0 then upd_slot b1 i (\<lambda>s. s\<lparr>cs_dirty := False\<rparr>) else b1))"

definition cache_find :: "'s blkdev \<Rightarrow> int \<Rightarrow> nat option" where
  "cache_find b n = first_idx (\<lambda>i. cs_id (g_cache b i) = n) 0 SOTFS_BLKDEV_CACHE_SLOTS"

function victim_scan :: "cache_slot arr \<Rightarrow> nat \<Rightarrow> nat \<Rightarrow> nat" where
  "victim_scan c i victim =
     (if i < SOTFS_BLKDEV_CACHE_SLOTS then
        (if cs_id (c i) = 0 then i
         else victim_scan c (i + 1) (if cs_lru (c i) < cs_lru (c victim) then i else victim))
      else victim)"
  by pat_completeness auto
termination
  by (relation "measure (\<lambda>(c, i, v). SOTFS_BLKDEV_CACHE_SLOTS - i)") auto

declare victim_scan.simps [simp del]

definition cache_acquire :: "'s sotfs_storage_ops \<Rightarrow> 's blkdev \<Rightarrow> int \<Rightarrow> bool \<times> nat \<times> 's blkdev" where
  "cache_acquire ops b n =
     (case cache_find b n of
        Some i \<Rightarrow> (True, i, b)
      | None \<Rightarrow>
          let v = victim_scan (g_cache b) 0 0;
              b1 = snd (slot_writeback ops b v)
          in (False, v, upd_slot b1 v (\<lambda>s. s\<lparr>cs_id := n, cs_dirty := False\<rparr>)))"


subsection \<open>Operations\<close>

definition sotfs_blk_alloc :: "'s blkdev \<Rightarrow> int \<times> 's blkdev" where
  "sotfs_blk_alloc b =
     (case first_idx (\<lambda>i. \<not> bit_get b i) 0 (g_total_blocks b) of
        None \<Rightarrow> (0, b)
      | Some i \<Rightarrow> (int i + 1, (bit_set b i)\<lparr>g_used := g_used b + 1, g_bitmap_dirty := True\<rparr>))"

definition blk_valid :: "'s blkdev \<Rightarrow> int \<Rightarrow> bool" where
  "blk_valid b blk \<longleftrightarrow> 0 < blk \<and> nat blk \<le> g_total_blocks b"

definition sotfs_blk_free :: "'s blkdev \<Rightarrow> int \<Rightarrow> 's blkdev" where
  "sotfs_blk_free b blk =
     (if \<not> blk_valid b blk then b
      else
        let i = nat blk - 1 in
        if \<not> bit_get b i then b
        else
          let b1 = (bit_clr b i)\<lparr>g_used := g_used b - 1, g_bitmap_dirty := True\<rparr> in
          case cache_find b1 blk of
            None \<Rightarrow> b1
          | Some s \<Rightarrow> upd_slot b1 s (\<lambda>s. s\<lparr>cs_id := 0, cs_dirty := False\<rparr>))"

definition touch :: "'s blkdev \<Rightarrow> nat \<Rightarrow> (cache_slot \<Rightarrow> cache_slot) \<Rightarrow> 's blkdev" where
  "touch b i f = (upd_slot b i (\<lambda>s. (f s)\<lparr>cs_lru := g_lru_tick b + 1\<rparr>))\<lparr>g_lru_tick := g_lru_tick b + 1\<rparr>"

definition sotfs_blk_read :: "'s sotfs_storage_ops \<Rightarrow> 's blkdev \<Rightarrow> int \<Rightarrow> (int \<times> u8 list) \<times> 's blkdev" where
  "sotfs_blk_read ops b blk =
     (if \<not> blk_valid b blk then ((-22, []), b)
      else
        case cache_acquire ops b blk of
          (True, i, b1) \<Rightarrow> ((0, cs_data (g_cache b1 i)), touch b1 i (\<lambda>s. s))
        | (False, i, b1) \<Rightarrow>
            (case st_read ops b1 (block_off b1 blk) SOTFS_BLKDEV_BLOCK_SIZE of
               (r, bs) \<Rightarrow>
                 if r \<noteq> 0 then ((r, []), upd_slot b1 i (\<lambda>s. s\<lparr>cs_id := 0\<rparr>))
                 else ((0, bs), touch b1 i (\<lambda>s. s\<lparr>cs_data := bs\<rparr>))))"

definition sotfs_blk_write :: "'s sotfs_storage_ops \<Rightarrow> 's blkdev \<Rightarrow> int \<Rightarrow> u8 list \<Rightarrow> int \<times> 's blkdev" where
  "sotfs_blk_write ops b blk buf =
     (if \<not> blk_valid b blk then (-22, b)
      else
        case cache_acquire ops b blk of
          (present, i, b1) \<Rightarrow> (0, touch b1 i (\<lambda>s. s\<lparr>cs_data := buf, cs_dirty := True\<rparr>)))"

fun flush_slots :: "'s sotfs_storage_ops \<Rightarrow> nat \<Rightarrow> 's blkdev \<Rightarrow> 's blkdev" where
  "flush_slots ops 0 b = b"
| "flush_slots ops (Suc k) b = snd (slot_writeback ops (flush_slots ops k b) k)"

definition sotfs_blk_flush :: "'s sotfs_storage_ops \<Rightarrow> 's blkdev \<Rightarrow> 's blkdev" where
  "sotfs_blk_flush ops b =
     (let b1 = flush_slots ops SOTFS_BLKDEV_CACHE_SLOTS b in
      if g_bitmap_dirty b1 then snd (bitmap_flush ops b1) else b1)"

definition sotfs_blk_total :: "'s blkdev \<Rightarrow> nat" where
  "sotfs_blk_total b = g_total_blocks b"

definition sotfs_blk_used :: "'s blkdev \<Rightarrow> nat" where
  "sotfs_blk_used b = g_used b"


subsection \<open>Initialisation\<close>

record sb =
  sb_magic :: nat
  sb_version :: nat
  sb_total_blocks :: nat
  sb_bitmap_bytes :: nat

definition sb_encode :: "sb \<Rightarrow> u8 list" where
  "sb_encode s = le_bytes 4 (sb_magic s) @ le_bytes 4 (sb_version s) @ le_bytes 8 (sb_total_blocks s) @
     le_bytes 8 (sb_bitmap_bytes s) @ replicate (SOTFS_BLKDEV_BLOCK_SIZE - 24) 0"

definition sb_decode :: "u8 list \<Rightarrow> sb" where
  "sb_decode bs = \<lparr>sb_magic = le_nat (take 4 bs), sb_version = le_nat (take 4 (drop 4 bs)),
     sb_total_blocks = le_nat (take 8 (drop 8 bs)), sb_bitmap_bytes = le_nat (take 8 (drop 16 bs))\<rparr>"

definition empty_slot :: cache_slot where
  "empty_slot = \<lparr>cs_id = 0, cs_dirty = False, cs_lru = 0, cs_data = replicate SOTFS_BLKDEV_BLOCK_SIZE 0\<rparr>"

definition blkdev_reset :: "'s blkdev \<Rightarrow> 's blkdev" where
  "blkdev_reset b = b\<lparr>g_cache := (\<lambda>_. empty_slot), g_lru_tick := 0, g_bitmap_dirty := False\<rparr>"

text \<open>The probe of the superblock: a readable region without the magic number is formatted.\<close>

definition needs_format :: "'s sotfs_storage_ops \<Rightarrow> 's blkdev \<Rightarrow> nat \<Rightarrow> bool \<Rightarrow> bool" where
  "needs_format ops b region_off fresh \<longleftrightarrow> fresh \<or>
     (case st_read ops b region_off SOTFS_BLKDEV_BLOCK_SIZE of
        (r, probe) \<Rightarrow> r = 0 \<and> sb_magic (sb_decode probe) \<noteq> SOTFS_BLKDEV_MAGIC)"

definition blkdev_format :: "'s sotfs_storage_ops \<Rightarrow> 's blkdev \<Rightarrow> int \<times> 's blkdev" where
  "blkdev_format ops b =
     (let b1 = b\<lparr>g_bitmap := (\<lambda>_. 0), g_used := 0\<rparr>;
          sb = \<lparr>sb_magic = SOTFS_BLKDEV_MAGIC, sb_version = SOTFS_BLKDEV_VERSION,
                sb_total_blocks = g_total_blocks b, sb_bitmap_bytes = g_bitmap_bytes b\<rparr>
      in case st_write ops b1 (g_region_off b) (sb_encode sb) of
           (r, b2) \<Rightarrow>
             if r \<noteq> 0 then (r, b2)
             else st_write ops b2 (g_bitmap_off b) (get_bytes (g_bitmap b2) 0 (bitmap_phys b)))"

definition blkdev_attach :: "'s sotfs_storage_ops \<Rightarrow> 's blkdev \<Rightarrow> int \<times> 's blkdev" where
  "blkdev_attach ops b =
     (case st_read ops b (g_region_off b) SOTFS_BLKDEV_BLOCK_SIZE of
        (r, sbblk) \<Rightarrow>
          if r \<noteq> 0 then (r, b)
          else
            let sb = sb_decode sbblk in
            if sb_magic sb \<noteq> SOTFS_BLKDEV_MAGIC \<or> sb_version sb \<noteq> SOTFS_BLKDEV_VERSION then (-22, b)
            else if sb_total_blocks sb \<noteq> g_total_blocks b then (-22, b)
            else
              case st_read ops b (g_bitmap_off b) (bitmap_phys b) of
                (r, bm) \<Rightarrow>
                  if r \<noteq> 0 then (r, b\<lparr>g_bitmap := (\<lambda>_. 0)\<rparr>)
                  else
                    let b1 = b\<lparr>g_bitmap := put_bytes (\<lambda>_. 0) 0 bm\<rparr>
                    in (0, b1\<lparr>g_used := bitmap_popcount b1\<rparr>))"

definition sotfs_blkdev_init :: "'s sotfs_storage_ops \<Rightarrow> 's \<Rightarrow> 's blkdev \<Rightarrow> nat \<Rightarrow> nat \<Rightarrow> bool \<Rightarrow> int \<times> 's blkdev" where
  "sotfs_blkdev_init ops backend b region_off region_bytes fresh =
     (let b1 = compute_geometry (b\<lparr>g_st := backend\<rparr>) region_off region_bytes in
      if g_total_blocks b1 = 0 then (-28, b1)
      else
        let b2 = blkdev_reset b1 in
        if needs_format ops b2 region_off fresh then blkdev_format ops b2 else blkdev_attach ops b2)"

end
