(* ===== verification/BlkdevOk.thy ===== *)
theory BlkdevOk
  imports Blkdev
begin

unbundle bit_operations_syntax

text \<open>
  Coherence of the block cache of sotFS: the invariant, the view of a block through the cache,
  and its preservation by every operation over a storage that keeps its contract; the bitmap
  allocator as a slot pool; geometry, superblock and flush.
\<close>

subsection \<open>The invariant and the view of the blocks\<close>

definition disk_block :: "('s \<Rightarrow> nat \<Rightarrow> u8) \<Rightarrow> 's blkdev \<Rightarrow> int \<Rightarrow> u8 list" where
  "disk_block img b n = get_bytes (img (g_st b)) (block_off b n) SOTFS_BLKDEV_BLOCK_SIZE"

definition blk_view :: "('s \<Rightarrow> nat \<Rightarrow> u8) \<Rightarrow> 's blkdev \<Rightarrow> int \<Rightarrow> u8 list" where
  "blk_view img b n = (case cache_find b n of Some i \<Rightarrow> cs_data (g_cache b i) | None \<Rightarrow> disk_block img b n)"

text \<open>Superblock, bitmap and heap follow each other inside the backend; the bitmap covers all blocks.\<close>

definition geometry_ok :: "nat \<Rightarrow> 's blkdev \<Rightarrow> bool" where
  "geometry_ok cap b \<longleftrightarrow> g_bitmap_off b = g_region_off b + SOTFS_BLKDEV_BLOCK_SIZE \<and>
     g_bitmap_off b + bitmap_phys b \<le> g_heap_off b \<and> g_total_blocks b \<le> 8 * bitmap_phys b \<and>
     g_heap_off b + g_total_blocks b * SOTFS_BLKDEV_BLOCK_SIZE \<le> cap"

definition slot_ok :: "('s \<Rightarrow> nat \<Rightarrow> u8) \<Rightarrow> 's blkdev \<Rightarrow> cache_slot \<Rightarrow> bool" where
  "slot_ok img b s \<longleftrightarrow> length (cs_data s) = SOTFS_BLKDEV_BLOCK_SIZE \<and>
     (cs_id s \<noteq> 0 \<longrightarrow> blk_valid b (cs_id s) \<and> (\<not> cs_dirty s \<longrightarrow> cs_data s = disk_block img b (cs_id s)))"

text \<open>No block is cached twice, and a clean slot holds what the disk holds.\<close>

definition blk_ok :: "('s \<Rightarrow> nat \<Rightarrow> u8) \<Rightarrow> nat \<Rightarrow> 's blkdev \<Rightarrow> bool" where
  "blk_ok img cap b \<longleftrightarrow> geometry_ok cap b \<and> g_used b = bitmap_popcount b \<and>
     (\<forall>i<SOTFS_BLKDEV_CACHE_SLOTS. slot_ok img b (g_cache b i)) \<and>
     (\<forall>i<SOTFS_BLKDEV_CACHE_SLOTS. \<forall>j<SOTFS_BLKDEV_CACHE_SLOTS.
        cs_id (g_cache b i) \<noteq> 0 \<longrightarrow> cs_id (g_cache b i) = cs_id (g_cache b j) \<longrightarrow> i = j)"

lemma blk_okD:
  assumes "blk_ok img cap b"
  shows "geometry_ok cap b" "g_used b = bitmap_popcount b"
    "i < SOTFS_BLKDEV_CACHE_SLOTS \<Longrightarrow> slot_ok img b (g_cache b i)"
    "i < SOTFS_BLKDEV_CACHE_SLOTS \<Longrightarrow> j < SOTFS_BLKDEV_CACHE_SLOTS \<Longrightarrow> cs_id (g_cache b i) \<noteq> 0 \<Longrightarrow>
       cs_id (g_cache b i) = cs_id (g_cache b j) \<Longrightarrow> i = j"
  using assms unfolding blk_ok_def by blast+

lemma view_uncached: "(\<And>j. j < SOTFS_BLKDEV_CACHE_SLOTS \<Longrightarrow> cs_id (g_cache b j) \<noteq> n) \<Longrightarrow> blk_view img b n = disk_block img b n"
proof -
  assume "\<And>j. j < SOTFS_BLKDEV_CACHE_SLOTS \<Longrightarrow> cs_id (g_cache b j) \<noteq> n"
  then have "cache_find b n = None" by (simp add: cache_find_def first_idx_None_iff)
  then show ?thesis by (simp add: blk_view_def)
qed

lemma view_cached:
  assumes u: "\<And>j. j < SOTFS_BLKDEV_CACHE_SLOTS \<Longrightarrow> cs_id (g_cache b j) = n \<Longrightarrow> j = i"
    and i: "i < SOTFS_BLKDEV_CACHE_SLOTS" "cs_id (g_cache b i) = n"
  shows "blk_view img b n = cs_data (g_cache b i)"
proof -
  have "cache_find b n = Some i" unfolding cache_find_def
    by (rule first_idx_unique) (simp_all add: i, rule u)
  then show ?thesis by (simp add: blk_view_def)
qed

lemma block_off_disjoint:
  assumes "blk_valid b m" "blk_valid b n" "m \<noteq> n"
  shows "block_off b m + SOTFS_BLKDEV_BLOCK_SIZE \<le> block_off b n \<or> block_off b n + SOTFS_BLKDEV_BLOCK_SIZE \<le> block_off b m"
proof -
  have "nat (m - 1) \<noteq> nat (n - 1)" using assms unfolding blk_valid_def by linarith
  then have "nat (m - 1) + 1 \<le> nat (n - 1) \<or> nat (n - 1) + 1 \<le> nat (m - 1)" by linarith
  then have "(nat (m - 1) + 1) * SOTFS_BLKDEV_BLOCK_SIZE \<le> nat (n - 1) * SOTFS_BLKDEV_BLOCK_SIZE \<or>
      (nat (n - 1) + 1) * SOTFS_BLKDEV_BLOCK_SIZE \<le> nat (m - 1) * SOTFS_BLKDEV_BLOCK_SIZE"
    using mult_le_mono1 by blast
  then show ?thesis by (auto simp: block_off_def)
qed

lemma block_off_bound:
  assumes "blk_valid b n"
  shows "g_heap_off b \<le> block_off b n"
    and "block_off b n + SOTFS_BLKDEV_BLOCK_SIZE \<le> g_heap_off b + g_total_blocks b * SOTFS_BLKDEV_BLOCK_SIZE"
proof -
  show "g_heap_off b \<le> block_off b n" by (simp add: block_off_def)
  have "nat (n - 1) + 1 \<le> g_total_blocks b" using assms unfolding blk_valid_def by linarith
  then have "(nat (n - 1) + 1) * SOTFS_BLKDEV_BLOCK_SIZE \<le> g_total_blocks b * SOTFS_BLKDEV_BLOCK_SIZE" by (rule mult_le_mono1)
  then show "block_off b n + SOTFS_BLKDEV_BLOCK_SIZE \<le> g_heap_off b + g_total_blocks b * SOTFS_BLKDEV_BLOCK_SIZE"
    by (simp add: block_off_def)
qed

text \<open>The static part of the state, which no cache operation changes.\<close>

definition same_layout :: "'s blkdev \<Rightarrow> 't blkdev \<Rightarrow> bool" where
  "same_layout b c \<longleftrightarrow> g_region_off b = g_region_off c \<and> g_total_blocks b = g_total_blocks c \<and> g_bitmap_off b = g_bitmap_off c \<and>
     g_bitmap_bytes b = g_bitmap_bytes c \<and> g_heap_off b = g_heap_off c"

definition same_alloc :: "'s blkdev \<Rightarrow> 't blkdev \<Rightarrow> bool" where
  "same_alloc b c \<longleftrightarrow> same_layout b c \<and> g_used b = g_used c \<and> g_bitmap b = g_bitmap c"

lemma same_layoutD:
  assumes "same_layout b c"
  shows "blk_valid b = blk_valid c" "block_off b = block_off c" "bitmap_phys b = bitmap_phys c" "geometry_ok cap b = geometry_ok cap c"
  using assms by (simp_all add: same_layout_def blk_valid_def block_off_def bitmap_phys_def geometry_ok_def fun_eq_iff)

lemma same_allocD:
  assumes "same_alloc b c"
  shows "same_layout b c" "bitmap_popcount b = bitmap_popcount c" "g_used b = g_used c" "bit_get b = bit_get c"
proof -
  show l: "same_layout b c" and u: "g_used b = g_used c" using assms by (simp_all add: same_alloc_def)
  show g: "bit_get b = bit_get c" using assms by (simp add: same_alloc_def bit_get_def fun_eq_iff)
  show "bitmap_popcount b = bitmap_popcount c" using l g by (simp add: bitmap_popcount_def same_layout_def)
qed

text \<open>
  Replacing slot \<open>i\<close> by a copy \<open>d\<close> of block \<open>n\<close>: allowed when \<open>i\<close> already holds \<open>n\<close>, or when no
  slot does and nothing unwritten is lost.
\<close>

lemma set_slot_ok:
  assumes ok: "blk_ok img cap b" and i: "i < SOTFS_BLKDEV_CACHE_SLOTS" and n: "blk_valid b n"
    and d: "length d = SOTFS_BLKDEV_BLOCK_SIZE" "\<not> e \<longrightarrow> d = disk_block img b n"
    and u0: "\<forall>j<SOTFS_BLKDEV_CACHE_SLOTS. cs_id (g_cache b j) = n \<longrightarrow> j = i"
    and c: "cs_id (g_cache b i) = n \<or> cs_id (g_cache b i) = 0 \<or> \<not> cs_dirty (g_cache b i)"
    and b': "b' = b\<lparr>g_cache := (g_cache b)(i := \<lparr>cs_id = n, cs_dirty = e, cs_lru = l, cs_data = d\<rparr>), g_lru_tick := t\<rparr>"
  shows "blk_ok img cap b'" and "blk_valid b m \<Longrightarrow> blk_view img b' m = (if m = n then d else blk_view img b m)"
proof -
  have u: "j = i" if "j < SOTFS_BLKDEV_CACHE_SLOTS" "cs_id (g_cache b j) = n" for j using u0 that by blast
  have sa: "same_alloc b' b" by (simp add: b' same_alloc_def same_layout_def)
  note sl = same_layoutD [OF same_allocD(1) [OF sa]]
  have st: "g_st b' = g_st b"
    and gc: "g_cache b' = (g_cache b)(i := \<lparr>cs_id = n, cs_dirty = e, cs_lru = l, cs_data = d\<rparr>)" by (simp_all add: b')
  have db: "disk_block img b' = disk_block img b" by (simp add: disk_block_def sl st fun_eq_iff)
  have n0: "n \<noteq> 0" using n by (simp add: blk_valid_def)
  have ids: "cs_id (g_cache b' j) = (if j = i then n else cs_id (g_cache b j))" for j by (simp add: gc)
  have u': "j = k" if "j < SOTFS_BLKDEV_CACHE_SLOTS" "k < SOTFS_BLKDEV_CACHE_SLOTS" "cs_id (g_cache b' j) \<noteq> 0"
      "cs_id (g_cache b' j) = cs_id (g_cache b' k)" for j k
    using that u [of j] u [of k] blk_okD(4) [OF ok, of j k] unfolding ids by (auto split: if_splits)
  have s: "slot_ok img b' (g_cache b' j)" if "j < SOTFS_BLKDEV_CACHE_SLOTS" for j
  proof (cases "j = i")
    case True
    then show ?thesis using d n by (auto simp: slot_ok_def gc db sl)
  next
    case False
    then show ?thesis using blk_okD(3) [OF ok that] by (simp add: slot_ok_def db sl gc)
  qed
  show ok': "blk_ok img cap b'"
    unfolding blk_ok_def using s u' blk_okD(1,2) [OF ok] sl(4) [of cap] same_allocD(2,3) [OF sa] by simp
  assume m: "blk_valid b m"
  then have m0: "m \<noteq> 0" by (simp add: blk_valid_def)
  show "blk_view img b' m = (if m = n then d else blk_view img b m)"
  proof (cases "m = n")
    case True
    have "blk_view img b' n = cs_data (g_cache b' i)"
      by (rule view_cached) (use u i ids in \<open>auto split: if_splits\<close>)
    then show ?thesis using True by (simp add: gc)
  next
    case False
    show ?thesis
    proof (cases "\<exists>j<SOTFS_BLKDEV_CACHE_SLOTS. cs_id (g_cache b j) = m")
      case True
      then obtain j where j: "j < SOTFS_BLKDEV_CACHE_SLOTS" "cs_id (g_cache b j) = m" by blast
      have vj: "blk_view img b m = cs_data (g_cache b j)"
        by (rule view_cached) (use j m0 blk_okD(4) [OF ok] in auto)
      show ?thesis
      proof (cases "j = i")
        case True
        have "blk_view img b' m = disk_block img b' m"
          by (rule view_uncached) (use ids False blk_okD(4) [OF ok] j m0 True in \<open>auto split: if_splits\<close>)
        moreover have "cs_data (g_cache b i) = disk_block img b m"
          using blk_okD(3) [OF ok i] c j True False m0 by (auto simp: slot_ok_def)
        ultimately show ?thesis using vj True False db by simp
      next
        case ji: False
        have "blk_view img b' m = cs_data (g_cache b' j)"
          by (rule view_cached) (use ids False blk_okD(4) [OF ok] j m0 ji in \<open>auto split: if_splits\<close>)
        then show ?thesis using vj False ji by (simp add: gc)
      qed
    next
      case no: False
      have "blk_view img b' m = disk_block img b' m" by (rule view_uncached) (use ids no False in \<open>auto split: if_splits\<close>)
      moreover have "blk_view img b m = disk_block img b m" by (rule view_uncached) (use no in auto)
      ultimately show ?thesis using False db by simp
    qed
  qed
qed

subsection \<open>Operations over a storage that keeps its contract\<close>

lemma view_same_ids:
  assumes "\<And>j. cs_id (g_cache b' j) = cs_id (g_cache b j) \<and> cs_data (g_cache b' j) = cs_data (g_cache b j)"
    and "(\<And>j. j < SOTFS_BLKDEV_CACHE_SLOTS \<Longrightarrow> cs_id (g_cache b j) \<noteq> m) \<Longrightarrow> disk_block img b' m = disk_block img b m"
  shows "blk_view img b' m = blk_view img b m"
proof -
  have f: "cache_find b' m = cache_find b m" by (simp add: cache_find_def assms(1))
  show ?thesis
  proof (cases "cache_find b m")
    case None
    then have "disk_block img b' m = disk_block img b m"
      using assms(2) by (simp add: cache_find_def first_idx_None_iff)
    with None f show ?thesis by (simp add: blk_view_def)
  next
    case (Some i)
    with f assms(1) show ?thesis by (simp add: blk_view_def)
  qed
qed

lemma blk_okI:
  assumes "\<And>i. i < SOTFS_BLKDEV_CACHE_SLOTS \<Longrightarrow> slot_ok img b (g_cache b i)"
    and "geometry_ok cap b" "g_used b = bitmap_popcount b"
    and "\<And>i j. i < SOTFS_BLKDEV_CACHE_SLOTS \<Longrightarrow> j < SOTFS_BLKDEV_CACHE_SLOTS \<Longrightarrow> cs_id (g_cache b i) \<noteq> 0 \<Longrightarrow>
       cs_id (g_cache b i) = cs_id (g_cache b j) \<Longrightarrow> i = j"
  shows "blk_ok img cap b"
  unfolding blk_ok_def using assms by simp

text \<open>What the operations of the cache leave alone: the layout, the allocation state, the disk before the heap.\<close>

definition same_meta :: "('s \<Rightarrow> nat \<Rightarrow> u8) \<Rightarrow> 's blkdev \<Rightarrow> 's blkdev \<Rightarrow> bool" where
  "same_meta img b c \<longleftrightarrow> same_alloc b c \<and> g_bitmap_dirty b = g_bitmap_dirty c \<and>
     (\<forall>a<g_heap_off c. img (g_st b) a = img (g_st c) a)"

context storage
begin

lemma st_write_ok:
  assumes "off + length bs \<le> cap"
  obtains s' where "st_write ops b off bs = (0, b\<lparr>g_st := s'\<rparr>)" "img s' = put_bytes (img (g_st b)) off bs"
proof -
  obtain s' where "write_block ops (g_st b) off bs = (int (length bs), s')" "img s' = put_bytes (img (g_st b)) off bs"
    using write_ok [OF assms] by blast
  with that show ?thesis by (simp add: st_write_def st_result_def)
qed

lemma st_read_ok: "off + n \<le> cap \<Longrightarrow> st_read ops b off n = (0, get_bytes (img (g_st b)) off n)"
  by (simp add: st_read_def st_result_def read_ok)

lemma disk_block_write:
  assumes n: "blk_valid b n" "length d = SOTFS_BLKDEV_BLOCK_SIZE" and s: "img s' = put_bytes (img (g_st b)) (block_off b n) d"
    and m: "blk_valid b m"
  shows "disk_block img (b\<lparr>g_st := s'\<rparr>) m = (if m = n then d else disk_block img b m)"
proof -
  have bo: "block_off (b\<lparr>g_st := s'\<rparr>) = block_off b" by (simp add: block_off_def fun_eq_iff)
  show ?thesis
  proof (cases "m = n")
    case True
    then show ?thesis using n(2) by (simp add: disk_block_def bo s get_put_same)
  next
    case False
    have "block_off b m + SOTFS_BLKDEV_BLOCK_SIZE \<le> block_off b n \<or> block_off b n + length d \<le> block_off b m"
      using block_off_disjoint [OF m n(1) False] n(2) by simp
    from get_put_other [OF this] False show ?thesis by (simp add: disk_block_def bo s)
  qed
qed

lemma writeback_ok:
  assumes ok: "blk_ok img cap b" and i: "i < SOTFS_BLKDEV_CACHE_SLOTS"
  obtains s' where "slot_writeback ops b i = (0, b\<lparr>g_st := s', g_cache := (g_cache b)(i := (g_cache b i)\<lparr>cs_dirty := False\<rparr>)\<rparr>)"
    "blk_ok img cap (b\<lparr>g_st := s', g_cache := (g_cache b)(i := (g_cache b i)\<lparr>cs_dirty := False\<rparr>)\<rparr>)"
    "\<And>m. blk_valid b m \<Longrightarrow> blk_view img (b\<lparr>g_st := s', g_cache := (g_cache b)(i := (g_cache b i)\<lparr>cs_dirty := False\<rparr>)\<rparr>) m = blk_view img b m"
    "\<And>a. a < g_heap_off b \<Longrightarrow> img s' a = img (g_st b) a"
proof -
  let ?s = "g_cache b i"
  let ?c = "(g_cache b)(i := ?s\<lparr>cs_dirty := False\<rparr>)"
  have core: "blk_ok img cap (b\<lparr>g_st := s', g_cache := ?c\<rparr>) \<and>
      (\<forall>m. blk_valid b m \<longrightarrow> blk_view img (b\<lparr>g_st := s', g_cache := ?c\<rparr>) m = blk_view img b m)"
    if db: "\<And>m. blk_valid b m \<Longrightarrow> disk_block img (b\<lparr>g_st := s'\<rparr>) m = (if m = cs_id ?s \<and> cs_dirty ?s then cs_data ?s else disk_block img b m)"
    for s'
  proof -
    let ?b = "b\<lparr>g_st := s', g_cache := ?c\<rparr>"
    have sa: "same_alloc ?b b" by (simp add: same_alloc_def same_layout_def)
    note sl = same_layoutD [OF same_allocD(1) [OF sa]]
    have d: "disk_block img ?b m = disk_block img (b\<lparr>g_st := s'\<rparr>) m" for m
      by (simp add: disk_block_def block_off_def)
    have "slot_ok img ?b (g_cache ?b j)" if j: "j < SOTFS_BLKDEV_CACHE_SLOTS" for j
    proof -
      have sj: "slot_ok img b (g_cache b j)" by (rule blk_okD(3) [OF ok j])
      show ?thesis
      proof (cases "j = i")
        case True
        then show ?thesis using sj unfolding slot_ok_def sl(1) d by (auto simp: db)
      next
        case False
        then have "cs_id (g_cache b j) \<noteq> 0 \<Longrightarrow> cs_id (g_cache b j) \<noteq> cs_id ?s" using blk_okD(4) [OF ok j i] by blast
        with False show ?thesis using sj unfolding slot_ok_def sl(1) d by (auto simp: db)
      qed
    qed
    then have "blk_ok img cap ?b"
    proof (rule blk_okI)
      show "geometry_ok cap ?b" using blk_okD(1) [OF ok] sl(4) [of cap] by blast
      show "g_used ?b = bitmap_popcount ?b" using blk_okD(2) [OF ok] same_allocD(2) [OF sa] by simp
      fix j k assume jk: "j < SOTFS_BLKDEV_CACHE_SLOTS" "k < SOTFS_BLKDEV_CACHE_SLOTS"
        "cs_id (g_cache ?b j) \<noteq> 0" "cs_id (g_cache ?b j) = cs_id (g_cache ?b k)"
      have ids: "cs_id (g_cache ?b x) = cs_id (g_cache b x)" for x by simp
      show "j = k" by (rule blk_okD(4) [OF ok jk(1,2) jk(3,4) [unfolded ids]])
    qed
    moreover have "blk_view img ?b m = blk_view img b m" if m: "blk_valid b m" for m
      by (rule view_same_ids) (use i db [OF m] d in auto)
    ultimately show ?thesis by blast
  qed
  show thesis
  proof (cases "cs_dirty ?s \<and> cs_id ?s \<noteq> 0")
    case False
    have "slot_writeback ops b i = (0, b\<lparr>g_st := g_st b, g_cache := ?c\<rparr>)"
      using False by (auto simp: slot_writeback_def upd_slot_def Let_def)
    moreover have "disk_block img (b\<lparr>g_st := g_st b\<rparr>) m = (if m = cs_id ?s \<and> cs_dirty ?s then cs_data ?s else disk_block img b m)"
      if "blk_valid b m" for m using that False by (auto simp: blk_valid_def)
    ultimately show thesis using that [of "g_st b"] core by blast
  next
    case True
    have sl: "length (cs_data ?s) = SOTFS_BLKDEV_BLOCK_SIZE" "blk_valid b (cs_id ?s)"
      using blk_okD(3) [OF ok i] True by (auto simp: slot_ok_def)
    have "block_off b (cs_id ?s) + length (cs_data ?s) \<le> cap"
      using block_off_bound(2) [OF sl(2)] blk_okD(1) [OF ok] sl(1) by (simp add: geometry_ok_def)
    then obtain s' where s': "st_write ops b (block_off b (cs_id ?s)) (cs_data ?s) = (0, b\<lparr>g_st := s'\<rparr>)"
      "img s' = put_bytes (img (g_st b)) (block_off b (cs_id ?s)) (cs_data ?s)" by (rule st_write_ok)
    have "slot_writeback ops b i = (0, b\<lparr>g_st := s', g_cache := ?c\<rparr>)"
      using True s'(1) by (simp add: slot_writeback_def upd_slot_def Let_def)
    moreover have "disk_block img (b\<lparr>g_st := s'\<rparr>) m = (if m = cs_id ?s \<and> cs_dirty ?s then cs_data ?s else disk_block img b m)"
      if "blk_valid b m" for m using disk_block_write [OF sl(2,1) s'(2) that] True by simp
    moreover have "img s' a = img (g_st b) a" if "a < g_heap_off b" for a
      using block_off_bound(1) [OF sl(2)] that by (simp add: s'(2) put_bytes_def)
    ultimately show thesis using that [of s'] core by blast
  qed
qed

lemma victim_scan_bound: "v < SOTFS_BLKDEV_CACHE_SLOTS \<Longrightarrow> victim_scan c i v < SOTFS_BLKDEV_CACHE_SLOTS"
proof (induction c i v rule: victim_scan.induct)
  case (1 c i v)
  then show ?case by (subst victim_scan.simps) auto
qed

lemma acquire_ok:
  assumes ok: "blk_ok img cap b" and n: "blk_valid b n"
  obtains p i b1 b0 where "cache_acquire ops b n = (p, i, b1)" "i < SOTFS_BLKDEV_CACHE_SLOTS" "blk_ok img cap b0" "same_meta img b0 b"
    "\<And>m. blk_valid b m \<Longrightarrow> blk_view img b0 m = blk_view img b m"
    "\<forall>j<SOTFS_BLKDEV_CACHE_SLOTS. cs_id (g_cache b0 j) = n \<longrightarrow> j = i"
    "cs_id (g_cache b0 i) = n \<or> cs_id (g_cache b0 i) = 0 \<or> \<not> cs_dirty (g_cache b0 i)"
    "b1 = b0\<lparr>g_cache := (g_cache b0)(i := (g_cache b0 i)\<lparr>cs_id := n, cs_dirty := cs_dirty (g_cache b0 i)\<rparr>)\<rparr>"
    "p \<longleftrightarrow> cs_id (g_cache b0 i) = n" "\<not> p \<Longrightarrow> \<not> cs_dirty (g_cache b0 i)"
proof -
  have n0: "n \<noteq> 0" using n by (simp add: blk_valid_def)
  show thesis
  proof (cases "cache_find b n")
    case (Some i)
    then have i: "i < SOTFS_BLKDEV_CACHE_SLOTS" "cs_id (g_cache b i) = n"
      using first_idx_SomeD [OF Some [unfolded cache_find_def]] by simp_all
    show thesis
    proof (rule that [of True i b b])
      show "cache_acquire ops b n = (True, i, b)" using Some by (simp add: cache_acquire_def)
      have "j = i" if "j < SOTFS_BLKDEV_CACHE_SLOTS" "cs_id (g_cache b j) = n" for j
        using blk_okD(4) [OF ok that(1) i(1)] that i n0 by simp
      then show "\<forall>j<SOTFS_BLKDEV_CACHE_SLOTS. cs_id (g_cache b j) = n \<longrightarrow> j = i" by blast
      show "b = b\<lparr>g_cache := (g_cache b)(i := (g_cache b i)\<lparr>cs_id := n, cs_dirty := cs_dirty (g_cache b i)\<rparr>)\<rparr>"
        using i(2) by (simp add: fun_upd_idem)
    qed (use ok i in \<open>simp_all add: same_meta_def same_alloc_def same_layout_def\<close>)
  next
    case None
    then have nf: "cs_id (g_cache b j) \<noteq> n" if "j < SOTFS_BLKDEV_CACHE_SLOTS" for j
      using that by (simp add: cache_find_def first_idx_None_iff)
    let ?v = "victim_scan (g_cache b) 0 0"
    have v: "?v < SOTFS_BLKDEV_CACHE_SLOTS" by (rule victim_scan_bound) (simp add: SOTFS_BLKDEV_CACHE_SLOTS_def)
    let ?w = "\<lambda>s'. b\<lparr>g_st := s', g_cache := (g_cache b)(?v := (g_cache b ?v)\<lparr>cs_dirty := False\<rparr>)\<rparr>"
    obtain s' where s': "slot_writeback ops b ?v = (0, ?w s')"
      "blk_ok img cap (?w s')" "\<And>m. blk_valid b m \<Longrightarrow> blk_view img (?w s') m = blk_view img b m"
      "\<And>a. a < g_heap_off b \<Longrightarrow> img s' a = img (g_st b) a"
      by (rule writeback_ok [OF ok v]) blast
    let ?bw = "?w s'"
    show thesis
    proof (rule that [of False ?v _ ?bw])
      show "cache_acquire ops b n = (False, ?v, ?bw\<lparr>g_cache := (g_cache ?bw)(?v := (g_cache ?bw ?v)\<lparr>cs_id := n, cs_dirty := cs_dirty (g_cache ?bw ?v)\<rparr>)\<rparr>)"
        using None s'(1) by (simp add: cache_acquire_def upd_slot_def Let_def)
      show "same_meta img ?bw b" using s'(4) by (simp add: same_meta_def same_alloc_def same_layout_def)
      have "j = ?v" if "j < SOTFS_BLKDEV_CACHE_SLOTS" "cs_id (g_cache ?bw j) = n" for j
        using nf [OF that(1)] that(2) by (auto split: if_splits)
      then show "\<forall>j<SOTFS_BLKDEV_CACHE_SLOTS. cs_id (g_cache ?bw j) = n \<longrightarrow> j = ?v" by blast
    qed (use v s' nf in simp_all)
  qed
qed

lemma blk_read_ok:
  assumes ok: "blk_ok img cap b" and n: "blk_valid b n"
  obtains b' where "sotfs_blk_read ops b n = ((0, blk_view img b n), b')" "blk_ok img cap b'" "same_meta img b' b"
    "\<And>m. blk_valid b m \<Longrightarrow> blk_view img b' m = blk_view img b m"
proof -
  obtain p i b1 b0 where a: "cache_acquire ops b n = (p, i, b1)" "i < SOTFS_BLKDEV_CACHE_SLOTS" "blk_ok img cap b0" "same_meta img b0 b"
    "\<And>m. blk_valid b m \<Longrightarrow> blk_view img b0 m = blk_view img b m"
    "\<forall>j<SOTFS_BLKDEV_CACHE_SLOTS. cs_id (g_cache b0 j) = n \<longrightarrow> j = i"
    "cs_id (g_cache b0 i) = n \<or> cs_id (g_cache b0 i) = 0 \<or> \<not> cs_dirty (g_cache b0 i)"
    "b1 = b0\<lparr>g_cache := (g_cache b0)(i := (g_cache b0 i)\<lparr>cs_id := n, cs_dirty := cs_dirty (g_cache b0 i)\<rparr>)\<rparr>"
    "p \<longleftrightarrow> cs_id (g_cache b0 i) = n" "\<not> p \<Longrightarrow> \<not> cs_dirty (g_cache b0 i)"
    by (rule acquire_ok [OF ok n]) blast
  have sl: "same_layout b0 b" using a(4) by (simp add: same_meta_def same_alloc_def)
  note sv = same_layoutD [OF sl]
  have n': "blk_valid b0 n" using n sv(1) by simp
  define d where "d = (if p then cs_data (g_cache b0 i) else disk_block img b0 n)"
  let ?s = "\<lparr>cs_id = n, cs_dirty = cs_dirty (g_cache b0 i), cs_lru = g_lru_tick b0 + 1, cs_data = d\<rparr>"
  let ?b = "b0\<lparr>g_cache := (g_cache b0)(i := ?s), g_lru_tick := g_lru_tick b0 + 1\<rparr>"
  have vd: "blk_view img b0 n = d"
  proof (cases p)
    case True
    have "blk_view img b0 n = cs_data (g_cache b0 i)" by (rule view_cached) (use True a(2,6,9) in blast)+
    with True show ?thesis by (simp add: d_def)
  next
    case False
    then have "cs_id (g_cache b0 j) \<noteq> n" if "j < SOTFS_BLKDEV_CACHE_SLOTS" for j using a(6,9) that by blast
    from view_uncached [OF this] False show ?thesis by (simp add: d_def)
  qed
  have ld: "length d = SOTFS_BLKDEV_BLOCK_SIZE"
    using blk_okD(3) [OF a(3,2)] by (simp add: d_def slot_ok_def disk_block_def)
  have dd: "\<not> cs_dirty (g_cache b0 i) \<longrightarrow> d = disk_block img b0 n"
    using blk_okD(3) [OF a(3,2)] a(9) n' by (auto simp: d_def slot_ok_def blk_valid_def)
  note ss = set_slot_ok [OF a(3,2) n' ld dd a(6,7) refl, where l = "g_lru_tick b0 + 1" and t = "g_lru_tick b0 + 1"]
  have "sotfs_blk_read ops b n = ((0, d), ?b)"
  proof (cases p)
    case True
    have "g_cache b0 i = \<lparr>cs_id = n, cs_dirty = cs_dirty (g_cache b0 i), cs_lru = cs_lru (g_cache b0 i), cs_data = d\<rparr>"
      using True a(9) by (cases "g_cache b0 i") (simp add: d_def)
    then show ?thesis using n a(1,8) True
      by (cases "g_cache b0 i") (simp add: sotfs_blk_read_def touch_def upd_slot_def d_def)
  next
    case False
    have "block_off b0 n + SOTFS_BLKDEV_BLOCK_SIZE \<le> cap"
      using block_off_bound(2) [OF n'] blk_okD(1) [OF a(3)] by (simp add: geometry_ok_def)
    then have "st_read ops b1 (block_off b1 n) SOTFS_BLKDEV_BLOCK_SIZE = (0, d)"
      using False by (simp add: a(8) st_read_ok block_off_def d_def disk_block_def)
    then show ?thesis using n a(1) False
      by (cases "g_cache b0 i") (simp add: sotfs_blk_read_def touch_def upd_slot_def a(8))
  qed
  moreover have "d = blk_view img b n" using vd a(5) [OF n] by simp
  moreover have "same_meta img ?b b" using a(4) by (simp add: same_meta_def same_alloc_def same_layout_def)
  moreover have "blk_view img ?b m = blk_view img b m" if "blk_valid b m" for m
    using ss(2) [of m] a(5) [OF that] that sv(1) vd by auto
  ultimately show thesis using that ss(1) by blast
qed

lemma blk_write_ok:
  assumes ok: "blk_ok img cap b" and n: "blk_valid b n" and d: "length d = SOTFS_BLKDEV_BLOCK_SIZE"
  obtains b' where "sotfs_blk_write ops b n d = (0, b')" "blk_ok img cap b'" "same_meta img b' b"
    "\<And>m. blk_valid b m \<Longrightarrow> blk_view img b' m = (if m = n then d else blk_view img b m)"
proof -
  obtain p i b1 b0 where a: "cache_acquire ops b n = (p, i, b1)" "i < SOTFS_BLKDEV_CACHE_SLOTS" "blk_ok img cap b0" "same_meta img b0 b"
    "\<And>m. blk_valid b m \<Longrightarrow> blk_view img b0 m = blk_view img b m"
    "\<forall>j<SOTFS_BLKDEV_CACHE_SLOTS. cs_id (g_cache b0 j) = n \<longrightarrow> j = i"
    "cs_id (g_cache b0 i) = n \<or> cs_id (g_cache b0 i) = 0 \<or> \<not> cs_dirty (g_cache b0 i)"
    "b1 = b0\<lparr>g_cache := (g_cache b0)(i := (g_cache b0 i)\<lparr>cs_id := n, cs_dirty := cs_dirty (g_cache b0 i)\<rparr>)\<rparr>"
    by (rule acquire_ok [OF ok n]) blast
  have sl: "same_layout b0 b" using a(4) by (simp add: same_meta_def same_alloc_def)
  note sv = same_layoutD [OF sl]
  have n': "blk_valid b0 n" using n sv(1) by simp
  let ?s = "\<lparr>cs_id = n, cs_dirty = True, cs_lru = g_lru_tick b0 + 1, cs_data = d\<rparr>"
  let ?b = "b0\<lparr>g_cache := (g_cache b0)(i := ?s), g_lru_tick := g_lru_tick b0 + 1\<rparr>"
  have "\<not> True \<longrightarrow> d = disk_block img b0 n" by simp
  note ss = set_slot_ok [OF a(3,2) n' d this a(6,7) refl, where l = "g_lru_tick b0 + 1" and t = "g_lru_tick b0 + 1"]
  have "sotfs_blk_write ops b n d = (0, ?b)" using n a(1)
    by (cases "g_cache b0 i") (simp add: sotfs_blk_write_def touch_def upd_slot_def a(8))
  moreover have "same_meta img ?b b" using a(4) by (simp add: same_meta_def same_alloc_def same_layout_def)
  moreover have "blk_view img ?b m = (if m = n then d else blk_view img b m)" if "blk_valid b m" for m
    using ss(2) [of m] a(5) [OF that] that sv(1) by simp
  ultimately show thesis using that ss(1) by blast
qed

end

subsection \<open>Allocation\<close>

lemma bit_get_iff: "bit_get b i \<longleftrightarrow> bit (g_bitmap b (i div 8)) (i mod 8)"
  by (simp add: bit_get_def and_one_eq bit_iff_odd_drop_bit mod_2_eq_odd)

lemma div_mod_8_eq: "i div 8 = j div 8 \<Longrightarrow> i mod 8 = j mod 8 \<Longrightarrow> i = (j::nat)"
  by (metis div_mult_mod_eq)

lemma bit_byte_set: "n < 8 \<Longrightarrow> bit (w OR push_bit k (1::u8)) n \<longleftrightarrow> n = k \<or> bit w n"
  by (auto simp: bit_or_iff bit_exp_iff)

lemma bit_byte_clr: "n < 8 \<Longrightarrow> bit (w AND NOT (push_bit k (1::u8))) n \<longleftrightarrow> n \<noteq> k \<and> bit w n"
  by (auto simp: bit_and_iff bit_not_iff bit_exp_iff)

lemma bit_get_set: "bit_get (bit_set b i) j \<longleftrightarrow> j = i \<or> bit_get b j"
proof (cases "j div 8 = i div 8")
  case True
  then have "j mod 8 = i mod 8 \<longleftrightarrow> j = i" using div_mod_8_eq by blast
  moreover have "bit_get (bit_set b i) j \<longleftrightarrow> j mod 8 = i mod 8 \<or> bit (g_bitmap b (i div 8)) (j mod 8)"
    using bit_byte_set [of "j mod 8"] True by (simp add: bit_get_iff bit_set_def del: push_bit_of_1)
  ultimately show ?thesis using True by (simp add: bit_get_iff)
next
  case False
  then have "j \<noteq> i" by blast
  with False show ?thesis by (simp add: bit_get_iff bit_set_def)
qed

lemma bit_get_clr: "bit_get (bit_clr b i) j \<longleftrightarrow> j \<noteq> i \<and> bit_get b j"
proof (cases "j div 8 = i div 8")
  case True
  then have "j mod 8 = i mod 8 \<longleftrightarrow> j = i" using div_mod_8_eq by blast
  moreover have "bit_get (bit_clr b i) j \<longleftrightarrow> j mod 8 \<noteq> i mod 8 \<and> bit (g_bitmap b (i div 8)) (j mod 8)"
    using bit_byte_clr [of "j mod 8"] True by (simp add: bit_get_iff bit_clr_def del: push_bit_of_1)
  ultimately show ?thesis using True by (simp add: bit_get_iff)
next
  case False
  then have "j \<noteq> i" by blast
  with False show ?thesis by (simp add: bit_get_iff bit_clr_def)
qed

lemma blk_alloc_cases:
  "(sotfs_blk_alloc b = (0, b) \<and> (\<forall>i<g_total_blocks b. bit_get b i)) \<or>
   (\<exists>i<g_total_blocks b. \<not> bit_get b i \<and> (\<forall>k<i. bit_get b k) \<and>
      sotfs_blk_alloc b = (int i + 1, (bit_set b i)\<lparr>g_used := g_used b + 1, g_bitmap_dirty := True\<rparr>))"
proof (cases "first_idx (\<lambda>i. \<not> bit_get b i) 0 (g_total_blocks b)")
  case None
  then show ?thesis using first_idx_NoneD [OF None] by (simp add: sotfs_blk_alloc_def)
next
  case (Some i)
  then show ?thesis using first_idx_SomeD [OF Some] by (auto simp: sotfs_blk_alloc_def)
qed

definition blk_alloc_slot :: "'s blkdev \<Rightarrow> (nat \<times> 's blkdev) option" where
  "blk_alloc_slot b = (case sotfs_blk_alloc b of (n, b') \<Rightarrow> if n = 0 then None else Some (nat (n - 1), b'))"

definition blk_used_set :: "'s blkdev \<Rightarrow> nat set" where
  "blk_used_set b = {i. i < g_total_blocks b \<and> bit_get b i}"

lemma bit_get_more [simp]: "bit_get (b\<lparr>g_used := u, g_bitmap_dirty := d\<rparr>) = bit_get b"
  by (simp add: bit_get_def fun_eq_iff)

lemma bit_set_sel [simp]: "g_total_blocks (bit_set b i) = g_total_blocks b" "g_cache (bit_set b i) = g_cache b"
  "g_st (bit_set b i) = g_st b" "g_lru_tick (bit_set b i) = g_lru_tick b" "g_used (bit_set b i) = g_used b"
  by (simp_all add: bit_set_def)

lemma bit_clr_sel [simp]: "g_total_blocks (bit_clr b i) = g_total_blocks b" "g_cache (bit_clr b i) = g_cache b"
  "g_st (bit_clr b i) = g_st b" "g_lru_tick (bit_clr b i) = g_lru_tick b" "g_used (bit_clr b i) = g_used b"
  by (simp_all add: bit_clr_def)

interpretation blk_pool: slot_pool 0 T "\<lambda>b. g_total_blocks b = T" blk_used_set blk_alloc_slot for T :: nat
proof
  fix b b' :: "'a blkdev" and i :: nat
  assume T: "g_total_blocks b = T"
  show "blk_alloc_slot b = None \<longleftrightarrow> {0..<T} \<subseteq> blk_used_set b"
    using blk_alloc_cases [of b] T by (auto simp: blk_alloc_slot_def blk_used_set_def)
  assume a: "blk_alloc_slot b = Some (i, b')"
  then have i: "i < T" "\<not> bit_get b i" "b' = (bit_set b i)\<lparr>g_used := g_used b + 1, g_bitmap_dirty := True\<rparr>"
    using blk_alloc_cases [of b] T by (auto simp: blk_alloc_slot_def)
  show "i \<in> {0..<T} - blk_used_set b" using i by (simp add: blk_used_set_def)
  show "blk_used_set b' = insert i (blk_used_set b)" using i T by (auto simp: blk_used_set_def bit_get_set)
  show "g_total_blocks b' = T" using i T by simp
qed

lemma popcount_card: "bitmap_popcount b = card (blk_used_set b)"
  by (simp add: bitmap_popcount_def count_idx_card blk_used_set_def)

lemma finite_used [simp]: "finite (blk_used_set b)"
  by (simp add: blk_used_set_def)

text \<open>Changing the allocation state alone keeps the cache coherent.\<close>

lemma blk_ok_realloc:
  assumes ok: "blk_ok img cap b" and l: "same_layout b' b" and s: "g_st b' = g_st b" and c: "g_cache b' = g_cache b"
    and u: "g_used b' = bitmap_popcount b'"
  shows "blk_ok img cap b'" and "blk_view img b' = blk_view img b"
proof -
  note sl = same_layoutD [OF l]
  have d: "disk_block img b' = disk_block img b" by (simp add: disk_block_def sl s fun_eq_iff)
  show "blk_ok img cap b'"
    by (rule blk_okI) (use blk_okD [OF ok] u in \<open>simp_all add: slot_ok_def d sl c\<close>)
  show "blk_view img b' = blk_view img b" by (simp add: blk_view_def cache_find_def c d fun_eq_iff split: option.splits)
qed

lemma blk_alloc_ok:
  assumes ok: "blk_ok img cap b" and a: "sotfs_blk_alloc b = (n, b')"
  shows "blk_ok img cap b'" and "blk_view img b' = blk_view img b" and "same_layout b' b" and "g_st b' = g_st b"
    and "n \<noteq> 0 \<Longrightarrow> blk_valid b n \<and> \<not> bit_get b (nat (n - 1)) \<and> blk_used_set b' = insert (nat (n - 1)) (blk_used_set b)"
    and "n = 0 \<Longrightarrow> b' = b \<and> (\<forall>i<g_total_blocks b. bit_get b i)"
proof -
  from blk_alloc_cases [of b] a have c: "(n = 0 \<and> b' = b \<and> (\<forall>i<g_total_blocks b. bit_get b i)) \<or>
     (\<exists>i<g_total_blocks b. n = int i + 1 \<and> \<not> bit_get b i \<and> b' = (bit_set b i)\<lparr>g_used := g_used b + 1, g_bitmap_dirty := True\<rparr>)"
    by auto
  show l: "same_layout b' b" and s: "g_st b' = g_st b"
    using c by (auto simp: same_layout_def bit_set_def)
  have gc: "g_cache b' = g_cache b" using c by auto
  show us: "n \<noteq> 0 \<Longrightarrow> blk_valid b n \<and> \<not> bit_get b (nat (n - 1)) \<and> blk_used_set b' = insert (nat (n - 1)) (blk_used_set b)"
    using c by (auto simp: blk_used_set_def bit_get_set blk_valid_def)
  have "g_used b' = bitmap_popcount b'"
  proof (cases "n = 0")
    case True
    then show ?thesis using c blk_okD(2) [OF ok] by auto
  next
    case False
    have "nat (n - 1) \<notin> blk_used_set b" using us [OF False] by (simp add: blk_used_set_def)
    then show ?thesis using us [OF False] c False blk_okD(2) [OF ok] by (auto simp: popcount_card)
  qed
  then show "blk_ok img cap b'" "blk_view img b' = blk_view img b" using blk_ok_realloc [OF ok l s gc] by auto
  show "n = 0 \<Longrightarrow> b' = b \<and> (\<forall>i<g_total_blocks b. bit_get b i)" using c by auto
qed

lemma drop_slot_ok:
  assumes ok: "blk_ok img cap b" and s: "s < SOTFS_BLKDEV_CACHE_SLOTS"
  shows "blk_ok img cap (upd_slot b s (\<lambda>s. s\<lparr>cs_id := 0, cs_dirty := False\<rparr>)) \<and>
    (blk_valid b m \<longrightarrow> m \<noteq> cs_id (g_cache b s) \<longrightarrow>
       blk_view img (upd_slot b s (\<lambda>s. s\<lparr>cs_id := 0, cs_dirty := False\<rparr>)) m = blk_view img b m)"
proof -
  define d where "d = upd_slot b s (\<lambda>s. s\<lparr>cs_id := 0, cs_dirty := False\<rparr>)"
  have gc: "g_cache d = (g_cache b)(s := (g_cache b s)\<lparr>cs_id := 0, cs_dirty := False\<rparr>)" by (simp add: d_def upd_slot_def)
  have sa: "same_alloc d b" "g_st d = g_st b" by (simp_all add: d_def upd_slot_def same_alloc_def same_layout_def)
  note sl = same_layoutD [OF same_allocD(1) [OF sa(1)]]
  have db: "disk_block img d = disk_block img b" by (simp add: disk_block_def sl sa(2) fun_eq_iff)
  have "blk_ok img cap d"
  proof (rule blk_okI)
    show "slot_ok img d (g_cache d i)" if "i < SOTFS_BLKDEV_CACHE_SLOTS" for i
      using blk_okD(3) [OF ok that] by (auto simp: slot_ok_def db sl gc)
    show "geometry_ok cap d" "g_used d = bitmap_popcount d"
      using blk_okD(1,2) [OF ok] sl(4) [of cap] same_allocD(2,3) [OF sa(1)] by simp_all
    show "i = j" if "i < SOTFS_BLKDEV_CACHE_SLOTS" "j < SOTFS_BLKDEV_CACHE_SLOTS" "cs_id (g_cache d i) \<noteq> 0"
        "cs_id (g_cache d i) = cs_id (g_cache d j)" for i j
      using blk_okD(4) [OF ok that(1,2)] that(3,4) by (auto simp: gc split: if_splits)
  qed
  moreover have "blk_view img d m = blk_view img b m" if m: "blk_valid b m" "m \<noteq> cs_id (g_cache b s)"
  proof -
    have m0: "m \<noteq> 0" using m(1) by (simp add: blk_valid_def)
    have "cs_id (g_cache d j) = m \<longleftrightarrow> cs_id (g_cache b j) = m" for j using m(2) m0 by (auto simp: gc)
    then have "cache_find d m = cache_find b m" by (simp add: cache_find_def)
    moreover have "cs_data (g_cache d j) = cs_data (g_cache b j)" for j by (simp add: gc)
    ultimately show ?thesis by (simp add: blk_view_def db split: option.splits)
  qed
  ultimately show ?thesis unfolding d_def by blast
qed

lemma blk_free_ok:
  assumes ok: "blk_ok img cap b" and n: "blk_valid b n" and g: "bit_get b (nat (n - 1))"
  shows "blk_ok img cap (sotfs_blk_free b n)" and "same_layout (sotfs_blk_free b n) b" and "g_st (sotfs_blk_free b n) = g_st b"
    and "blk_used_set (sotfs_blk_free b n) = blk_used_set b - {nat (n - 1)}"
    and "blk_valid b m \<Longrightarrow> m \<noteq> n \<Longrightarrow> blk_view img (sotfs_blk_free b n) m = blk_view img b m"
proof -
  let ?i = "nat (n - 1)"
  define c where "c = (bit_clr b ?i)\<lparr>g_used := g_used b - 1, g_bitmap_dirty := True\<rparr>"
  have n0: "n \<noteq> 0" and i: "nat n - 1 = ?i" and it: "?i < g_total_blocks b" using n unfolding blk_valid_def by linarith+
  have lc: "same_layout c b" "g_st c = g_st b" "g_cache c = g_cache b" by (simp_all add: c_def same_layout_def bit_clr_def)
  have uc: "blk_used_set c = blk_used_set b - {?i}" by (auto simp: c_def blk_used_set_def bit_get_clr)
  have "g_used c = bitmap_popcount c"
    using blk_okD(2) [OF ok] uc it g by (simp add: popcount_card) (simp add: c_def blk_used_set_def)
  note okc = blk_ok_realloc [OF ok lc this]
  have fc: "cache_find c n = cache_find b n" by (simp add: cache_find_def lc(3))
  have f: "sotfs_blk_free b n = (case cache_find b n of None \<Rightarrow> c
      | Some s \<Rightarrow> upd_slot c s (\<lambda>s. s\<lparr>cs_id := 0, cs_dirty := False\<rparr>))"
    unfolding sotfs_blk_free_def Let_def i c_def [symmetric] fc using n g by simp
  show "same_layout (sotfs_blk_free b n) b" "g_st (sotfs_blk_free b n) = g_st b"
    unfolding f using lc by (auto simp: same_layout_def upd_slot_def split: option.splits)
  show "blk_used_set (sotfs_blk_free b n) = blk_used_set b - {?i}"
    unfolding f using uc by (auto simp: blk_used_set_def upd_slot_def bit_get_def split: option.splits)
  have "blk_ok img cap (sotfs_blk_free b n) \<and> (blk_valid b m \<longrightarrow> m \<noteq> n \<longrightarrow> blk_view img (sotfs_blk_free b n) m = blk_view img b m)"
  proof (cases "cache_find b n")
    case None
    then show ?thesis using okc f by simp
  next
    case (Some s)
    then have s: "s < SOTFS_BLKDEV_CACHE_SLOTS" "cs_id (g_cache b s) = n"
      using first_idx_SomeD [OF Some [unfolded cache_find_def]] by simp_all
    have "sotfs_blk_free b n = upd_slot c s (\<lambda>s. s\<lparr>cs_id := 0, cs_dirty := False\<rparr>)" using f Some by simp
    then show ?thesis using drop_slot_ok [OF okc(1), of s m] s okc(2) lc(3) by (simp add: same_layoutD(1) [OF lc(1)])
  qed
  then show "blk_ok img cap (sotfs_blk_free b n)" "blk_valid b m \<Longrightarrow> m \<noteq> n \<Longrightarrow> blk_view img (sotfs_blk_free b n) m = blk_view img b m" by auto
qed

subsection \<open>Geometry, superblock, flush and attach\<close>

lemma round_up_ge: "v \<le> round_up_4k v"
  by (simp add: round_up_4k_def SOTFS_BLKDEV_BLOCK_SIZE_def)

lemma geometry_loop_fits:
  "geometry_loop avail n * SOTFS_BLKDEV_BLOCK_SIZE + round_up_4k ((geometry_loop avail n + 7) div 8) \<le> avail \<or> geometry_loop avail n = 0"
  by (induction n) auto

lemma geometry_loop_max:
  "k \<le> n \<Longrightarrow> k * SOTFS_BLKDEV_BLOCK_SIZE + round_up_4k ((k + 7) div 8) \<le> avail \<Longrightarrow> k \<le> geometry_loop avail n"
  by (induction n) (auto simp: le_Suc_eq)

lemma geometry_ok_compute:
  assumes c: "c = compute_geometry b off bytes" and z: "g_total_blocks c \<noteq> 0" and f: "off + bytes \<le> cap"
  shows "geometry_ok cap c" "g_region_off c = off" "g_total_blocks c \<le> 131072" "0 < bitmap_phys c"
proof -
  define avail where "avail = (if SOTFS_BLKDEV_BLOCK_SIZE < bytes then bytes - SOTFS_BLKDEV_BLOCK_SIZE else 0)"
  define k where "k = geometry_loop avail (avail div SOTFS_BLKDEV_BLOCK_SIZE)"
  have cs: "g_region_off c = off" "g_bitmap_off c = off + SOTFS_BLKDEV_BLOCK_SIZE" "g_bitmap_bytes c = (k + 7) div 8"
    "g_heap_off c = off + SOTFS_BLKDEV_BLOCK_SIZE + round_up_4k ((k + 7) div 8)" "g_total_blocks c = min k (BLKDEV_BITMAP_MAX * 8)"
    by (simp_all add: c compute_geometry_def Let_def avail_def k_def)
  have k0: "k \<noteq> 0" using z cs(5) by auto
  have fit: "k * SOTFS_BLKDEV_BLOCK_SIZE + round_up_4k ((k + 7) div 8) \<le> avail" using geometry_loop_fits [of avail "avail div SOTFS_BLKDEV_BLOCK_SIZE"] k0 unfolding k_def by blast
  have av: "SOTFS_BLKDEV_BLOCK_SIZE + avail \<le> bytes"
    using fit k0 by (auto simp: avail_def SOTFS_BLKDEV_BLOCK_SIZE_def split: if_splits)
  have r: "(k + 7) div 8 \<le> round_up_4k ((k + 7) div 8)" by (rule round_up_ge)
  have r0: "0 < (k + 7) div 8" using k0 by simp
  have ph: "bitmap_phys c = min (round_up_4k ((k + 7) div 8)) BLKDEV_BITMAP_MAX"
    using r r0 by (auto simp: bitmap_phys_def Let_def cs)
  show "g_region_off c = off" by (rule cs)
  show "g_total_blocks c \<le> 131072" by (simp add: cs BLKDEV_BITMAP_MAX_def)
  show "0 < bitmap_phys c" using r r0 by (simp add: ph BLKDEV_BITMAP_MAX_def)
  have t8: "k \<le> 8 * ((k + 7) div 8)" by linarith
  have "g_total_blocks c \<le> 8 * bitmap_phys c"
    unfolding cs ph using t8 r by (simp add: min_def)
  moreover have "g_heap_off c + g_total_blocks c * SOTFS_BLKDEV_BLOCK_SIZE \<le> cap"
  proof -
    have "g_total_blocks c * SOTFS_BLKDEV_BLOCK_SIZE \<le> k * SOTFS_BLKDEV_BLOCK_SIZE" by (rule mult_le_mono1) (simp add: cs)
    then show ?thesis using fit av f unfolding cs(4) by linarith
  qed
  ultimately show "geometry_ok cap c" unfolding geometry_ok_def by (simp add: cs ph)
qed

lemma sb_decode_encode:
  assumes "sb_magic s < 2 ^ 32" "sb_version s < 2 ^ 32" "sb_total_blocks s < 2 ^ 64" "sb_bitmap_bytes s < 2 ^ 64"
  shows "sb_decode (sb_encode s) = s"
  using assms by (cases s) (simp add: sb_decode_def sb_encode_def le_nat_le_bytes)

lemma length_sb_encode [simp]: "length (sb_encode s) = SOTFS_BLKDEV_BLOCK_SIZE"
  by (simp add: sb_encode_def SOTFS_BLKDEV_BLOCK_SIZE_def)

definition blk_sb :: "'s blkdev \<Rightarrow> sb" where
  "blk_sb b = \<lparr>sb_magic = SOTFS_BLKDEV_MAGIC, sb_version = SOTFS_BLKDEV_VERSION,
     sb_total_blocks = g_total_blocks b, sb_bitmap_bytes = g_bitmap_bytes b\<rparr>"

text \<open>The superblock on disk describes the store, and a clean bitmap is on disk.\<close>

definition meta_ok :: "('s \<Rightarrow> nat \<Rightarrow> u8) \<Rightarrow> 's blkdev \<Rightarrow> bool" where
  "meta_ok img b \<longleftrightarrow>
     get_bytes (img (g_st b)) (g_region_off b) SOTFS_BLKDEV_BLOCK_SIZE = sb_encode (blk_sb b) \<and>
     (\<not> g_bitmap_dirty b \<longrightarrow> get_bytes (img (g_st b)) (g_bitmap_off b) (bitmap_phys b) = get_bytes (g_bitmap b) 0 (bitmap_phys b))"

lemma get_bytes_cong: "(\<And>i. off \<le> i \<Longrightarrow> i < off + n \<Longrightarrow> f i = g i) \<Longrightarrow> get_bytes f off n = get_bytes g off n"
  by (simp add: get_bytes_def)

lemma meta_ok_same:
  assumes "meta_ok img c" "same_meta img b c" "geometry_ok cap c"
  shows "meta_ok img b"
proof -
  have l: "same_layout b c" and d: "g_bitmap_dirty b = g_bitmap_dirty c" "g_bitmap b = g_bitmap c"
    and i: "\<And>a. a < g_heap_off c \<Longrightarrow> img (g_st b) a = img (g_st c) a"
    using assms(2) by (auto simp: same_meta_def same_alloc_def)
  have g: "g_region_off c + SOTFS_BLKDEV_BLOCK_SIZE = g_bitmap_off c" "g_bitmap_off c + bitmap_phys c \<le> g_heap_off c"
    using assms(3) by (simp_all add: geometry_ok_def)
  have "get_bytes (img (g_st b)) (g_region_off c) SOTFS_BLKDEV_BLOCK_SIZE = get_bytes (img (g_st c)) (g_region_off c) SOTFS_BLKDEV_BLOCK_SIZE"
    by (rule get_bytes_cong) (use i g in simp)
  moreover have "get_bytes (img (g_st b)) (g_bitmap_off c) (bitmap_phys c) = get_bytes (img (g_st c)) (g_bitmap_off c) (bitmap_phys c)"
    by (rule get_bytes_cong) (use i g in simp)
  ultimately show ?thesis using assms(1) l d same_layoutD(3) [OF l]
    by (simp add: meta_ok_def blk_sb_def same_layout_def)
qed

context storage
begin

lemma flush_slots_ok:
  assumes ok: "blk_ok img cap b" and k: "k \<le> SOTFS_BLKDEV_CACHE_SLOTS"
  shows "blk_ok img cap (flush_slots ops k b) \<and> same_meta img (flush_slots ops k b) b \<and>
    (\<forall>m. blk_valid b m \<longrightarrow> blk_view img (flush_slots ops k b) m = blk_view img b m) \<and>
    (\<forall>i<k. \<not> cs_dirty (g_cache (flush_slots ops k b) i))"
  using k
proof (induction k)
  case 0
  then show ?case using ok by (simp add: same_meta_def same_alloc_def same_layout_def)
next
  case (Suc k)
  let ?f = "flush_slots ops k b"
  have IH: "blk_ok img cap ?f" "same_meta img ?f b" "\<And>m. blk_valid b m \<Longrightarrow> blk_view img ?f m = blk_view img b m"
    "\<And>i. i < k \<Longrightarrow> \<not> cs_dirty (g_cache ?f i)" using Suc by auto
  have l: "same_layout ?f b" using IH(2) by (simp add: same_meta_def same_alloc_def)
  let ?w = "\<lambda>s'. ?f\<lparr>g_st := s', g_cache := (g_cache ?f)(k := (g_cache ?f k)\<lparr>cs_dirty := False\<rparr>)\<rparr>"
  have kk: "k < SOTFS_BLKDEV_CACHE_SLOTS" using Suc.prems by simp
  obtain s' where s': "slot_writeback ops ?f k = (0, ?w s')" "blk_ok img cap (?w s')"
    "\<And>m. blk_valid ?f m \<Longrightarrow> blk_view img (?w s') m = blk_view img ?f m"
    "\<And>a. a < g_heap_off ?f \<Longrightarrow> img s' a = img (g_st ?f) a"
    by (rule writeback_ok [OF IH(1) kk]) blast
  have fs: "flush_slots ops (Suc k) b = ?w s'" using s'(1) by simp
  have "same_meta img (?w s') b"
    using IH(2) s'(4) l by (simp add: same_meta_def same_alloc_def same_layout_def)
  moreover have "blk_view img (?w s') m = blk_view img b m" if "blk_valid b m" for m
    using s'(3) IH(3) [OF that] that same_layoutD(1) [OF l] by simp
  moreover have "\<not> cs_dirty (g_cache (?w s') i)" if "i < Suc k" for i using IH(4) that by (auto simp: less_Suc_eq)
  ultimately show ?case unfolding fs using s'(2) by blast
qed

lemma flush_ok:
  assumes ok: "blk_ok img cap b" and mo: "meta_ok img b"
  obtains b' where "sotfs_blk_flush ops b = b'" "blk_ok img cap b'" "meta_ok img b'" "same_alloc b' b" "\<not> g_bitmap_dirty b'"
    "\<And>m. blk_valid b m \<Longrightarrow> disk_block img b' m = blk_view img b m"
    "\<And>m. blk_valid b m \<Longrightarrow> blk_view img b' m = blk_view img b m"
proof -
  let ?f = "flush_slots ops SOTFS_BLKDEV_CACHE_SLOTS b"
  have F: "blk_ok img cap ?f" "same_meta img ?f b" "\<And>m. blk_valid b m \<Longrightarrow> blk_view img ?f m = blk_view img b m"
    "\<And>i. i < SOTFS_BLKDEV_CACHE_SLOTS \<Longrightarrow> \<not> cs_dirty (g_cache ?f i)"
    using flush_slots_ok [OF ok order_refl] by auto
  have l: "same_layout ?f b" and sa: "same_alloc ?f b" using F(2) by (simp_all add: same_meta_def same_alloc_def)
  have g: "geometry_ok cap b" by (rule blk_okD(1) [OF ok])
  have mf: "meta_ok img ?f" by (rule meta_ok_same [OF mo F(2) g])
  have disk: "disk_block img ?f m = blk_view img b m" if m: "blk_valid b m" for m
  proof (cases "cache_find ?f m")
    case None
    then show ?thesis using F(3) [OF m] by (simp add: blk_view_def)
  next
    case (Some i)
    then have i: "i < SOTFS_BLKDEV_CACHE_SLOTS" "cs_id (g_cache ?f i) = m"
      using first_idx_SomeD [OF Some [unfolded cache_find_def]] by simp_all
    have "cs_data (g_cache ?f i) = disk_block img ?f m"
      using blk_okD(3) [OF F(1) i(1)] F(4) [OF i(1)] i(2) m by (auto simp: slot_ok_def blk_valid_def)
    then show ?thesis using F(3) [OF m] Some by (simp add: blk_view_def)
  qed
  show thesis
  proof (cases "g_bitmap_dirty ?f")
    case False
    then have "sotfs_blk_flush ops b = ?f" by (simp add: sotfs_blk_flush_def)
    then show thesis using that F(1,3) mf sa False disk by blast
  next
    case True
    let ?bm = "get_bytes (g_bitmap ?f) 0 (bitmap_phys ?f)"
    have gf: "geometry_ok cap ?f" by (rule blk_okD(1) [OF F(1)])
    then have fits: "g_bitmap_off ?f + length ?bm \<le> cap" by (simp add: geometry_ok_def)
    obtain s' where s': "st_write ops ?f (g_bitmap_off ?f) ?bm = (0, ?f\<lparr>g_st := s'\<rparr>)"
      "img s' = put_bytes (img (g_st ?f)) (g_bitmap_off ?f) ?bm" by (rule st_write_ok [OF fits])
    define c where "c = ?f\<lparr>g_st := s', g_bitmap_dirty := False\<rparr>"
    have fl: "sotfs_blk_flush ops b = c" using True s'(1) by (simp add: sotfs_blk_flush_def bitmap_flush_def c_def)
    have lc: "same_layout c ?f" "same_alloc c ?f" "g_cache c = g_cache ?f" by (simp_all add: c_def same_layout_def same_alloc_def)
    have dc: "disk_block img c m = disk_block img ?f m" for m
    proof -
      have "g_bitmap_off ?f + length ?bm \<le> block_off ?f m" using gf by (simp add: geometry_ok_def block_off_def)
      then show ?thesis using get_put_other [of "block_off ?f m" SOTFS_BLKDEV_BLOCK_SIZE "g_bitmap_off ?f" ?bm]
        by (simp add: disk_block_def same_layoutD(2) [OF lc(1)]) (simp add: c_def s'(2))
    qed
    have okc: "blk_ok img cap c"
      by (rule blk_okI)
         (use blk_okD [OF F(1)] same_allocD(2,3) [OF lc(2)] same_layoutD [OF lc(1)] in \<open>simp_all add: slot_ok_def dc lc(3)\<close>)
    have "meta_ok img c"
      using mf gf get_put_same [of ?bm "bitmap_phys ?f" "img (g_st ?f)" "g_bitmap_off ?f"]
        get_put_other [of "g_region_off ?f" SOTFS_BLKDEV_BLOCK_SIZE "g_bitmap_off ?f" ?bm "img (g_st ?f)"]
      by (simp add: meta_ok_def same_layoutD(3) [OF lc(1)] geometry_ok_def) (simp add: c_def s'(2) blk_sb_def)
    moreover have "same_alloc c b" using lc(2) sa by (simp add: same_alloc_def same_layout_def)
    moreover have "disk_block img c m = blk_view img b m" if "blk_valid b m" for m using dc disk [OF that] by simp
    moreover have "blk_view img c m = blk_view img b m" if "blk_valid b m" for m
    proof -
      have "blk_view img c m = blk_view img ?f m" by (rule view_same_ids) (simp_all add: lc(3) dc)
      then show ?thesis using F(3) [OF that] by simp
    qed
    ultimately show thesis using that [of c] fl okc by (simp add: c_def)
  qed
qed

end

end
