(* ===== verification/BlkdevSafety.thy ===== *)
theory BlkdevSafety
  imports BlkdevOk
begin

text \<open>
  The block store refines an abstract store of blocks and of used block numbers, and what was
  flushed survives a new initialisation on the same device.
\<close>

subsection \<open>The abstract block store\<close>

datatype blk_op = BAlloc | BFree int | BRead int | BWrite int "u8 list" | BFlush

definition blk_step :: "'s sotfs_storage_ops \<Rightarrow> blk_op \<Rightarrow> 's blkdev \<Rightarrow> (int \<times> u8 list) \<times> 's blkdev" where
  "blk_step ops op b =
     (case op of
        BAlloc \<Rightarrow> (case sotfs_blk_alloc b of (n, b') \<Rightarrow> ((n, []), b'))
      | BFree n \<Rightarrow> ((0, []), sotfs_blk_free b n)
      | BRead n \<Rightarrow> sotfs_blk_read ops b n
      | BWrite n d \<Rightarrow> (case sotfs_blk_write ops b n d of (r, b') \<Rightarrow> ((r, []), b'))
      | BFlush \<Rightarrow> ((0, []), sotfs_blk_flush ops b))"

record absblk =
  a_total :: nat
  a_used :: "nat set"
  a_block :: "int \<Rightarrow> u8 list"

definition absblk_of :: "('s \<Rightarrow> nat \<Rightarrow> u8) \<Rightarrow> 's blkdev \<Rightarrow> absblk" where
  "absblk_of img b = \<lparr>a_total = g_total_blocks b, a_used = blk_used_set b,
     a_block = (\<lambda>n. if blk_valid b n then blk_view img b n else [])\<rparr>"

definition a_valid :: "absblk \<Rightarrow> int \<Rightarrow> bool" where
  "a_valid a n \<longleftrightarrow> 0 < n \<and> nat n \<le> a_total a"

definition blk_spec :: "blk_op \<Rightarrow> absblk \<Rightarrow> int \<times> u8 list \<Rightarrow> absblk \<Rightarrow> bool" where
  "blk_spec op a r a' =
     (case op of
        BAlloc \<Rightarrow>
          if {..<a_total a} \<subseteq> a_used a then r = (0, []) \<and> a' = a
          else \<exists>i<a_total a. i \<notin> a_used a \<and> {..<i} \<subseteq> a_used a \<and> r = (int i + 1, []) \<and> a' = a\<lparr>a_used := insert i (a_used a)\<rparr>
      | BFree n \<Rightarrow> r = (0, []) \<and>
          (if a_valid a n \<and> nat (n - 1) \<in> a_used a
           then \<exists>d. a' = a\<lparr>a_used := a_used a - {nat (n - 1)}, a_block := (a_block a)(n := d)\<rparr>
           else a' = a)
      | BRead n \<Rightarrow> r = (if a_valid a n then (0, a_block a n) else (-22, [])) \<and> a' = a
      | BWrite n d \<Rightarrow>
          if a_valid a n then r = (0, []) \<and> a' = a\<lparr>a_block := (a_block a)(n := d)\<rparr>
          else r = (-22, []) \<and> a' = a
      | BFlush \<Rightarrow> r = (0, []) \<and> a' = a)"

text \<open>Writes are of whole blocks.\<close>

fun blk_op_ok :: "blk_op \<Rightarrow> bool" where
  "blk_op_ok (BWrite n d) = (length d = SOTFS_BLKDEV_BLOCK_SIZE)"
| "blk_op_ok _ = True"

lemma a_valid_abs [simp]: "a_valid (absblk_of img b) n \<longleftrightarrow> blk_valid b n"
  by (simp add: a_valid_def absblk_of_def blk_valid_def)

lemma used_set_same: "same_alloc b c \<Longrightarrow> blk_used_set b = blk_used_set c"
  using same_allocD(4) [of b c] by (simp add: blk_used_set_def same_alloc_def same_layout_def)

lemma absblk_eqI:
  assumes "same_alloc b' b" "\<And>m. blk_valid b m \<Longrightarrow> blk_view img b' m = v m"
  shows "absblk_of img b' = (absblk_of img b)\<lparr>a_block := (\<lambda>n. if blk_valid b n then v n else [])\<rparr>"
proof -
  have l: "same_layout b' b" using assms(1) by (simp add: same_alloc_def)
  have "(\<lambda>n. if blk_valid b' n then blk_view img b' n else []) = (\<lambda>n. if blk_valid b n then v n else [])"
    using assms(2) same_layoutD(1) [OF l] by auto
  then show ?thesis using used_set_same [OF assms(1)] l by (simp add: absblk_of_def same_layout_def)
qed

lemma absblk_same:
  assumes "same_alloc b' b" "\<And>m. blk_valid b m \<Longrightarrow> blk_view img b' m = blk_view img b m"
  shows "absblk_of img b' = absblk_of img b"
  using absblk_eqI [OF assms] by (simp add: absblk_of_def)

lemma alloc_refines:
  assumes ok: "blk_ok img cap b" and a: "sotfs_blk_alloc b = (n, b')"
  shows "blk_spec BAlloc (absblk_of img b) (n, []) (absblk_of img b')"
proof -
  note al = blk_alloc_ok [OF ok a]
  have v: "(\<lambda>m. if blk_valid b' m then blk_view img b' m else []) = (\<lambda>m. if blk_valid b m then blk_view img b m else [])"
    using al(2) same_layoutD(1) [OF al(3)] by auto
  have T: "g_total_blocks b' = g_total_blocks b" using al(3) by (simp add: same_layout_def)
  show ?thesis
  proof (cases "n = 0")
    case True
    then have "{..<g_total_blocks b} \<subseteq> blk_used_set b" using al(6) by (auto simp: blk_used_set_def)
    with True al(6) show ?thesis by (simp add: blk_spec_def absblk_of_def)
  next
    case False
    note u = al(5) [OF False]
    have i: "nat (n - 1) < g_total_blocks b" "n = int (nat (n - 1)) + 1" using u unfolding blk_valid_def by linarith+
    have ni: "nat (n - 1) \<notin> blk_used_set b" using u by (simp add: blk_used_set_def)
    have lo: "{..<nat (n - 1)} \<subseteq> blk_used_set b" using blk_alloc_cases [of b] a False by (auto simp: blk_used_set_def)
    from ni have "\<not> {..<g_total_blocks b} \<subseteq> blk_used_set b" using i(1) by blast
    moreover have "absblk_of img b' = (absblk_of img b)\<lparr>a_used := insert (nat (n - 1)) (blk_used_set b)\<rparr>"
      using u v T by (simp add: absblk_of_def)
    ultimately show ?thesis using i ni lo unfolding blk_spec_def by (auto simp: absblk_of_def)
  qed
qed

lemma free_refines:
  assumes ok: "blk_ok img cap b"
  shows "blk_ok img cap (sotfs_blk_free b n)" "blk_spec (BFree n) (absblk_of img b) (0, []) (absblk_of img (sotfs_blk_free b n))"
proof -
  have "blk_ok img cap (sotfs_blk_free b n) \<and> blk_spec (BFree n) (absblk_of img b) (0, []) (absblk_of img (sotfs_blk_free b n))"
  proof (cases "blk_valid b n \<and> bit_get b (nat (n - 1))")
    case False
    then have "sotfs_blk_free b n = b" by (auto simp: sotfs_blk_free_def Let_def blk_valid_def nat_diff_distrib')
    moreover have "\<not> (blk_valid b n \<and> nat (n - 1) \<in> blk_used_set b)" using False by (auto simp: blk_used_set_def)
    ultimately show ?thesis using ok by (auto simp: blk_spec_def absblk_of_def a_valid_def blk_valid_def)
  next
    case True
    then have v: "blk_valid b n" and g: "bit_get b (nat (n - 1))" by auto
    note f = blk_free_ok [OF ok v g]
    let ?b = "sotfs_blk_free b n"
    have u: "nat (n - 1) \<in> blk_used_set b" using True v unfolding blk_used_set_def blk_valid_def by (simp; linarith)
    have "absblk_of img ?b = (absblk_of img b)\<lparr>a_used := blk_used_set b - {nat (n - 1)},
        a_block := (a_block (absblk_of img b))(n := blk_view img ?b n)\<rparr>"
      using f(2,4,5) v same_layoutD(1) [OF f(2)] by (auto simp: absblk_of_def same_layout_def fun_eq_iff)
    then show ?thesis using f(1) v u by (auto simp: blk_spec_def absblk_of_def a_valid_def blk_valid_def)
  qed
  then show "blk_ok img cap (sotfs_blk_free b n)" "blk_spec (BFree n) (absblk_of img b) (0, []) (absblk_of img (sotfs_blk_free b n))" by auto
qed

context storage
begin

lemma blk_step_refines:
  assumes ok: "blk_ok img cap b" and m: "meta_ok img b" and o: "blk_op_ok op" and st: "blk_step ops op b = (r, b')"
  shows "blk_ok img cap b' \<and> meta_ok img b' \<and> same_layout b' b \<and> blk_spec op (absblk_of img b) r (absblk_of img b')"
proof (cases op)
  case BAlloc
  then obtain n where a: "sotfs_blk_alloc b = (n, b')" and r: "r = (n, [])" using st by (auto simp: blk_step_def split: prod.splits)
  note al = blk_alloc_ok [OF ok a]
  have "meta_ok img b'"
  proof (cases "n = 0")
    case True
    then show ?thesis using al(6) m by simp
  next
    case False
    then have "g_bitmap_dirty b'" using blk_alloc_cases [of b] a by auto
    then show ?thesis using m al(3,4) by (simp add: meta_ok_def blk_sb_def same_layout_def)
  qed
  then show ?thesis using al(1,3) alloc_refines [OF ok a] BAlloc r by simp
next
  case (BFree n)
  then have b': "b' = sotfs_blk_free b n" and r: "r = (0, [])" using st by (simp_all add: blk_step_def)
  have "meta_ok img b' \<and> same_layout b' b"
  proof (cases "blk_valid b n \<and> bit_get b (nat (n - 1))")
    case False
    then have "sotfs_blk_free b n = b" by (auto simp: sotfs_blk_free_def Let_def blk_valid_def nat_diff_distrib')
    then show ?thesis using m b' by (simp add: same_layout_def)
  next
    case True
    then have v: "blk_valid b n" and g: "bit_get b (nat (n - 1))" by auto
    note f = blk_free_ok [OF ok v g]
    have "g_bitmap_dirty (sotfs_blk_free b n)" using True
      by (auto simp: sotfs_blk_free_def Let_def blk_valid_def nat_diff_distrib' upd_slot_def split: option.splits)
    then show ?thesis using m f(2,3) b' by (simp add: meta_ok_def blk_sb_def same_layout_def)
  qed
  then show ?thesis using free_refines [OF ok] BFree r b' by blast
next
  case (BRead n)
  show ?thesis
  proof (cases "blk_valid b n")
    case True
    obtain c where c: "sotfs_blk_read ops b n = ((0, blk_view img b n), c)" "blk_ok img cap c" "same_meta img c b"
      "\<And>m. blk_valid b m \<Longrightarrow> blk_view img c m = blk_view img b m" by (rule blk_read_ok [OF ok True]) blast
    have sa: "same_alloc c b" using c(3) by (simp add: same_meta_def)
    have "absblk_of img c = absblk_of img b" by (rule absblk_same [OF sa c(4)])
    moreover have "meta_ok img c" by (rule meta_ok_same [OF m c(3) blk_okD(1) [OF ok]])
    ultimately show ?thesis using st c(1,2) sa True BRead
      by (auto simp: blk_step_def blk_spec_def absblk_of_def a_valid_def blk_valid_def same_alloc_def)
  next
    case False
    then show ?thesis using st ok m BRead
      by (auto simp: blk_step_def blk_spec_def sotfs_blk_read_def absblk_of_def a_valid_def blk_valid_def same_layout_def)
  qed
next
  case (BWrite n d)
  show ?thesis
  proof (cases "blk_valid b n")
    case True
    have d: "length d = SOTFS_BLKDEV_BLOCK_SIZE" using o BWrite by simp
    obtain c where c: "sotfs_blk_write ops b n d = (0, c)" "blk_ok img cap c" "same_meta img c b"
      "\<And>m. blk_valid b m \<Longrightarrow> blk_view img c m = (if m = n then d else blk_view img b m)" by (rule blk_write_ok [OF ok True d]) blast
    have sa: "same_alloc c b" using c(3) by (simp add: same_meta_def)
    have "absblk_of img c = (absblk_of img b)\<lparr>a_block := (a_block (absblk_of img b))(n := d)\<rparr>"
    proof -
      have "(\<lambda>x. if blk_valid b x then (if x = n then d else blk_view img b x) else []) = (a_block (absblk_of img b))(n := d)"
        using True by (auto simp: absblk_of_def fun_eq_iff)
      with absblk_eqI [OF sa c(4)] show ?thesis by simp
    qed
    moreover have "meta_ok img c" by (rule meta_ok_same [OF m c(3) blk_okD(1) [OF ok]])
    ultimately show ?thesis using st c(1,2) sa True BWrite
      by (auto simp: blk_step_def blk_spec_def absblk_of_def a_valid_def blk_valid_def same_alloc_def)
  next
    case False
    then show ?thesis using st ok m BWrite
      by (auto simp: blk_step_def blk_spec_def sotfs_blk_write_def absblk_of_def a_valid_def blk_valid_def same_layout_def)
  qed
next
  case BFlush
  obtain c where c: "sotfs_blk_flush ops b = c" "blk_ok img cap c" "meta_ok img c" "same_alloc c b" "\<not> g_bitmap_dirty c"
    "\<And>m. blk_valid b m \<Longrightarrow> blk_view img c m = blk_view img b m" by (rule flush_ok [OF ok m]) blast
  have "absblk_of img c = absblk_of img b" by (rule absblk_same [OF c(4,6)])
  then show ?thesis using st c(1-4) BFlush by (auto simp: blk_step_def blk_spec_def same_alloc_def)
qed

end

subsection \<open>Runs, formatting and attaching\<close>

fun blk_run :: "'s sotfs_storage_ops \<Rightarrow> blk_op list \<Rightarrow> 's blkdev \<Rightarrow> (int \<times> u8 list) list \<times> 's blkdev" where
  "blk_run ops [] b = ([], b)"
| "blk_run ops (op # os) b =
     (case blk_step ops op b of (r, b1) \<Rightarrow> case blk_run ops os b1 of (rs, b2) \<Rightarrow> (r # rs, b2))"

inductive blk_trace :: "absblk \<Rightarrow> blk_op list \<Rightarrow> (int \<times> u8 list) list \<Rightarrow> absblk \<Rightarrow> bool" where
  blk_trace_Nil: "blk_trace a [] [] a"
| blk_trace_Cons: "blk_spec op a r a1 \<Longrightarrow> blk_trace a1 os rs a2 \<Longrightarrow> blk_trace a (op # os) (r # rs) a2"

lemma blk_sb_small:
  assumes "g_total_blocks b \<le> 131072" "g_bitmap_bytes b < 2 ^ 64"
  shows "sb_decode (sb_encode (blk_sb b)) = blk_sb b"
  by (rule sb_decode_encode) (use assms in \<open>simp_all add: blk_sb_def SOTFS_BLKDEV_MAGIC_def SOTFS_BLKDEV_VERSION_def\<close>)

lemma sb_prefix:
  assumes "g_total_blocks b \<le> 131072"
  shows "sb_magic (sb_decode (sb_encode (blk_sb b))) = SOTFS_BLKDEV_MAGIC"
    "sb_version (sb_decode (sb_encode (blk_sb b))) = SOTFS_BLKDEV_VERSION"
    "sb_total_blocks (sb_decode (sb_encode (blk_sb b))) = g_total_blocks b"
  using assms by (simp_all add: sb_decode_def sb_encode_def blk_sb_def le_nat_le_bytes SOTFS_BLKDEV_MAGIC_def SOTFS_BLKDEV_VERSION_def)

lemma slot_ok_empty: "slot_ok img b empty_slot"
  by (simp add: slot_ok_def empty_slot_def)

lemma view_reset: "g_cache b = (\<lambda>_. empty_slot) \<Longrightarrow> n \<noteq> 0 \<Longrightarrow> blk_view img b n = disk_block img b n"
  by (rule view_uncached) (simp add: empty_slot_def)

lemma blk_ok_empty_cache:
  assumes "geometry_ok cap b" "g_used b = bitmap_popcount b" "g_cache b = (\<lambda>_. empty_slot)"
  shows "blk_ok img cap b"
  by (rule blk_okI) (use assms slot_ok_empty in \<open>auto simp: empty_slot_def\<close>)

lemma compute_reset_layout: "same_layout (blkdev_reset (compute_geometry b off bytes)) (compute_geometry b' off bytes)"
  by (simp add: same_layout_def blkdev_reset_def compute_geometry_def Let_def)

context storage
begin

lemma blk_run_refines:
  "blk_ok img cap b \<Longrightarrow> meta_ok img b \<Longrightarrow> list_all blk_op_ok os \<Longrightarrow> blk_run ops os b = (rs, b') \<Longrightarrow>
     blk_ok img cap b' \<and> meta_ok img b' \<and> same_layout b' b \<and> blk_trace (absblk_of img b) os rs (absblk_of img b')"
proof (induction os arbitrary: b rs)
  case Nil
  then show ?case by (simp add: blk_trace_Nil same_layout_def)
next
  case (Cons op os)
  obtain r b1 rs1 where s: "blk_step ops op b = (r, b1)" "blk_run ops os b1 = (rs1, b')" "rs = r # rs1"
    using Cons.prems(4) by (auto split: prod.splits)
  have o: "blk_op_ok op" "list_all blk_op_ok os" using Cons.prems(3) by auto
  note st = blk_step_refines [OF Cons.prems(1,2) o(1) s(1)]
  have "blk_ok img cap b' \<and> meta_ok img b' \<and> same_layout b' b1 \<and> blk_trace (absblk_of img b1) os rs1 (absblk_of img b')"
    by (rule Cons.IH) (use st o(2) s(2) in auto)
  then show ?case using st s(3) by (auto simp: same_layout_def intro: blk_trace_Cons)
qed

lemma format_ok:
  assumes f: "off + bytes \<le> cap" and z: "g_total_blocks (compute_geometry b off bytes) \<noteq> 0"
  obtains b' where "sotfs_blkdev_init ops s b off bytes True = (0, b')" "blk_ok img cap b'" "meta_ok img b'"
    "same_layout b' (compute_geometry b off bytes)" "blk_used_set b' = {}" "\<forall>a<off. img (g_st b') a = img s a"
proof -
  define c where "c = compute_geometry (b\<lparr>g_st := s\<rparr>) off bytes"
  define d where "d = (blkdev_reset c)\<lparr>g_bitmap := (\<lambda>_. 0), g_used := 0\<rparr>"
  have lc: "same_layout c (compute_geometry b off bytes)" by (simp add: c_def same_layout_def compute_geometry_def Let_def)
  then have zc: "g_total_blocks c \<noteq> 0" using z by (simp add: same_layout_def)
  note gc = geometry_ok_compute [OF c_def zc f]
  have ld: "same_layout d c" by (simp add: d_def same_layout_def blkdev_reset_def)
  note sd = same_layoutD [OF ld]
  have g: "geometry_ok cap d" using gc(1) sd(4) by blast
  have ro: "g_region_off d = off" "g_region_off c = off" using gc(2) ld by (simp_all add: same_layout_def)
  have gg: "g_bitmap_off d = off + SOTFS_BLKDEV_BLOCK_SIZE" "g_bitmap_off d + bitmap_phys d \<le> cap"
    using g ro by (simp_all add: geometry_ok_def)
  have "off + length (sb_encode (blk_sb d)) \<le> cap" using gg by simp
  then obtain s1 where s1: "st_write ops d off (sb_encode (blk_sb d)) = (0, d\<lparr>g_st := s1\<rparr>)"
    "img s1 = put_bytes (img (g_st d)) off (sb_encode (blk_sb d))" by (rule st_write_ok)
  let ?bm = "get_bytes (g_bitmap d) 0 (bitmap_phys d)"
  have "g_bitmap_off d + length ?bm \<le> cap" using gg by simp
  then obtain s2 where s2: "st_write ops (d\<lparr>g_st := s1\<rparr>) (g_bitmap_off d) ?bm = (0, d\<lparr>g_st := s2\<rparr>)"
    "img s2 = put_bytes (img s1) (g_bitmap_off d) ?bm" by (rule st_write_ok [of _ _ "d\<lparr>g_st := s1\<rparr>"]) auto
  let ?e = "d\<lparr>g_st := s2\<rparr>"
  have le: "same_layout ?e d" by (simp add: same_layout_def)
  have "sotfs_blkdev_init ops s b off bytes True = (0, ?e)"
    using zc s1(1) s2(1) ro unfolding sotfs_blkdev_init_def c_def [symmetric] Let_def
    by (simp add: needs_format_def blkdev_format_def Let_def) (simp add: d_def blk_sb_def blkdev_reset_def bitmap_phys_def)
  moreover have ue: "blk_used_set ?e = {}" by (simp add: blk_used_set_def bit_get_def d_def)
  moreover have "blk_ok img cap ?e"
    by (rule blk_ok_empty_cache) (use g same_layoutD(4) [OF le] ue in \<open>simp_all add: popcount_card\<close>, simp_all add: d_def blkdev_reset_def)
  moreover have "meta_ok img ?e"
  proof -
    have "get_bytes (img s2) off SOTFS_BLKDEV_BLOCK_SIZE = sb_encode (blk_sb d)"
      using get_put_other [of off SOTFS_BLKDEV_BLOCK_SIZE "g_bitmap_off d" ?bm "img s1"]
        get_put_same [of "sb_encode (blk_sb d)" SOTFS_BLKDEV_BLOCK_SIZE "img (g_st d)" off] gg by (simp add: s1(2) s2(2))
    moreover have "get_bytes (img s2) (g_bitmap_off d) (bitmap_phys d) = ?bm"
      using get_put_same [of ?bm "bitmap_phys d"] by (simp add: s2(2))
    ultimately show ?thesis using ro same_layoutD(3) [OF le] by (simp add: meta_ok_def blk_sb_def)
  qed
  moreover have "same_layout ?e (compute_geometry b off bytes)" using le ld lc by (simp add: same_layout_def)
  moreover have "\<forall>a<off. img (g_st ?e) a = img s a"
  proof -
    have "g_st d = s" by (simp add: d_def blkdev_reset_def c_def compute_geometry_def Let_def)
    then show ?thesis using gg(1) by (simp add: s1(2) s2(2) put_bytes_def)
  qed
  ultimately show thesis using that by blast
qed

end

context storage
begin

lemma attach_ok:
  assumes m: "meta_ok img b" and d: "\<not> g_bitmap_dirty b"
    and l: "same_layout b (compute_geometry x off bytes)" and f: "off + bytes \<le> cap" and z: "g_total_blocks b \<noteq> 0"
  obtains c where "sotfs_blkdev_init ops (g_st b) x off bytes False = (0, c)" "blk_ok img cap c" "meta_ok img c"
    "same_layout c b" "blk_used_set c = blk_used_set b" "\<And>n. blk_valid b n \<Longrightarrow> blk_view img c n = disk_block img b n"
proof -
  define e where "e = blkdev_reset (compute_geometry (x\<lparr>g_st := g_st b\<rparr>) off bytes)"
  have le: "same_layout e b" using l compute_reset_layout [of "x\<lparr>g_st := g_st b\<rparr>" off bytes x]
    by (simp add: e_def same_layout_def)
  have st: "g_st e = g_st b" and ca: "g_cache e = (\<lambda>_. empty_slot)" and di: "\<not> g_bitmap_dirty e"
    by (simp_all add: e_def blkdev_reset_def compute_geometry_def Let_def)
  define y where "y = compute_geometry x off bytes"
  have ly: "same_layout b y" using l by (simp add: y_def)
  have zy: "g_total_blocks y \<noteq> 0" using z ly by (simp add: same_layout_def)
  note gy = geometry_ok_compute [OF y_def zy f]
  have g: "geometry_ok cap b" using gy(1) same_layoutD(4) [OF ly] by blast
  have ro: "g_region_off b = off" and tb: "g_total_blocks b \<le> 131072" using gy(2,3) ly by (simp_all add: same_layout_def)
  have gg: "g_bitmap_off b = off + SOTFS_BLKDEV_BLOCK_SIZE" "g_bitmap_off b + bitmap_phys b \<le> cap" "g_total_blocks b \<le> 8 * bitmap_phys b"
    using g ro by (simp_all add: geometry_ok_def)
  have ph: "bitmap_phys e = bitmap_phys b" by (rule same_layoutD(3) [OF le])
  have r1: "st_read ops e off SOTFS_BLKDEV_BLOCK_SIZE = (0, sb_encode (blk_sb b))"
    using st_read_ok [of off SOTFS_BLKDEV_BLOCK_SIZE e] gg m ro st by (simp add: meta_ok_def)
  have r2: "st_read ops e (g_bitmap_off b) (bitmap_phys b) = (0, get_bytes (g_bitmap b) 0 (bitmap_phys b))"
    using st_read_ok [of "g_bitmap_off b" "bitmap_phys b" e] gg m d st by (simp add: meta_ok_def)
  define c1 where "c1 = e\<lparr>g_bitmap := put_bytes (\<lambda>_. 0) 0 (get_bytes (g_bitmap b) 0 (bitmap_phys b))\<rparr>"
  define c where "c = c1\<lparr>g_used := bitmap_popcount c1\<rparr>"
  have lc: "same_layout c e" "g_st c = g_st e" "g_cache c = g_cache e" "g_bitmap c = g_bitmap c1" "g_bitmap_dirty c = g_bitmap_dirty e"
    by (simp_all add: c_def c1_def same_layout_def)
  have lcb: "same_layout c b" using lc(1) le by (simp add: same_layout_def)
  have eb: "g_region_off e = off" "g_bitmap_off e = g_bitmap_off b" "g_total_blocks e = g_total_blocks b"
    using le ro by (simp_all add: same_layout_def)
  have at: "blkdev_attach ops e = (0, c)"
    unfolding blkdev_attach_def eb ph r1 r2 using sb_prefix [OF tb]
    by (simp add: Let_def c1_def [symmetric] c_def [symmetric])
  have "sotfs_blkdev_init ops (g_st b) x off bytes False = blkdev_attach ops e"
  proof -
    have "g_total_blocks (compute_geometry (x\<lparr>g_st := g_st b\<rparr>) off bytes) = g_total_blocks e"
      by (simp add: e_def blkdev_reset_def)
    then show ?thesis using z eb(3) r1 sb_prefix(1) [OF tb]
      unfolding sotfs_blkdev_init_def Let_def e_def [symmetric] needs_format_def by simp
  qed
  then have i: "sotfs_blkdev_init ops (g_st b) x off bytes False = (0, c)" using at by simp
  have gb: "g_bitmap c1 k = g_bitmap b k" if "k < bitmap_phys b" for k using that by (simp add: c1_def put_bytes_def)
  have "bit_get c k = bit_get b k" if "k < g_total_blocks b" for k
    using that gg(3) gb [of "k div 8"] by (simp add: bit_get_def lc(4))
  then have u: "blk_used_set c = blk_used_set b" using lcb by (auto simp: blk_used_set_def same_layout_def)
  have "bit_get c = bit_get c1" by (simp add: bit_get_def lc(4) fun_eq_iff)
  then have "bitmap_popcount c1 = bitmap_popcount c" unfolding bitmap_popcount_def by (simp add: c_def)
  then have ok: "blk_ok img cap c"
    using blk_ok_empty_cache [of cap c img] g same_layoutD(4) [OF lcb, of cap] lc(3) ca by (simp add: c_def)
  have "get_bytes (g_bitmap c) 0 (bitmap_phys b) = get_bytes (g_bitmap b) 0 (bitmap_phys b)"
    by (rule get_bytes_cong) (simp add: lc(4) gb)
  then have mc: "meta_ok img c"
    using m d lc(2) st same_layoutD(3) [OF lcb] lcb by (simp add: meta_ok_def blk_sb_def same_layout_def)
  have "blk_view img c n = disk_block img b n" if "blk_valid b n" for n
  proof -
    have "blk_view img c n = disk_block img c n" by (rule view_reset) (use lc(3) ca that in \<open>simp_all add: blk_valid_def\<close>)
    then show ?thesis using lc(2) st same_layoutD(2) [OF lcb] by (simp add: disk_block_def)
  qed
  then show thesis using that i ok mc lcb u by blast
qed

lemma remount_ok:
  assumes ok: "blk_ok img cap b" and m: "meta_ok img b"
    and l: "same_layout b (compute_geometry x off bytes)" and f: "off + bytes \<le> cap" and z: "g_total_blocks b \<noteq> 0"
  obtains c where "sotfs_blkdev_init ops (g_st (sotfs_blk_flush ops b)) x off bytes False = (0, c)"
    "blk_ok img cap c" "meta_ok img c" "absblk_of img c = absblk_of img b" "sotfs_blk_used c = sotfs_blk_used b"
proof -
  obtain b' where b': "sotfs_blk_flush ops b = b'" "blk_ok img cap b'" "meta_ok img b'" "same_alloc b' b" "\<not> g_bitmap_dirty b'"
    "\<And>m. blk_valid b m \<Longrightarrow> disk_block img b' m = blk_view img b m" by (rule flush_ok [OF ok m]) blast
  have lb: "same_layout b' b" using b'(4) by (simp add: same_alloc_def)
  have l': "same_layout b' (compute_geometry x off bytes)" and z': "g_total_blocks b' \<noteq> 0" using l lb z by (simp_all add: same_layout_def)
  obtain c where c: "sotfs_blkdev_init ops (g_st b') x off bytes False = (0, c)" "blk_ok img cap c" "meta_ok img c"
    "same_layout c b'" "blk_used_set c = blk_used_set b'" "\<And>n. blk_valid b' n \<Longrightarrow> blk_view img c n = disk_block img b' n"
    by (rule attach_ok [OF b'(3,5) l' f z']) blast
  have v: "blk_valid c = blk_valid b" "blk_valid b' = blk_valid b"
    using same_layoutD(1) [OF c(4)] same_layoutD(1) [OF lb] by simp_all
  have u: "blk_used_set c = blk_used_set b" using c(5) used_set_same [OF b'(4)] by simp
  have "(\<lambda>n. if blk_valid c n then blk_view img c n else []) = (\<lambda>n. if blk_valid b n then blk_view img b n else [])"
    using c(6) b'(6) v by (auto simp: fun_eq_iff)
  then have "absblk_of img c = absblk_of img b"
    using u c(4) lb by (simp add: absblk_of_def same_layout_def)
  moreover have "sotfs_blk_used c = sotfs_blk_used b"
    using blk_okD(2) [OF c(2)] blk_okD(2) [OF ok] u by (simp add: sotfs_blk_used_def popcount_card)
  ultimately show thesis using that c(1-3) b'(1) by simp
qed

end

definition mem_rd :: "(nat \<Rightarrow> u8) sector_read" where
  "mem_rd m s = Some (get_bytes m (VBLK_SECTOR_SIZE * s) VBLK_SECTOR_SIZE)"

definition mem_wr :: "(nat \<Rightarrow> u8) sector_write" where
  "mem_wr m s bs = (True, put_bytes m (VBLK_SECTOR_SIZE * s) bs)"

definition blank_dev :: "(nat \<Rightarrow> u8) blkdev" where
  "blank_dev = \<lparr>g_st = (\<lambda>_. 0), g_region_off = 0, g_total_blocks = 0, g_bitmap_off = 0, g_bitmap_bytes = 0, g_heap_off = 0,
     g_used = 0, g_bitmap_dirty = False, g_bitmap = (\<lambda>_. 0), g_cache = (\<lambda>_. empty_slot), g_lru_tick = 0\<rparr>"

lemma mem_sector_ok: "sector_ok mem_rd mem_wr (\<lambda>m. m)"
  by (simp add: sector_ok_def mem_rd_def mem_wr_def)

lemma mem_total: "g_total_blocks (compute_geometry b off 65536) \<noteq> 0"
proof -
  have "1 \<le> geometry_loop 61440 15" by (rule geometry_loop_max) (simp_all add: round_up_4k_def SOTFS_BLKDEV_BLOCK_SIZE_def)
  then show ?thesis by (simp add: compute_geometry_def Let_def SOTFS_BLKDEV_BLOCK_SIZE_def BLKDEV_BITMAP_MAX_def)
qed

lemma mem_store:
  obtains b where "sotfs_blkdev_init (vblk_ops mem_rd mem_wr) (\<lambda>_. 0) blank_dev 0 65536 True = (0, b)"
    "a_used (absblk_of (\<lambda>m. m) b) = {}" "0 < a_total (absblk_of (\<lambda>m. m) b)"
proof -
  have st: "storage (vblk_ops mem_rd mem_wr) (\<lambda>m. m) VBLK_CAPACITY" by (rule vblk_storage [OF mem_sector_ok])
  have f: "0 + 65536 \<le> VBLK_CAPACITY" by (simp add: limits)
  obtain b where b: "sotfs_blkdev_init (vblk_ops mem_rd mem_wr) (\<lambda>_. 0) blank_dev 0 65536 True = (0, b)"
    "same_layout b (compute_geometry blank_dev 0 65536)" "blk_used_set b = {}"
    by (rule storage.format_ok [OF st f mem_total])
  then show thesis using that mem_total [of blank_dev 0] by (simp add: absblk_of_def same_layout_def)
qed

inductive_cases blk_trace_ConsE: "blk_trace a (op # os) rs a'"
inductive_cases blk_trace_NilE: "blk_trace a [] rs a'"

text \<open>
  C29. Over every faithful sector device, a store formatted in a region of the image behaves,
  for every sequence of allocations, frees, whole-block reads and writes and flushes, as the
  abstract store: an allocation returns an unused block number and fails only when all are
  used, a read returns the last block written, whatever the cache evicted in between.
\<close>

theorem blkdev_refines_store:
  assumes d: "sector_ok rd wr img" and f: "off + bytes \<le> VBLK_CAPACITY" and os: "list_all blk_op_ok os"
    and i: "sotfs_blkdev_init (vblk_ops rd wr) s x off bytes True = (0, b)"
    and r: "blk_run (vblk_ops rd wr) os b = (rs, b')"
  shows "blk_trace (absblk_of img b) os rs (absblk_of img b')"
proof -
  have st: "storage (vblk_ops rd wr) img VBLK_CAPACITY" by (rule vblk_storage [OF d])
  have z: "g_total_blocks (compute_geometry x off bytes) \<noteq> 0"
    using i by (auto simp: sotfs_blkdev_init_def Let_def compute_geometry_def split: if_splits)
  obtain c where c: "sotfs_blkdev_init (vblk_ops rd wr) s x off bytes True = (0, c)" "blk_ok img VBLK_CAPACITY c" "meta_ok img c"
    by (rule storage.format_ok [OF st f z])
  then have "blk_ok img VBLK_CAPACITY b" "meta_ok img b" using i by auto
  from storage.blk_run_refines [OF st this os r] show ?thesis by blast
qed

theorem blkdev_refines_store_witness:
  "\<exists>b b'. sotfs_blkdev_init (vblk_ops mem_rd mem_wr) (\<lambda>_. 0) blank_dev 0 65536 True = (0, b) \<and>
     blk_run (vblk_ops mem_rd mem_wr) [BAlloc, BWrite 1 (replicate 4096 7), BRead 1] b =
       ([(1, []), (0, []), (0, replicate 4096 7)], b')"
proof -
  let ?os = "[BAlloc, BWrite 1 (replicate 4096 7), BRead 1]"
  obtain b where b: "sotfs_blkdev_init (vblk_ops mem_rd mem_wr) (\<lambda>_. 0) blank_dev 0 65536 True = (0, b)"
    "a_used (absblk_of (\<lambda>m. m) b) = {}" "0 < a_total (absblk_of (\<lambda>m. m) b)" by (rule mem_store)
  obtain rs b' where r: "blk_run (vblk_ops mem_rd mem_wr) ?os b = (rs, b')" by fastforce
  have "blk_trace (absblk_of (\<lambda>m. m) b) ?os rs (absblk_of (\<lambda>m. m) b')"
    by (rule blkdev_refines_store [OF mem_sector_ok _ _ b(1) r]) (simp_all add: limits)
  then have "rs = [(1, []), (0, []), (0, replicate 4096 7)]"
    using b(2,3)
    by (auto elim!: blk_trace_ConsE blk_trace_NilE simp: blk_spec_def a_valid_def split: if_splits)
  with b(1) r show ?thesis by blast
qed

text \<open>
  C30. Persistence: when a store was formatted and used in any way, then flushed, a fresh
  process that initialises its store on the same region of the device without formatting
  finds the same blocks, the same used block numbers and the same usage count.
\<close>

theorem blkdev_survives_remount:
  assumes d: "sector_ok rd wr img" and f: "off + bytes \<le> VBLK_CAPACITY" and os: "list_all blk_op_ok os"
    and i: "sotfs_blkdev_init (vblk_ops rd wr) s x off bytes True = (0, b)"
    and r: "blk_run (vblk_ops rd wr) os b = (rs, b')"
  shows "\<exists>c. sotfs_blkdev_init (vblk_ops rd wr) (g_st (sotfs_blk_flush (vblk_ops rd wr) b')) y off bytes False = (0, c) \<and>
    absblk_of img c = absblk_of img b' \<and> sotfs_blk_used c = sotfs_blk_used b'"
proof -
  have st: "storage (vblk_ops rd wr) img VBLK_CAPACITY" by (rule vblk_storage [OF d])
  have z: "g_total_blocks (compute_geometry x off bytes) \<noteq> 0"
    using i by (auto simp: sotfs_blkdev_init_def Let_def compute_geometry_def split: if_splits)
  obtain c where c: "sotfs_blkdev_init (vblk_ops rd wr) s x off bytes True = (0, c)" "blk_ok img VBLK_CAPACITY c" "meta_ok img c"
    "same_layout c (compute_geometry x off bytes)"
    by (rule storage.format_ok [OF st f z])
  then have b: "blk_ok img VBLK_CAPACITY b" "meta_ok img b" "same_layout b (compute_geometry x off bytes)" using i by auto
  note rr = storage.blk_run_refines [OF st b(1,2) os r]
  have l: "same_layout b' (compute_geometry y off bytes)" "g_total_blocks b' \<noteq> 0"
    using rr b(3) z by (simp_all add: same_layout_def compute_geometry_def Let_def)
  from rr have "blk_ok img VBLK_CAPACITY b'" "meta_ok img b'" by auto
  from storage.remount_ok [OF st this l(1) f l(2)] show ?thesis by metis
qed


theorem blkdev_survives_remount_witness:
  "\<exists>b b' rs c. sotfs_blkdev_init (vblk_ops mem_rd mem_wr) (\<lambda>_. 0) blank_dev 0 65536 True = (0, b) \<and>
     blk_run (vblk_ops mem_rd mem_wr) [BAlloc, BWrite 1 (replicate 4096 7)] b = (rs, b') \<and>
     sotfs_blkdev_init (vblk_ops mem_rd mem_wr) (g_st (sotfs_blk_flush (vblk_ops mem_rd mem_wr) b')) blank_dev 0 65536 False = (0, c) \<and>
     absblk_of (\<lambda>m. m) c = absblk_of (\<lambda>m. m) b'"
proof -
  obtain b where b: "sotfs_blkdev_init (vblk_ops mem_rd mem_wr) (\<lambda>_. 0) blank_dev 0 65536 True = (0, b)" by (rule mem_store)
  obtain rs b' where r: "blk_run (vblk_ops mem_rd mem_wr) [BAlloc, BWrite 1 (replicate 4096 7)] b = (rs, b')" by fastforce
  have "\<exists>c. sotfs_blkdev_init (vblk_ops mem_rd mem_wr) (g_st (sotfs_blk_flush (vblk_ops mem_rd mem_wr) b')) blank_dev 0 65536 False = (0, c) \<and>
      absblk_of (\<lambda>m. m) c = absblk_of (\<lambda>m. m) b' \<and> sotfs_blk_used c = sotfs_blk_used b'"
    by (rule blkdev_survives_remount [OF mem_sector_ok _ _ b r]) (simp_all add: limits)
  with b r show ?thesis by blast
qed

end
