(* ===== verification/SotfsIo.thy ===== *)
theory SotfsIo
  imports SotfsRewrite BlkdevSafety
begin

text \<open>
  File input and output of sotFS (\<^verbatim>\<open>src/sotfs/io.c\<close>) and the block mappings of the graph
  (\<open>sotfs_alloc_block\<close> and \<open>sotfs_free_block\<close> of \<^verbatim>\<open>src/sotfs/graph.c\<close>) over the block store. The
  global store is threaded explicitly. File offsets are 32-bit: they are naturals here with
  the wrap-around written out where the code adds.
\<close>

subsection \<open>Block mappings\<close>

definition sotfs_alloc_block :: "sotfs_graph \<Rightarrow> 's blkdev \<Rightarrow> int \<Rightarrow> nat \<Rightarrow> int \<times> sotfs_graph \<times> 's blkdev" where
  "sotfs_alloc_block g b file_id offset =
     (case ring_idx (\<lambda>slot. b_id (blocks g slot) = 0) (next_block_hint g) SOTFS_MAX_BLOCKS of
        None \<Rightarrow> (0, g, b)
      | Some slot \<Rightarrow>
          (case (if sotfs_blk_total b \<noteq> 0 then sotfs_blk_alloc b else (0, b)) of
             (disk_blk, b1) \<Rightarrow>
               if sotfs_blk_total b \<noteq> 0 \<and> disk_blk = 0 then (0, g, b1)
               else (int slot + 1,
                     g\<lparr>blocks := (blocks g)(slot := \<lparr>b_id = int slot + 1, b_file_id = file_id,
                           b_offset = of_nat offset, b_length = 0, b_disk_blk = disk_blk\<rparr>),
                       next_block_hint := (slot + 1) mod SOTFS_MAX_BLOCKS\<rparr>, b1)))"

definition sotfs_free_block :: "sotfs_graph \<Rightarrow> 's blkdev \<Rightarrow> int \<Rightarrow> sotfs_graph \<times> 's blkdev" where
  "sotfs_free_block g b n =
     (case block_slot n of
        None \<Rightarrow> (g, b)
      | Some slot \<Rightarrow> (g\<lparr>blocks := (blocks g)(slot := zero_block)\<rparr>, sotfs_blk_free b (b_disk_blk (blocks g slot))))"

definition find_block :: "sotfs_graph \<Rightarrow> int \<Rightarrow> nat \<Rightarrow> int" where
  "find_block g file_id aligned_offset =
     (case first_idx (\<lambda>i. b_id (blocks g i) \<noteq> 0 \<and> b_file_id (blocks g i) = file_id \<and>
                          b_offset (blocks g i) = of_nat aligned_offset) 0 SOTFS_MAX_BLOCKS of
        None \<Rightarrow> 0
      | Some i \<Rightarrow> b_id (blocks g i))"


subsection \<open>Writing\<close>

definition check_file :: "sotfs_graph \<Rightarrow> int \<Rightarrow> int" where
  "check_file g n =
     (case inode_slot n of
        None \<Rightarrow> SOTFS_ERR_NOENT
      | Some slot \<Rightarrow>
          if i_id (inodes g slot) = 0 then SOTFS_ERR_NOENT
          else if i_kind (inodes g slot) \<noteq> SOTFS_KIND_FILE then SOTFS_ERR_ISDIR
          else SOTFS_OK)"

text \<open>The current contents of a disk block; an unbacked or unreadable one reads as zeros.\<close>

definition load_page :: "'s sotfs_storage_ops \<Rightarrow> 's blkdev \<Rightarrow> int \<Rightarrow> u8 list \<times> 's blkdev" where
  "load_page ops b disk =
     (if disk = 0 then (replicate SOTFS_BLOCK_SIZE 0, b)
      else case sotfs_blk_read ops b disk of
             ((r, page), b1) \<Rightarrow> (if r \<noteq> 0 then replicate SOTFS_BLOCK_SIZE 0 else page, b1))"

definition store_chunk :: "'s sotfs_storage_ops \<Rightarrow> sotfs_graph \<Rightarrow> 's blkdev \<Rightarrow> nat \<Rightarrow> nat \<Rightarrow> u8 list \<Rightarrow> sotfs_graph \<times> 's blkdev" where
  "store_chunk ops g b slot intra bytes =
     (let disk = b_disk_blk (blocks g slot);
          (page, b1) = load_page ops b disk;
          b2 = (if disk \<noteq> 0 then snd (sotfs_blk_write ops b1 disk (overlay page intra bytes)) else b1);
          end_intra = intra + length bytes;
          g1 = (if unat (b_length (blocks g slot)) < end_intra
                then g\<lparr>blocks := (blocks g)(slot := (blocks g slot)\<lparr>b_length := of_nat end_intra\<rparr>)\<rparr> else g)
      in (g1, b2))"

text \<open>
  The part of a transfer that one block takes: up to the end of the block that holds \<open>cur_off\<close>.
\<close>

definition chunk_at :: "nat \<Rightarrow> nat \<Rightarrow> nat" where
  "chunk_at cur_off rest = min rest (SOTFS_BLOCK_SIZE - cur_off mod SOTFS_BLOCK_SIZE)"

lemma chunk_at_pos: "0 < rest \<Longrightarrow> 0 < chunk_at cur_off rest"
  by (simp add: chunk_at_def SOTFS_BLOCK_SIZE_def)

lemma chunk_at_le: "chunk_at cur_off rest \<le> rest"
  by (simp add: chunk_at_def)

lemma chunk_at_less: "i < n \<Longrightarrow> n - (i + chunk_at cur_off (n - i)) < n - i"
  using chunk_at_pos [of "n - i" cur_off] by linarith

text \<open>
  Find or allocate the block at \<open>blk_off\<close>; at or past the size the file had before the write
  the scan is skipped.
\<close>

definition get_block :: "sotfs_graph \<Rightarrow> 's blkdev \<Rightarrow> int \<Rightarrow> nat \<Rightarrow> nat \<Rightarrow> int \<times> sotfs_graph \<times> 's blkdev" where
  "get_block g b file_id blk_off orig_size =
     (let found = (if orig_size \<le> blk_off then 0 else find_block g file_id blk_off)
      in if found = 0 then sotfs_alloc_block g b file_id blk_off else (found, g, b))"

text \<open>
  The loop of \<open>sotfs_file_write\<close>: the flag tells an early return from the end of the loop.
\<close>

function write_loop :: "'s sotfs_storage_ops \<Rightarrow> int \<Rightarrow> nat \<Rightarrow> u8 list \<Rightarrow> nat \<Rightarrow> nat \<Rightarrow> sotfs_graph \<Rightarrow> 's blkdev \<Rightarrow>
    (bool \<times> int) \<times> sotfs_graph \<times> 's blkdev" where
  "write_loop ops file_id offset buf orig_size written g b =
     (if written < length buf then
        let cur_off = (offset + written) mod 2 ^ 32;
            blk_intra = cur_off mod SOTFS_BLOCK_SIZE;
            blk_off = cur_off - blk_intra;
            chunk = chunk_at cur_off (length buf - written);
            (blk_id, g1, b1) = get_block g b file_id blk_off orig_size
        in if blk_id = 0 then ((True, if 0 < written then int written else SOTFS_ERR_NOSPACE), g1, b1)
           else case block_slot blk_id of
                  None \<Rightarrow> ((True, SOTFS_ERR_INVAL), g1, b1)
                | Some slot \<Rightarrow>
                    (case store_chunk ops g1 b1 slot blk_intra (take chunk (drop written buf)) of
                       (g2, b2) \<Rightarrow> write_loop ops file_id offset buf orig_size (written + chunk) g2 b2)
      else ((False, int written), g, b))"
  by pat_completeness auto
termination
  by (relation "measure (\<lambda>(ops, f, off, buf, orig, written, g, b). length buf - written)")
     (simp_all only: wf_measure in_measure fst_conv snd_conv case_prod_beta chunk_at_less)

declare write_loop.simps [simp del]

definition sotfs_file_write :: "'s sotfs_storage_ops \<Rightarrow> sotfs_graph \<Rightarrow> 's blkdev \<Rightarrow> int \<Rightarrow> nat \<Rightarrow> u8 list \<Rightarrow>
    int \<times> sotfs_graph \<times> 's blkdev" where
  "sotfs_file_write ops g b file_id offset buf =
     (if buf = [] then (0, g, b)
      else if check_file g file_id \<noteq> SOTFS_OK then (check_file g file_id, g, b)
      else
        let slot = nat (file_id - 1) in
        case write_loop ops file_id offset buf (unat (i_size (inodes g slot))) 0 g b of
          ((early, r), g1, b1) \<Rightarrow>
            if early then (r, g1, b1)
            else
              let new_end = (offset + length buf) mod 2 ^ 32;
                  g2 = (if unat (i_size (inodes g1 slot)) < new_end
                        then upd_inode g1 slot (\<lambda>i. i\<lparr>i_size := of_nat new_end\<rparr>) else g1)
              in (r, g2, b1))"


subsection \<open>Reading\<close>

function read_loop :: "'s sotfs_storage_ops \<Rightarrow> sotfs_graph \<Rightarrow> int \<Rightarrow> nat \<Rightarrow> nat \<Rightarrow> nat \<Rightarrow> u8 list \<Rightarrow> 's blkdev \<Rightarrow>
    (int \<times> u8 list) \<times> 's blkdev" where
  "read_loop ops g file_id offset read_len rdone acc b =
     (if rdone < read_len then
        let cur_off = (offset + rdone) mod 2 ^ 32;
            blk_intra = cur_off mod SOTFS_BLOCK_SIZE;
            blk_off = cur_off - blk_intra;
            chunk = chunk_at cur_off (read_len - rdone);
            blk_id = find_block g file_id blk_off
        in if blk_id = 0
           then read_loop ops g file_id offset read_len (rdone + chunk) (acc @ replicate chunk 0) b
           else case block_slot blk_id of
                  None \<Rightarrow> ((SOTFS_ERR_INVAL, acc), b)
                | Some slot \<Rightarrow>
                    (case load_page ops b (b_disk_blk (blocks g slot)) of
                       (page, b1) \<Rightarrow>
                         read_loop ops g file_id offset read_len (rdone + chunk) (acc @ take chunk (drop blk_intra page)) b1)
      else ((int rdone, acc), b))"
  by pat_completeness auto
termination
  by (relation "measure (\<lambda>(ops, g, f, off, rl, rdone, acc, b). rl - rdone)")
     (simp_all only: wf_measure in_measure fst_conv snd_conv case_prod_beta chunk_at_less)

declare read_loop.simps [simp del]

definition sotfs_file_read :: "'s sotfs_storage_ops \<Rightarrow> sotfs_graph \<Rightarrow> 's blkdev \<Rightarrow> int \<Rightarrow> nat \<Rightarrow> nat \<Rightarrow>
    (int \<times> u8 list) \<times> 's blkdev" where
  "sotfs_file_read ops g b file_id offset len =
     (if len = 0 then ((0, []), b)
      else if check_file g file_id \<noteq> SOTFS_OK then ((check_file g file_id, []), b)
      else
        let file_size = unat (i_size (inodes g (nat (file_id - 1)))) in
        if file_size \<le> offset then ((0, []), b)
        else read_loop ops g file_id offset (min (file_size - offset) len) 0 [] b)"

end
