(* ===== verification/SotfsIoOk.thy ===== *)
theory SotfsIoOk
  imports SotfsIo
begin

text \<open>
  The contents of sotFS files as pages: the invariant that ties the block mappings of the graph
  to the block store, and the effect of allocating, loading and storing pages, of the write
  loop and of the read loop, over every storage that keeps its contract.
\<close>

subsection \<open>The pages of the files\<close>

definition at_block :: "sotfs_graph \<Rightarrow> int \<Rightarrow> nat \<Rightarrow> nat \<Rightarrow> bool" where
  "at_block g f k i \<longleftrightarrow> b_id (blocks g i) \<noteq> 0 \<and> b_file_id (blocks g i) = f \<and> b_offset (blocks g i) = of_nat k"

definition mapped :: "sotfs_graph \<Rightarrow> int \<Rightarrow> nat \<Rightarrow> nat option" where
  "mapped g f k = first_idx (at_block g f k) 0 SOTFS_MAX_BLOCKS"

text \<open>Every mapping has its own allocated disk block, and a page of a file is mapped at most once.\<close>

definition io_base :: "('s \<Rightarrow> nat \<Rightarrow> u8) \<Rightarrow> nat \<Rightarrow> sotfs_graph \<Rightarrow> 's blkdev \<Rightarrow> bool" where
  "io_base img cap g b \<longleftrightarrow> blk_ok img cap b \<and> g_total_blocks b \<noteq> 0 \<and>
     (\<forall>i<SOTFS_MAX_BLOCKS. b_id (blocks g i) \<noteq> 0 \<longrightarrow>
        b_id (blocks g i) = int i + 1 \<and> blk_valid b (b_disk_blk (blocks g i)) \<and> bit_get b (nat (b_disk_blk (blocks g i) - 1))) \<and>
     (\<forall>i<SOTFS_MAX_BLOCKS. \<forall>j<SOTFS_MAX_BLOCKS. b_id (blocks g i) \<noteq> 0 \<longrightarrow> b_id (blocks g j) \<noteq> 0 \<longrightarrow>
        b_disk_blk (blocks g i) = b_disk_blk (blocks g j) \<longrightarrow> i = j) \<and>
     (\<forall>f k. \<forall>i<SOTFS_MAX_BLOCKS. \<forall>j<SOTFS_MAX_BLOCKS. at_block g f k i \<longrightarrow> at_block g f k j \<longrightarrow> i = j)"

definition pages :: "('s \<Rightarrow> nat \<Rightarrow> u8) \<Rightarrow> sotfs_graph \<Rightarrow> 's blkdev \<Rightarrow> int \<times> nat \<Rightarrow> u8 list option" where
  "pages img g b = (\<lambda>(f, k). if k < 2 ^ 32 then map_option (\<lambda>i. blk_view img b (b_disk_blk (blocks g i))) (mapped g f k) else None)"

lemma io_baseD:
  assumes "io_base img cap g b"
  shows "blk_ok img cap b" "g_total_blocks b \<noteq> 0"
    "i < SOTFS_MAX_BLOCKS \<Longrightarrow> b_id (blocks g i) \<noteq> 0 \<Longrightarrow> b_id (blocks g i) = int i + 1"
    "i < SOTFS_MAX_BLOCKS \<Longrightarrow> b_id (blocks g i) \<noteq> 0 \<Longrightarrow> blk_valid b (b_disk_blk (blocks g i))"
    "i < SOTFS_MAX_BLOCKS \<Longrightarrow> b_id (blocks g i) \<noteq> 0 \<Longrightarrow> bit_get b (nat (b_disk_blk (blocks g i) - 1))"
    "i < SOTFS_MAX_BLOCKS \<Longrightarrow> j < SOTFS_MAX_BLOCKS \<Longrightarrow> b_id (blocks g i) \<noteq> 0 \<Longrightarrow> b_id (blocks g j) \<noteq> 0 \<Longrightarrow>
       b_disk_blk (blocks g i) = b_disk_blk (blocks g j) \<Longrightarrow> i = j"
    "i < SOTFS_MAX_BLOCKS \<Longrightarrow> j < SOTFS_MAX_BLOCKS \<Longrightarrow> at_block g f k i \<Longrightarrow> at_block g f k j \<Longrightarrow> i = j"
  using assms unfolding io_base_def by simp_all

lemma mapped_SomeD: "mapped g f k = Some i \<Longrightarrow> i < SOTFS_MAX_BLOCKS \<and> at_block g f k i"
  unfolding mapped_def by (drule first_idx_SomeD) simp

lemma mapped_NoneD: "mapped g f k = None \<Longrightarrow> i < SOTFS_MAX_BLOCKS \<Longrightarrow> \<not> at_block g f k i"
  unfolding mapped_def by (drule first_idx_NoneD) simp_all

lemma mappedI:
  assumes "io_base img cap g b" "i < SOTFS_MAX_BLOCKS" "at_block g f k i"
  shows "mapped g f k = Some i"
  unfolding mapped_def
  by (rule first_idx_unique) (use assms io_baseD(7) [OF assms(1)] in \<open>auto\<close>)

lemma mapped_cong: "(\<And>i. i < SOTFS_MAX_BLOCKS \<Longrightarrow> at_block g f k i = at_block h f k i) \<Longrightarrow> mapped g f k = mapped h f k"
  unfolding mapped_def by (rule first_idx_cong) simp

lemma find_block_mapped:
  assumes "io_base img cap g b"
  shows "find_block g f k = (case mapped g f k of None \<Rightarrow> 0 | Some i \<Rightarrow> int i + 1)"
proof (cases "mapped g f k")
  case None
  then show ?thesis by (simp add: find_block_def mapped_def at_block_def [abs_def])
next
  case (Some i)
  then have "b_id (blocks g i) = int i + 1" using io_baseD(3) [OF assms] mapped_SomeD [OF Some] by (simp add: at_block_def)
  then show ?thesis using Some by (simp add: find_block_def mapped_def at_block_def [abs_def])
qed

lemma pages_Some:
  assumes "io_base img cap g b" "pages img g b (f, k) = Some p"
  shows "\<exists>i. mapped g f k = Some i \<and> i < SOTFS_MAX_BLOCKS \<and> at_block g f k i \<and> blk_valid b (b_disk_blk (blocks g i)) \<and>
    p = blk_view img b (b_disk_blk (blocks g i))"
proof -
  obtain i where i: "mapped g f k = Some i" "p = blk_view img b (b_disk_blk (blocks g i))" using assms(2) by (auto simp: pages_def split: if_splits)
  with mapped_SomeD [OF i(1)] io_baseD(4) [OF assms(1), of i] show ?thesis by (simp add: at_block_def)
qed

text \<open>What writing a page may change of the graph: the length of a mapping.\<close>

definition same_maps :: "sotfs_graph \<Rightarrow> sotfs_graph \<Rightarrow> bool" where
  "same_maps g h \<longleftrightarrow> inodes g = inodes h \<and> (\<forall>i. b_id (blocks g i) = b_id (blocks h i) \<and> b_file_id (blocks g i) = b_file_id (blocks h i) \<and>
     b_offset (blocks g i) = b_offset (blocks h i) \<and> b_disk_blk (blocks g i) = b_disk_blk (blocks h i))"

lemma same_maps_at: "same_maps g h \<Longrightarrow> at_block g f k i = at_block h f k i"
  by (simp add: same_maps_def at_block_def)

lemma same_maps_mapped: "same_maps g h \<Longrightarrow> mapped g f k = mapped h f k"
  by (rule mapped_cong) (rule same_maps_at)

lemma pages_blocks:
  assumes "blocks g = blocks h"
  shows "pages img g b = pages img h b"
proof -
  have "mapped g = mapped h" using assms by (simp add: mapped_def at_block_def [abs_def] fun_eq_iff)
  then show ?thesis using assms unfolding pages_def by (simp only:)
qed

lemma io_base_same:
  assumes "io_base img cap g b" "same_maps g' g" "blk_ok img cap b'" "same_meta img b' b"
  shows "io_base img cap g' b'"
proof -
  have sa: "same_alloc b' b" using assms(4) by (simp add: same_meta_def)
  have l: "same_layout b' b" by (rule same_allocD(1) [OF sa])
  have t: "g_total_blocks b' = g_total_blocks b" using l by (simp add: same_layout_def)
  show ?thesis
    using assms(1,3) assms(2) [unfolded same_maps_def] t same_layoutD(1) [OF l] same_allocD(4) [OF sa] same_maps_at [OF assms(2)]
    unfolding io_base_def by simp
qed

lemma pages_cong:
  assumes "io_base img cap g b" "same_maps g' g" "\<And>m. blk_valid b m \<Longrightarrow> blk_view img b' m = blk_view img b m"
  shows "pages img g' b' = pages img g b"
proof (rule ext, clarify)
  fix f k
  show "pages img g' b' (f, k) = pages img g b (f, k)"
  proof (cases "mapped g f k")
    case None
    then show ?thesis using same_maps_mapped [OF assms(2)] by (simp add: pages_def)
  next
    case (Some i)
    then have "blk_valid b (b_disk_blk (blocks g i))" using mapped_SomeD [OF Some] io_baseD(4) [OF assms(1)] by (simp add: at_block_def)
    then show ?thesis using Some same_maps_mapped [OF assms(2)] assms(2,3) by (simp add: pages_def same_maps_def)
  qed
qed

subsection \<open>Allocating a page\<close>

lemma alloc_block_ok:
  assumes ok: "io_base img cap g b" and n: "mapped g f k = None" and a: "sotfs_alloc_block g b f k = (n, g', b')"
  shows "n = 0 \<Longrightarrow> g' = g \<and> b' = b \<and>
      ((\<forall>i<SOTFS_MAX_BLOCKS. b_id (blocks g i) \<noteq> 0) \<or> (\<forall>i<g_total_blocks b. bit_get b i))"
    and "n \<noteq> 0 \<Longrightarrow> \<exists>i<SOTFS_MAX_BLOCKS. n = int i + 1 \<and> b_id (blocks g i) = 0 \<and> inodes g' = inodes g \<and>
      (\<forall>j. j \<noteq> i \<longrightarrow> blocks g' j = blocks g j) \<and> at_block g' f k i \<and> blocks g' i = (blocks g' i)\<lparr>b_id := int i + 1, b_length := 0\<rparr> \<and>
      blk_ok img cap b' \<and> same_layout b' b \<and> blk_view img b' = blk_view img b \<and>
      blk_valid b (b_disk_blk (blocks g' i)) \<and> \<not> bit_get b (nat (b_disk_blk (blocks g' i) - 1)) \<and>
      blk_used_set b' = insert (nat (b_disk_blk (blocks g' i) - 1)) (blk_used_set b)"
proof -
  let ?P = "\<lambda>slot. b_id (blocks g slot) = 0"
  have t: "sotfs_blk_total b \<noteq> 0" using io_baseD(2) [OF ok] by (simp add: sotfs_blk_total_def)
  have t': "0 < sotfs_blk_total b" using t by simp
  obtain d b1 where d: "sotfs_blk_alloc b = (d, b1)" by fastforce
  note al = blk_alloc_ok [OF io_baseD(1) [OF ok] d]
  show "n = 0 \<Longrightarrow> g' = g \<and> b' = b \<and> ((\<forall>i<SOTFS_MAX_BLOCKS. b_id (blocks g i) \<noteq> 0) \<or> (\<forall>i<g_total_blocks b. bit_get b i))"
  proof (cases "ring_idx ?P (next_block_hint g) SOTFS_MAX_BLOCKS")
    case None
    then show "n = 0 \<Longrightarrow> ?thesis" using a iffD1 [OF ring_idx_None_iff None] by (simp add: sotfs_alloc_block_def)
  next
    case (Some slot)
    assume "n = 0"
    then have "d = 0" "g' = g" "b' = b1" using a Some d t by (auto simp: sotfs_alloc_block_def split: if_splits)
    then show ?thesis using al(6) by simp
  qed
  show "n \<noteq> 0 \<Longrightarrow> \<exists>i<SOTFS_MAX_BLOCKS. n = int i + 1 \<and> b_id (blocks g i) = 0 \<and> inodes g' = inodes g \<and>
      (\<forall>j. j \<noteq> i \<longrightarrow> blocks g' j = blocks g j) \<and> at_block g' f k i \<and> blocks g' i = (blocks g' i)\<lparr>b_id := int i + 1, b_length := 0\<rparr> \<and>
      blk_ok img cap b' \<and> same_layout b' b \<and> blk_view img b' = blk_view img b \<and>
      blk_valid b (b_disk_blk (blocks g' i)) \<and> \<not> bit_get b (nat (b_disk_blk (blocks g' i) - 1)) \<and>
      blk_used_set b' = insert (nat (b_disk_blk (blocks g' i) - 1)) (blk_used_set b)"
  proof -
    assume nz: "n \<noteq> 0"
    then obtain slot where s: "ring_idx ?P (next_block_hint g) SOTFS_MAX_BLOCKS = Some slot"
      using a by (auto simp: sotfs_alloc_block_def split: option.splits)
    have "d \<noteq> 0" using a s d t nz by (auto simp: sotfs_alloc_block_def)
    then have eq: "n = int slot + 1" "b' = b1" "g' = g\<lparr>blocks := (blocks g)(slot := \<lparr>b_id = int slot + 1, b_file_id = f,
                           b_offset = of_nat k, b_length = 0, b_disk_blk = d\<rparr>),
                       next_block_hint := (slot + 1) mod SOTFS_MAX_BLOCKS\<rparr>"
      using a s d t by (auto simp: sotfs_alloc_block_def)
    have x: "b_disk_blk (blocks g' slot) = d" "inodes g' = inodes g" "\<And>j. j \<noteq> slot \<Longrightarrow> blocks g' j = blocks g j"
      "at_block g' f k slot" "blocks g' slot = (blocks g' slot)\<lparr>b_id := int slot + 1, b_length := 0\<rparr>"
      by (simp_all add: eq(3) at_block_def)
    show ?thesis
      by (rule exI [of _ slot]) (use ring_idx_SomeD [OF s] al(1-4) al(5) [OF \<open>d \<noteq> 0\<close>] eq(1,2) x in auto)
  qed
qed

lemma length_view: "blk_ok img cap b \<Longrightarrow> length (blk_view img b m) = SOTFS_BLOCK_SIZE"
proof (cases "cache_find b m")
  case None
  then show ?thesis by (simp add: blk_view_def disk_block_def limits)
next
  case (Some i)
  assume ok: "blk_ok img cap b"
  have "i < SOTFS_BLKDEV_CACHE_SLOTS" using Some first_idx_SomeD unfolding cache_find_def by blast
  from blk_okD(3) [OF ok this] show ?thesis using Some by (simp add: blk_view_def slot_ok_def limits)
qed

lemma of_nat_inverse_u32: "k < 2 ^ 32 \<Longrightarrow> unat (of_nat k :: u32) = k"
  by (simp add: unat_of_nat take_bit_nat_eq_self)

lemma used_bit: "blk_valid b n \<Longrightarrow> bit_get b (nat (n - 1)) \<longleftrightarrow> nat (n - 1) \<in> blk_used_set b"
  by (auto simp: blk_used_set_def blk_valid_def)

lemma alloc_block_base:
  assumes ok: "io_base img cap g b" and n: "mapped g f k = None" and a: "sotfs_alloc_block g b f k = (n, g', b')" and nz: "n \<noteq> 0"
    and k: "k < 2 ^ 32"
  obtains i p where "mapped g' f k = Some i" "n = int i + 1" "io_base img cap g' b'" "length p = SOTFS_BLOCK_SIZE"
    "pages img g' b' = (pages img g b)((f, k) \<mapsto> p)" "p = blk_view img b (b_disk_blk (blocks g' i))" "inodes g' = inodes g"
    "i < SOTFS_MAX_BLOCKS" "b_id (blocks g i) = 0" "\<forall>j. j \<noteq> i \<longrightarrow> blocks g' j = blocks g j" "at_block g' f k i"
    "same_layout b' b" "\<not> bit_get b (nat (b_disk_blk (blocks g' i) - 1))" "blk_valid b (b_disk_blk (blocks g' i))"
    "blk_used_set b' = insert (nat (b_disk_blk (blocks g' i) - 1)) (blk_used_set b)"
proof -
  from alloc_block_ok(2) [OF ok n a nz] obtain i where i: "i < SOTFS_MAX_BLOCKS" "n = int i + 1" "b_id (blocks g i) = 0"
      "inodes g' = inodes g" "\<And>j. j \<noteq> i \<Longrightarrow> blocks g' j = blocks g j" "at_block g' f k i" 
      "blocks g' i = (blocks g' i)\<lparr>b_id := int i + 1, b_length := 0\<rparr>"
      "blk_ok img cap b'" "same_layout b' b" "blk_view img b' = blk_view img b"
      "blk_valid b (b_disk_blk (blocks g' i))" "\<not> bit_get b (nat (b_disk_blk (blocks g' i) - 1))"
      "blk_used_set b' = insert (nat (b_disk_blk (blocks g' i) - 1)) (blk_used_set b)" by blast
  have v: "blk_valid b' = blk_valid b" by (rule same_layoutD(1) [OF i(9)])
  have id: "b_id (blocks g' i) = int i + 1" using i(7) by (metis sotfs_block.select_convs(1) sotfs_block.surjective sotfs_block.update_convs(1) sotfs_block.update_convs(4))
  have nk: "\<not> at_block g f k j" if "j < SOTFS_MAX_BLOCKS" for j by (rule mapped_NoneD [OF n that])
  have at: "at_block g' f' k' j \<longleftrightarrow> at_block g f' k' j" if "j \<noteq> i" for f' k' j using i(5) [OF that] by (simp add: at_block_def)
  have ati: "at_block g' f' k' i \<longleftrightarrow> f' = f \<and> (of_nat k' :: u32) = of_nat k" for f' k' using i(6) by (auto simp: at_block_def)
  have ati0: "\<not> at_block g f' k' i" for f' k' using i(3) by (simp add: at_block_def)
  have bit: "bit_get b' (nat (m - 1))" if "blk_valid b m" "bit_get b (nat (m - 1))" for m
    using that used_bit [of b m] used_bit [of b' m] i(13) v by simp
  have base: "io_base img cap g' b'"
    unfolding io_base_def
  proof (intro conjI allI impI)
    show "blk_ok img cap b'" by (rule i(8))
    show "g_total_blocks b' \<noteq> 0" using i(9) io_baseD(2) [OF ok] by (simp add: same_layout_def)
    fix j assume j: "j < SOTFS_MAX_BLOCKS" "b_id (blocks g' j) \<noteq> 0"
    show "b_id (blocks g' j) = int j + 1" using id io_baseD(3) [OF ok j(1)] i(5) j(2) by (cases "j = i") auto
    show "blk_valid b' (b_disk_blk (blocks g' j))" using v i(11) io_baseD(4) [OF ok j(1)] i(5) j(2) by (cases "j = i") auto
    show "bit_get b' (nat (b_disk_blk (blocks g' j) - 1))"
    proof (cases "j = i")
      case True
      then show ?thesis using used_bit [of b' "b_disk_blk (blocks g' i)"] v i(11,13) by simp
    next
      case False
      then show ?thesis using bit io_baseD(4,5) [OF ok j(1)] i(5) [OF False] j(2) by simp
    qed
  next
    have d: "b_disk_blk (blocks g' j) \<noteq> b_disk_blk (blocks g' i)" if "j < SOTFS_MAX_BLOCKS" "j \<noteq> i" "b_id (blocks g' j) \<noteq> 0" for j
      using io_baseD(5) [OF ok that(1)] i(5) [OF that(2)] i(12) that(3) by auto
    fix j l assume j: "j < SOTFS_MAX_BLOCKS" and l: "l < SOTFS_MAX_BLOCKS"
    show "j = l" if "b_id (blocks g' j) \<noteq> 0" "b_id (blocks g' l) \<noteq> 0" "b_disk_blk (blocks g' j) = b_disk_blk (blocks g' l)"
    proof (cases "j = i \<or> l = i")
      case True
      then show ?thesis using d [OF j] d [OF l] that by metis
    next
      case False
      then show ?thesis using io_baseD(6) [OF ok j l] i(5) that by simp
    qed
    fix f' k' show "j = l" if x: "at_block g' f' k' j" "at_block g' f' k' l"
    proof (rule ccontr)
      assume ne: "j \<noteq> l"
      have no: False if z: "z < SOTFS_MAX_BLOCKS" "z \<noteq> i" "at_block g' f' k' z" "at_block g' f' k' i" for z
      proof -
        have "at_block g f k z" using z(3,4) at [OF z(2)] ati [of f' k'] by (simp add: at_block_def)
        then show False using nk [OF z(1)] by blast
      qed
      show False
      proof (cases "j = i \<or> l = i")
        case True
        then show ?thesis using no [OF j] no [OF l] x ne by auto
      next
        case False
        then show ?thesis using io_baseD(7) [OF ok j l] at x ne by blast
      qed
    qed
  qed
  have m: "mapped g' f k = Some i" by (rule mappedI [OF base i(1,6)])
  let ?p = "blk_view img b (b_disk_blk (blocks g' i))"
  have "pages img g' b' (f', k') = ((pages img g b)((f, k) \<mapsto> ?p)) (f', k')" for f' k'
  proof (cases "f' = f \<and> k' = k")
    case True
    then show ?thesis using m i(10) k by (simp add: pages_def)
  next
    case False
    show ?thesis
    proof (cases "k' < 2 ^ 32")
      case True
      then have "\<not> at_block g' f' k' i" using False k ati [of f' k'] by (metis of_nat_inverse_u32)
      then have "mapped g' f' k' = mapped g f' k'" using at ati0 by (intro mapped_cong) metis
      moreover have "j \<noteq> i" if "mapped g f' k' = Some j" for j using mapped_SomeD [OF that] ati0 by auto
      ultimately show ?thesis using i(5,10) False True by (cases "mapped g f' k'") (auto simp: pages_def)
    next
      case False
      then show ?thesis using k by (auto simp: pages_def)
    qed
  qed
  then have "pages img g' b' = (pages img g b)((f, k) \<mapsto> ?p)" by auto
  then show thesis using that m i base length_view [OF io_baseD(1) [OF ok]] by blast
qed

subsection \<open>Loading and storing a page\<close>

context storage
begin

lemma load_page_ok:
  assumes ok: "blk_ok img cap b" and v: "blk_valid b d"
  obtains b' where "load_page ops b d = (blk_view img b d, b')" "blk_ok img cap b'" "same_meta img b' b"
    "\<And>m. blk_valid b m \<Longrightarrow> blk_view img b' m = blk_view img b m"
proof -
  from v have d: "d \<noteq> 0" by (simp add: blk_valid_def)
  obtain c where c: "sotfs_blk_read ops b d = ((0, blk_view img b d), c)" "blk_ok img cap c" "same_meta img c b"
    "\<And>m. blk_valid b m \<Longrightarrow> blk_view img c m = blk_view img b m" by (rule blk_read_ok [OF ok v]) blast
  have "load_page ops b d = (blk_view img b d, c)" using c(1) d by (simp add: load_page_def)
  then show thesis by (rule that [OF _ c(2-4)])
qed

lemma store_chunk_ok:
  assumes ok: "io_base img cap g b" and m: "mapped g f k = Some i" and k: "k < 2 ^ 32" and l: "intra + length bs \<le> SOTFS_BLOCK_SIZE"
  obtains g' b' where "store_chunk ops g b i intra bs = (g', b')" "io_base img cap g' b'" "same_maps g' g" "same_meta img b' b"
    "pages img g' b' = (pages img g b)((f, k) \<mapsto> overlay (blk_view img b (b_disk_blk (blocks g i))) intra bs)"
proof -
  let ?d = "b_disk_blk (blocks g i)" and ?p = "blk_view img b (b_disk_blk (blocks g i))"
  have i: "i < SOTFS_MAX_BLOCKS" "b_id (blocks g i) \<noteq> 0" using mapped_SomeD [OF m] by (simp_all add: at_block_def)
  have v: "blk_valid b ?d" by (rule io_baseD(4) [OF ok i])
  obtain b1 where b1: "load_page ops b ?d = (?p, b1)" "blk_ok img cap b1" "same_meta img b1 b"
    "\<And>m. blk_valid b m \<Longrightarrow> blk_view img b1 m = blk_view img b m" by (rule load_page_ok [OF io_baseD(1) [OF ok] v]) blast
  have l1: "same_layout b1 b" using b1(3) by (simp add: same_meta_def same_alloc_def)
  have v1: "blk_valid b1 ?d" using v same_layoutD(1) [OF l1] by simp
  have "length (overlay ?p intra bs) = SOTFS_BLKDEV_BLOCK_SIZE"
    using length_view [OF io_baseD(1) [OF ok]] l by (simp add: length_overlay limits)
  then obtain b2 where b2: "sotfs_blk_write ops b1 ?d (overlay ?p intra bs) = (0, b2)" "blk_ok img cap b2" "same_meta img b2 b1"
    "\<And>m. blk_valid b1 m \<Longrightarrow> blk_view img b2 m = (if m = ?d then overlay ?p intra bs else blk_view img b1 m)"
    by (rule blk_write_ok [OF b1(2) v1]) blast
  have sm: "same_meta img b2 b" using b1(3) b2(3) by (auto simp: same_meta_def same_alloc_def same_layout_def)
  define g' where "g' = (if unat (b_length (blocks g i)) < intra + length bs
       then g\<lparr>blocks := (blocks g)(i := (blocks g i)\<lparr>b_length := of_nat (intra + length bs)\<rparr>)\<rparr> else g)"
  have sg: "same_maps g' g" by (simp add: same_maps_def g'_def)
  have d0: "?d \<noteq> 0" using v by (simp add: blk_valid_def)
  have eq: "store_chunk ops g b i intra bs = (g', b2)"
    using b1(1) b2(1) d0 unfolding store_chunk_def g'_def by (simp add: Let_def)
  have vw: "blk_view img b2 m = (if m = ?d then overlay ?p intra bs else blk_view img b m)" if "blk_valid b m" for m
    using b2(4) b1(4) that same_layoutD(1) [OF l1] by simp
  have "pages img g' b2 (f', k') = ((pages img g b)((f, k) \<mapsto> overlay ?p intra bs)) (f', k')" for f' k'
  proof (cases "f' = f \<and> k' = k")
    case True
    then show ?thesis using m k same_maps_mapped [OF sg] sg vw [OF v] by (simp add: pages_def same_maps_def)
  next
    case False
    show ?thesis
    proof (cases "k' < 2 ^ 32 \<and> mapped g f' k' \<noteq> None")
      case True
      then obtain j where j: "mapped g f' k' = Some j" and k': "k' < 2 ^ 32" by blast
      note J = mapped_SomeD [OF j]
      then have J': "j < SOTFS_MAX_BLOCKS" "b_id (blocks g j) \<noteq> 0" by (simp_all add: at_block_def)
      have "j \<noteq> i"
      proof
        assume "j = i"
        then have "f' = f" "(of_nat k' :: u32) = of_nat k" using J mapped_SomeD [OF m] by (auto simp: at_block_def)
        then show False using False k k' of_nat_inverse_u32 by metis
      qed
      then have "b_disk_blk (blocks g j) \<noteq> ?d" using io_baseD(6) [OF ok J'(1) i(1) J'(2) i(2)] by blast
      then show ?thesis using False j k' same_maps_mapped [OF sg] sg vw [OF io_baseD(4) [OF ok J']]
        by (auto simp: pages_def same_maps_def)
    next
      case F: False
      then show ?thesis using False same_maps_mapped [OF sg] by (auto simp: pages_def)
    qed
  qed
  then have "pages img g' b2 = (pages img g b)((f, k) \<mapsto> overlay ?p intra bs)" by auto
  then show thesis using that [OF eq io_base_same [OF ok sg b2(2) sm] sg sm] by blast
qed

end

subsection \<open>Writing\<close>

definition file_byte :: "(int \<times> nat \<Rightarrow> u8 list option) \<Rightarrow> int \<Rightarrow> nat \<Rightarrow> u8" where
  "file_byte M f a = (case M (f, a - a mod SOTFS_BLOCK_SIZE) of None \<Rightarrow> 0 | Some p \<Rightarrow> p ! (a mod SOTFS_BLOCK_SIZE))"

text \<open>Free mapping slots and free disk blocks.\<close>

definition free_maps :: "sotfs_graph \<Rightarrow> nat" where
  "free_maps g = card {i. i < SOTFS_MAX_BLOCKS \<and> b_id (blocks g i) = 0}"

definition free_disk :: "'s blkdev \<Rightarrow> nat" where
  "free_disk b = card ({..<g_total_blocks b} - blk_used_set b)"

lemma free_maps_0: "free_maps g = 0 \<longleftrightarrow> (\<forall>i<SOTFS_MAX_BLOCKS. b_id (blocks g i) \<noteq> 0)"
  by (auto simp: free_maps_def card_eq_0_iff)

lemma free_disk_0: "free_disk b = 0 \<longleftrightarrow> (\<forall>i<g_total_blocks b. bit_get b i)"
  by (auto simp: free_disk_def card_eq_0_iff blk_used_set_def)

lemma card_take: "finite A \<Longrightarrow> i \<in> A \<Longrightarrow> B = A - {i} \<Longrightarrow> card A = Suc (card B)"
  by (simp only: card_Suc_Diff1)

lemma free_maps_alloc:
  assumes "i < SOTFS_MAX_BLOCKS" "b_id (blocks g i) = 0" "\<forall>j. j \<noteq> i \<longrightarrow> blocks g' j = blocks g j" "b_id (blocks g' i) \<noteq> 0"
  shows "free_maps g = Suc (free_maps g')"
proof -
  have "{j. j < SOTFS_MAX_BLOCKS \<and> b_id (blocks g' j) = 0} = {j. j < SOTFS_MAX_BLOCKS \<and> b_id (blocks g j) = 0} - {i}"
    using assms(3,4) by auto
  then show ?thesis unfolding free_maps_def by (rule card_take [rotated 2]) (use assms(1,2) in simp_all)
qed

lemma free_disk_alloc:
  assumes "i \<notin> blk_used_set b" "i < g_total_blocks b" "same_layout b' b" "blk_used_set b' = insert i (blk_used_set b)"
  shows "free_disk b = Suc (free_disk b')"
proof -
  have "{..<g_total_blocks b'} - blk_used_set b' = ({..<g_total_blocks b} - blk_used_set b) - {i}"
    using assms(3,4) by (auto simp: same_layout_def)
  then show ?thesis unfolding free_disk_def by (rule card_take [rotated 2]) (use assms(1,2) in simp_all)
qed

lemma free_maps_same: "same_maps g' g \<Longrightarrow> free_maps g' = free_maps g"
  by (simp add: free_maps_def same_maps_def)

lemma free_disk_same: "same_meta img b' b \<Longrightarrow> free_disk b' = free_disk b"
proof -
  assume "same_meta img b' b"
  then have sa: "same_alloc b' b" by (simp add: same_meta_def)
  have "g_total_blocks b' = g_total_blocks b" using sa by (simp add: same_alloc_def same_layout_def)
  then show ?thesis using used_set_same [OF sa] by (simp add: free_disk_def)
qed

text \<open>The block of one step of the loop: there is no room, or it is mapped to a page that keeps what was there.\<close>

lemma get_block_ok:
  assumes ok: "io_base img cap g b" and k: "k < 2 ^ 32" and fast: "orig \<le> k \<longrightarrow> pages img g b (f, k) = None"
    and gb: "get_block g b f k orig = (n, g', b')"
  shows "n = 0 \<Longrightarrow> g' = g \<and> b' = b \<and> (free_maps g = 0 \<or> free_disk b = 0)"
    and "n \<noteq> 0 \<Longrightarrow> \<exists>i. block_slot n = Some i \<and> mapped g' f k = Some i \<and> io_base img cap g' b' \<and> inodes g' = inodes g \<and>
      (\<forall>q. pages img g b (f, k) = Some q \<longrightarrow> q = blk_view img b' (b_disk_blk (blocks g' i))) \<and>
      pages img g' b' = (pages img g b)((f, k) \<mapsto> blk_view img b' (b_disk_blk (blocks g' i))) \<and>
      (pages img g b (f, k) = None \<longrightarrow> (\<exists>d. blk_valid b d \<and> \<not> bit_get b (nat (d - 1)) \<and> blk_view img b' (b_disk_blk (blocks g' i)) = blk_view img b d)) \<and>
      free_maps g \<le> Suc (free_maps g') \<and> free_disk b \<le> Suc (free_disk b')"
proof -
  have "mapped g f k = None" if "orig \<le> k" using fast that k by (auto simp: pages_def)
  then have found: "(if orig \<le> k then 0 else find_block g f k) = (case mapped g f k of None \<Rightarrow> 0 | Some i \<Rightarrow> int i + 1)"
    using find_block_mapped [OF ok] by simp
  have none: "sotfs_alloc_block g b f k = (n, g', b')" if "mapped g f k = None"
    using gb that unfolding get_block_def found by simp
  have some: "n = int i + 1 \<and> g' = g \<and> b' = b" if "mapped g f k = Some i" for i
    using gb that unfolding get_block_def found by (simp add: Let_def)
  show "n = 0 \<Longrightarrow> g' = g \<and> b' = b \<and> (free_maps g = 0 \<or> free_disk b = 0)"
  proof -
    assume z: "n = 0"
    have m: "mapped g f k = None" using some z by (cases "mapped g f k") auto
    show ?thesis using alloc_block_ok(1) [OF ok m none [OF m] z] by (simp add: free_maps_0 free_disk_0)
  qed
  assume nz: "n \<noteq> 0"
  show "\<exists>i. block_slot n = Some i \<and> mapped g' f k = Some i \<and> io_base img cap g' b' \<and> inodes g' = inodes g \<and>
      (\<forall>q. pages img g b (f, k) = Some q \<longrightarrow> q = blk_view img b' (b_disk_blk (blocks g' i))) \<and>
      pages img g' b' = (pages img g b)((f, k) \<mapsto> blk_view img b' (b_disk_blk (blocks g' i))) \<and>
      (pages img g b (f, k) = None \<longrightarrow> (\<exists>d. blk_valid b d \<and> \<not> bit_get b (nat (d - 1)) \<and> blk_view img b' (b_disk_blk (blocks g' i)) = blk_view img b d)) \<and>
      free_maps g \<le> Suc (free_maps g') \<and> free_disk b \<le> Suc (free_disk b')"
  proof (cases "mapped g f k")
    case (Some i)
    have "pages img g b = (pages img g b)((f, k) \<mapsto> blk_view img b (b_disk_blk (blocks g i)))"
      using Some k by (auto simp: pages_def fun_eq_iff)
    moreover have "pages img g b (f, k) = Some (blk_view img b (b_disk_blk (blocks g i)))" using Some k by (simp add: pages_def)
    ultimately show ?thesis using some [OF Some] Some mapped_SomeD [OF Some] ok by (simp add: id_slot_Some_iff)
  next
    case None
    obtain i p where i: "mapped g' f k = Some i" "n = int i + 1" "io_base img cap g' b'"
      "pages img g' b' = (pages img g b)((f, k) \<mapsto> p)" "inodes g' = inodes g"
      "i < SOTFS_MAX_BLOCKS" "b_id (blocks g i) = 0" "\<forall>j. j \<noteq> i \<longrightarrow> blocks g' j = blocks g j" "at_block g' f k i"
      "same_layout b' b" "\<not> bit_get b (nat (b_disk_blk (blocks g' i) - 1))" "blk_valid b (b_disk_blk (blocks g' i))"
      "blk_used_set b' = insert (nat (b_disk_blk (blocks g' i) - 1)) (blk_used_set b)" "p = blk_view img b (b_disk_blk (blocks g' i))"
      by (rule alloc_block_base [OF ok None none [OF None] nz k]) blast
    have p: "p = blk_view img b' (b_disk_blk (blocks g' i))"
      using fun_cong [OF i(4), of "(f, k)"] i(1) k by (simp add: pages_def)
    moreover have "free_maps g = Suc (free_maps g')"
      by (rule free_maps_alloc [OF i(6-8)]) (use i(9) in \<open>simp add: at_block_def\<close>)
    moreover have "free_disk b = Suc (free_disk b')"
      by (rule free_disk_alloc [OF _ _ i(10,13)]) (use i(11,12) in \<open>auto simp: blk_used_set_def blk_valid_def\<close>)
    moreover have "pages img g b (f, k) = None" using None by (simp add: pages_def)
    moreover have "\<exists>d. blk_valid b d \<and> \<not> bit_get b (nat (d - 1)) \<and> blk_view img b' (b_disk_blk (blocks g' i)) = blk_view img b d"
      using i(11,12,14) p by auto
    ultimately show ?thesis using i(1-6) p by (simp add: id_slot_Some_iff)
  qed
qed

text \<open>The effect of writing \<open>bs\<close> at \<open>lo\<close> on the pages of the files.\<close>

definition wrote :: "int \<Rightarrow> nat \<Rightarrow> u8 list \<Rightarrow> (int \<times> nat \<Rightarrow> u8 list option) \<Rightarrow> (int \<times> nat \<Rightarrow> u8 list option) \<Rightarrow> bool" where
  "wrote f lo bs M M' \<longleftrightarrow> (\<forall>h k. h \<noteq> f \<longrightarrow> M' (h, k) = M (h, k)) \<and>
     (\<forall>a. lo \<le> a \<and> a < lo + length bs \<longrightarrow> M' (f, a - a mod SOTFS_BLOCK_SIZE) \<noteq> None \<and> file_byte M' f a = bs ! (a - lo)) \<and>
     (\<forall>a. \<not> (lo \<le> a \<and> a < lo + length bs) \<longrightarrow> M (f, a - a mod SOTFS_BLOCK_SIZE) \<noteq> None \<longrightarrow> file_byte M' f a = file_byte M f a) \<and>
     (\<forall>k. M (f, k) \<noteq> None \<longrightarrow> M' (f, k) \<noteq> None) \<and>
     (\<forall>k. M' (f, k) \<noteq> None \<longrightarrow> M' (f, k) = M (f, k) \<or> bs \<noteq> [] \<and> k < lo + length bs \<and> lo < k + SOTFS_BLOCK_SIZE)"

lemma wroteD:
  assumes "wrote f lo bs M M'"
  shows "h \<noteq> f \<Longrightarrow> M' (h, k) = M (h, k)"
    "lo \<le> a \<Longrightarrow> a < lo + length bs \<Longrightarrow> M' (f, a - a mod SOTFS_BLOCK_SIZE) \<noteq> None"
    "lo \<le> a \<Longrightarrow> a < lo + length bs \<Longrightarrow> file_byte M' f a = bs ! (a - lo)"
    "\<not> (lo \<le> a \<and> a < lo + length bs) \<Longrightarrow> M (f, a - a mod SOTFS_BLOCK_SIZE) \<noteq> None \<Longrightarrow> file_byte M' f a = file_byte M f a"
    "M (f, k) \<noteq> None \<Longrightarrow> M' (f, k) \<noteq> None"
    "M' (f, k) \<noteq> None \<Longrightarrow> M' (f, k) = M (f, k) \<or> bs \<noteq> [] \<and> k < lo + length bs \<and> lo < k + SOTFS_BLOCK_SIZE"
  using assms unfolding wrote_def by (simp_all only: simp_thms HOL.all_simps)

lemma wroteI:
  assumes "\<And>h k. h \<noteq> f \<Longrightarrow> M' (h, k) = M (h, k)"
    "\<And>a. lo \<le> a \<Longrightarrow> a < lo + length bs \<Longrightarrow> M' (f, a - a mod SOTFS_BLOCK_SIZE) \<noteq> None"
    "\<And>a. lo \<le> a \<Longrightarrow> a < lo + length bs \<Longrightarrow> file_byte M' f a = bs ! (a - lo)"
    "\<And>a. \<not> (lo \<le> a \<and> a < lo + length bs) \<Longrightarrow> M (f, a - a mod SOTFS_BLOCK_SIZE) \<noteq> None \<Longrightarrow> file_byte M' f a = file_byte M f a"
    "\<And>k. M (f, k) \<noteq> None \<Longrightarrow> M' (f, k) \<noteq> None"
    "\<And>k. M' (f, k) \<noteq> None \<Longrightarrow> M' (f, k) = M (f, k) \<or> bs \<noteq> [] \<and> k < lo + length bs \<and> lo < k + SOTFS_BLOCK_SIZE"
  shows "wrote f lo bs M M'"
  unfolding wrote_def using assms by simp

lemma wrote_Nil: "wrote f lo [] M M"
  by (rule wroteI) simp_all

lemma wrote_NilD: "wrote f lo [] M M' \<Longrightarrow> M' = M"
proof (rule ext, clarify)
  fix h k assume w: "wrote f lo [] M M'"
  show "M' (h, k) = M (h, k)"
    using wroteD(1) [OF w, of h k] wroteD(5,6) [OF w, of k] by (cases "h = f"; cases "M (f, k)"; cases "M' (f, k)") simp_all
qed

lemma wrote_page:
  assumes k: "k mod SOTFS_BLOCK_SIZE = 0" and l: "intra + length bs \<le> SOTFS_BLOCK_SIZE" and i: "intra < SOTFS_BLOCK_SIZE" and n: "bs \<noteq> []"
    and p: "length p = SOTFS_BLOCK_SIZE" "\<forall>q. M (f, k) = Some q \<longrightarrow> q = p"
  shows "wrote f (k + intra) bs M (M((f, k) \<mapsto> overlay p intra bs))"
proof (rule wroteI)
  have pg: "a mod SOTFS_BLOCK_SIZE = a - k" "a - a mod SOTFS_BLOCK_SIZE = k" if "k \<le> a" "a < k + SOTFS_BLOCK_SIZE" for a
  proof -
    have "a = k + (a - k)" using that by simp
    then have "a mod SOTFS_BLOCK_SIZE = (a - k) mod SOTFS_BLOCK_SIZE" using k by (metis mod_add_left_eq add_0)
    then show "a mod SOTFS_BLOCK_SIZE = a - k" using that by simp
    with that show "a - a mod SOTFS_BLOCK_SIZE = k" by simp
  qed
  have nth: "overlay p intra bs ! j = (if intra \<le> j \<and> j < intra + length bs then bs ! (j - intra) else p ! j)" if "j < SOTFS_BLOCK_SIZE" for j
    using l p(1) that by (auto simp: overlay_def nth_append min_def)
  show "(M((f, k) \<mapsto> overlay p intra bs)) (h, k') = M (h, k')" if "h \<noteq> f" for h k' using that by simp
  fix a
  show "(M((f, k) \<mapsto> overlay p intra bs)) (f, a - a mod SOTFS_BLOCK_SIZE) \<noteq> None" if "k + intra \<le> a" "a < k + intra + length bs"
    using pg [of a] that l by simp
  show "file_byte (M((f, k) \<mapsto> overlay p intra bs)) f a = bs ! (a - (k + intra))" if "k + intra \<le> a" "a < k + intra + length bs"
  proof -
    have a: "k \<le> a" "a < k + SOTFS_BLOCK_SIZE" "a - k < SOTFS_BLOCK_SIZE" using that l by auto
    show ?thesis using nth [OF a(3)] that by (simp add: file_byte_def pg(1) [OF a(1,2)] pg(2) [OF a(1,2)]) auto
  qed
  show "file_byte (M((f, k) \<mapsto> overlay p intra bs)) f a = file_byte M f a"
    if out: "\<not> (k + intra \<le> a \<and> a < k + intra + length bs)" and m: "M (f, a - a mod SOTFS_BLOCK_SIZE) \<noteq> None"
  proof (cases "a - a mod SOTFS_BLOCK_SIZE = k")
    case True
    have lt: "a mod SOTFS_BLOCK_SIZE < SOTFS_BLOCK_SIZE" by (simp add: SOTFS_BLOCK_SIZE_def)
    have ge: "a = k + a mod SOTFS_BLOCK_SIZE" using True mod_less_eq_dividend [of a SOTFS_BLOCK_SIZE] by linarith
    have "M (f, k) = Some p" using m True p(2) by auto
    moreover have "\<not> (intra \<le> a mod SOTFS_BLOCK_SIZE \<and> a mod SOTFS_BLOCK_SIZE < intra + length bs)" using out ge by linarith
    ultimately show ?thesis using nth [OF lt] by (simp only: file_byte_def True fun_upd_same option.case if_False)
  next
    case False
    then show ?thesis by (simp add: file_byte_def)
  qed
  fix k'
  show "M (f, k') \<noteq> None \<Longrightarrow> (M((f, k) \<mapsto> overlay p intra bs)) (f, k') \<noteq> None" by auto
  show "(M((f, k) \<mapsto> overlay p intra bs)) (f, k') \<noteq> None \<Longrightarrow>
    (M((f, k) \<mapsto> overlay p intra bs)) (f, k') = M (f, k') \<or> bs \<noteq> [] \<and> k' < k + intra + length bs \<and> k + intra < k' + SOTFS_BLOCK_SIZE"
    using i n by auto
qed

lemma wrote_trans:
  assumes x: "wrote f lo xs M M1" and y: "wrote f (lo + length xs) ys M1 M2"
  shows "wrote f lo (xs @ ys) M M2"
proof (rule wroteI)
  note X = wroteD [OF x] and Y = wroteD [OF y]
  show "M2 (h, k) = M (h, k)" if "h \<noteq> f" for h k using X(1) Y(1) that by simp
  fix a
  show "M2 (f, a - a mod SOTFS_BLOCK_SIZE) \<noteq> None" if "lo \<le> a" "a < lo + length (xs @ ys)"
    using X(2) [of a] Y(2) [of a] Y(5) [of "a - a mod SOTFS_BLOCK_SIZE"] that by (cases "a < lo + length xs") auto
  show "file_byte M2 f a = (xs @ ys) ! (a - lo)" if "lo \<le> a" "a < lo + length (xs @ ys)"
  proof (cases "a < lo + length xs")
    case True
    then show ?thesis using X(2,3) [of a] Y(4) [of a] that by (simp add: nth_append less_diff_conv2)
  next
    case False
    then have "file_byte M2 f a = ys ! (a - (lo + length xs))" using Y(3) [of a] that by simp
    moreover have "\<not> a - lo < length xs" "a - (lo + length xs) = a - lo - length xs" using False that by linarith+
    ultimately show ?thesis by (simp only: nth_append if_False)
  qed
  show "file_byte M2 f a = file_byte M f a" if "\<not> (lo \<le> a \<and> a < lo + length (xs @ ys))" "M (f, a - a mod SOTFS_BLOCK_SIZE) \<noteq> None"
  proof -
    have "\<not> (lo \<le> a \<and> a < lo + length xs)" "\<not> (lo + length xs \<le> a \<and> a < lo + length xs + length ys)" using that(1) by auto
    then show ?thesis using X(4) [of a] X(5) [of "a - a mod SOTFS_BLOCK_SIZE"] Y(4) [of a] that(2) by simp
  qed
  fix k
  show "M (f, k) \<noteq> None \<Longrightarrow> M2 (f, k) \<noteq> None" using X(5) Y(5) by blast
  show "M2 (f, k) \<noteq> None \<Longrightarrow> M2 (f, k) = M (f, k) \<or> xs @ ys \<noteq> [] \<and> k < lo + length (xs @ ys) \<and> lo < k + SOTFS_BLOCK_SIZE"
    using X(6) [of k] Y(6) [of k] by fastforce
qed

text \<open>The pages between two offsets.\<close>

definition page_count :: "nat \<Rightarrow> nat \<Rightarrow> nat" where
  "page_count a e = (if a < e then Suc ((e - 1) div SOTFS_BLOCK_SIZE - a div SOTFS_BLOCK_SIZE) else 0)"

lemma page_count_next:
  assumes "a < e" "c = chunk_at a (e - a)"
  shows "page_count a e = Suc (page_count (a + c) e)" "a + c \<le> e" "a + c < e \<Longrightarrow> (a + c) mod SOTFS_BLOCK_SIZE = 0"
    "a mod SOTFS_BLOCK_SIZE + c \<le> SOTFS_BLOCK_SIZE" "0 < c"
proof -
  let ?B = SOTFS_BLOCK_SIZE and ?m = "a mod SOTFS_BLOCK_SIZE"
  have B: "0 < ?B" by (simp add: SOTFS_BLOCK_SIZE_def)
  then have m: "?m < ?B" by simp
  have c: "c = min (e - a) (?B - ?m)" by (simp add: assms(2) chunk_at_def)
  show "a + c \<le> e" "?m + c \<le> ?B" "0 < c" using assms(1) m by (auto simp: c)
  have al: "a + c = (a div ?B + 1) * ?B" if "a + c < e"
  proof -
    have "c = ?B - ?m" using that c by auto
    then show ?thesis using m div_mult_mod_eq [of a ?B] unfolding add_mult_distrib by linarith
  qed
  then show "(a + c) mod ?B = 0" if "a + c < e" using that by simp
  show "page_count a e = Suc (page_count (a + c) e)"
  proof (cases "a + c < e")
    case True
    then have d: "(a + c) div ?B = Suc (a div ?B)" using al B by simp
    have "(a + c) div ?B \<le> (e - 1) div ?B" using True by (intro div_le_mono) simp
    then show ?thesis using True assms(1) d by (simp add: page_count_def)
  next
    case False
    then have "c = e - a" "e - a \<le> ?B - ?m" using c by auto
    then have "?m + (e - a - 1) < ?B" using assms(1) m by linarith
    moreover have "e - 1 = a div ?B * ?B + (?m + (e - a - 1))"
      using assms(1) div_mult_mod_eq [of a ?B] by linarith
    ultimately have "(e - 1) div ?B = a div ?B" by (simp only: div_mult_self3 div_less)
    then show ?thesis using False assms(1) by (simp add: page_count_def)
  qed
qed

context storage
begin

lemma write_step:
  assumes ok: "io_base img cap g b" and k: "k < 2 ^ 32" "k mod SOTFS_BLOCK_SIZE = 0" and fast: "orig \<le> k \<longrightarrow> pages img g b (f, k) = None"
    and gb: "get_block g b f k orig = (n, g1, b1)" and nz: "n \<noteq> 0"
    and l: "intra + length bs \<le> SOTFS_BLOCK_SIZE" "intra < SOTFS_BLOCK_SIZE" "bs \<noteq> []"
  obtains i g' b' where "block_slot n = Some i" "store_chunk ops g1 b1 i intra bs = (g', b')" "io_base img cap g' b'" "inodes g' = inodes g"
    "wrote f (k + intra) bs (pages img g b) (pages img g' b')"
    "free_maps g \<le> Suc (free_maps g')" "free_disk b \<le> Suc (free_disk b')"
    "pages img g b (f, k) = None \<Longrightarrow> \<exists>d. blk_valid b d \<and> \<not> bit_get b (nat (d - 1)) \<and> pages img g' b' (f, k) = Some (overlay (blk_view img b d) intra bs)"
proof -
  obtain i where i: "block_slot n = Some i" "mapped g1 f k = Some i" "io_base img cap g1 b1"
    "inodes g1 = inodes g" "\<forall>q. pages img g b (f, k) = Some q \<longrightarrow> q = blk_view img b1 (b_disk_blk (blocks g1 i))"
    "pages img g1 b1 = (pages img g b)((f, k) \<mapsto> blk_view img b1 (b_disk_blk (blocks g1 i)))"
    "free_maps g \<le> Suc (free_maps g1)" "free_disk b \<le> Suc (free_disk b1)"
    "pages img g b (f, k) = None \<longrightarrow> (\<exists>d. blk_valid b d \<and> \<not> bit_get b (nat (d - 1)) \<and> blk_view img b1 (b_disk_blk (blocks g1 i)) = blk_view img b d)"
    using get_block_ok(2) [OF ok k(1) fast gb nz] by (elim exE conjE) (rule that; assumption)
  let ?p = "blk_view img b1 (b_disk_blk (blocks g1 i))"
  obtain g' b' where s: "store_chunk ops g1 b1 i intra bs = (g', b')" "io_base img cap g' b'" "same_maps g' g1" "same_meta img b' b1"
    "pages img g' b' = (pages img g1 b1)((f, k) \<mapsto> overlay ?p intra bs)"
    by (rule store_chunk_ok [OF i(3,2) k(1) l(1)])
  have "wrote f (k + intra) bs (pages img g b) ((pages img g b)((f, k) \<mapsto> overlay ?p intra bs))"
    by (rule wrote_page [OF k(2) l]) (use length_view [OF io_baseD(1) [OF i(3)]] i(5) in auto)
  then have w: "wrote f (k + intra) bs (pages img g b) (pages img g' b')" by (simp add: s(5) i(6))
  have m: "free_maps g \<le> Suc (free_maps g')" using i(7) free_maps_same [OF s(3)] by simp
  have d: "free_disk b \<le> Suc (free_disk b')" using i(8) free_disk_same [OF s(4)] by simp
  have ino: "inodes g' = inodes g" using s(3) i(4) by (simp add: same_maps_def)
  show thesis by (rule that [OF i(1) s(1,2) ino w m d]) (use i(9) s(5) in auto)
qed

lemma write_loop_ok:
  assumes "io_base img cap g b" "off + length buf < 2 ^ 32" "w \<le> length buf"
    and "0 < w \<Longrightarrow> w < length buf \<Longrightarrow> (off + w) mod SOTFS_BLOCK_SIZE = 0"
    and "\<And>k. pages img g b (f, k) \<noteq> None \<Longrightarrow> k < orig \<or> 0 < w \<and> k < off + w"
    and "write_loop ops f off buf orig w g b = ((early, r), g', b')"
  shows "io_base img cap g' b' \<and> inodes g' = inodes g \<and>
    (\<exists>n. w + n \<le> length buf \<and> wrote f (off + w) (take n (drop w buf)) (pages img g b) (pages img g' b') \<and> (early \<longleftrightarrow> w + n < length buf) \<and>
      r = (if early \<and> w + n = 0 then SOTFS_ERR_NOSPACE else int (w + n))) \<and>
    (early \<longrightarrow> free_maps g < page_count (off + w) (off + length buf) \<or> free_disk b < page_count (off + w) (off + length buf))"
  using assms
proof (induction "length buf - w" arbitrary: w g b rule: less_induct)
  case less
  let ?e = "off + length buf" and ?a = "off + w"
  show ?case
  proof (cases "w < length buf")
    case False
    then have "w = length buf" using less.prems(3) by simp
    then show ?thesis using less.prems(1,6) wrote_Nil by (auto simp: write_loop.simps)
  next
    case True
    define c where "c = chunk_at ?a (length buf - w)"
    have ae: "?a < ?e" "c = chunk_at ?a (?e - ?a)" using True by (simp_all add: c_def)
    note pc = page_count_next [OF ae]
    let ?i = "?a mod SOTFS_BLOCK_SIZE" and ?bs = "take c (drop w buf)"
    define k where "k = ?a - ?i"
    have a32: "?a mod 2 ^ 32 = ?a" using less.prems(2,3) by simp
    have k: "k < 2 ^ 32" "k mod SOTFS_BLOCK_SIZE = 0" "k + ?i = ?a"
      using less.prems(2,3) by (simp add: k_def, simp add: k_def minus_mod_eq_mult_div, simp add: k_def)
    have il: "?i < SOTFS_BLOCK_SIZE" by (simp add: SOTFS_BLOCK_SIZE_def)
    have fast: "orig \<le> k \<longrightarrow> pages img g b (f, k) = None"
    proof (rule impI, rule ccontr)
      assume "orig \<le> k" "pages img g b (f, k) \<noteq> None"
      then have "0 < w \<and> k < ?a" using less.prems(5) by force
      moreover then have "?i = 0" using less.prems(4) True by simp
      ultimately show False using k(3) by simp
    qed
    have lb: "length ?bs = c" using pc(2) by (simp add: True less_imp_le)
    obtain n g1 b1 where gb: "get_block g b f k orig = (n, g1, b1)" by (metis prod_cases3)
    have step: "write_loop ops f off buf orig w g b =
      (if n = 0 then ((True, if 0 < w then int w else SOTFS_ERR_NOSPACE), g1, b1)
       else case block_slot n of None \<Rightarrow> ((True, SOTFS_ERR_INVAL), g1, b1)
         | Some slot \<Rightarrow> (case store_chunk ops g1 b1 slot ?i ?bs of (g2, b2) \<Rightarrow> write_loop ops f off buf orig (w + c) g2 b2))"
      using True gb by (simp only: write_loop.simps [of ops f off buf orig w] Let_def a32 if_True k_def [symmetric] c_def [symmetric] prod.case)
    show ?thesis
    proof (cases "n = 0")
      case z: True
      have "g1 = g" "b1 = b" "free_maps g = 0 \<or> free_disk b = 0" using get_block_ok(1) [OF less.prems(1) k(1) fast gb z] by auto
      moreover have "early" "r = (if 0 < w then int w else SOTFS_ERR_NOSPACE)" "g' = g1" "b' = b1" using step z less.prems(6) by auto
      moreover have "0 < page_count ?a ?e" using ae(1) by (simp add: page_count_def)
      ultimately show ?thesis using less.prems(1) True wrote_Nil by (intro conjI exI [of _ 0]) auto
    next
      case nz: False
      have l: "?i + length ?bs \<le> SOTFS_BLOCK_SIZE" "?bs \<noteq> []" using pc(4,5) lb by auto
      obtain i g2 b2 where s: "block_slot n = Some i" "store_chunk ops g1 b1 i ?i ?bs = (g2, b2)" "io_base img cap g2 b2" "inodes g2 = inodes g"
        "wrote f (k + ?i) ?bs (pages img g b) (pages img g2 b2)"
        "free_maps g \<le> Suc (free_maps g2)" "free_disk b \<le> Suc (free_disk b2)"
        by (rule write_step [OF less.prems(1) k(1,2) fast gb nz l(1) il l(2)]) blast
      have w2: "wrote f ?a ?bs (pages img g b) (pages img g2 b2)" using s(5) k(3) by simp
      have lp: "write_loop ops f off buf orig (w + c) g2 b2 = ((early, r), g', b')" using step nz s(1,2) less.prems(6) by simp
      have dm: "k' < orig \<or> 0 < w + c \<and> k' < off + (w + c)" if "pages img g2 b2 (f, k') \<noteq> None" for k'
        using wroteD(6) [OF w2 that] that less.prems(5) [of k'] lb pc(5) by (auto simp: add.assoc)
      have IH: "io_base img cap g' b' \<and> inodes g' = inodes g2 \<and>
        (\<exists>n. w + c + n \<le> length buf \<and> wrote f (off + (w + c)) (take n (drop (w + c) buf)) (pages img g2 b2) (pages img g' b') \<and>
          (early \<longleftrightarrow> w + c + n < length buf) \<and> r = (if early \<and> w + c + n = 0 then SOTFS_ERR_NOSPACE else int (w + c + n))) \<and>
        (early \<longrightarrow> free_maps g2 < page_count (off + (w + c)) ?e \<or> free_disk b2 < page_count (off + (w + c)) ?e)"
        by (rule less.hyps [OF _ s(3) less.prems(2) _ _ dm lp]) (use pc True in \<open>auto simp: add.assoc\<close>)
      then obtain n where n: "w + c + n \<le> length buf" "wrote f (?a + length ?bs) (take n (drop (w + c) buf)) (pages img g2 b2) (pages img g' b')"
        "early \<longleftrightarrow> w + c + n < length buf" "r = (if early \<and> w + c + n = 0 then SOTFS_ERR_NOSPACE else int (w + c + n))"
        using lb by (auto simp: add.assoc)
      have "take (c + n) (drop w buf) = ?bs @ take n (drop (w + c) buf)" by (simp add: take_add add.commute)
      then have "wrote f ?a (take (c + n) (drop w buf)) (pages img g b) (pages img g' b')" using wrote_trans [OF w2 n(2)] by simp
      moreover have "early \<longrightarrow> free_maps g < page_count ?a ?e \<or> free_disk b < page_count ?a ?e"
        using IH s(6,7) pc(1) by (auto simp: add.assoc)
      ultimately show ?thesis using IH s(4) n(1,3,4) by (intro conjI exI [of _ "c + n"]) (auto simp: add.assoc)
    qed
  qed
qed

end

subsection \<open>Whole writes and reads\<close>

definition isize :: "sotfs_graph \<Rightarrow> int \<Rightarrow> nat" where
  "isize g f = unat (i_size (inodes g (nat (f - 1))))"

text \<open>No page of a file lies past its size.\<close>

definition io_ok :: "('s \<Rightarrow> nat \<Rightarrow> u8) \<Rightarrow> nat \<Rightarrow> sotfs_graph \<Rightarrow> 's blkdev \<Rightarrow> bool" where
  "io_ok img cap g b \<longleftrightarrow> io_base img cap g b \<and> (\<forall>f k. pages img g b (f, k) \<noteq> None \<longrightarrow> k < isize g f)"

lemma io_okD: "io_ok img cap g b \<Longrightarrow> io_base img cap g b" "io_ok img cap g b \<Longrightarrow> pages img g b (f, k) \<noteq> None \<Longrightarrow> k < isize g f"
  by (auto simp: io_ok_def)

context storage
begin

lemma file_write_loop:
  assumes c: "check_file g f = SOTFS_OK" and n: "buf \<noteq> []" and l: "off + length buf < 2 ^ 32"
    and lp: "write_loop ops f off buf (isize g f) 0 g b = ((early, r1), g1, b1)" and i: "inodes g1 = inodes g"
  shows "sotfs_file_write ops g b f off buf = (r1, if early then g1 else
    if isize g f < off + length buf then upd_inode g1 (nat (f - 1)) (\<lambda>i. i\<lparr>i_size := of_nat (off + length buf)\<rparr>) else g1, b1)"
  using c n l lp i by (simp add: sotfs_file_write_def Let_def isize_def)

lemma file_write_ok:
  assumes ok: "io_ok img cap g b" and c: "check_file g f = SOTFS_OK" and n: "buf \<noteq> []" and l: "off + length buf < 2 ^ 32"
    and w: "sotfs_file_write ops g b f off buf = (r, g', b')"
  obtains n where "n \<le> length buf" "r = (if n = 0 then SOTFS_ERR_NOSPACE else int n)" "io_base img cap g' b'"
    "wrote f off (take n buf) (pages img g b) (pages img g' b')"
    "\<And>h. isize g' h = (if nat (h - 1) = nat (f - 1) \<and> n = length buf then max (isize g h) (off + length buf) else isize g h)"
    "n < length buf \<Longrightarrow> free_maps g < page_count off (off + length buf) \<or> free_disk b < page_count off (off + length buf)"
    "\<And>h. check_file g' h = check_file g h"
proof -
  let ?s = "nat (f - 1)"
  obtain early r1 g1 b1 where lp: "write_loop ops f off buf (isize g f) 0 g b = ((early, r1), g1, b1)" by (metis prod_cases4 prod.collapse)
  have "io_base img cap g1 b1 \<and> inodes g1 = inodes g \<and>
    (\<exists>n. 0 + n \<le> length buf \<and> wrote f (off + 0) (take n (drop 0 buf)) (pages img g b) (pages img g1 b1) \<and> (early \<longleftrightarrow> 0 + n < length buf) \<and>
      r1 = (if early \<and> 0 + n = 0 then SOTFS_ERR_NOSPACE else int (0 + n))) \<and>
    (early \<longrightarrow> free_maps g < page_count (off + 0) (off + length buf) \<or> free_disk b < page_count (off + 0) (off + length buf))"
    by (rule write_loop_ok [OF io_okD(1) [OF ok] l _ _ _ lp]) (use io_okD(2) [OF ok] in auto)
  then obtain m where m: "m \<le> length buf" "wrote f off (take m buf) (pages img g b) (pages img g1 b1)" "early \<longleftrightarrow> m < length buf"
      "r1 = (if early \<and> m = 0 then SOTFS_ERR_NOSPACE else int m)" "io_base img cap g1 b1" "inodes g1 = inodes g"
      "early \<Longrightarrow> free_maps g < page_count off (off + length buf) \<or> free_disk b < page_count off (off + length buf)" by auto
  define g2 where "g2 = (if isize g f < off + length buf then upd_inode g1 ?s (\<lambda>i. i\<lparr>i_size := of_nat (off + length buf)\<rparr>) else g1)"
  have e: "(r, g', b') = (r1, if early then g1 else g2, b1)"
    using w file_write_loop [OF c n l lp m(6)] unfolding g2_def by simp
  have bl: "blocks g2 = blocks g1" by (simp add: g2_def upd_inode_def)
  have base: "io_base img cap g2 b1" using m(5) bl by (simp add: io_base_def at_block_def)
  have pg: "pages img g2 b1 = pages img g1 b1" by (rule pages_blocks [OF bl])
  have ch: "check_file g2 h = check_file g h" for h using m(6) by (auto simp: check_file_def g2_def upd_inode_def split: option.splits)
  have ch1: "check_file g1 h = check_file g h" for h using m(6) unfolding check_file_def by (simp only:)
  have si: "isize g2 h = (if nat (h - 1) = ?s then max (isize g h) (off + length buf) else isize g h)" for h
    using m(6) l of_nat_inverse_u32 [OF l] by (auto simp: isize_def g2_def upd_inode_def)
  have mp: "0 < length buf" using n by simp
  show thesis
  proof (rule that [of m])
    show "m \<le> length buf" by (rule m(1))
    show "r = (if m = 0 then SOTFS_ERR_NOSPACE else int m)" using e m(3,4) mp by auto
    show "io_base img cap g' b'" using e base m(5) by (auto split: if_splits)
    show "wrote f off (take m buf) (pages img g b) (pages img g' b')" using e m(2) pg by (auto split: if_splits)
    show "isize g' h = (if nat (h - 1) = nat (f - 1) \<and> m = length buf then max (isize g h) (off + length buf) else isize g h)" for h
      using e si m(1,3,6) by (auto simp: isize_def split: if_splits)
    show "m < length buf \<Longrightarrow> free_maps g < page_count off (off + length buf) \<or> free_disk b < page_count off (off + length buf)"
      using m(3,7) by simp
    show "check_file g' h = check_file g h" for h using e ch ch1 by (auto split: if_splits)
  qed
qed

lemma write_complete_ok:
  assumes "io_ok img cap g b" and f: "0 < f" and b: "io_base img cap g' b'"
    and w: "wrote f off buf (pages img g b) (pages img g' b')"
    and s: "\<And>h. isize g' h = (if nat (h - 1) = nat (f - 1) then max (isize g h) (off + length buf) else isize g h)"
  shows "io_ok img cap g' b'"
  unfolding io_ok_def
proof (intro conjI allI impI)
  show "io_base img cap g' b'" by (rule b)
  fix h k assume p: "pages img g' b' (h, k) \<noteq> None"
  have le: "isize g h \<le> isize g' h" using s [of h] by simp
  show "k < isize g' h"
  proof (cases "h = f")
    case True
    then show ?thesis using wroteD(6) [OF w, of k] p io_okD(2) [OF assms(1), of f k] s [of f] by fastforce
  next
    case False
    then show ?thesis using wroteD(1) [OF w False] p io_okD(2) [OF assms(1), of h k] le by auto
  qed
qed

lemma read_loop_ok:
  assumes "io_base img cap g b" "off + n < 2 ^ 32" "d \<le> n"
  shows "\<exists>b'. read_loop ops g f off n d acc b = ((int n, acc @ map (file_byte (pages img g b) f) [off + d..<off + n]), b') \<and>
    blk_ok img cap b' \<and> same_meta img b' b \<and> (\<forall>m. blk_valid b m \<longrightarrow> blk_view img b' m = blk_view img b m)"
  using assms
proof (induction "n - d" arbitrary: d acc b rule: less_induct)
  case less
  let ?M = "pages img g b" and ?a = "off + d"
  show ?case
  proof (cases "d < n")
    case False
    then have "d = n" using less.prems(3) by simp
    then show ?thesis using io_baseD(1) [OF less.prems(1)] by (simp add: read_loop.simps same_meta_def same_alloc_def same_layout_def)
  next
    case True
    define c where "c = chunk_at ?a (n - d)"
    have ae: "?a < off + n" "c = chunk_at ?a (off + n - ?a)" using True by (simp_all add: c_def)
    note pc = page_count_next [OF ae]
    let ?i = "?a mod SOTFS_BLOCK_SIZE"
    define k where "k = ?a - ?i"
    have a32: "?a mod 2 ^ 32 = ?a" using less.prems(2,3) by simp
    have k: "k < 2 ^ 32" "k + ?i = ?a" using less.prems(2,3) by (simp_all add: k_def)
    have in_pg: "(?a + j) mod SOTFS_BLOCK_SIZE = ?i + j" "?a + j - (?a + j) mod SOTFS_BLOCK_SIZE = k" if "j < c" for j
    proof -
      show "(?a + j) mod SOTFS_BLOCK_SIZE = ?i + j" using that pc(4) by (metis mod_add_left_eq mod_less add_less_cancel_left order_less_le_trans)
      then show "?a + j - (?a + j) mod SOTFS_BLOCK_SIZE = k" using k(2) by (simp add: k_def)
    qed
    have up: "[?a..<off + n] = [?a..<?a + c] @ [off + (d + c)..<off + n]" using upt_add_eq_append [of ?a "?a + c" "off + n - (?a + c)"] pc(2) by (simp add: add.assoc)
    have step: "read_loop ops g f off n d acc b =
        (if find_block g f k = 0 then read_loop ops g f off n (d + c) (acc @ replicate c 0) b
         else case block_slot (find_block g f k) of None \<Rightarrow> ((SOTFS_ERR_INVAL, acc), b)
           | Some slot \<Rightarrow> (case load_page ops b (b_disk_blk (blocks g slot)) of (page, b1) \<Rightarrow>
                read_loop ops g f off n (d + c) (acc @ take c (drop ?i page)) b1))"
      using True by (simp only: read_loop.simps [of ops g f off n d] Let_def a32 if_True k_def [symmetric] c_def [symmetric])
    have dc: "n - (d + c) < n - d" "d + c \<le> n" using pc(2,5) True by auto
    show ?thesis
    proof (cases "mapped g f k")
      case None
      then have "?M (f, k) = None" by (simp add: pages_def)
      then have "map (file_byte ?M f) [?a..<?a + c] = replicate c 0"
        using in_pg by (intro nth_equalityI) (simp_all add: file_byte_def)
      moreover have "find_block g f k = 0" using find_block_mapped [OF less.prems(1)] None by simp
      ultimately show ?thesis using less.hyps [OF dc(1) less.prems(1,2) dc(2), of "acc @ replicate c 0"] step up by simp
    next
      case (Some i)
      let ?p = "blk_view img b (b_disk_blk (blocks g i))"
      have I: "i < SOTFS_MAX_BLOCKS" "b_id (blocks g i) \<noteq> 0" using mapped_SomeD [OF Some] by (simp_all add: at_block_def)
      have fb: "find_block g f k = int i + 1" using find_block_mapped [OF less.prems(1)] Some by simp
      have bs: "block_slot (int i + 1) = Some i" using I by (simp add: id_slot_Some_iff)
      obtain b1 where b1: "load_page ops b (b_disk_blk (blocks g i)) = (?p, b1)" "blk_ok img cap b1" "same_meta img b1 b"
        "\<And>m. blk_valid b m \<Longrightarrow> blk_view img b1 m = blk_view img b m"
        by (rule load_page_ok [OF io_baseD(1) [OF less.prems(1)] io_baseD(4) [OF less.prems(1) I]]) blast
      have "?M (f, k) = Some ?p" using Some k(1) by (simp add: pages_def)
      then have tk: "map (file_byte ?M f) [?a..<?a + c] = take c (drop ?i ?p)"
        using in_pg pc(4) length_view [OF io_baseD(1) [OF less.prems(1)]] by (intro nth_equalityI) (simp_all add: file_byte_def)
      have sg: "same_maps g g" by (simp add: same_maps_def)
      have base: "io_base img cap g b1" by (rule io_base_same [OF less.prems(1) sg b1(2,3)])
      have pg: "pages img g b1 = ?M" by (rule pages_cong [OF less.prems(1) sg b1(4)])
      have lay: "same_layout b1 b" using b1(3) by (simp add: same_meta_def same_alloc_def)
      have "read_loop ops g f off n d acc b = read_loop ops g f off n (d + c) (acc @ take c (drop ?i ?p)) b1"
        using step fb bs b1(1) by simp
      moreover obtain b2 where "read_loop ops g f off n (d + c) (acc @ take c (drop ?i ?p)) b1 =
          ((int n, (acc @ take c (drop ?i ?p)) @ map (file_byte ?M f) [off + (d + c)..<off + n]), b2)"
        and "blk_ok img cap b2" "same_meta img b2 b1" "\<forall>m. blk_valid b1 m \<longrightarrow> blk_view img b2 m = blk_view img b1 m"
        using less.hyps [OF dc(1) base less.prems(2) dc(2), of "acc @ take c (drop ?i ?p)"] unfolding pg by blast
      moreover from this b1(3) have "same_meta img b2 b" by (auto simp: same_meta_def same_alloc_def same_layout_def)
      ultimately show ?thesis using tk up b1(4) same_layoutD(1) [OF lay] by auto
    qed
  qed
qed

lemma file_read_ok:
  assumes ok: "io_base img cap g b" and c: "check_file g f = SOTFS_OK"
  obtains b' where "sotfs_file_read ops g b f off n =
      ((int (min (isize g f - off) n), map (file_byte (pages img g b) f) [off..<off + min (isize g f - off) n]), b')"
    "io_base img cap g b'" "pages img g b' = pages img g b"
proof (cases "isize g f \<le> off \<or> n = 0")
  case True
  then have "sotfs_file_read ops g b f off n = ((int (min (isize g f - off) n), map (file_byte (pages img g b) f) [off..<off + min (isize g f - off) n]), b)"
    using c by (auto simp: sotfs_file_read_def Let_def isize_def)
  then show thesis using that ok by blast
next
  case False
  let ?n = "min (isize g f - off) n"
  have "isize g f < 2 ^ LENGTH(32)" unfolding isize_def by (rule unsigned_less)
  then have "isize g f < 2 ^ 32" by simp
  then have "off + ?n < 2 ^ 32" using False by linarith
  from read_loop_ok [OF ok this, of 0 f "[]"] obtain b' where b': "read_loop ops g f off ?n 0 [] b = ((int ?n, map (file_byte (pages img g b) f) [off..<off + ?n]), b')"
    "blk_ok img cap b'" "same_meta img b' b" "\<forall>m. blk_valid b m \<longrightarrow> blk_view img b' m = blk_view img b m" by auto
  have sg: "same_maps g g" by (simp add: same_maps_def)
  have "sotfs_file_read ops g b f off n = read_loop ops g f off ?n 0 [] b"
    using False c by (simp add: sotfs_file_read_def Let_def isize_def)
  with b' have e: "sotfs_file_read ops g b f off n = ((int ?n, map (file_byte (pages img g b) f) [off..<off + ?n]), b')" by simp
  show thesis by (rule that [OF e io_base_same [OF ok sg b'(2,3)] pages_cong [OF ok sg]]) (use b'(4) in blast)
qed

lemma write_loop_hole:
  assumes ok: "io_base img cap g b" and k: "k mod SOTFS_BLOCK_SIZE = 0" and n: "pages img g b (f, k) = None"
    and l: "intra + length bs \<le> SOTFS_BLOCK_SIZE" "k + intra + length bs < 2 ^ 32" "bs \<noteq> []"
    and lp: "write_loop ops f (k + intra) bs orig 0 g b = ((False, r), g', b')"
  obtains d where "blk_valid b d" "\<not> bit_get b (nat (d - 1))" "pages img g' b' (f, k) = Some (overlay (blk_view img b d) intra bs)"
proof -
  have i: "intra < SOTFS_BLOCK_SIZE" using l by (cases bs) auto
  then have m: "(k + intra) mod SOTFS_BLOCK_SIZE = intra" using k by (metis mod_add_left_eq add_0 mod_less)
  have a: "(k + intra + 0) mod 2 ^ 32 = k + intra" using l(2) by simp
  have c: "chunk_at (k + intra) (length bs - 0) = length bs" using l(1) by (simp add: chunk_at_def m)
  have nl: "0 < length bs" using l(3) by simp
  obtain x g1 b1 where gb: "get_block g b f k orig = (x, g1, b1)" by (metis prod_cases3)
  have nz: "x \<noteq> 0"
    using lp nl gb by (auto simp only: write_loop.simps [of ops f "k + intra" bs orig 0] Let_def a m c add_diff_cancel_right' if_True prod.case split: if_splits)
  obtain j g2 b2 where s: "block_slot x = Some j" "store_chunk ops g1 b1 j intra bs = (g2, b2)"
    "pages img g b (f, k) = None \<Longrightarrow> \<exists>d. blk_valid b d \<and> \<not> bit_get b (nat (d - 1)) \<and> pages img g2 b2 (f, k) = Some (overlay (blk_view img b d) intra bs)"
    by (rule write_step [OF ok _ k _ gb nz l(1) i l(3)]) (use l(2) n in auto)
  have "write_loop ops f (k + intra) bs orig 0 g b = write_loop ops f (k + intra) bs orig (length bs) g2 b2"
    using nl gb nz s(1,2) by (simp only: write_loop.simps [of ops f "k + intra" bs orig 0] Let_def a m c add_diff_cancel_right' if_True if_False prod.case option.case drop_0 take_all [OF order_refl] add_0)
  then have "g' = g2" "b' = b2" using lp by (auto simp: write_loop.simps)
  then show thesis using s(3) [OF n] that by blast
qed

lemma file_write_hole:
  assumes ok: "io_ok img cap g b" and c: "check_file g f = SOTFS_OK" and k: "k mod SOTFS_BLOCK_SIZE = 0" and n: "pages img g b (f, k) = None"
    and l: "intra + length bs \<le> SOTFS_BLOCK_SIZE" "k + intra + length bs < 2 ^ 32" "bs \<noteq> []"
    and w: "sotfs_file_write ops g b f (k + intra) bs = (int (length bs), g', b')"
  obtains d where "blk_valid b d" "\<not> bit_get b (nat (d - 1))" "pages img g' b' (f, k) = Some (overlay (blk_view img b d) intra bs)"
proof -
  obtain early r1 g1 b1 where lp: "write_loop ops f (k + intra) bs (isize g f) 0 g b = ((early, r1), g1, b1)" by (metis prod_cases4 prod.collapse)
  have "io_base img cap g1 b1 \<and> inodes g1 = inodes g \<and>
    (\<exists>n. 0 + n \<le> length bs \<and> wrote f (k + intra + 0) (take n (drop 0 bs)) (pages img g b) (pages img g1 b1) \<and> (early \<longleftrightarrow> 0 + n < length bs) \<and>
      r1 = (if early \<and> 0 + n = 0 then SOTFS_ERR_NOSPACE else int (0 + n))) \<and>
    (early \<longrightarrow> free_maps g < page_count (k + intra + 0) (k + intra + length bs) \<or> free_disk b < page_count (k + intra + 0) (k + intra + length bs))"
    by (rule write_loop_ok [OF io_okD(1) [OF ok] l(2) _ _ _ lp]) (use io_okD(2) [OF ok] in auto)
  then obtain m where m: "inodes g1 = inodes g" "early \<longleftrightarrow> m < length bs" "r1 = (if early \<and> m = 0 then SOTFS_ERR_NOSPACE else int m)" by auto
  note e = file_write_loop [OF c l(3,2) lp m(1)]
  have "r1 = int (length bs)" "b1 = b'" using e w by auto
  then have ne: "\<not> early" using m(2,3) by (auto simp: SOTFS_ERR_NOSPACE_def split: if_splits)
  have "blocks g' = blocks g1" using e w ne by (auto simp: upd_inode_def split: if_splits)
  then have p: "pages img g' b' = pages img g1 b'" by (rule pages_blocks)
  show thesis
    by (rule write_loop_hole [OF io_okD(1) [OF ok] k n l]) (use lp ne \<open>b1 = b'\<close> p that in auto)
qed

end

end
