(* ===== verification/SotfsIoSafety.thy ===== *)
theory SotfsIoSafety
  imports SotfsIoOk
begin

text \<open>
  The properties of sotFS file input and output, for files kept on any faithful sector device.
\<close>

definition one_file :: sotfs_graph where
  "one_file = upd_inode sotfs_graph_init 1 (\<lambda>i. i\<lparr>i_id := 2, i_kind := SOTFS_KIND_FILE, i_nlink := 1\<rparr>)"

lemma one_file_sel: "blocks one_file = (\<lambda>_. zero_block)" "check_file one_file 2 = SOTFS_OK" "isize one_file h = 0"
  by (simp_all add: one_file_def upd_inode_def sotfs_graph_init_def sotfs_alloc_inode_def ring_idx_def first_idx.simps
      check_file_def id_slot_def isize_def zero_inode_def limits)

lemma no_blocks_ok:
  assumes "blk_ok img cap b" "g_total_blocks b \<noteq> 0" "blocks g = (\<lambda>_. zero_block)"
  shows "io_ok img cap g b" "pages img g b = (\<lambda>_. None)" "free_maps g = SOTFS_MAX_BLOCKS"
proof -
  have a: "\<not> at_block g f k i" for f k i using assms(3) by (simp add: at_block_def zero_block_def)
  show p: "pages img g b = (\<lambda>_. None)" using a by (auto simp: pages_def mapped_def first_idx_None_iff fun_eq_iff)
  show "io_ok img cap g b" using assms a p by (simp add: io_ok_def io_base_def zero_block_def)
  show "free_maps g = SOTFS_MAX_BLOCKS" using assms(3) by (simp add: free_maps_def zero_block_def)
qed

text \<open>A file on a freshly formatted memory disk.\<close>

lemma mem_file:
  obtains b where "sotfs_blkdev_init (vblk_ops mem_rd mem_wr) (\<lambda>_. 0) blank_dev 0 65536 True = (0, b)"
    "io_ok (\<lambda>m. m) VBLK_CAPACITY one_file b" "0 < free_disk b" "pages (\<lambda>m. m) one_file b = (\<lambda>_. None)"
proof -
  have st: "storage (vblk_ops mem_rd mem_wr) (\<lambda>m. m) VBLK_CAPACITY" by (rule vblk_storage [OF mem_sector_ok])
  have f: "0 + 65536 \<le> VBLK_CAPACITY" by (simp add: limits)
  obtain b where b: "sotfs_blkdev_init (vblk_ops mem_rd mem_wr) (\<lambda>_. 0) blank_dev 0 65536 True = (0, b)"
    "blk_ok (\<lambda>m. m) VBLK_CAPACITY b" "same_layout b (compute_geometry blank_dev 0 65536)" "blk_used_set b = {}"
    by (rule storage.format_ok [OF st f mem_total])
  have t: "g_total_blocks b \<noteq> 0" using b(3) mem_total [of blank_dev 0] by (simp add: same_layout_def)
  then have "0 < free_disk b" using b(4) by (simp add: free_disk_def)
  then show thesis using that b(1) no_blocks_ok [OF b(2) t one_file_sel(1)] by blast
qed

lemma one_page: "0 < n \<Longrightarrow> off mod SOTFS_BLOCK_SIZE + n \<le> SOTFS_BLOCK_SIZE \<Longrightarrow> page_count off (off + n) = 1"
proof -
  assume "0 < n" "off mod SOTFS_BLOCK_SIZE + n \<le> SOTFS_BLOCK_SIZE"
  then have "n = chunk_at off n" by (simp add: chunk_at_def)
  with \<open>0 < n\<close> page_count_next(1) [of off "off + n" n] show ?thesis by (simp add: page_count_def)
qed

text \<open>On that disk a write inside one page completes.\<close>

lemma mem_write:
  assumes "io_ok (\<lambda>m. m) VBLK_CAPACITY one_file b" "0 < free_disk b" "buf \<noteq> []" "off mod SOTFS_BLOCK_SIZE + length buf \<le> SOTFS_BLOCK_SIZE"
    "off + length buf < 2 ^ 32"
  obtains g' b' where "sotfs_file_write (vblk_ops mem_rd mem_wr) one_file b 2 off buf = (int (length buf), g', b')"
proof -
  have st: "storage (vblk_ops mem_rd mem_wr) (\<lambda>m. m) VBLK_CAPACITY" by (rule vblk_storage [OF mem_sector_ok])
  obtain r g' b' where w: "sotfs_file_write (vblk_ops mem_rd mem_wr) one_file b 2 off buf = (r, g', b')" by (metis prod_cases3)
  have fm: "free_maps one_file = SOTFS_MAX_BLOCKS" by (simp add: free_maps_def one_file_sel(1) zero_block_def)
  have pc: "page_count off (off + length buf) = 1" using assms(3,4) by (simp add: one_page)
  obtain n where n: "n \<le> length buf" "r = (if n = 0 then SOTFS_ERR_NOSPACE else int n)"
    "n < length buf \<Longrightarrow> free_maps one_file < page_count off (off + length buf) \<or> free_disk b < page_count off (off + length buf)"
    by (rule storage.file_write_ok [OF st assms(1) one_file_sel(2) assms(3,5) w]) blast
  have "\<not> n < length buf"
  proof
    assume "n < length buf"
    from n(3) [OF this] show False using pc fm assms(2) by (simp add: limits)
  qed
  then have "n = length buf" using n(1) by simp
  then show thesis using that w n(2) assms(3) by simp
qed

text \<open>
  C31. Write then read: when a write to a file of a well-formed file system returns its full
  length, the file system is well formed again, the size of the file covers the written range,
  and reading the range back returns exactly the written bytes.
\<close>

theorem sotfs_write_then_read:
  assumes "sector_ok rd wr img" "io_ok img VBLK_CAPACITY g b" "check_file g f = SOTFS_OK"
    and "buf \<noteq> []" "off + length buf < 2 ^ 32" "sotfs_file_write (vblk_ops rd wr) g b f off buf = (int (length buf), g', b')"
  shows "io_ok img VBLK_CAPACITY g' b' \<and> isize g' f = max (isize g f) (off + length buf) \<and>
    (\<exists>b''. sotfs_file_read (vblk_ops rd wr) g' b' f off (length buf) = ((int (length buf), buf), b''))"
proof -
  have st: "storage (vblk_ops rd wr) img VBLK_CAPACITY" by (rule vblk_storage [OF assms(1)])
  have f: "0 < f" using assms(3) by (auto simp: check_file_def id_slot_def SOTFS_OK_def SOTFS_ERR_NOENT_def split: if_splits)
  obtain n where n: "n \<le> length buf" "int (length buf) = (if n = 0 then SOTFS_ERR_NOSPACE else int n)" "io_base img VBLK_CAPACITY g' b'"
    "wrote f off (take n buf) (pages img g b) (pages img g' b')"
    "\<And>h. isize g' h = (if nat (h - 1) = nat (f - 1) \<and> n = length buf then max (isize g h) (off + length buf) else isize g h)"
    "\<And>h. check_file g' h = check_file g h"
    by (rule storage.file_write_ok [OF st assms(2-6)]) blast
  have nl: "n = length buf" using n(2) by (auto simp: SOTFS_ERR_NOSPACE_def split: if_splits)
  have w: "wrote f off buf (pages img g b) (pages img g' b')" using n(4) nl by simp
  have s: "isize g' h = (if nat (h - 1) = nat (f - 1) then max (isize g h) (off + length buf) else isize g h)" for h using n(5) [of h] nl by simp
  have io: "io_ok img VBLK_CAPACITY g' b'" by (rule storage.write_complete_ok [OF st assms(2) f n(3) w s])
  have c: "check_file g' f = SOTFS_OK" using n(6) assms(3) by simp
  have m: "min (isize g' f - off) (length buf) = length buf" using s [of f] by simp
  obtain b'' where r: "sotfs_file_read (vblk_ops rd wr) g' b' f off (length buf) =
      ((int (length buf), map (file_byte (pages img g' b') f) [off..<off + length buf]), b'')"
    by (rule storage.file_read_ok [OF st n(3) c, of off "length buf"]) (simp only: m)
  have "map (file_byte (pages img g' b') f) [off..<off + length buf] = buf"
    using wroteD(3) [OF w] by (intro nth_equalityI) simp_all
  with r io s [of f] show ?thesis by auto
qed

theorem sotfs_write_then_read_witness:
  "\<exists>b g' b' b''. sotfs_blkdev_init (vblk_ops mem_rd mem_wr) (\<lambda>_. 0) blank_dev 0 65536 True = (0, b) \<and>
     sotfs_file_write (vblk_ops mem_rd mem_wr) one_file b 2 5000 [1, 2, 3] = (3, g', b') \<and>
     sotfs_file_read (vblk_ops mem_rd mem_wr) g' b' 2 5000 3 = ((3, [1, 2, 3]), b'')"
proof -
  obtain b where b: "sotfs_blkdev_init (vblk_ops mem_rd mem_wr) (\<lambda>_. 0) blank_dev 0 65536 True = (0, b)"
    "io_ok (\<lambda>m. m) VBLK_CAPACITY one_file b" "0 < free_disk b" by (rule mem_file)
  obtain g' b' where w: "sotfs_file_write (vblk_ops mem_rd mem_wr) one_file b 2 5000 [1, 2, 3] = (int (length [1 :: u8, 2, 3]), g', b')"
    by (rule mem_write [OF b(2,3), of "[1, 2, 3]" 5000]) (simp_all add: limits)
  have l: "length [1 :: u8, 2, 3] = 3" by simp
  have "\<exists>b''. sotfs_file_read (vblk_ops mem_rd mem_wr) g' b' 2 5000 3 = ((int 3, [1, 2, 3]), b'')"
    using sotfs_write_then_read [OF mem_sector_ok b(2) one_file_sel(2) _ _ w] unfolding l by simp
  with b(1) w show ?thesis by auto
qed

text \<open>
  C32. Isolation: a write, complete, partial or refused, leaves every other file as it was: any
  read of another file returns the same count and the same bytes before and after. Within the
  written file it changes no byte outside the range in the pages the file already had.
\<close>

theorem sotfs_write_isolated:
  assumes "sector_ok rd wr img" "io_ok img VBLK_CAPACITY g b" "check_file g f = SOTFS_OK" "0 < h" "h \<noteq> f"
    and "buf \<noteq> []" "off + length buf < 2 ^ 32" "sotfs_file_write (vblk_ops rd wr) g b f off buf = (r, g', b')"
  shows "fst (sotfs_file_read (vblk_ops rd wr) g' b' h a n) = fst (sotfs_file_read (vblk_ops rd wr) g b h a n) \<and>
    (\<forall>x. \<not> (off \<le> x \<and> x < off + length buf) \<and> pages img g b (f, x - x mod SOTFS_BLOCK_SIZE) \<noteq> None \<longrightarrow>
       file_byte (pages img g' b') f x = file_byte (pages img g b) f x)"
proof -
  have st: "storage (vblk_ops rd wr) img VBLK_CAPACITY" by (rule vblk_storage [OF assms(1)])
  have f: "0 < f" using assms(3) by (auto simp: check_file_def id_slot_def SOTFS_OK_def SOTFS_ERR_NOENT_def split: if_splits)
  obtain m where m: "m \<le> length buf" "io_base img VBLK_CAPACITY g' b'" "wrote f off (take m buf) (pages img g b) (pages img g' b')"
    "\<And>h. isize g' h = (if nat (h - 1) = nat (f - 1) \<and> m = length buf then max (isize g h) (off + length buf) else isize g h)"
    "\<And>h. check_file g' h = check_file g h"
    by (rule storage.file_write_ok [OF st assms(2,3,6-8)]) blast
  have s: "isize g' h = isize g h" using m(4) [of h] assms(4,5) f by auto
  have p: "file_byte (pages img g' b') h = file_byte (pages img g b) h" using wroteD(1) [OF m(3) assms(5)] by (simp add: file_byte_def fun_eq_iff)
  have "fst (sotfs_file_read (vblk_ops rd wr) g' b' h a n) = fst (sotfs_file_read (vblk_ops rd wr) g b h a n)"
  proof (cases "check_file g h = SOTFS_OK")
    case True
    then have c: "check_file g' h = SOTFS_OK" using m(5) by simp
    show ?thesis
      using storage.file_read_ok [OF st m(2) c, of a n] storage.file_read_ok [OF st io_okD(1) [OF assms(2)] True, of a n] s p by (metis fst_conv)
  next
    case False
    then show ?thesis using m(5) [of h] by (simp add: sotfs_file_read_def)
  qed
  moreover have "file_byte (pages img g' b') f x = file_byte (pages img g b) f x"
    if "\<not> (off \<le> x \<and> x < off + length buf)" "pages img g b (f, x - x mod SOTFS_BLOCK_SIZE) \<noteq> None" for x
    by (rule wroteD(4) [OF m(3) _ that(2)]) (use that(1) in auto)
  ultimately show ?thesis by blast
qed

theorem sotfs_write_isolated_witness:
  "\<exists>b g' b'. sotfs_blkdev_init (vblk_ops mem_rd mem_wr) (\<lambda>_. 0) blank_dev 0 65536 True = (0, b) \<and>
     sotfs_file_write (vblk_ops mem_rd mem_wr) one_file b 2 0 [1, 2, 3] = (3, g', b') \<and>
     fst (sotfs_file_read (vblk_ops mem_rd mem_wr) g' b' 3 0 3) = fst (sotfs_file_read (vblk_ops mem_rd mem_wr) one_file b 3 0 3)"
proof -
  obtain b where b: "sotfs_blkdev_init (vblk_ops mem_rd mem_wr) (\<lambda>_. 0) blank_dev 0 65536 True = (0, b)"
    "io_ok (\<lambda>m. m) VBLK_CAPACITY one_file b" "0 < free_disk b" by (rule mem_file)
  obtain g' b' where w: "sotfs_file_write (vblk_ops mem_rd mem_wr) one_file b 2 0 [1, 2, 3] = (int (length [1 :: u8, 2, 3]), g', b')"
    by (rule mem_write [OF b(2,3), of "[1, 2, 3]" 0]) (simp_all add: limits)
  have "fst (sotfs_file_read (vblk_ops mem_rd mem_wr) g' b' 3 0 3) = fst (sotfs_file_read (vblk_ops mem_rd mem_wr) one_file b 3 0 3)"
    using sotfs_write_isolated [OF mem_sector_ok b(2) one_file_sel(2) _ _ _ _ w, of 3 0 3] by simp
  with b(1) w show ?thesis by auto
qed



text \<open>
  Bytes of a page that a write did not cover are not zero but what the disk block held
  before: when a write into a page the file does not have starts past the start of the page, a
  read of the bytes before it returns the previous contents of some unallocated disk block.
\<close>

lemma sotfs_hole_exposes_disk:
  assumes "sector_ok rd wr img" "io_ok img VBLK_CAPACITY g b" "check_file g f = SOTFS_OK"
    and "k mod SOTFS_BLOCK_SIZE = 0" "pages img g b (f, k) = None" "intra + length bs \<le> SOTFS_BLOCK_SIZE" "k + intra + length bs < 2 ^ 32" "bs \<noteq> []"
    and "sotfs_file_write (vblk_ops rd wr) g b f (k + intra) bs = (int (length bs), g', b')"
  shows "\<exists>d b''. blk_valid b d \<and> \<not> bit_get b (nat (d - 1)) \<and>
    sotfs_file_read (vblk_ops rd wr) g' b' f k intra = ((int intra, take intra (blk_view img b d)), b'')"
proof -
  have st: "storage (vblk_ops rd wr) img VBLK_CAPACITY" by (rule vblk_storage [OF assms(1)])
  obtain n where n: "int (length bs) = (if n = 0 then SOTFS_ERR_NOSPACE else int n)" "io_base img VBLK_CAPACITY g' b'"
    "\<And>h. isize g' h = (if nat (h - 1) = nat (f - 1) \<and> n = length bs then max (isize g h) (k + intra + length bs) else isize g h)"
    "\<And>h. check_file g' h = check_file g h"
    by (rule storage.file_write_ok [OF st assms(2,3,8,7,9)]) blast
  have nl: "n = length bs" using n(1) by (auto simp: SOTFS_ERR_NOSPACE_def split: if_splits)
  then have s: "min (isize g' f - k) intra = intra" using n(3) [of f] by simp
  have c: "check_file g' f = SOTFS_OK" using n(4) assms(3) by simp
  obtain d where d: "blk_valid b d" "\<not> bit_get b (nat (d - 1))" "pages img g' b' (f, k) = Some (overlay (blk_view img b d) intra bs)"
    by (rule storage.file_write_hole [OF st assms(2-9)])
  obtain b'' where r: "sotfs_file_read (vblk_ops rd wr) g' b' f k intra = ((int intra, map (file_byte (pages img g' b') f) [k..<k + intra]), b'')"
    by (rule storage.file_read_ok [OF st n(2) c, of k intra]) (simp only: s)
  have io: "blk_ok img VBLK_CAPACITY b" by (rule io_baseD(1) [OF io_okD(1) [OF assms(2)]])
  have "file_byte (pages img g' b') f (k + j) = blk_view img b d ! j" if "j < intra" for j
  proof -
    have "(k + j) mod SOTFS_BLOCK_SIZE = j" using assms(4,6) that by (metis mod_add_left_eq add_0 mod_less order_less_le_trans le_add1 le_trans)
    then show ?thesis using d(3) that assms(6) length_view [OF io, of d] by (simp add: file_byte_def overlay_def nth_append)
  qed
  then have "map (file_byte (pages img g' b') f) [k..<k + intra] = take intra (blk_view img b d)"
    using assms(6) length_view [OF io, of d] by (intro nth_equalityI) simp_all
  with d r show ?thesis by auto
qed

end
