(* ===== verification/Crc64.thy ===== *)
theory Crc64
  imports Storage
begin

unbundle bit_operations_syntax

text \<open>
  The CRC-64 of \<^verbatim>\<open>src/sotfs/crc64.c\<close>: the table, the byte-wise loop, its equality with the bit
  serial definition of the code, and the errors it is certain to detect.
\<close>

subsection \<open>The code\<close>

definition crc64_poly :: u64 where
  "crc64_poly = 0xC96C5795D7870F42"

text \<open>One round of the inner loop of \<open>init_table\<close>.\<close>

definition crc64_round :: "u64 \<Rightarrow> u64" where
  "crc64_round c = (if bit c 0 then drop_bit 1 c XOR crc64_poly else drop_bit 1 c)"

definition crc64_table :: "u64 arr" where
  "crc64_table i = (crc64_round ^^ 8) (of_nat i)"

definition crc64_byte :: "u64 \<Rightarrow> u8 \<Rightarrow> u64" where
  "crc64_byte crc p = crc64_table (unat ((crc XOR ucast p) AND 0xFF)) XOR drop_bit 8 crc"

definition sotfs_crc64 :: "u8 list \<Rightarrow> u64" where
  "sotfs_crc64 buf = NOT (foldl crc64_byte (NOT 0) buf)"


subsection \<open>Rounds are linear and invertible\<close>

lemma bit_round: "bit (crc64_round c) n \<longleftrightarrow> (n < 64 \<and> bit c (Suc n)) \<noteq> (bit c 0 \<and> bit crc64_poly n)"
  by (auto simp: crc64_round_def bit_xor_iff bit_drop_bit_eq dest: bit_imp_le_length)

lemma round_xor: "crc64_round (x XOR y) = crc64_round x XOR crc64_round y"
  by (rule bit_word_eqI) (auto simp: bit_round bit_xor_iff)

lemma rounds_xor: "(crc64_round ^^ n) (x XOR y) = (crc64_round ^^ n) x XOR (crc64_round ^^ n) y"
  by (induction n) (simp_all add: round_xor)

lemma poly_top: "bit crc64_poly 63"
  by (simp add: crc64_poly_def bit_iff_odd drop_bit_eq_div)

lemma round_inj: "crc64_round x = crc64_round y \<Longrightarrow> x = y"
proof -
  assume e: "crc64_round x = crc64_round y"
  have top: "\<not> bit (c :: u64) (Suc 63)" for c using bit_imp_le_length [of c "Suc 63"] by auto
  have z: "bit x 0 = bit y 0"
    using arg_cong [OF e, of "\<lambda>c. bit c 63"] poly_top top [of x] top [of y] by (simp add: bit_round)
  show ?thesis
  proof (rule bit_word_eqI)
    fix n assume n: "n < LENGTH(64)"
    show "bit x n = bit y n"
    proof (cases n)
      case 0
      then show ?thesis using z by simp
    next
      case (Suc m)
      then show ?thesis using arg_cong [OF e, of "\<lambda>c. bit c m"] z n by (auto simp: bit_round)
    qed
  qed
qed

lemma rounds_inj: "(crc64_round ^^ n) x = (crc64_round ^^ n) y \<Longrightarrow> x = y"
  by (induction n) (auto dest: round_inj)

text \<open>Rounds only shift while the bits they drop are zero.\<close>

lemma rounds_shift: "(\<And>k. k < n \<Longrightarrow> \<not> bit x k) \<Longrightarrow> (crc64_round ^^ n) x = drop_bit n x"
proof (induction n)
  case 0
  then show ?case by simp
next
  case (Suc n)
  then have "(crc64_round ^^ n) x = drop_bit n x" by simp
  moreover have "\<not> bit (drop_bit n x) 0" using Suc.prems [of n] by (simp add: bit_drop_bit_eq)
  ultimately have "(crc64_round ^^ Suc n) x = drop_bit 1 (drop_bit n x)" by (simp only: funpow.simps comp_apply crc64_round_def if_False)
  then show ?case by simp
qed

lemma low_byte: "bit (mask 8 :: u64) n \<longleftrightarrow> n < 8"
  by (auto simp: bit_mask_iff)

lemma mask_8: "(0xFF :: u64) = mask 8"
  by (simp add: mask_eq_exp_minus_1)

lemma byte_rounds: "crc64_byte crc p = (crc64_round ^^ 8) (crc XOR ucast p)"
proof -
  let ?x = "crc XOR ucast p :: u64"
  have x: "?x = (?x AND mask 8) XOR (crc AND NOT (mask 8))"
  proof (rule bit_word_eqI)
    fix n assume "n < LENGTH(64)"
    then show "bit ?x n = bit ((?x AND mask 8) XOR (crc AND NOT (mask 8))) n"
      using bit_imp_le_length [of p n] by (auto simp: bit_xor_iff bit_and_iff bit_not_iff bit_ucast_iff low_byte)
  qed
  have hi: "(crc64_round ^^ 8) (crc AND NOT (mask 8)) = drop_bit 8 crc"
  proof -
    have "(crc64_round ^^ 8) (crc AND NOT (mask 8)) = drop_bit 8 (crc AND NOT (mask 8))"
      by (rule rounds_shift) (simp add: bit_and_iff bit_not_iff low_byte)
    also have "\<dots> = drop_bit 8 crc"
      by (rule bit_word_eqI) (auto simp: bit_drop_bit_eq bit_and_iff bit_not_iff low_byte dest: bit_imp_le_length)
    finally show ?thesis .
  qed
  have "(crc64_round ^^ 8) ?x = (crc64_round ^^ 8) (?x AND mask 8) XOR (crc64_round ^^ 8) (crc AND NOT (mask 8))"
    by (subst x) (rule rounds_xor)
  then show ?thesis by (simp add: crc64_byte_def crc64_table_def hi mask_8 del: mask_numeral)
qed

lemma xor_cancel:
  fixes x :: u64
  assumes "x XOR y = z XOR y"
  shows "x = z"
proof -
  have "(x XOR y) XOR y = (z XOR y) XOR y" by (simp only: assms)
  then show ?thesis by (simp only: xor.assoc xor_self_eq xor.right_neutral)
qed

lemma byte_inj: "crc64_byte c p = crc64_byte d q \<Longrightarrow> c XOR ucast p = d XOR ucast q"
  unfolding byte_rounds by (rule rounds_inj)

lemma bytes_inj: "foldl crc64_byte c s = foldl crc64_byte d s \<Longrightarrow> c = d"
proof (induction s arbitrary: c d)
  case Nil
  then show ?case by simp
next
  case (Cons p s)
  then have "c XOR ucast p = d XOR ucast p" by (auto dest: byte_inj)
  then show ?case by (rule xor_cancel)
qed

text \<open>Up to eight bytes act on the register as one word.\<close>

fun le_word :: "u8 list \<Rightarrow> u64" where
  "le_word [] = 0"
| "le_word (p # s) = ucast p XOR push_bit 8 (le_word s)"

lemma bit_le_word:
  "bit (le_word s) n \<longleftrightarrow> n < 64 \<and> n div 8 < length s \<and> bit (s ! (n div 8)) (n mod 8)"
proof (induction s arbitrary: n)
  case Nil
  then show ?case by simp
next
  case (Cons p s)
  show ?case
  proof (cases "n < 8")
    case True
    then show ?thesis by (auto simp: bit_xor_iff bit_ucast_iff bit_push_bit_iff)
  next
    case False
    then have "n div 8 = Suc ((n - 8) div 8)" "n mod 8 = (n - 8) mod 8" by (simp_all add: le_div_geq le_mod_geq)
    moreover have "\<not> bit p n" using False bit_imp_le_length [of p n] by auto
    ultimately show ?thesis using False Cons [of "n - 8"] by (auto simp: bit_xor_iff bit_ucast_iff bit_push_bit_iff)
  qed
qed

lemma le_word_inj:
  assumes "length s = length t" "length s \<le> 8" "le_word s = le_word t"
  shows "s = t"
proof (rule nth_equalityI [OF assms(1)])
  fix i assume i: "i < length s"
  show "s ! i = t ! i"
  proof (rule bit_word_eqI)
    fix n assume "n < LENGTH(8)"
    then have n: "n < 8" by simp
    have "(8 * i + n) div 8 = i" "(8 * i + n) mod 8 = n" "8 * i + n < 64" using n i assms(2) by simp_all
    then show "bit (s ! i) n = bit (t ! i) n"
      using arg_cong [OF assms(3), of "\<lambda>w. bit w (8 * i + n)"] i assms(1) by (simp add: bit_le_word)
  qed
qed

lemma bytes_word:
  "length s \<le> 8 \<Longrightarrow> foldl crc64_byte c s = (crc64_round ^^ (8 * length s)) (c XOR le_word s)"
proof (induction s arbitrary: c)
  case Nil
  then show ?case by simp
next
  case (Cons p s)
  have "(crc64_round ^^ 8) (push_bit 8 (le_word s)) = drop_bit 8 (push_bit 8 (le_word s))"
    by (rule rounds_shift) (simp add: bit_push_bit_iff)
  also have "\<dots> = le_word s"
    using Cons.prems by (intro bit_word_eqI) (auto simp: bit_drop_bit_eq bit_push_bit_iff bit_le_word)
  finally have "(crc64_round ^^ 8) (c XOR le_word (p # s)) = crc64_byte c p XOR le_word s"
    by (simp add: byte_rounds rounds_xor xor.assoc [symmetric])
  moreover have "(crc64_round ^^ (8 * length (p # s))) x = (crc64_round ^^ (8 * length s)) ((crc64_round ^^ 8) x)" for x
    by (simp add: funpow_add add.commute [of 8])
  ultimately show ?case using Cons by simp
qed

lemma crc64_burst:
  assumes "length s = length t" "length s \<le> 8" "s \<noteq> t"
  shows "sotfs_crc64 (a @ s @ z) \<noteq> sotfs_crc64 (a @ t @ z)"
proof
  let ?c = "foldl crc64_byte (NOT 0) a"
  assume "sotfs_crc64 (a @ s @ z) = sotfs_crc64 (a @ t @ z)"
  then have "foldl crc64_byte ?c s = foldl crc64_byte ?c t" by (auto simp: sotfs_crc64_def dest: bytes_inj)
  then have "?c XOR le_word s = ?c XOR le_word t" using assms(1,2) by (auto simp: bytes_word dest: rounds_inj)
  then have "le_word s XOR ?c = le_word t XOR ?c" by (simp only: xor.commute)
  then have "le_word s = le_word t" by (rule xor_cancel)
  then show False using le_word_inj assms by blast
qed


subsection \<open>Properties\<close>

text \<open>
  C35. The table-driven loop computes the bit-serial CRC (eight rounds per input byte), and it
  detects every corruption that stays within eight consecutive bytes: two buffers that differ
  only in such a window have different checksums.
\<close>

theorem crc64_detects_bursts:
  assumes "length s = length t" "length s \<le> 8" "s \<noteq> t"
  shows "sotfs_crc64 (a @ s @ z) \<noteq> sotfs_crc64 (a @ t @ z) \<and>
    sotfs_crc64 a = NOT (foldl (\<lambda>c p. (crc64_round ^^ 8) (c XOR ucast p)) (NOT 0) a)"
proof -
  have "sotfs_crc64 (a @ s @ z) \<noteq> sotfs_crc64 (a @ t @ z)" by (rule crc64_burst [OF assms])
  moreover have "crc64_byte = (\<lambda>c p. (crc64_round ^^ 8) (c XOR ucast p))" by (simp add: byte_rounds fun_eq_iff)
  ultimately show ?thesis by (simp add: sotfs_crc64_def)
qed

theorem crc64_detects_bursts_witness:
  "sotfs_crc64 ([1, 2] @ [3, 4] @ [5]) \<noteq> sotfs_crc64 ([1, 2] @ [9, 9] @ [5])"
  using crc64_detects_bursts [of "[3, 4]" "[9, 9]" "[1, 2]" "[5]"] by simp

end
