(* ===== verification/Wal.thy ===== *)
theory Wal
  imports SotfsIo Crc64
begin

text \<open>
  The write-ahead log of sotFS (\<^verbatim>\<open>include/sotfs/wal.h\<close>, \<^verbatim>\<open>src/sotfs/wal.c\<close>): the layout of frames and
  records on the disk, appending, the emitters, and the scan of the log. The device is an
  explicit state, which the log shares with the block store; what \<open>sotfs_wal_audit_emit\<close> reports
  is collected in a list.
\<close>

subsection \<open>Layout\<close>

definition SOTFS_WAL_OFFSET :: nat where [limits]: "SOTFS_WAL_OFFSET = 268 * 1024 * 1024"
definition SOTFS_WAL_REGION_BYTES :: nat where [limits]: "SOTFS_WAL_REGION_BYTES = 4 * 1024 * 1024"
definition SOTFS_DATA_OFFSET :: nat where [limits]: "SOTFS_DATA_OFFSET = SOTFS_WAL_OFFSET + SOTFS_WAL_REGION_BYTES"
definition SOTFS_WAL_MAGIC :: u32 where "SOTFS_WAL_MAGIC = 0xDF50FA01"
definition SOTFS_WAL_NAME_BYTES :: nat where [limits]: "SOTFS_WAL_NAME_BYTES = 128"
definition SOTFS_WAL_MAX_BLOB :: nat where [limits]: "SOTFS_WAL_MAX_BLOB = 512"
definition SOTFS_WAL_CHECKPOINT_INTERVAL :: nat where [limits]: "SOTFS_WAL_CHECKPOINT_INTERVAL = 4096"

definition SOTFS_WAL_KIND_CREATE_FILE :: nat where [limits]: "SOTFS_WAL_KIND_CREATE_FILE = 1"
definition SOTFS_WAL_KIND_MKDIR :: nat where [limits]: "SOTFS_WAL_KIND_MKDIR = 2"
definition SOTFS_WAL_KIND_UNLINK :: nat where [limits]: "SOTFS_WAL_KIND_UNLINK = 3"
definition SOTFS_WAL_KIND_RMDIR :: nat where [limits]: "SOTFS_WAL_KIND_RMDIR = 4"
definition SOTFS_WAL_KIND_RENAME :: nat where [limits]: "SOTFS_WAL_KIND_RENAME = 5"
definition SOTFS_WAL_KIND_WRITE :: nat where [limits]: "SOTFS_WAL_KIND_WRITE = 6"
definition SOTFS_WAL_KIND_INSTALL :: nat where [limits]: "SOTFS_WAL_KIND_INSTALL = 7"
definition SOTFS_WAL_KIND_PROCD_MUT :: nat where [limits]: "SOTFS_WAL_KIND_PROCD_MUT = 0x10"
definition SOTFS_WAL_KIND_ANOMALY_EV :: nat where [limits]: "SOTFS_WAL_KIND_ANOMALY_EV = 0x20"
definition SOTFS_WAL_KIND_SOTNET_SYNTH :: nat where [limits]: "SOTFS_WAL_KIND_SOTNET_SYNTH = 0x30"
definition SOTFS_WAL_KIND_CHECKPOINT :: nat where [limits]: "SOTFS_WAL_KIND_CHECKPOINT = 0xF0"

definition SOTGUARD_KIND_WAL_FULL_DROP :: nat where "SOTGUARD_KIND_WAL_FULL_DROP = 0x70"
definition SOTGUARD_KIND_WAL_TORN_RECORD :: nat where "SOTGUARD_KIND_WAL_TORN_RECORD = 0x71"
definition SOTGUARD_KIND_WAL_REPLAY_DONE :: nat where "SOTGUARD_KIND_WAL_REPLAY_DONE = 0x72"

record wal_hdr =
  h_seq :: nat
  h_kind :: nat
  h_len :: nat
  h_crc64 :: u64

definition WAL_HDR_BYTES :: nat where [limits]: "WAL_HDR_BYTES = 24"

definition hdr_encode :: "wal_hdr \<Rightarrow> u8 list" where
  "hdr_encode h = le_bytes 8 (h_seq h) @ le_bytes 4 (h_kind h) @ le_bytes 4 (h_len h) @ le_bytes 8 (unat (h_crc64 h))"

text \<open>The integer of \<open>k\<close> bytes at \<open>off\<close>, and the C string that starts there.\<close>

definition le_at :: "u8 list \<Rightarrow> nat \<Rightarrow> nat \<Rightarrow> nat" where
  "le_at bs off k = le_nat (take k (drop off bs))"

definition cstr_at :: "u8 list \<Rightarrow> nat \<Rightarrow> string" where
  "cstr_at bs off = map (\<lambda>b. char_of (unat b)) (takeWhile (\<lambda>b. b \<noteq> 0) (drop off bs))"

definition hdr_decode :: "u8 list \<Rightarrow> wal_hdr" where
  "hdr_decode bs = \<lparr>h_seq = le_at bs 0 8, h_kind = le_at bs 8 4, h_len = le_at bs 12 4, h_crc64 = of_nat (le_at bs 16 8)\<rparr>"

record wal_record =
  r_magic :: u32
  r_length :: u32
  r_tx_id :: u64
  r_timestamp :: u64
  r_kind :: u16
  r_reserved :: u16
  r_parent_id :: int
  r_target_id :: int
  r_new_parent_id :: int
  r_mode :: u32
  r_offset :: u32
  r_blob_len :: u32
  r_name :: string
  r_name2 :: string
  r_blob :: "u8 list"

definition WAL_RECORD_BYTES :: nat where [limits]: "WAL_RECORD_BYTES = 824"

text \<open>A string in a zeroed character array of \<open>k\<close> bytes, and a 32-bit signed integer.\<close>

definition name_bytes :: "nat \<Rightarrow> string \<Rightarrow> u8 list" where
  "name_bytes k s = take k (map (\<lambda>c. of_nat (of_char c)) s @ replicate k 0)"

definition s32_bytes :: "int \<Rightarrow> u8 list" where
  "s32_bytes i = le_bytes 4 (nat (i mod 2 ^ 32))"

definition s32_at :: "u8 list \<Rightarrow> nat \<Rightarrow> int" where
  "s32_at bs off = sint (of_nat (le_at bs off 4) :: u32)"

definition rec_encode :: "wal_record \<Rightarrow> u8 list" where
  "rec_encode r = le_bytes 4 (unat (r_magic r)) @ le_bytes 4 (unat (r_length r)) @ le_bytes 8 (unat (r_tx_id r)) @
     le_bytes 8 (unat (r_timestamp r)) @ le_bytes 2 (unat (r_kind r)) @ le_bytes 2 (unat (r_reserved r)) @
     s32_bytes (r_parent_id r) @ s32_bytes (r_target_id r) @ s32_bytes (r_new_parent_id r) @
     le_bytes 4 (unat (r_mode r)) @ le_bytes 4 (unat (r_offset r)) @ le_bytes 4 (unat (r_blob_len r)) @
     name_bytes SOTFS_WAL_NAME_BYTES (r_name r) @ name_bytes SOTFS_WAL_NAME_BYTES (r_name2 r) @ r_blob r @ replicate 4 0"

definition rec_decode :: "u8 list \<Rightarrow> wal_record" where
  "rec_decode bs = \<lparr>r_magic = of_nat (le_at bs 0 4), r_length = of_nat (le_at bs 4 4), r_tx_id = of_nat (le_at bs 8 8),
     r_timestamp = of_nat (le_at bs 16 8), r_kind = of_nat (le_at bs 24 2), r_reserved = of_nat (le_at bs 26 2),
     r_parent_id = s32_at bs 28, r_target_id = s32_at bs 32, r_new_parent_id = s32_at bs 36,
     r_mode = of_nat (le_at bs 40 4), r_offset = of_nat (le_at bs 44 4), r_blob_len = of_nat (le_at bs 48 4),
     r_name = cstr_at bs 52, r_name2 = cstr_at bs 180, r_blob = take SOTFS_WAL_MAX_BLOB (drop 308 bs)\<rparr>"


subsection \<open>Appending\<close>

record wal =
  g_wal_cursor :: nat
  g_wal_seq :: nat
  g_initialised :: bool
  g_records_since_checkpoint :: nat
  g_in_checkpoint :: bool
  w_audit :: "(nat \<times> nat) list"

definition sotfs_wal_audit_emit :: "nat \<Rightarrow> nat \<Rightarrow> wal \<Rightarrow> wal" where
  "sotfs_wal_audit_emit kind arg0 w = w\<lparr>w_audit := w_audit w @ [(kind, arg0)]\<rparr>"

definition sotfs_wal_init :: "wal \<Rightarrow> wal" where
  "sotfs_wal_init w = w\<lparr>g_wal_cursor := SOTFS_WAL_OFFSET, g_wal_seq := 1, g_initialised := True\<rparr>"

text \<open>
  Writing one frame, common to both appenders: the header with the sequence number and the
  checksum, then the payload; cursor and sequence number move only when both writes succeed.
\<close>

definition wal_frame :: "'s sotfs_storage_ops \<Rightarrow> nat \<Rightarrow> nat \<Rightarrow> u8 list \<Rightarrow> wal \<Rightarrow> 's \<Rightarrow> int \<times> wal \<times> 's" where
  "wal_frame ops cap kind p w s =
     (let hdr = \<lparr>h_seq = g_wal_seq w, h_kind = kind, h_len = (WAL_HDR_BYTES + length p) mod 2 ^ 32, h_crc64 = sotfs_crc64 p\<rparr> in
      if cap < (g_wal_cursor w + h_len hdr) mod 2 ^ 64
      then (-28, sotfs_wal_audit_emit SOTGUARD_KIND_WAL_FULL_DROP (g_wal_cursor w) w, s)
      else
        (case write_block ops s (g_wal_cursor w) (hdr_encode hdr) of
           (rc, s1) \<Rightarrow>
             if rc < 0 then (rc, w, s1)
             else
               (case write_block ops s1 ((g_wal_cursor w + WAL_HDR_BYTES) mod 2 ^ 64) p of
                  (rc, s2) \<Rightarrow>
                    if rc < 0 then (rc, w, s2)
                    else (0, w\<lparr>g_wal_cursor := (g_wal_cursor w + h_len hdr) mod 2 ^ 64,
                               g_wal_seq := (g_wal_seq w + 1) mod 2 ^ 64\<rparr>, s2))))"

definition checkpoint_encode :: "nat \<Rightarrow> nat \<Rightarrow> nat \<Rightarrow> nat \<Rightarrow> u8 list" where
  "checkpoint_encode epoch_seq simreboot_count shutdown_reason total_records =
     le_bytes 8 epoch_seq @ le_bytes 4 simreboot_count @ le_bytes 4 shutdown_reason @ le_bytes 8 total_records"

text \<open>
  The checkpoint frame is written with \<open>g_in_checkpoint\<close> set, so that the nested call of
  \<open>wal_maybe_checkpoint\<close> returns at once; the call is therefore left out here.
\<close>

definition wal_maybe_checkpoint :: "'s sotfs_storage_ops \<Rightarrow> wal \<Rightarrow> 's \<Rightarrow> wal \<times> 's" where
  "wal_maybe_checkpoint ops w s =
     (if g_in_checkpoint w then (w, s)
      else
        let w1 = w\<lparr>g_records_since_checkpoint := g_records_since_checkpoint w + 1\<rparr> in
        if g_records_since_checkpoint w1 < SOTFS_WAL_CHECKPOINT_INTERVAL then (w1, s)
        else
          (case wal_frame ops (SOTFS_WAL_OFFSET + SOTFS_WAL_REGION_BYTES) SOTFS_WAL_KIND_CHECKPOINT (checkpoint_encode (g_wal_seq w1) 0 0 (g_wal_seq w1))
                  (w1\<lparr>g_records_since_checkpoint := 0, g_in_checkpoint := True\<rparr>) s of
             (rc, w2, s2) \<Rightarrow> (w2\<lparr>g_in_checkpoint := False\<rparr>, s2)))"

definition sotfs_wal_append :: "'s sotfs_storage_ops \<Rightarrow> wal_record \<Rightarrow> wal \<Rightarrow> 's \<Rightarrow> int \<times> wal \<times> 's" where
  "sotfs_wal_append ops r w s =
     (if \<not> g_initialised w then (-22, w, s)
      else
        (case wal_frame ops (capacity_bytes ops s) (unat (r_kind r)) (rec_encode r) w s of
           (rc, w1, s1) \<Rightarrow>
             if rc < 0 then (rc, w1, s1)
             else (case wal_maybe_checkpoint ops w1 s1 of (w2, s2) \<Rightarrow> (0, w2, s2))))"

definition sotfs_wal_log_payload :: "'s sotfs_storage_ops \<Rightarrow> nat \<Rightarrow> u8 list \<Rightarrow> wal \<Rightarrow> 's \<Rightarrow> int \<times> wal \<times> 's" where
  "sotfs_wal_log_payload ops kind p w s =
     (if \<not> g_initialised w then (-22, w, s)
      else if p = [] then (-22, w, s)
      else
        (case wal_frame ops (SOTFS_WAL_OFFSET + SOTFS_WAL_REGION_BYTES) kind p w s of
           (rc, w1, s1) \<Rightarrow>
             if rc < 0 then (rc, w1, s1)
             else (case wal_maybe_checkpoint ops w1 s1 of (w2, s2) \<Rightarrow> (0, w2, s2))))"


subsection \<open>Emitters\<close>

text \<open>\<open>ts\<close> is the time stamp counter; the trace output of the emitters is left out.\<close>

definition prep_header :: "nat \<Rightarrow> u64 \<Rightarrow> u64 \<Rightarrow> wal_record" where
  "prep_header kind tx ts = \<lparr>r_magic = SOTFS_WAL_MAGIC, r_length = of_nat WAL_RECORD_BYTES, r_tx_id = tx, r_timestamp = ts,
     r_kind = of_nat kind, r_reserved = 0, r_parent_id = 0, r_target_id = 0, r_new_parent_id = 0, r_mode = 0, r_offset = 0,
     r_blob_len = 0, r_name = [], r_name2 = [], r_blob = replicate SOTFS_WAL_MAX_BLOB 0\<rparr>"

definition rec_create_file :: "u64 \<Rightarrow> u64 \<Rightarrow> int \<Rightarrow> string \<Rightarrow> u32 \<Rightarrow> wal_record" where
  "rec_create_file ts tx parent name mode =
     (let r = prep_header SOTFS_WAL_KIND_CREATE_FILE tx ts; n = cstr_copy SOTFS_WAL_NAME_BYTES name
      in r\<lparr>r_parent_id := parent, r_mode := mode, r_name := n, r_blob_len := of_nat (length n)\<rparr>)"

definition rec_mkdir :: "u64 \<Rightarrow> u64 \<Rightarrow> int \<Rightarrow> string \<Rightarrow> u32 \<Rightarrow> wal_record" where
  "rec_mkdir ts tx parent name mode =
     (prep_header SOTFS_WAL_KIND_MKDIR tx ts)\<lparr>r_parent_id := parent, r_mode := mode, r_name := cstr_copy SOTFS_WAL_NAME_BYTES name\<rparr>"

definition rec_unlink :: "u64 \<Rightarrow> u64 \<Rightarrow> int \<Rightarrow> string \<Rightarrow> wal_record" where
  "rec_unlink ts tx parent name =
     (prep_header SOTFS_WAL_KIND_UNLINK tx ts)\<lparr>r_parent_id := parent, r_name := cstr_copy SOTFS_WAL_NAME_BYTES name\<rparr>"

definition rec_rmdir :: "u64 \<Rightarrow> u64 \<Rightarrow> int \<Rightarrow> string \<Rightarrow> wal_record" where
  "rec_rmdir ts tx parent name =
     (prep_header SOTFS_WAL_KIND_RMDIR tx ts)\<lparr>r_parent_id := parent, r_name := cstr_copy SOTFS_WAL_NAME_BYTES name\<rparr>"

definition rec_rename :: "u64 \<Rightarrow> u64 \<Rightarrow> int \<Rightarrow> string \<Rightarrow> int \<Rightarrow> string \<Rightarrow> wal_record" where
  "rec_rename ts tx p_src old_name p_dst new_name =
     (prep_header SOTFS_WAL_KIND_RENAME tx ts)\<lparr>r_parent_id := p_src, r_new_parent_id := p_dst,
        r_name := cstr_copy SOTFS_WAL_NAME_BYTES old_name, r_name2 := cstr_copy SOTFS_WAL_NAME_BYTES new_name\<rparr>"

definition rec_write :: "u64 \<Rightarrow> u64 \<Rightarrow> int \<Rightarrow> u32 \<Rightarrow> u8 list \<Rightarrow> wal_record" where
  "rec_write ts tx file_id off buf =
     (let r = prep_header SOTFS_WAL_KIND_WRITE tx ts; n = min SOTFS_WAL_MAX_BLOB (length buf)
      in r\<lparr>r_target_id := file_id, r_offset := off, r_blob_len := of_nat n, r_blob := overlay (r_blob r) 0 (take n buf)\<rparr>)"

definition rec_write_path :: "u64 \<Rightarrow> u64 \<Rightarrow> string \<Rightarrow> u32 \<Rightarrow> u8 list \<Rightarrow> wal_record" where
  "rec_write_path ts tx path off buf =
     (let r = prep_header SOTFS_WAL_KIND_WRITE tx ts; n = min SOTFS_WAL_MAX_BLOB (length buf)
      in r\<lparr>r_target_id := 0, r_offset := off, r_name := cstr_copy SOTFS_WAL_NAME_BYTES path, r_blob_len := of_nat n,
           r_blob := overlay (r_blob r) 0 (take n buf)\<rparr>)"

definition rec_install :: "u64 \<Rightarrow> u64 \<Rightarrow> string \<Rightarrow> u8 list \<Rightarrow> wal_record" where
  "rec_install ts tx path content =
     (let r = prep_header SOTFS_WAL_KIND_INSTALL tx ts; n = min SOTFS_WAL_MAX_BLOB (length content)
      in r\<lparr>r_name := cstr_copy SOTFS_WAL_NAME_BYTES path, r_blob_len := of_nat n, r_blob := overlay (r_blob r) 0 (take n content)\<rparr>)"

record procd_mut =
  pm_slot :: u32
  pm_synthetic_pid :: u32
  pm_ppid :: u32
  pm_pgid :: u32
  pm_sid :: u32
  pm_tier :: u16
  pm_functor_fs :: u16
  pm_functor_net :: u16
  pm_functor_proc :: u16
  pm_state :: u8
  pm_pledge_mask :: u64

definition procd_mut_encode :: "procd_mut \<Rightarrow> u8 list" where
  "procd_mut_encode p = le_bytes 4 (unat (pm_slot p)) @ le_bytes 4 (unat (pm_synthetic_pid p)) @ le_bytes 4 (unat (pm_ppid p)) @
     le_bytes 4 (unat (pm_pgid p)) @ le_bytes 4 (unat (pm_sid p)) @ le_bytes 2 (unat (pm_tier p)) @ le_bytes 2 (unat (pm_functor_fs p)) @
     le_bytes 2 (unat (pm_functor_net p)) @ le_bytes 2 (unat (pm_functor_proc p)) @ [pm_state p] @ replicate 11 0 @ le_bytes 8 (unat (pm_pledge_mask p))"

record anomaly_ev =
  ae_timestamp :: u64
  ae_pid :: u32
  ae_kind :: u16
  ae_arg0 :: u32
  ae_arg1 :: u32

definition anomaly_ev_encode :: "anomaly_ev \<Rightarrow> u8 list" where
  "anomaly_ev_encode p = le_bytes 8 (unat (ae_timestamp p)) @ le_bytes 4 (unat (ae_pid p)) @ le_bytes 2 (unat (ae_kind p)) @ replicate 2 0 @
     le_bytes 4 (unat (ae_arg0 p)) @ le_bytes 4 (unat (ae_arg1 p))"

definition anomaly_ev_decode :: "u8 list \<Rightarrow> anomaly_ev" where
  "anomaly_ev_decode bs = \<lparr>ae_timestamp = of_nat (le_at bs 0 8), ae_pid = of_nat (le_at bs 8 4), ae_kind = of_nat (le_at bs 12 2),
     ae_arg0 = of_nat (le_at bs 16 4), ae_arg1 = of_nat (le_at bs 20 4)\<rparr>"

record sotnet_synth =
  ss_src_slot :: u32
  ss_dst_ip_be :: u32
  ss_dst_port_be :: u16
  ss_bytes_redirected :: u32

definition sotnet_synth_encode :: "sotnet_synth \<Rightarrow> u8 list" where
  "sotnet_synth_encode p = le_bytes 4 (unat (ss_src_slot p)) @ le_bytes 4 (unat (ss_dst_ip_be p)) @ le_bytes 2 (unat (ss_dst_port_be p)) @
     replicate 2 0 @ le_bytes 4 (unat (ss_bytes_redirected p))"

definition sotnet_synth_decode :: "u8 list \<Rightarrow> sotnet_synth" where
  "sotnet_synth_decode bs = \<lparr>ss_src_slot = of_nat (le_at bs 0 4), ss_dst_ip_be = of_nat (le_at bs 4 4),
     ss_dst_port_be = of_nat (le_at bs 8 2), ss_bytes_redirected = of_nat (le_at bs 12 4)\<rparr>"

definition sotfs_wal_log_procd_mut :: "'s sotfs_storage_ops \<Rightarrow> procd_mut \<Rightarrow> wal \<Rightarrow> 's \<Rightarrow> int \<times> wal \<times> 's" where
  "sotfs_wal_log_procd_mut ops p = sotfs_wal_log_payload ops SOTFS_WAL_KIND_PROCD_MUT (procd_mut_encode p)"

definition sotfs_wal_log_anomaly_ev :: "'s sotfs_storage_ops \<Rightarrow> anomaly_ev \<Rightarrow> wal \<Rightarrow> 's \<Rightarrow> int \<times> wal \<times> 's" where
  "sotfs_wal_log_anomaly_ev ops p = sotfs_wal_log_payload ops SOTFS_WAL_KIND_ANOMALY_EV (anomaly_ev_encode p)"

definition sotfs_wal_log_sotnet_synth :: "'s sotfs_storage_ops \<Rightarrow> sotnet_synth \<Rightarrow> wal \<Rightarrow> 's \<Rightarrow> int \<times> wal \<times> 's" where
  "sotfs_wal_log_sotnet_synth ops p = sotfs_wal_log_payload ops SOTFS_WAL_KIND_SOTNET_SYNTH (sotnet_synth_encode p)"

definition sotfs_wal_log_checkpoint :: "'s sotfs_storage_ops \<Rightarrow> nat \<Rightarrow> nat \<Rightarrow> nat \<Rightarrow> nat \<Rightarrow> wal \<Rightarrow> 's \<Rightarrow> int \<times> wal \<times> 's" where
  "sotfs_wal_log_checkpoint ops epoch_seq simreboot_count shutdown_reason total_records =
     sotfs_wal_log_payload ops SOTFS_WAL_KIND_CHECKPOINT (checkpoint_encode epoch_seq simreboot_count shutdown_reason total_records)"


subsection \<open>Scanning\<close>

definition sotfs_storage_read :: "'s sotfs_storage_ops \<Rightarrow> wal \<Rightarrow> 's \<Rightarrow> nat \<Rightarrow> nat \<Rightarrow> int \<times> u8 list" where
  "sotfs_storage_read ops w s off len =
     (if \<not> g_initialised w \<or> len = 0 then (-22, [])
      else
        (case read_block ops s off len of
           (rc, bs) \<Rightarrow> if rc < 0 then (rc, bs) else if rc \<noteq> int len then (-5, bs) else (0, bs)))"

text \<open>
  The loop all readers of the log share: it reads the header at \<open>off\<close> with \<open>rd\<close>, stops at a
  read error, at a zero sequence number, at a short length or at a frame past the region, and
  otherwise hands the frame to \<open>h\<close> and moves on by its length.
\<close>

function wal_scan :: "('a \<Rightarrow> nat \<Rightarrow> nat \<Rightarrow> int \<times> u8 list) \<Rightarrow> (wal_hdr \<Rightarrow> nat \<Rightarrow> 'a \<Rightarrow> 'a) \<Rightarrow> nat \<Rightarrow> 'a \<Rightarrow> nat \<times> 'a" where
  "wal_scan rd h off st =
     (if off + WAL_HDR_BYTES \<le> SOTFS_WAL_OFFSET + SOTFS_WAL_REGION_BYTES then
        (case rd st off WAL_HDR_BYTES of
           (rc, bs) \<Rightarrow>
             if rc < 0 then (off, st)
             else if h_seq (hdr_decode bs) = 0 \<or> h_len (hdr_decode bs) < WAL_HDR_BYTES then (off, st)
             else if SOTFS_WAL_OFFSET + SOTFS_WAL_REGION_BYTES < off + h_len (hdr_decode bs) then (off, st)
             else wal_scan rd h (off + h_len (hdr_decode bs)) (h (hdr_decode bs) off st))
      else (off, st))"
  by pat_completeness auto
termination
  by (relation "measure (\<lambda>(rd, h, off, st). SOTFS_WAL_OFFSET + SOTFS_WAL_REGION_BYTES - off)")
     (auto simp: WAL_HDR_BYTES_def)

declare wal_scan.simps [simp del]

definition sotfs_wal_find_last_checkpoint :: "'s sotfs_storage_ops \<Rightarrow> wal \<Rightarrow> 's \<Rightarrow> nat" where
  "sotfs_wal_find_last_checkpoint ops w s =
     (if \<not> g_initialised w then SOTFS_WAL_OFFSET
      else snd (wal_scan (\<lambda>_. sotfs_storage_read ops w s)
                 (\<lambda>hdr off last_ck. if h_kind hdr = SOTFS_WAL_KIND_CHECKPOINT then off else last_ck) SOTFS_WAL_OFFSET SOTFS_WAL_OFFSET))"

end
