(* ===== verification/WalReplay.thy ===== *)
theory WalReplay
  imports Wal
begin

text \<open>
  Replay of the write-ahead log: of the file records (\<open>apply_record\<close> and
  \<open>sotfs_wal_replay_files\<close> of \<^verbatim>\<open>src/sotfs/wal.c\<close>) and of the records of the other subsystems
  (\<^verbatim>\<open>replay_procd.c\<close>, \<^verbatim>\<open>replay_anomaly.c\<close>, \<^verbatim>\<open>replay_sotnet.c\<close>), and the dispatcher of
  \<^verbatim>\<open>wal_replay.c\<close>. The log lies on the device of the block store, so the file replay reads it
  from \<open>g_st\<close> of the store it writes to.
\<close>

subsection \<open>File records\<close>

definition apply_record :: "'s sotfs_storage_ops \<Rightarrow> wal_record \<Rightarrow> sotfs_graph \<Rightarrow> 's blkdev \<Rightarrow> int \<times> sotfs_graph \<times> 's blkdev" where
  "apply_record ops r g b =
     (let kind = unat (r_kind r); blob = take (unat (r_blob_len r)) (r_blob r);
          rewrite = (\<lambda>(rc, g'). (rc, g', b)) in
      if kind = SOTFS_WAL_KIND_CREATE_FILE then rewrite (sotfs_rewrite_create_file g (r_parent_id r) (r_name r) (r_mode r))
      else if kind = SOTFS_WAL_KIND_MKDIR then rewrite (sotfs_rewrite_mkdir g (r_parent_id r) (r_name r) (r_mode r))
      else if kind = SOTFS_WAL_KIND_UNLINK then rewrite (sotfs_rewrite_unlink g (r_parent_id r) (r_name r))
      else if kind = SOTFS_WAL_KIND_RMDIR then rewrite (sotfs_rewrite_rmdir g (r_parent_id r) (r_name r))
      else if kind = SOTFS_WAL_KIND_RENAME then rewrite (sotfs_rewrite_rename g (r_parent_id r) (r_name r) (r_new_parent_id r) (r_name2 r))
      else if kind = SOTFS_WAL_KIND_WRITE then
        (if r_name r \<noteq> [] then
           (let fid = sotfs_resolve_path g (r_name r) in
            if fid = 0 then (-2, g, b)
            else sotfs_file_write ops g b fid (unat (r_offset r)) blob)
         else sotfs_file_write ops g b (r_target_id r) (unat (r_offset r)) blob)
      else if kind = SOTFS_WAL_KIND_INSTALL then
        (let leaf = (case r_name r of c # cs \<Rightarrow> if c = CHR ''/'' then cs else r_name r | [] \<Rightarrow> []);
             g1 = snd (sotfs_rewrite_create_file g (root_id g) leaf 420);
             file_id = sotfs_resolve_path g1 (r_name r) in
         if file_id = 0 then (-2, g1, b)
         else sotfs_file_write ops g1 b file_id 0 blob)
      else (-22, g, b))"

record 's replay =
  rp_applied :: nat
  rp_torn :: nat
  rp_last_seq :: nat
  rp_graph :: sotfs_graph
  rp_blk :: "'s blkdev"
  rp_wal :: wal

definition replay_files_step :: "'s sotfs_storage_ops \<Rightarrow> wal_hdr \<Rightarrow> nat \<Rightarrow> 's replay \<Rightarrow> 's replay" where
  "replay_files_step ops hdr off st =
     (if SOTFS_WAL_KIND_PROCD_MUT \<le> h_kind hdr then st\<lparr>rp_last_seq := h_seq hdr\<rparr>
      else
        let st1 =
          (if h_len hdr - WAL_HDR_BYTES = WAL_RECORD_BYTES then
             (case read_block ops (g_st (rp_blk st)) (off + WAL_HDR_BYTES) WAL_RECORD_BYTES of
                (rc, bs) \<Rightarrow>
                  if 0 \<le> rc \<and> sotfs_crc64 bs = h_crc64 hdr then
                    (case apply_record ops (rec_decode bs) (rp_graph st) (rp_blk st) of
                       (ar, g, b) \<Rightarrow> st\<lparr>rp_applied := (if 0 \<le> ar then rp_applied st + 1 else rp_applied st), rp_graph := g, rp_blk := b\<rparr>)
                  else st\<lparr>rp_torn := rp_torn st + 1, rp_wal := sotfs_wal_audit_emit SOTGUARD_KIND_WAL_TORN_RECORD (h_seq hdr) (rp_wal st)\<rparr>)
           else st)
        in st1\<lparr>rp_last_seq := h_seq hdr\<rparr>)"

definition sotfs_wal_replay_files :: "'s sotfs_storage_ops \<Rightarrow> wal \<Rightarrow> sotfs_graph \<Rightarrow> 's blkdev \<Rightarrow> int \<times> wal \<times> sotfs_graph \<times> 's blkdev" where
  "sotfs_wal_replay_files ops w g b =
     (if \<not> g_initialised w then (-22, w, g, b)
      else
        (case wal_scan (\<lambda>st. read_block ops (g_st (rp_blk st))) (replay_files_step ops) SOTFS_WAL_OFFSET
                \<lparr>rp_applied = 0, rp_torn = 0, rp_last_seq = 0, rp_graph = g, rp_blk = b, rp_wal = w\<rparr> of
           (off, st) \<Rightarrow>
             (int (rp_applied st),
              (rp_wal st)\<lparr>g_wal_cursor := off,
                          g_wal_seq := (if g_wal_seq (rp_wal st) \<le> rp_last_seq st then (rp_last_seq st + 1) mod 2 ^ 64 else g_wal_seq (rp_wal st))\<rparr>,
              rp_graph st, rp_blk st)))"


subsection \<open>Records of the other subsystems\<close>

text \<open>
  What the three other readers do with a frame before its payload is used: the payload of a
  frame of their kind and size, when its checksum matches (\<open>Inr\<close>), that of a torn frame
  (\<open>Inl True\<close>), or nothing to do (\<open>Inl False\<close>).
\<close>

definition frame_payload :: "'s sotfs_storage_ops \<Rightarrow> wal \<Rightarrow> 's \<Rightarrow> nat \<Rightarrow> nat \<Rightarrow> wal_hdr \<Rightarrow> nat \<Rightarrow> bool + u8 list" where
  "frame_payload ops w s kind n hdr off =
     (if h_kind hdr \<noteq> kind then Inl False
      else if h_len hdr - WAL_HDR_BYTES \<noteq> n then Inl False
      else
        (case sotfs_storage_read ops w s (off + WAL_HDR_BYTES) n of
           (rc, bs) \<Rightarrow>
             if rc < 0 then Inl False
             else if sotfs_crc64 bs \<noteq> h_crc64 hdr then Inl True
             else Inr bs))"

definition ANOMALY_REPLAY_HISTORY_MAX :: nat where [limits]: "ANOMALY_REPLAY_HISTORY_MAX = 256"

text \<open>The history buffer and the log state.\<close>

definition anomaly_replay_step :: "'s sotfs_storage_ops \<Rightarrow> 's \<Rightarrow> wal_hdr \<Rightarrow> nat \<Rightarrow> anomaly_ev list \<times> wal \<Rightarrow> anomaly_ev list \<times> wal" where
  "anomaly_replay_step ops s hdr off =
     (\<lambda>(hist, w).
        case frame_payload ops w s SOTFS_WAL_KIND_ANOMALY_EV 24 hdr off of
          Inl torn \<Rightarrow> (hist, if torn then sotfs_wal_audit_emit SOTGUARD_KIND_WAL_TORN_RECORD (h_seq hdr) w else w)
        | Inr bs \<Rightarrow> (if length hist < ANOMALY_REPLAY_HISTORY_MAX then hist @ [anomaly_ev_decode bs] else hist, w))"

definition anomaly_wal_replay :: "'s sotfs_storage_ops \<Rightarrow> wal \<Rightarrow> 's \<Rightarrow> int \<times> anomaly_ev list \<times> wal" where
  "anomaly_wal_replay ops w s =
     (case snd (wal_scan (\<lambda>(hist, w). sotfs_storage_read ops w s) (anomaly_replay_step ops s) SOTFS_WAL_OFFSET ([], w)) of
        (hist, w') \<Rightarrow> (int (length hist), hist, w'))"

record synth_counters =
  g_synth_redirects_total :: u32
  g_synth_bytes_total :: u32
  g_synth_redirects_pid :: "u32 arr"

definition ORCH_STATUS_MAX_ENTRIES :: nat where [limits]: "ORCH_STATUS_MAX_ENTRIES = 8"

definition synth_replay_bump :: "u32 \<Rightarrow> u32 \<Rightarrow> synth_counters \<Rightarrow> synth_counters" where
  "synth_replay_bump src_slot bytes c =
     (let c1 = c\<lparr>g_synth_redirects_total := g_synth_redirects_total c + 1, g_synth_bytes_total := g_synth_bytes_total c + bytes\<rparr>
      in if 0 < src_slot \<and> unat src_slot \<le> ORCH_STATUS_MAX_ENTRIES
         then c1\<lparr>g_synth_redirects_pid := (g_synth_redirects_pid c1)(unat src_slot := g_synth_redirects_pid c1 (unat src_slot) + 1)\<rparr>
         else c1)"

definition sotnet_replay_step :: "'s sotfs_storage_ops \<Rightarrow> 's \<Rightarrow> wal_hdr \<Rightarrow> nat \<Rightarrow> nat \<times> synth_counters \<times> wal \<Rightarrow> nat \<times> synth_counters \<times> wal" where
  "sotnet_replay_step ops s hdr off =
     (\<lambda>(n, c, w).
        case frame_payload ops w s SOTFS_WAL_KIND_SOTNET_SYNTH 16 hdr off of
          Inl torn \<Rightarrow> (n, c, if torn then sotfs_wal_audit_emit SOTGUARD_KIND_WAL_TORN_RECORD (h_seq hdr) w else w)
        | Inr bs \<Rightarrow> (n + 1, synth_replay_bump (ss_src_slot (sotnet_synth_decode bs)) (ss_bytes_redirected (sotnet_synth_decode bs)) c, w))"

definition sotnet_wal_replay :: "'s sotfs_storage_ops \<Rightarrow> wal \<Rightarrow> 's \<Rightarrow> synth_counters \<Rightarrow> int \<times> synth_counters \<times> wal" where
  "sotnet_wal_replay ops w s c =
     (case snd (wal_scan (\<lambda>(n, c, w). sotfs_storage_read ops w s) (sotnet_replay_step ops s) SOTFS_WAL_OFFSET (0, c, w)) of
        (n, c', w') \<Rightarrow> (int n, c', w'))"

text \<open>
  The process records are an audit trail: \<open>g_procd_shm_base\<close> stays 0, \<open>procd_shm_proc_at\<close> finds
  no entry, and nothing is applied. The counters are of scanned, torn and skipped frames.
\<close>

definition procd_replay_step :: "'s sotfs_storage_ops \<Rightarrow> 's \<Rightarrow> wal_hdr \<Rightarrow> nat \<Rightarrow> (nat \<times> nat \<times> nat) \<times> wal \<Rightarrow> (nat \<times> nat \<times> nat) \<times> wal" where
  "procd_replay_step ops s hdr off =
     (\<lambda>((scanned, torn, no_shm), w).
        let scanned' = (if h_kind hdr = SOTFS_WAL_KIND_PROCD_MUT then scanned + 1 else scanned) in
        case frame_payload ops w s SOTFS_WAL_KIND_PROCD_MUT 48 hdr off of
          Inl t \<Rightarrow> ((scanned', if t then torn + 1 else torn, no_shm), if t then sotfs_wal_audit_emit SOTGUARD_KIND_WAL_TORN_RECORD (h_seq hdr) w else w)
        | Inr bs \<Rightarrow> ((scanned', torn, no_shm + 1), w))"

definition procd_wal_replay :: "'s sotfs_storage_ops \<Rightarrow> wal \<Rightarrow> 's \<Rightarrow> int \<times> (nat \<times> nat \<times> nat) \<times> wal" where
  "procd_wal_replay ops w s =
     (case snd (wal_scan (\<lambda>(cs, w). sotfs_storage_read ops w s) (procd_replay_step ops s) SOTFS_WAL_OFFSET ((0, 0, 0), w)) of
        (cs, w') \<Rightarrow> (0, cs, w'))"


subsection \<open>The dispatcher\<close>

definition sotfs_wal_replay_apply ::
    "'s sotfs_storage_ops \<Rightarrow> wal \<Rightarrow> sotfs_graph \<Rightarrow> 's blkdev \<Rightarrow> synth_counters \<Rightarrow>
     int \<times> wal \<times> sotfs_graph \<times> 's blkdev \<times> anomaly_ev list \<times> synth_counters" where
  "sotfs_wal_replay_apply ops w g b c =
     (let (files, w1, g1, b1) = sotfs_wal_replay_files ops w g b;
          (procd_n, cs, w2) = procd_wal_replay ops w1 (g_st b1);
          (anomaly_n, hist, w3) = anomaly_wal_replay ops w2 (g_st b1);
          (sotnet_n, c', w4) = sotnet_wal_replay ops w3 (g_st b1) c;
          total = files + max 0 procd_n + max 0 anomaly_n + max 0 sotnet_n
      in (total, sotfs_wal_audit_emit SOTGUARD_KIND_WAL_REPLAY_DONE (nat (total mod 2 ^ 64)) w4, g1, b1, hist, c'))"

end
