(* ===== verification/WalOk.thy ===== *)
theory WalOk
  imports WalReplay SotfsIoOk
begin

text \<open>
  Correctness of the write-ahead log: encodings, the log as a list of frames, the scan, the
  replay of the file records, and appending, over every storage that keeps its contract.
\<close>

subsection \<open>Encodings\<close>

lemma length_hdr_encode [simp]: "length (hdr_encode h) = WAL_HDR_BYTES"
  by (simp add: hdr_encode_def WAL_HDR_BYTES_def)

lemma le_at_skip: "length xs \<le> off \<Longrightarrow> le_at (xs @ ys) off k = le_at ys (off - length xs) k"
  by (simp add: le_at_def)

lemma le_at_here: "le_at (le_bytes k n @ ys) 0 k = n mod 256 ^ k"
  by (simp add: le_at_def le_nat_le_bytes)

lemma le_at_last: "le_at (le_bytes k n) 0 k = n mod 256 ^ k"
  by (simp add: le_at_def le_nat_le_bytes)

lemma hdr_decode_encode:
  assumes "h_seq h < 2 ^ 64" "h_kind h < 2 ^ 32" "h_len h < 2 ^ 32"
  shows "hdr_decode (hdr_encode h) = h"
proof -
  have "unat (h_crc64 h) < 2 ^ LENGTH(64)" by (rule unsigned_less)
  then have "le_at (hdr_encode h) 16 8 = unat (h_crc64 h)" by (simp add: hdr_encode_def le_at_skip le_at_last)
  then show ?thesis using assms by (simp add: hdr_decode_def hdr_encode_def le_at_skip le_at_here)
qed

lemma hdr_decode_zero: "h_seq (hdr_decode (replicate WAL_HDR_BYTES 0)) = 0"
proof -
  have "le_nat (replicate k 0) = 0" for k by (induction k) simp_all
  then show ?thesis by (simp add: hdr_decode_def le_at_def limits)
qed

definition rec_ok :: "wal_record \<Rightarrow> bool" where
  "rec_ok r \<longleftrightarrow> length (r_blob r) = SOTFS_WAL_MAX_BLOB \<and> length (r_name r) < SOTFS_WAL_NAME_BYTES \<and> length (r_name2 r) < SOTFS_WAL_NAME_BYTES \<and>
     CHR 0x00 \<notin> set (r_name r) \<and> CHR 0x00 \<notin> set (r_name2 r) \<and>
     r_parent_id r \<in> {- (2 ^ 31)..<2 ^ 31} \<and> r_target_id r \<in> {- (2 ^ 31)..<2 ^ 31} \<and> r_new_parent_id r \<in> {- (2 ^ 31)..<2 ^ 31}"

lemma length_name_bytes [simp]: "length (name_bytes k s) = k"
  by (simp add: name_bytes_def)

lemma length_s32 [simp]: "length (s32_bytes i) = 4"
  by (simp add: s32_bytes_def)

lemma length_rec_encode: "length (r_blob r) = SOTFS_WAL_MAX_BLOB \<Longrightarrow> length (rec_encode r) = WAL_RECORD_BYTES"
  by (simp add: rec_encode_def limits)

lemma s32_at_skip: "length xs \<le> off \<Longrightarrow> s32_at (xs @ ys) off = s32_at ys (off - length xs)"
  by (simp add: s32_at_def le_at_skip)

lemma s32_at_here: "i \<in> {- (2 ^ 31)..<2 ^ 31} \<Longrightarrow> s32_at (s32_bytes i @ ys) 0 = i"
proof -
  assume i: "i \<in> {- (2 ^ 31)..<2 ^ 31}"
  have "le_at (s32_bytes i @ ys) 0 4 = nat (i mod 2 ^ 32)"
    by (simp add: s32_bytes_def le_at_here nat_mod_as_int)
  moreover have "(of_nat (nat (i mod 2 ^ 32)) :: u32) = word_of_int i"
    by (simp add: word_of_int_eq_iff take_bit_eq_mod)
  moreover have "sint (word_of_int i :: u32) = i" using i by (simp add: signed_of_int signed_take_bit_int_eq_self)
  ultimately show ?thesis by (simp only: s32_at_def)
qed

lemma cstr_skip: "length xs \<le> off \<Longrightarrow> cstr_at (xs @ ys) off = cstr_at ys (off - length xs)"
  by (simp add: cstr_at_def)

lemma cstr_here:
  assumes "length s < k" "CHR 0x00 \<notin> set s"
  shows "cstr_at (name_bytes k s @ ys) 0 = s"
proof -
  let ?b = "\<lambda>c. of_nat (of_char c) :: u8"
  have c: "unat (?b c) = of_char c" for c :: char
  proof -
    have "of_char c < (256 :: nat)" by simp
    then show ?thesis by (simp add: unat_of_nat take_bit_nat_eq_self)
  qed
  have nz: "?b c \<noteq> 0" if "c \<in> set s" for c
  proof
    assume "?b c = 0"
    then have "of_char c = (0 :: nat)" using c [of c] by simp
    then have "c = CHR 0x00" using of_char_eq_iff [where ?'a = nat, of c "CHR 0x00"] by simp
    then show False using that assms(2) by simp
  qed
  obtain m where m: "k = Suc (length s + m)" using assms(1) less_imp_Suc_add by blast
  have "name_bytes k s = map ?b s @ 0 # replicate m 0"
    by (simp add: name_bytes_def m take_Cons')
  then have "takeWhile (\<lambda>b. b \<noteq> 0) (name_bytes k s @ ys) = map ?b s"
    using nz by (simp add: takeWhile_append)
  then show ?thesis by (simp add: cstr_at_def c comp_def)
qed

lemma unat_mod [simp]:
  "unat (x :: u64) mod 18446744073709551616 = unat x" "unat (y :: u32) mod 4294967296 = unat y" "unat (z :: u16) mod 65536 = unat z"
proof -
  have "unat x < 2 ^ LENGTH(64)" "unat y < 2 ^ LENGTH(32)" "unat z < 2 ^ LENGTH(16)" by (rule unsigned_less)+
  then show "unat x mod 18446744073709551616 = unat x" "unat y mod 4294967296 = unat y" "unat z mod 65536 = unat z" by simp_all
qed

lemma rec_decode_encode:
  assumes "rec_ok r"
  shows "rec_decode (rec_encode r) = r"
proof -
  note k = assms [unfolded rec_ok_def]
  have "r_magic (rec_decode (rec_encode r)) = r_magic r" "r_length (rec_decode (rec_encode r)) = r_length r"
    "r_tx_id (rec_decode (rec_encode r)) = r_tx_id r" "r_timestamp (rec_decode (rec_encode r)) = r_timestamp r"
    "r_kind (rec_decode (rec_encode r)) = r_kind r" "r_reserved (rec_decode (rec_encode r)) = r_reserved r"
    "r_mode (rec_decode (rec_encode r)) = r_mode r" "r_offset (rec_decode (rec_encode r)) = r_offset r"
    "r_blob_len (rec_decode (rec_encode r)) = r_blob_len r"
    by (simp_all add: rec_decode_def rec_encode_def le_at_skip le_at_here)
  moreover have "r_parent_id (rec_decode (rec_encode r)) = r_parent_id r" "r_target_id (rec_decode (rec_encode r)) = r_target_id r"
    "r_new_parent_id (rec_decode (rec_encode r)) = r_new_parent_id r"
    using k by (simp_all add: rec_decode_def rec_encode_def s32_at_skip s32_at_here)
  moreover have "r_name (rec_decode (rec_encode r)) = r_name r" "r_name2 (rec_decode (rec_encode r)) = r_name2 r"
    using k by (simp_all add: rec_decode_def rec_encode_def cstr_skip cstr_here SOTFS_WAL_NAME_BYTES_def)
  moreover have "r_blob (rec_decode (rec_encode r)) = r_blob r"
    using k by (simp add: rec_decode_def rec_encode_def SOTFS_WAL_NAME_BYTES_def)
  ultimately show ?thesis by (cases r; cases "rec_decode (rec_encode r)") simp
qed

subsection \<open>The log as a list of frames\<close>

text \<open>A frame as it lies on the disk; it is torn when the checksum of its header is not that of its payload.\<close>

record frame =
  f_kind :: nat
  f_payload :: "u8 list"
  f_crc :: u64

definition frame_hdr :: "nat \<Rightarrow> frame \<Rightarrow> wal_hdr" where
  "frame_hdr seq f = \<lparr>h_seq = seq, h_kind = f_kind f, h_len = WAL_HDR_BYTES + length (f_payload f), h_crc64 = f_crc f\<rparr>"

fun log_bytes :: "nat \<Rightarrow> frame list \<Rightarrow> u8 list" where
  "log_bytes seq [] = []"
| "log_bytes seq (f # fs) = hdr_encode (frame_hdr seq f) @ f_payload f @ log_bytes (Suc seq) fs"

lemma log_bytes_append: "log_bytes seq (fs @ gs) = log_bytes seq fs @ log_bytes (seq + length fs) gs"
  by (induction fs arbitrary: seq) simp_all

lemma length_log_bytes: "length (log_bytes seq fs) = sum_list (map (\<lambda>f. WAL_HDR_BYTES + length (f_payload f)) fs)"
  by (induction fs arbitrary: seq) simp_all

lemma log_count: "length fs * WAL_HDR_BYTES \<le> length (log_bytes seq fs)"
  by (induction fs arbitrary: seq) (simp_all add: trans_le_add2)

text \<open>The frames \<open>fs\<close>, numbered from \<open>seq\<close>, lie in the image from \<open>off\<close>, and the rest of the region is zero.\<close>

definition log_at :: "(nat \<Rightarrow> u8) \<Rightarrow> nat \<Rightarrow> nat \<Rightarrow> frame list \<Rightarrow> bool" where
  "log_at M off seq fs \<longleftrightarrow> off + length (log_bytes seq fs) \<le> SOTFS_DATA_OFFSET \<and>
     get_bytes M off (length (log_bytes seq fs)) = log_bytes seq fs \<and>
     (\<forall>a. off + length (log_bytes seq fs) \<le> a \<and> a < SOTFS_DATA_OFFSET \<longrightarrow> M a = 0) \<and>
     (\<forall>f\<in>set fs. f_kind f < 2 ^ 32)"

fun run_frames :: "(wal_hdr \<Rightarrow> nat \<Rightarrow> 'a \<Rightarrow> 'a) \<Rightarrow> nat \<Rightarrow> nat \<Rightarrow> frame list \<Rightarrow> 'a \<Rightarrow> 'a" where
  "run_frames h off seq [] st = st"
| "run_frames h off seq (f # fs) st =
     run_frames h (off + h_len (frame_hdr seq f)) (Suc seq) fs (h (frame_hdr seq f) off st)"

lemma log_at_ConsD:
  assumes "log_at M off seq (f # fs)" "seq < 2 ^ 64"
  shows "get_bytes M off WAL_HDR_BYTES = hdr_encode (frame_hdr seq f)"
    "get_bytes M (off + WAL_HDR_BYTES) (length (f_payload f)) = f_payload f"
    "log_at M (off + h_len (frame_hdr seq f)) (Suc seq) fs"
    "hdr_decode (hdr_encode (frame_hdr seq f)) = frame_hdr seq f"
    "off + h_len (frame_hdr seq f) \<le> SOTFS_DATA_OFFSET"
proof -
  let ?h = "hdr_encode (frame_hdr seq f)" and ?p = "f_payload f" and ?r = "log_bytes (Suc seq) fs"
  note l = assms(1) [unfolded log_at_def]
  have len: "length (log_bytes seq (f # fs)) = WAL_HDR_BYTES + (length ?p + length ?r)" by simp
  have g: "get_bytes M off WAL_HDR_BYTES @ get_bytes M (off + WAL_HDR_BYTES) (length ?p) @ get_bytes M (off + WAL_HDR_BYTES + length ?p) (length ?r)
      = ?h @ ?p @ ?r"
    using l unfolding len by (simp add: get_bytes_append add.assoc)
  then show a: "get_bytes M off WAL_HDR_BYTES = ?h" by (simp add: append_eq_append_conv)
  from g a have g2: "get_bytes M (off + WAL_HDR_BYTES) (length ?p) @ get_bytes M (off + WAL_HDR_BYTES + length ?p) (length ?r) = ?p @ ?r" by simp
  then show b: "get_bytes M (off + WAL_HDR_BYTES) (length ?p) = ?p" by (simp add: append_eq_append_conv)
  from g2 b have c: "get_bytes M (off + WAL_HDR_BYTES + length ?p) (length ?r) = ?r" by simp
  have e: "h_len (frame_hdr seq f) = WAL_HDR_BYTES + length ?p" by (simp add: frame_hdr_def)
  show "log_at M (off + h_len (frame_hdr seq f)) (Suc seq) fs"
    using l c unfolding e log_at_def len by (simp add: add.assoc)
  show d: "off + h_len (frame_hdr seq f) \<le> SOTFS_DATA_OFFSET" using l unfolding e len by linarith
  show "hdr_decode (hdr_encode (frame_hdr seq f)) = frame_hdr seq f"
    by (rule hdr_decode_encode) (use l d assms(2) in \<open>simp_all add: frame_hdr_def limits\<close>)
qed

lemma log_at_Nil_zero:
  assumes "log_at M off seq []" "off + WAL_HDR_BYTES \<le> SOTFS_DATA_OFFSET"
  shows "get_bytes M off WAL_HDR_BYTES = replicate WAL_HDR_BYTES 0"
  using assms by (intro nth_equalityI) (simp_all add: log_at_def)

text \<open>
  The scan visits exactly the frames of the log, when its reads see the image \<open>M\<close> as long as
  \<open>I\<close> holds of the state, and the handler keeps \<open>I\<close>.
\<close>

lemma scan_log:
  assumes rd: "\<And>st a n. I st \<Longrightarrow> a + n \<le> SOTFS_DATA_OFFSET \<Longrightarrow> 0 < n \<Longrightarrow> 0 \<le> fst (rd st a n) \<and> snd (rd st a n) = get_bytes M a n"
    and h: "\<And>st hdr off. I st \<Longrightarrow> I (h hdr off st)"
  shows "I st \<Longrightarrow> log_at M off seq fs \<Longrightarrow> 0 < seq \<Longrightarrow> seq + length fs < 2 ^ 64 \<Longrightarrow>
    wal_scan rd h off st = (off + length (log_bytes seq fs), run_frames h off seq fs st) \<and> I (run_frames h off seq fs st)"
proof (induction fs arbitrary: off seq st)
  case Nil
  have D: "SOTFS_WAL_OFFSET + SOTFS_WAL_REGION_BYTES = SOTFS_DATA_OFFSET" by (simp add: SOTFS_DATA_OFFSET_def)
  show ?case
  proof (cases "off + WAL_HDR_BYTES \<le> SOTFS_DATA_OFFSET")
    case True
    have "0 \<le> fst (rd st off WAL_HDR_BYTES) \<and> snd (rd st off WAL_HDR_BYTES) = replicate WAL_HDR_BYTES 0"
      using rd [OF Nil.prems(1) True] log_at_Nil_zero [OF Nil.prems(2) True] by (simp add: WAL_HDR_BYTES_def)
    then show ?thesis using Nil.prems(1) hdr_decode_zero by (simp add: wal_scan.simps [of rd h off st] case_prod_beta)
  next
    case False
    then show ?thesis using Nil.prems(1) D by (simp add: wal_scan.simps [of rd h off st])
  qed
next
  case (Cons f fs)
  have D: "SOTFS_WAL_OFFSET + SOTFS_WAL_REGION_BYTES = SOTFS_DATA_OFFSET" by (simp add: SOTFS_DATA_OFFSET_def)
  have s: "seq < 2 ^ 64" using Cons.prems(4) by simp
  note c = log_at_ConsD [OF Cons.prems(2) s]
  have e: "h_len (frame_hdr seq f) = WAL_HDR_BYTES + length (f_payload f)" "h_seq (frame_hdr seq f) = seq" by (simp_all add: frame_hdr_def)
  have fits: "off + WAL_HDR_BYTES \<le> SOTFS_DATA_OFFSET" using c(5) e(1) by simp
  have r: "0 \<le> fst (rd st off WAL_HDR_BYTES)" "hdr_decode (snd (rd st off WAL_HDR_BYTES)) = frame_hdr seq f"
    using rd [OF Cons.prems(1) fits] c(1,4) by (simp_all add: WAL_HDR_BYTES_def)
  have "wal_scan rd h off st = wal_scan rd h (off + h_len (frame_hdr seq f)) (h (frame_hdr seq f) off st)"
    using fits c(5) r e Cons.prems(3) D by (simp add: wal_scan.simps [of rd h off st] case_prod_beta)
  moreover have "I (h (frame_hdr seq f) off st)" by (rule h [OF Cons.prems(1)])
  moreover have "seq + length (f # fs) = Suc seq + length fs" by simp
  ultimately show ?case using Cons.IH [OF _ c(3), of "h (frame_hdr seq f) off st"] Cons.prems(4) e(1) by (simp add: add.assoc)
qed

subsection \<open>File operations leave the log alone\<close>

definition keeps :: "('s \<Rightarrow> nat \<Rightarrow> u8) \<Rightarrow> nat \<Rightarrow> 's blkdev \<Rightarrow> 's blkdev \<Rightarrow> bool" where
  "keeps img cap b b' \<longleftrightarrow> blk_ok img cap b' \<and> same_layout b' b \<and> (\<forall>a<g_heap_off b. img (g_st b') a = img (g_st b) a)"

lemma keeps_refl: "blk_ok img cap b \<Longrightarrow> keeps img cap b b"
  by (simp add: keeps_def same_layout_def)

lemma keeps_trans: "keeps img cap b c \<Longrightarrow> keeps img cap c d \<Longrightarrow> keeps img cap b d"
  by (auto simp: keeps_def same_layout_def)

lemma keeps_meta: "blk_ok img cap c \<Longrightarrow> same_meta img c b \<Longrightarrow> keeps img cap b c"
  by (auto simp: keeps_def same_meta_def same_alloc_def)

lemma keeps_ok: "keeps img cap b c \<Longrightarrow> blk_ok img cap c"
  by (simp add: keeps_def)

context storage
begin

lemma read_keeps:
  assumes "blk_ok img cap b"
  shows "keeps img cap b (snd (sotfs_blk_read ops b n))" "length (snd (fst (sotfs_blk_read ops b n))) = SOTFS_BLOCK_SIZE \<or> fst (fst (sotfs_blk_read ops b n)) \<noteq> 0"
proof -
  have "keeps img cap b (snd (sotfs_blk_read ops b n)) \<and>
    (length (snd (fst (sotfs_blk_read ops b n))) = SOTFS_BLOCK_SIZE \<or> fst (fst (sotfs_blk_read ops b n)) \<noteq> 0)"
  proof (cases "blk_valid b n")
    case True
    obtain c where "sotfs_blk_read ops b n = ((0, blk_view img b n), c)" "blk_ok img cap c" "same_meta img c b"
      by (rule blk_read_ok [OF assms True]) blast
    then show ?thesis using keeps_meta length_view [OF assms] by simp
  next
    case False
    then show ?thesis using keeps_refl [OF assms] by (simp add: sotfs_blk_read_def)
  qed
  then show "keeps img cap b (snd (sotfs_blk_read ops b n))" "length (snd (fst (sotfs_blk_read ops b n))) = SOTFS_BLOCK_SIZE \<or> fst (fst (sotfs_blk_read ops b n)) \<noteq> 0" by auto
qed

lemma write_keeps:
  assumes "blk_ok img cap b" "length d = SOTFS_BLOCK_SIZE"
  shows "keeps img cap b (snd (sotfs_blk_write ops b n d))"
proof (cases "blk_valid b n")
  case True
  have "length d = SOTFS_BLKDEV_BLOCK_SIZE" using assms(2) by (simp add: limits)
  then obtain c where "sotfs_blk_write ops b n d = (0, c)" "blk_ok img cap c" "same_meta img c b"
    by (rule blk_write_ok [OF assms(1) True]) blast
  then show ?thesis using keeps_meta by simp
next
  case False
  then show ?thesis using keeps_refl [OF assms(1)] by (simp add: sotfs_blk_write_def)
qed

lemma load_keeps:
  assumes "blk_ok img cap b" "load_page ops b n = (p, b')"
  shows "keeps img cap b b'" "length p = SOTFS_BLOCK_SIZE"
proof -
  have "keeps img cap b b' \<and> length p = SOTFS_BLOCK_SIZE"
    using assms(2) read_keeps [OF assms(1), of n] keeps_refl [OF assms(1)]
    by (cases "n = 0"; cases "sotfs_blk_read ops b n") (auto simp: load_page_def split: if_splits)
  then show "keeps img cap b b'" "length p = SOTFS_BLOCK_SIZE" by auto
qed

lemma store_keeps:
  assumes ok: "blk_ok img cap b" and l: "intra + length bs \<le> SOTFS_BLOCK_SIZE" and s: "store_chunk ops g b i intra bs = (g', b')"
  shows "keeps img cap b b'"
proof -
  let ?d = "b_disk_blk (blocks g i)"
  obtain p b1 where p: "load_page ops b ?d = (p, b1)" by fastforce
  note lk = load_keeps [OF ok p]
  have w: "keeps img cap b1 (snd (sotfs_blk_write ops b1 ?d (overlay p intra bs)))"
    by (rule write_keeps [OF keeps_ok [OF lk(1)]]) (use lk(2) l in \<open>simp add: length_overlay\<close>)
  have "b' = (if ?d \<noteq> 0 then snd (sotfs_blk_write ops b1 ?d (overlay p intra bs)) else b1)"
    using s p by (auto simp: store_chunk_def Let_def)
  then show ?thesis using keeps_trans [OF lk(1) w] lk(1) by (simp split: if_splits)
qed

lemma get_block_keeps:
  assumes ok: "blk_ok img cap b" and g: "get_block g b f k orig = (n, g', b')"
  shows "keeps img cap b b'"
proof -
  obtain d b1 where d: "sotfs_blk_alloc b = (d, b1)" by fastforce
  have k: "keeps img cap b b1" using blk_alloc_ok(1,3,4) [OF ok d] by (simp add: keeps_def)
  have "b' = b \<or> b' = b1" using g d
    by (auto simp: get_block_def sotfs_alloc_block_def Let_def split: option.splits if_splits)
  then show ?thesis using k keeps_refl [OF ok] by blast
qed

lemma write_loop_keeps:
  "blk_ok img cap b \<Longrightarrow> write_loop ops f off buf orig w g b = (r, g', b') \<Longrightarrow> keeps img cap b b'"
proof (induction "length buf - w" arbitrary: w g b rule: less_induct)
  case less
  show ?case
  proof (cases "w < length buf")
    case False
    then show ?thesis using less.prems keeps_refl by (simp add: write_loop.simps)
  next
    case True
    define a where "a = (off + w) mod 2 ^ 32"
    define c where "c = chunk_at a (length buf - w)"
    let ?bs = "take c (drop w buf)" and ?i = "a mod SOTFS_BLOCK_SIZE"
    obtain n g1 b1 where gb: "get_block g b f (a - ?i) orig = (n, g1, b1)" by (metis prod_cases3)
    note k1 = get_block_keeps [OF less.prems(1) gb]
    have step: "write_loop ops f off buf orig w g b =
      (if n = 0 then ((True, if 0 < w then int w else SOTFS_ERR_NOSPACE), g1, b1)
       else case block_slot n of None \<Rightarrow> ((True, SOTFS_ERR_INVAL), g1, b1)
         | Some slot \<Rightarrow> (case store_chunk ops g1 b1 slot ?i ?bs of (g2, b2) \<Rightarrow> write_loop ops f off buf orig (w + c) g2 b2))"
      using True gb by (simp only: write_loop.simps [of ops f off buf orig w] Let_def if_True a_def [symmetric] c_def [symmetric] prod.case)
    show ?thesis
    proof (cases "n = 0 \<or> block_slot n = None")
      case True
      then have "b' = b1" using step less.prems(2) by (cases "n = 0") simp_all
      then show ?thesis using k1 by simp
    next
      case False
      then obtain slot where sl: "n \<noteq> 0" "block_slot n = Some slot" by auto
      obtain g2 b2 where s: "store_chunk ops g1 b1 slot ?i ?bs = (g2, b2)" by fastforce
      have "?i + length ?bs \<le> SOTFS_BLOCK_SIZE"
      proof -
        have "?i < SOTFS_BLOCK_SIZE" by (simp add: SOTFS_BLOCK_SIZE_def)
        moreover have "length ?bs \<le> SOTFS_BLOCK_SIZE - ?i" by (simp add: c_def chunk_at_def)
        ultimately show ?thesis by linarith
      qed
      note k2 = store_keeps [OF keeps_ok [OF k1] this s]
      have lp: "write_loop ops f off buf orig (w + c) g2 b2 = (r, g', b')" using step sl s less.prems(2) by simp
      have "length buf - (w + c) < length buf - w" using True by (simp add: c_def chunk_at_less)
      then have "keeps img cap b2 b'" by (rule less.hyps [OF _ keeps_ok [OF k2] lp])
      then show ?thesis using keeps_trans k1 k2 by blast
    qed
  qed
qed

lemma file_write_keeps:
  assumes "blk_ok img cap b" "sotfs_file_write ops g b f off buf = (r, g', b')"
  shows "keeps img cap b b'"
proof -
  let ?l = "write_loop ops f off buf (unat (i_size (inodes g (nat (f - 1))))) 0 g b"
  obtain x g1 b1 where l: "?l = (x, g1, b1)" by (metis prod_cases3)
  have "b' = b \<or> b' = b1" using assms(2) l
    by (cases x) (auto simp: sotfs_file_write_def Let_def split: if_splits)
  then show ?thesis using write_loop_keeps [OF assms(1) l] keeps_refl [OF assms(1)] by blast
qed

lemma apply_record_keeps:
  assumes ok: "blk_ok img cap b"
  shows "keeps img cap b (snd (snd (apply_record ops r g b)))"
proof -
  have w: "keeps img cap b (snd (snd (sotfs_file_write ops h b f off buf)))" for h f off buf
    using file_write_keeps [OF ok] by (cases "sotfs_file_write ops h b f off buf") auto
  have k: "keeps img cap b (snd (snd (case x of (rc, g') \<Rightarrow> (rc, g', b))))" for x :: "int \<times> sotfs_graph"
    using keeps_refl [OF ok] by (simp add: case_prod_beta)
  show ?thesis using w k keeps_refl [OF ok] unfolding apply_record_def Let_def by (simp split: if_split)
qed

end

subsection \<open>Replaying a log\<close>

text \<open>What a frame means for the files: an intact file record is applied, everything else is skipped.\<close>

definition file_frame :: "frame \<Rightarrow> bool" where
  "file_frame f \<longleftrightarrow> f_kind f < SOTFS_WAL_KIND_PROCD_MUT \<and> length (f_payload f) = WAL_RECORD_BYTES"

definition intact :: "frame \<Rightarrow> bool" where
  "intact f \<longleftrightarrow> sotfs_crc64 (f_payload f) = f_crc f"

definition apply_frame :: "'s sotfs_storage_ops \<Rightarrow> frame \<Rightarrow> sotfs_graph \<times> 's blkdev \<Rightarrow> sotfs_graph \<times> 's blkdev" where
  "apply_frame ops f = (\<lambda>(g, b). if file_frame f \<and> intact f then snd (apply_record ops (rec_decode (f_payload f)) g b) else (g, b))"

text \<open>The block store of a replay lies after the log, whose bytes are those of \<open>M\<close>.\<close>

definition log_below :: "('s \<Rightarrow> nat \<Rightarrow> u8) \<Rightarrow> nat \<Rightarrow> (nat \<Rightarrow> u8) \<Rightarrow> 's blkdev \<Rightarrow> bool" where
  "log_below img cap M b \<longleftrightarrow> blk_ok img cap b \<and> SOTFS_DATA_OFFSET \<le> g_heap_off b \<and> (\<forall>a<SOTFS_DATA_OFFSET. img (g_st b) a = M a)"

lemma log_below_keeps: "log_below img cap M b \<Longrightarrow> keeps img cap b c \<Longrightarrow> log_below img cap M c"
  by (auto simp: log_below_def keeps_def same_layout_def)

lemma log_below_get: "log_below img cap M b \<Longrightarrow> a + n \<le> SOTFS_DATA_OFFSET \<Longrightarrow> get_bytes (img (g_st b)) a n = get_bytes M a n"
  by (rule get_bytes_cong) (simp add: log_below_def)

lemma log_below_cap: "log_below img cap M b \<Longrightarrow> SOTFS_DATA_OFFSET \<le> cap"
  using blk_okD(1) [of img cap b] by (auto simp: log_below_def geometry_ok_def)

context storage
begin

lemma step_keeps: "log_below img cap M (rp_blk st) \<Longrightarrow> log_below img cap M (rp_blk (replay_files_step ops hdr off st))"
proof -
  assume l: "log_below img cap M (rp_blk st)"
  have "keeps img cap (rp_blk st) (snd (snd (apply_record ops r (rp_graph st) (rp_blk st))))" for r
    by (rule apply_record_keeps) (use l in \<open>simp add: log_below_def\<close>)
  then have "log_below img cap M (snd (snd (apply_record ops r (rp_graph st) (rp_blk st))))" for r using log_below_keeps [OF l] by blast
  then show ?thesis using l by (simp add: replay_files_step_def Let_def case_prod_beta)
qed

lemma step_frame:
  assumes l: "log_below img cap M (rp_blk st)" and f: "get_bytes M (off + WAL_HDR_BYTES) (length (f_payload f)) = f_payload f"
    and b: "off + WAL_HDR_BYTES + length (f_payload f) \<le> SOTFS_DATA_OFFSET"
  shows "(rp_graph (replay_files_step ops (frame_hdr seq f) off st), rp_blk (replay_files_step ops (frame_hdr seq f) off st)) =
      apply_frame ops f (rp_graph st, rp_blk st)"
    "rp_last_seq (replay_files_step ops (frame_hdr seq f) off st) = seq"
    "rp_wal (replay_files_step ops (frame_hdr seq f) off st) =
      (if file_frame f \<and> \<not> intact f then sotfs_wal_audit_emit SOTGUARD_KIND_WAL_TORN_RECORD seq (rp_wal st) else rp_wal st)"
    "rp_applied (replay_files_step ops (frame_hdr seq f) off st) \<le> rp_applied st + 1"
proof -
  have r: "read_block ops (g_st (rp_blk st)) (off + WAL_HDR_BYTES) WAL_RECORD_BYTES = (int WAL_RECORD_BYTES, f_payload f)" if "file_frame f"
    using read_ok [of "off + WAL_HDR_BYTES" WAL_RECORD_BYTES] log_below_get [OF l] log_below_cap [OF l] f b that by (simp add: file_frame_def)
  show "(rp_graph (replay_files_step ops (frame_hdr seq f) off st), rp_blk (replay_files_step ops (frame_hdr seq f) off st)) =
      apply_frame ops f (rp_graph st, rp_blk st)"
    using r by (auto simp: replay_files_step_def frame_hdr_def apply_frame_def file_frame_def intact_def Let_def case_prod_beta)
  show "rp_last_seq (replay_files_step ops (frame_hdr seq f) off st) = seq" by (simp add: replay_files_step_def frame_hdr_def Let_def)
  show "rp_wal (replay_files_step ops (frame_hdr seq f) off st) =
      (if file_frame f \<and> \<not> intact f then sotfs_wal_audit_emit SOTGUARD_KIND_WAL_TORN_RECORD seq (rp_wal st) else rp_wal st)"
    using r by (auto simp: replay_files_step_def frame_hdr_def file_frame_def intact_def Let_def case_prod_beta)
  show "rp_applied (replay_files_step ops (frame_hdr seq f) off st) \<le> rp_applied st + 1"
    by (simp add: replay_files_step_def Let_def case_prod_beta)
qed

lemma run_files:
  "log_below img cap M (rp_blk st) \<Longrightarrow> log_at M off seq fs \<Longrightarrow> seq + length fs < 2 ^ 64 \<Longrightarrow>
   let st' = run_frames (replay_files_step ops) off seq fs st in
     (rp_graph st', rp_blk st') = fold (apply_frame ops) fs (rp_graph st, rp_blk st) \<and>
     rp_last_seq st' = (if fs = [] then rp_last_seq st else seq + length fs - 1) \<and>
     w_audit (rp_wal st') = w_audit (rp_wal st) @ map (\<lambda>i. (SOTGUARD_KIND_WAL_TORN_RECORD, seq + i)) (filter (\<lambda>i. file_frame (fs ! i) \<and> \<not> intact (fs ! i)) [0..<length fs]) \<and>
     rp_wal st' = (rp_wal st)\<lparr>w_audit := w_audit (rp_wal st')\<rparr>"
proof (induction fs arbitrary: off seq st)
  case Nil
  then show ?case by simp
next
  case (Cons f fs)
  have s: "seq < 2 ^ 64" "Suc seq + length fs < 2 ^ 64" using Cons.prems(3) by simp_all
  note c = log_at_ConsD [OF Cons.prems(2) s(1)]
  have e: "h_len (frame_hdr seq f) = WAL_HDR_BYTES + length (f_payload f)" by (simp add: frame_hdr_def)
  let ?st = "replay_files_step ops (frame_hdr seq f) off st"
  have b: "off + WAL_HDR_BYTES + length (f_payload f) \<le> SOTFS_DATA_OFFSET" using c(5) e by simp
  note sf = step_frame [OF Cons.prems(1) c(2) b, of seq]
  have up: "[0..<length (f # fs)] = 0 # map Suc [0..<length fs]" by (simp add: map_Suc_upt upt_conv_Cons del: upt_Suc)
  have au: "map (\<lambda>i. (SOTGUARD_KIND_WAL_TORN_RECORD, seq + i)) (filter (\<lambda>i. file_frame ((f # fs) ! i) \<and> \<not> intact ((f # fs) ! i)) [0..<length (f # fs)]) =
    (if file_frame f \<and> \<not> intact f then [(SOTGUARD_KIND_WAL_TORN_RECORD, seq)] else []) @
    map (\<lambda>i. (SOTGUARD_KIND_WAL_TORN_RECORD, Suc seq + i)) (filter (\<lambda>i. file_frame (fs ! i) \<and> \<not> intact (fs ! i)) [0..<length fs])"
    unfolding up by (simp add: filter_map comp_def)
  have w: "rp_wal ?st = (rp_wal st)\<lparr>w_audit := w_audit (rp_wal ?st)\<rparr>"
    "w_audit (rp_wal ?st) = w_audit (rp_wal st) @ (if file_frame f \<and> \<not> intact f then [(SOTGUARD_KIND_WAL_TORN_RECORD, seq)] else [])"
    using sf(3) by (simp_all add: sotfs_wal_audit_emit_def)
  define r where "r = run_frames (replay_files_step ops) (off + h_len (frame_hdr seq f)) (Suc seq) fs ?st"
  have IH: "(rp_graph r, rp_blk r) = fold (apply_frame ops) fs (rp_graph ?st, rp_blk ?st)"
    "rp_last_seq r = (if fs = [] then rp_last_seq ?st else Suc seq + length fs - 1)"
    "w_audit (rp_wal r) = w_audit (rp_wal ?st) @ map (\<lambda>i. (SOTGUARD_KIND_WAL_TORN_RECORD, Suc seq + i)) (filter (\<lambda>i. file_frame (fs ! i) \<and> \<not> intact (fs ! i)) [0..<length fs])"
    "rp_wal r = (rp_wal ?st)\<lparr>w_audit := w_audit (rp_wal r)\<rparr>"
    using Cons.IH [OF step_keeps [OF Cons.prems(1), of "frame_hdr seq f" off] c(3) s(2)] unfolding Let_def r_def [symmetric] by blast+
  have 1: "(rp_graph r, rp_blk r) = fold (apply_frame ops) (f # fs) (rp_graph st, rp_blk st)" using IH(1) sf(1) by simp
  have 2: "rp_last_seq r = seq + length (f # fs) - 1" using IH(2) sf(2) by simp
  have 3: "w_audit (rp_wal r) = w_audit (rp_wal st) @ (if file_frame f \<and> \<not> intact f then [(SOTGUARD_KIND_WAL_TORN_RECORD, seq)] else []) @
    map (\<lambda>i. (SOTGUARD_KIND_WAL_TORN_RECORD, Suc seq + i)) (filter (\<lambda>i. file_frame (fs ! i) \<and> \<not> intact (fs ! i)) [0..<length fs])"
    using IH(3) w(2) by simp
  have "(rp_wal ?st)\<lparr>w_audit := x\<rparr> = (rp_wal st)\<lparr>w_audit := x\<rparr>" for x by (subst w(1)) simp
  then have 4: "rp_wal r = (rp_wal st)\<lparr>w_audit := w_audit (rp_wal r)\<rparr>" using IH(4) by simp
  show ?case unfolding Let_def au run_frames.simps r_def [symmetric] using 1 2 3 4 by simp
qed

end

lemma log_length_small:
  assumes "log_at M SOTFS_WAL_OFFSET seq fs"
  shows "length fs * 24 \<le> 4194304"
  using assms log_count [of fs seq] by (simp add: log_at_def limits)

context storage
begin

lemma replay_files_log:
  assumes l: "log_below img cap M b" and a: "log_at M SOTFS_WAL_OFFSET 1 fs" and i: "g_initialised w" "g_wal_seq w = 1"
  obtains n w' g' b' where "sotfs_wal_replay_files ops w g b = (n, w', g', b')" "(g', b') = fold (apply_frame ops) fs (g, b)"
    "g_wal_cursor w' = SOTFS_WAL_OFFSET + length (log_bytes 1 fs)" "g_wal_seq w' = 1 + length fs" "g_initialised w'" "log_below img cap M b'"
    "w_audit w' = w_audit w @ map (\<lambda>i. (SOTGUARD_KIND_WAL_TORN_RECORD, 1 + i)) (filter (\<lambda>i. file_frame (fs ! i) \<and> \<not> intact (fs ! i)) [0..<length fs])"
proof -
  let ?st = "\<lparr>rp_applied = 0, rp_torn = 0, rp_last_seq = 0, rp_graph = g, rp_blk = b, rp_wal = w\<rparr>"
  let ?rd = "\<lambda>st. read_block ops (g_st (rp_blk st))"
  define r where "r = run_frames (replay_files_step ops) SOTFS_WAL_OFFSET 1 fs ?st"
  have n: "1 + length fs < 2 ^ 64" using log_length_small [OF a] by simp
  have l': "log_below img cap M (rp_blk ?st)" using l by simp
  have rd: "0 \<le> fst (?rd st a n) \<and> snd (?rd st a n) = get_bytes M a n"
    if "log_below img cap M (rp_blk st)" "a + n \<le> SOTFS_DATA_OFFSET" "0 < n" for st a n
    using read_ok [of a n "g_st (rp_blk st)"] log_below_get [OF that(1,2)] log_below_cap [OF that(1)] that(2) by simp
  have sc: "wal_scan ?rd (replay_files_step ops) SOTFS_WAL_OFFSET ?st = (SOTFS_WAL_OFFSET + length (log_bytes 1 fs), r)" "log_below img cap M (rp_blk r)"
    using scan_log [where I = "\<lambda>st. log_below img cap M (rp_blk st)" and rd = ?rd and h = "replay_files_step ops", OF rd step_keeps l' a _ n]
    by (simp_all add: r_def)
  have r: "(rp_graph r, rp_blk r) = fold (apply_frame ops) fs (g, b)" "rp_last_seq r = length fs"
    "w_audit (rp_wal r) = w_audit w @ map (\<lambda>i. (SOTGUARD_KIND_WAL_TORN_RECORD, 1 + i)) (filter (\<lambda>i. file_frame (fs ! i) \<and> \<not> intact (fs ! i)) [0..<length fs])"
    "rp_wal r = w\<lparr>w_audit := w_audit (rp_wal r)\<rparr>"
    using run_files [OF l' a n] unfolding Let_def r_def [symmetric] by (auto split: if_splits)
  have w: "g_initialised (rp_wal r)" "g_wal_seq (rp_wal r) = 1" using i by (subst r(4), simp)+
  have "sotfs_wal_replay_files ops w g b =
    (int (rp_applied r), (rp_wal r)\<lparr>g_wal_cursor := SOTFS_WAL_OFFSET + length (log_bytes 1 fs), g_wal_seq := 1 + length fs\<rparr>, rp_graph r, rp_blk r)"
    using i n sc(1) r(2) w(2) by (simp add: sotfs_wal_replay_files_def) (cases fs; simp)
  then show thesis by (rule that) (use r w sc(2) in simp_all)
qed

end

subsection \<open>Writing a log\<close>

definition wal_at :: "('s \<Rightarrow> nat \<Rightarrow> u8) \<Rightarrow> wal \<Rightarrow> 's \<Rightarrow> frame list \<Rightarrow> bool" where
  "wal_at img w s fs \<longleftrightarrow> log_at (img s) SOTFS_WAL_OFFSET 1 fs \<and> g_initialised w \<and>
     g_wal_cursor w = SOTFS_WAL_OFFSET + length (log_bytes 1 fs) \<and> g_wal_seq w = 1 + length fs"

definition new_frame :: "nat \<Rightarrow> u8 list \<Rightarrow> frame" where
  "new_frame k p = \<lparr>f_kind = k, f_payload = p, f_crc = sotfs_crc64 p\<rparr>"

lemma intact_new [simp]: "intact (new_frame k p)"
  by (simp add: intact_def new_frame_def)

lemma log_at_snoc:
  assumes a: "log_at M off seq fs" and k: "f_kind f < 2 ^ 32"
    and c: "c = off + length (log_bytes seq fs)" "c + WAL_HDR_BYTES + length (f_payload f) \<le> SOTFS_DATA_OFFSET"
  shows "log_at (put_bytes (put_bytes M c (hdr_encode (frame_hdr (seq + length fs) f))) (c + WAL_HDR_BYTES) (f_payload f)) off seq (fs @ [f])"
proof -
  let ?h = "hdr_encode (frame_hdr (seq + length fs) f)" and ?L = "log_bytes seq fs"
  have N: "put_bytes (put_bytes M c ?h) (c + WAL_HDR_BYTES) (f_payload f) = put_bytes M c (?h @ f_payload f)"
    by (simp add: put_bytes_append)
  have B: "log_bytes seq (fs @ [f]) = ?L @ ?h @ f_payload f" by (simp add: log_bytes_append)
  have "get_bytes (put_bytes M c (?h @ f_payload f)) off (length ?L) = ?L"
    using get_put_other [of off "length ?L" c "?h @ f_payload f" M] a c(1) by (simp add: log_at_def)
  moreover have "get_bytes (put_bytes M c (?h @ f_payload f)) (off + length ?L) (length (?h @ f_payload f)) = ?h @ f_payload f"
    using get_put_same [of "?h @ f_payload f"] c(1) by simp
  ultimately have "get_bytes (put_bytes M c (?h @ f_payload f)) off (length (?L @ ?h @ f_payload f)) = ?L @ ?h @ f_payload f"
    unfolding length_append [of ?L] get_bytes_append by simp
  moreover have "put_bytes M c (?h @ f_payload f) x = 0" if "off + length (?L @ ?h @ f_payload f) \<le> x" "x < SOTFS_DATA_OFFSET" for x
    using a that c(1) by (simp add: put_bytes_def log_at_def)
  ultimately show ?thesis using a k c unfolding N log_at_def B by auto
qed

context storage
begin

lemma wal_frame_ok:
  assumes at: "wal_at img w s fs" and f: "wal_frame ops lim k p w s = (rc, w', s')" and k: "k < 2 ^ 32" and p: "length p \<le> 4096"
    and lim: "lim \<le> cap" and D: "SOTFS_DATA_OFFSET \<le> cap"
  shows "rc < 0 \<Longrightarrow> s' = s \<and> w' = w\<lparr>w_audit := w_audit w'\<rparr>"
    "0 \<le> rc \<Longrightarrow> g_wal_cursor w' = g_wal_cursor w + WAL_HDR_BYTES + length p \<and> g_in_checkpoint w' = g_in_checkpoint w"
    "0 \<le> rc \<Longrightarrow> g_wal_cursor w' \<le> SOTFS_DATA_OFFSET \<Longrightarrow> wal_at img w' s' (fs @ [new_frame k p])"
    "g_wal_cursor w + WAL_HDR_BYTES + length p \<le> lim \<Longrightarrow> rc = 0"
proof -
  let ?h = "frame_hdr (1 + length fs) (new_frame k p)" and ?c = "g_wal_cursor w"
  note a = at [unfolded wal_at_def]
  have c: "?c \<le> SOTFS_DATA_OFFSET" using a by (simp add: log_at_def)
  have len: "(WAL_HDR_BYTES + length p) mod 2 ^ 32 = WAL_HDR_BYTES + length p" using p by (simp add: limits)
  have hdr: "\<lparr>h_seq = g_wal_seq w, h_kind = k, h_len = (WAL_HDR_BYTES + length p) mod 2 ^ 32, h_crc64 = sotfs_crc64 p\<rparr> = ?h"
    using a unfolding len by (simp add: frame_hdr_def new_frame_def)
  have hl: "h_len ?h = WAL_HDR_BYTES + length p" by (simp add: frame_hdr_def new_frame_def)
  have nw: "(?c + (WAL_HDR_BYTES + length p)) mod 2 ^ 64 = ?c + WAL_HDR_BYTES + length p" "(?c + WAL_HDR_BYTES) mod 2 ^ 64 = ?c + WAL_HDR_BYTES"
    using c p by (simp_all add: limits)
  have un: "wal_frame ops lim k p w s =
     (if lim < ?c + WAL_HDR_BYTES + length p then (-28, sotfs_wal_audit_emit SOTGUARD_KIND_WAL_FULL_DROP ?c w, s)
      else (case write_block ops s ?c (hdr_encode ?h) of (rc, s1) \<Rightarrow> if rc < 0 then (rc, w, s1)
         else (case write_block ops s1 (?c + WAL_HDR_BYTES) p of (rc, s2) \<Rightarrow> if rc < 0 then (rc, w, s2)
           else (0, w\<lparr>g_wal_cursor := ?c + WAL_HDR_BYTES + length p, g_wal_seq := (g_wal_seq w + 1) mod 2 ^ 64\<rparr>, s2))))"
    unfolding wal_frame_def Let_def hdr hl nw by (rule refl)
  show "rc < 0 \<Longrightarrow> s' = s \<and> w' = w\<lparr>w_audit := w_audit w'\<rparr>"
    "0 \<le> rc \<Longrightarrow> g_wal_cursor w' = g_wal_cursor w + WAL_HDR_BYTES + length p \<and> g_in_checkpoint w' = g_in_checkpoint w"
    "0 \<le> rc \<Longrightarrow> g_wal_cursor w' \<le> SOTFS_DATA_OFFSET \<Longrightarrow> wal_at img w' s' (fs @ [new_frame k p])"
    "g_wal_cursor w + WAL_HDR_BYTES + length p \<le> lim \<Longrightarrow> rc = 0"
  proof -
    consider (full) "lim < ?c + WAL_HDR_BYTES + length p" | (fits) "?c + WAL_HDR_BYTES + length p \<le> lim" by linarith
    then have "(rc < 0 \<longrightarrow> s' = s \<and> w' = w\<lparr>w_audit := w_audit w'\<rparr>) \<and>
      (0 \<le> rc \<longrightarrow> g_wal_cursor w' = g_wal_cursor w + WAL_HDR_BYTES + length p \<and> g_in_checkpoint w' = g_in_checkpoint w) \<and>
      (0 \<le> rc \<longrightarrow> g_wal_cursor w' \<le> SOTFS_DATA_OFFSET \<longrightarrow> wal_at img w' s' (fs @ [new_frame k p])) \<and>
      (g_wal_cursor w + WAL_HDR_BYTES + length p \<le> lim \<longrightarrow> rc = 0)"
    proof cases
      case full
      then have "rc = -28" "w' = sotfs_wal_audit_emit SOTGUARD_KIND_WAL_FULL_DROP ?c w" "s' = s" using f un by auto
      then show ?thesis using full by (simp add: sotfs_wal_audit_emit_def)
    next
      case fits
      have "?c + length (hdr_encode ?h) \<le> cap" using fits lim by simp
      then obtain s1 where s1: "write_block ops s ?c (hdr_encode ?h) = (int WAL_HDR_BYTES, s1)" "img s1 = put_bytes (img s) ?c (hdr_encode ?h)"
        using write_ok [of ?c "hdr_encode ?h" s] by auto
      have "?c + WAL_HDR_BYTES + length p \<le> cap" using fits lim by simp
      then obtain s2 where s2: "write_block ops s1 (?c + WAL_HDR_BYTES) p = (int (length p), s2)" "img s2 = put_bytes (img s1) (?c + WAL_HDR_BYTES) p"
        using write_ok [of "?c + WAL_HDR_BYTES" p s1] by auto
      have e: "rc = 0" "s' = s2" "w' = w\<lparr>g_wal_cursor := ?c + WAL_HDR_BYTES + length p, g_wal_seq := (g_wal_seq w + 1) mod 2 ^ 64\<rparr>"
        using f fits s1(1) s2(1) unfolding un by auto
      have q: "(g_wal_seq w + 1) mod 2 ^ 64 = 1 + length (fs @ [new_frame k p])"
        using a log_length_small [of "img s" 1 fs] by simp
      have ln: "length (log_bytes 1 (fs @ [new_frame k p])) = length (log_bytes 1 fs) + (WAL_HDR_BYTES + length p)"
        by (simp add: length_log_bytes new_frame_def)
      have "wal_at img w' s' (fs @ [new_frame k p])" if "g_wal_cursor w' \<le> SOTFS_DATA_OFFSET"
      proof -
        have "log_at (img s') SOTFS_WAL_OFFSET 1 (fs @ [new_frame k p])"
          using log_at_snoc [of "img s" SOTFS_WAL_OFFSET 1 fs "new_frame k p" ?c] a k that e s1(2) s2(2) by (simp add: new_frame_def)
        then show ?thesis using a e q ln unfolding wal_at_def by simp
      qed
      then show ?thesis using e by simp
    qed
    then show "rc < 0 \<Longrightarrow> s' = s \<and> w' = w\<lparr>w_audit := w_audit w'\<rparr>"
      "0 \<le> rc \<Longrightarrow> g_wal_cursor w' = g_wal_cursor w + WAL_HDR_BYTES + length p \<and> g_in_checkpoint w' = g_in_checkpoint w"
      "0 \<le> rc \<Longrightarrow> g_wal_cursor w' \<le> SOTFS_DATA_OFFSET \<Longrightarrow> wal_at img w' s' (fs @ [new_frame k p])"
      "g_wal_cursor w + WAL_HDR_BYTES + length p \<le> lim \<Longrightarrow> rc = 0" by blast+
  qed
qed

end

lemma apply_frame_other: "\<not> file_frame f \<Longrightarrow> apply_frame ops f = (\<lambda>x. x)"
  by (auto simp: apply_frame_def fun_eq_iff)

lemma length_checkpoint: "length (checkpoint_encode a b c d) = 24"
  by (simp add: checkpoint_encode_def)

datatype wal_op = WAppend wal_record | WLog nat "u8 list"

definition wal_step :: "'s sotfs_storage_ops \<Rightarrow> wal_op \<Rightarrow> wal \<Rightarrow> 's \<Rightarrow> int \<times> wal \<times> 's" where
  "wal_step ops op w s = (case op of WAppend r \<Rightarrow> sotfs_wal_append ops r w s | WLog k p \<Rightarrow> sotfs_wal_log_payload ops k p w s)"

text \<open>File records and payloads as the emitters of the code build them.\<close>

fun wal_op_ok :: "wal_op \<Rightarrow> bool" where
  "wal_op_ok (WAppend r) \<longleftrightarrow> rec_ok r \<and> unat (r_kind r) < SOTFS_WAL_KIND_PROCD_MUT"
| "wal_op_ok (WLog k p) \<longleftrightarrow> SOTFS_WAL_KIND_PROCD_MUT \<le> k \<and> k < 2 ^ 32 \<and> p \<noteq> [] \<and> length p \<le> 4096"

fun op_frame :: "wal_op \<Rightarrow> frame" where
  "op_frame (WAppend r) = new_frame (unat (r_kind r)) (rec_encode r)"
| "op_frame (WLog k p) = new_frame k p"

text \<open>What an operation means for the files after recovery.\<close>

fun apply_op :: "'s sotfs_storage_ops \<Rightarrow> wal_op \<Rightarrow> sotfs_graph \<times> 's blkdev \<Rightarrow> sotfs_graph \<times> 's blkdev" where
  "apply_op ops (WAppend r) (g, b) = snd (apply_record ops r g b)"
| "apply_op ops (WLog k p) (g, b) = (g, b)"

lemma apply_op_frame: "wal_op_ok op \<Longrightarrow> apply_frame ops (op_frame op) = apply_op ops op"
proof (cases op)
  case (WAppend r)
  assume "wal_op_ok op"
  then have "rec_ok r" "unat (r_kind r) < SOTFS_WAL_KIND_PROCD_MUT" using WAppend by auto
  then show ?thesis using WAppend rec_decode_encode [of r] length_rec_encode [of r]
    by (auto simp: apply_frame_def file_frame_def new_frame_def intact_def rec_ok_def fun_eq_iff)
next
  case (WLog k p)
  assume "wal_op_ok op"
  then show ?thesis using WLog by (auto simp: apply_frame_def file_frame_def new_frame_def fun_eq_iff)
qed

context storage
begin

lemma maybe_checkpoint_ok:
  assumes at: "wal_at img w s fs" and c: "wal_maybe_checkpoint ops w s = (w', s')" and D: "SOTFS_DATA_OFFSET \<le> cap"
    and d: "g_wal_cursor w' \<le> SOTFS_DATA_OFFSET"
  obtains gs where "wal_at img w' s' (fs @ gs)" "\<forall>f\<in>set gs. \<not> file_frame f"
proof -
  let ?p = "checkpoint_encode (g_wal_seq w) 0 0 (g_wal_seq w)"
  let ?w = "w\<lparr>g_records_since_checkpoint := 0, g_in_checkpoint := True\<rparr>"
  obtain rc w1 s1 where f: "wal_frame ops (SOTFS_WAL_OFFSET + SOTFS_WAL_REGION_BYTES) SOTFS_WAL_KIND_CHECKPOINT ?p ?w s = (rc, w1, s1)"
    by (metis prod_cases3)
  have at': "wal_at img ?w s fs" using at by (simp add: wal_at_def)
  have lim: "SOTFS_WAL_OFFSET + SOTFS_WAL_REGION_BYTES \<le> cap" using D by (simp add: SOTFS_DATA_OFFSET_def)
  have k: "SOTFS_WAL_KIND_CHECKPOINT < 2 ^ 32" "length ?p \<le> 4096" by (simp_all add: limits length_checkpoint)
  note fr = wal_frame_ok [OF at' f k lim D]
  have cases: "(w' = w \<or> w' = w\<lparr>g_records_since_checkpoint := g_records_since_checkpoint w + 1\<rparr>) \<and> s' = s \<or>
      w' = w1\<lparr>g_in_checkpoint := False\<rparr> \<and> s' = s1"
    using c f by (auto simp: wal_maybe_checkpoint_def Let_def split: if_splits)
  show thesis
  proof (cases "s' = s \<and> (w' = w \<or> w' = w\<lparr>g_records_since_checkpoint := g_records_since_checkpoint w + 1\<rparr>)")
    case True
    then have "wal_at img w' s' (fs @ [])" using at by (auto simp: wal_at_def)
    then show ?thesis using that by fastforce
  next
    case False
    then have e: "w' = w1\<lparr>g_in_checkpoint := False\<rparr>" "s' = s1" using cases by auto
    show ?thesis
    proof (cases "rc < 0")
      case True
      then have x: "s1 = s" "w1 = ?w\<lparr>w_audit := w_audit w1\<rparr>" using fr(1) by auto
      have "wal_at img w' s' (fs @ [])" using at x(1) unfolding e by (subst x(2)) (simp add: wal_at_def)
      then show ?thesis using that by fastforce
    next
      case False
      then have "wal_at img w1 s1 (fs @ [new_frame SOTFS_WAL_KIND_CHECKPOINT ?p])" using fr(3) d e by simp
      then have "wal_at img w' s' (fs @ [new_frame SOTFS_WAL_KIND_CHECKPOINT ?p])" using e by (simp add: wal_at_def)
      then show ?thesis by (rule that) (simp add: file_frame_def new_frame_def limits)
    qed
  qed
qed

end

lemma wal_frame_mono:
  assumes "wal_frame ops lim k p w s = (rc, w', s')" "g_wal_cursor w < 2 ^ 32" "length p \<le> 4096"
  shows "g_wal_cursor w \<le> g_wal_cursor w' \<and> g_wal_cursor w' \<le> max (g_wal_cursor w) lim \<and> g_initialised w' = g_initialised w"
proof -
  have "(WAL_HDR_BYTES + length p) mod 2 ^ 32 = WAL_HDR_BYTES + length p"
    "(g_wal_cursor w + (WAL_HDR_BYTES + length p)) mod 2 ^ 64 = g_wal_cursor w + (WAL_HDR_BYTES + length p)"
    using assms(2,3) by (simp_all add: limits)
  then show ?thesis using assms(1) unfolding wal_frame_def Let_def
    by (auto simp: sotfs_wal_audit_emit_def split: if_splits prod.splits)
qed

lemma maybe_checkpoint_mono:
  assumes "wal_maybe_checkpoint ops w s = (w', s')" "g_wal_cursor w < 2 ^ 32"
  shows "g_wal_cursor w \<le> g_wal_cursor w' \<and> g_wal_cursor w' \<le> max (g_wal_cursor w) SOTFS_DATA_OFFSET \<and> g_initialised w' = g_initialised w"
proof -
  let ?p = "checkpoint_encode (g_wal_seq w) 0 0 (g_wal_seq w)"
  let ?w = "w\<lparr>g_records_since_checkpoint := 0, g_in_checkpoint := True\<rparr>"
  obtain rc w1 s1 where f: "wal_frame ops (SOTFS_WAL_OFFSET + SOTFS_WAL_REGION_BYTES) SOTFS_WAL_KIND_CHECKPOINT ?p ?w s = (rc, w1, s1)"
    by (metis prod_cases3)
  have "g_wal_cursor w \<le> g_wal_cursor w1 \<and> g_wal_cursor w1 \<le> max (g_wal_cursor w) SOTFS_DATA_OFFSET \<and> g_initialised w1 = g_initialised w"
    using wal_frame_mono [OF f] assms(2) by (simp add: length_checkpoint SOTFS_DATA_OFFSET_def)
  moreover have "g_wal_cursor w' = g_wal_cursor w \<and> g_initialised w' = g_initialised w \<or> g_wal_cursor w' = g_wal_cursor w1 \<and> g_initialised w' = g_initialised w1"
    using assms(1) f by (auto simp: wal_maybe_checkpoint_def Let_def split: if_splits)
  ultimately show ?thesis by auto
qed

text \<open>Both appenders are a frame followed by the periodic checkpoint.\<close>

definition op_limit :: "'s sotfs_storage_ops \<Rightarrow> wal_op \<Rightarrow> 's \<Rightarrow> nat" where
  "op_limit ops op s = (case op of WAppend r \<Rightarrow> capacity_bytes ops s | WLog k p \<Rightarrow> SOTFS_WAL_OFFSET + SOTFS_WAL_REGION_BYTES)"

lemma wal_step_eq:
  assumes "g_initialised w" "wal_op_ok op"
  shows "wal_step ops op w s =
    (case wal_frame ops (op_limit ops op s) (f_kind (op_frame op)) (f_payload (op_frame op)) w s of
       (rc, w1, s1) \<Rightarrow> if rc < 0 then (rc, w1, s1) else (case wal_maybe_checkpoint ops w1 s1 of (w2, s2) \<Rightarrow> (0, w2, s2)))"
  using assms by (cases op) (simp_all add: wal_step_def op_limit_def sotfs_wal_append_def sotfs_wal_log_payload_def new_frame_def)

lemma op_payload: "wal_op_ok op \<Longrightarrow> length (f_payload (op_frame op)) \<le> 4096" "wal_op_ok op \<Longrightarrow> f_kind (op_frame op) < 2 ^ 32"
proof -
  show "wal_op_ok op \<Longrightarrow> length (f_payload (op_frame op)) \<le> 4096"
    by (cases op) (auto simp: new_frame_def rec_ok_def length_rec_encode WAL_RECORD_BYTES_def)
  show "wal_op_ok op \<Longrightarrow> f_kind (op_frame op) < 2 ^ 32" by (cases op) (auto simp: new_frame_def limits)
qed

lemma op_frame_new: "op_frame op = new_frame (f_kind (op_frame op)) (f_payload (op_frame op))"
  by (cases op) (simp_all add: new_frame_def)

context storage
begin

lemma wal_step_mono:
  assumes i: "g_initialised w" "wal_op_ok op" and st: "wal_step ops op w s = (rc, w', s')" and c: "g_wal_cursor w \<le> cap" and D: "SOTFS_DATA_OFFSET \<le> cap"
  shows "g_wal_cursor w \<le> g_wal_cursor w'" "g_wal_cursor w' \<le> cap" "g_initialised w'"
proof -
  obtain rc1 w1 s1 where f: "wal_frame ops (op_limit ops op s) (f_kind (op_frame op)) (f_payload (op_frame op)) w s = (rc1, w1, s1)" by (metis prod_cases3)
  have lim: "op_limit ops op s \<le> cap" using D by (simp add: op_limit_def capacity SOTFS_DATA_OFFSET_def split: wal_op.split)
  have "g_wal_cursor w < 2 ^ 32" using c cap_small by simp
  then have m1: "g_wal_cursor w \<le> g_wal_cursor w1 \<and> g_wal_cursor w1 \<le> cap \<and> g_initialised w1 = g_initialised w" using wal_frame_mono [OF f _ op_payload(1) [OF i(2)]] lim c by auto
  have "g_wal_cursor w \<le> g_wal_cursor w' \<and> g_wal_cursor w' \<le> cap \<and> g_initialised w'"
  proof (cases "rc1 < 0")
    case True
    then show ?thesis using st m1 i(1) unfolding wal_step_eq [OF i] f by simp
  next
    case False
    then have "wal_maybe_checkpoint ops w1 s1 = (w', s')" using st unfolding wal_step_eq [OF i] f by (auto split: prod.splits)
    from maybe_checkpoint_mono [OF this] show ?thesis using m1 cap_small D i(1) by auto
  qed
  then show "g_wal_cursor w \<le> g_wal_cursor w'" "g_wal_cursor w' \<le> cap" "g_initialised w'" by auto
qed

lemma wal_step_ok:
  assumes at: "wal_at img w s fs" and o: "wal_op_ok op" and st: "wal_step ops op w s = (0, w', s')"
    and d: "g_wal_cursor w' \<le> SOTFS_DATA_OFFSET" and D: "SOTFS_DATA_OFFSET \<le> cap"
  obtains gs where "wal_at img w' s' (fs @ op_frame op # gs)" "\<forall>f\<in>set gs. \<not> file_frame f"
proof -
  have i: "g_initialised w" using at by (simp add: wal_at_def)
  obtain rc1 w1 s1 where f: "wal_frame ops (op_limit ops op s) (f_kind (op_frame op)) (f_payload (op_frame op)) w s = (rc1, w1, s1)" by (metis prod_cases3)
  have lim: "op_limit ops op s \<le> cap" using D by (simp add: op_limit_def capacity SOTFS_DATA_OFFSET_def split: wal_op.split)
  note fr = wal_frame_ok [OF at f op_payload(2,1) [OF o] lim D]
  have rc: "0 \<le> rc1" and mc: "wal_maybe_checkpoint ops w1 s1 = (w', s')"
    using st unfolding wal_step_eq [OF i o] f by (auto split: if_splits prod.splits)
  have "g_wal_cursor w \<le> SOTFS_DATA_OFFSET" using at by (simp add: wal_at_def log_at_def)
  then have "g_wal_cursor w1 < 2 ^ 32" using fr(2) [OF rc] op_payload(1) [OF o] by (simp add: limits)
  from maybe_checkpoint_mono [OF mc this] have "g_wal_cursor w1 \<le> SOTFS_DATA_OFFSET" using d by simp
  then have at1: "wal_at img w1 s1 (fs @ [op_frame op])" using fr(3) [OF rc] op_frame_new [of op] by simp
  obtain gs where "wal_at img w' s' ((fs @ [op_frame op]) @ gs)" "\<forall>f\<in>set gs. \<not> file_frame f"
    by (rule maybe_checkpoint_ok [OF at1 mc D d])
  then show thesis using that by simp
qed

end

subsection \<open>Recovery\<close>

fun wal_run :: "'s sotfs_storage_ops \<Rightarrow> wal_op list \<Rightarrow> wal \<Rightarrow> 's \<Rightarrow> int list \<times> wal \<times> 's" where
  "wal_run ops [] w s = ([], w, s)"
| "wal_run ops (op # os) w s =
     (case wal_step ops op w s of (rc, w1, s1) \<Rightarrow> case wal_run ops os w1 s1 of (rcs, w2, s2) \<Rightarrow> (rc # rcs, w2, s2))"

context storage
begin

lemma wal_run_mono:
  "g_initialised w \<Longrightarrow> list_all wal_op_ok os \<Longrightarrow> wal_run ops os w s = (rcs, w', s') \<Longrightarrow> g_wal_cursor w \<le> cap \<Longrightarrow> SOTFS_DATA_OFFSET \<le> cap \<Longrightarrow>
     g_wal_cursor w \<le> g_wal_cursor w'"
proof (induction os arbitrary: w s rcs)
  case Nil
  then show ?case by simp
next
  case (Cons op os)
  obtain rc w1 s1 rcs1 where r: "wal_step ops op w s = (rc, w1, s1)" "wal_run ops os w1 s1 = (rcs1, w', s')"
    using Cons.prems(3) by (auto split: prod.splits)
  have o: "wal_op_ok op" "list_all wal_op_ok os" using Cons.prems(2) by auto
  note m = wal_step_mono [OF Cons.prems(1) o(1) r(1) Cons.prems(4,5)]
  from Cons.IH [OF m(3) o(2) r(2) m(2) Cons.prems(5)] show ?case using m(1) by simp
qed

lemma wal_run_ok:
  "wal_at img w s fs \<Longrightarrow> list_all wal_op_ok os \<Longrightarrow> wal_run ops os w s = (rcs, w', s') \<Longrightarrow> set rcs \<subseteq> {0} \<Longrightarrow>
   g_wal_cursor w' \<le> SOTFS_DATA_OFFSET \<Longrightarrow> SOTFS_DATA_OFFSET \<le> cap \<Longrightarrow>
   \<exists>gs. wal_at img w' s' (fs @ gs) \<and> fold (apply_frame ops) gs = fold (apply_op ops) os \<and> (\<forall>f\<in>set gs. file_frame f \<longrightarrow> intact f)"
proof (induction os arbitrary: w s rcs fs)
  case Nil
  then show ?case by (intro exI [of _ "[]"]) (auto simp: id_def)
next
  case (Cons op os)
  obtain rc w1 s1 rcs1 where r: "wal_step ops op w s = (rc, w1, s1)" "wal_run ops os w1 s1 = (rcs1, w', s')" "rcs = rc # rcs1"
    using Cons.prems(3) by (auto split: prod.splits)
  have o: "wal_op_ok op" "list_all wal_op_ok os" using Cons.prems(2) by auto
  have i: "g_initialised w" and c: "g_wal_cursor w \<le> cap" using Cons.prems(1,6) by (auto simp: wal_at_def log_at_def)
  note m = wal_step_mono [OF i o(1) r(1) c Cons.prems(6)]
  have c1: "g_wal_cursor w1 \<le> SOTFS_DATA_OFFSET" using wal_run_mono [OF m(3) o(2) r(2) m(2) Cons.prems(6)] Cons.prems(5) by simp
  have st: "wal_step ops op w s = (0, w1, s1)" using r(1,3) Cons.prems(4) by auto
  obtain hs where hs: "wal_at img w1 s1 (fs @ op_frame op # hs)" "\<forall>f\<in>set hs. \<not> file_frame f"
    by (rule wal_step_ok [OF Cons.prems(1) o(1) st c1 Cons.prems(6)])
  have "set rcs1 \<subseteq> {0}" using Cons.prems(4) r(3) by auto
  from Cons.IH [OF hs(1) o(2) r(2) this Cons.prems(5,6)] obtain gs where
    gs: "wal_at img w' s' ((fs @ op_frame op # hs) @ gs)" "fold (apply_frame ops) gs = fold (apply_op ops) os" "\<forall>f\<in>set gs. file_frame f \<longrightarrow> intact f" by blast
  have "fold (apply_frame ops) hs = (\<lambda>x. x)" using hs(2) by (induction hs) (auto simp: apply_frame_other fun_eq_iff)
  then have "fold (apply_frame ops) (op_frame op # hs @ gs) = fold (apply_op ops) (op # os)"
    using gs(2) apply_op_frame [OF o(1), of ops] by (simp add: comp_def)
  moreover have "intact (op_frame op)" by (subst op_frame_new) simp
  ultimately show ?case using gs(1,3) hs(2) by (intro exI [of _ "op_frame op # hs @ gs"]) auto
qed

end

end
