(* ===== verification/WalSafety.thy ===== *)
theory WalSafety
  imports WalOk
begin

text \<open>
  The properties of the write-ahead log: recovery after a reboot, torn frames, termination of
  the scan on any disk contents, and the missing bound of the file-record appender.
\<close>

text \<open>A store formatted after the log region, on a memory disk that holds \<open>m\<close>.\<close>

lemma mem_log_store:
  obtains b where "sotfs_blkdev_init (vblk_ops mem_rd mem_wr) m blank_dev SOTFS_DATA_OFFSET 65536 True = (0, b)"
    "log_below (\<lambda>m. m) VBLK_CAPACITY m b"
proof -
  have st: "storage (vblk_ops mem_rd mem_wr) (\<lambda>m. m) VBLK_CAPACITY" by (rule vblk_storage [OF mem_sector_ok])
  have f: "SOTFS_DATA_OFFSET + 65536 \<le> VBLK_CAPACITY" by (simp add: limits)
  obtain b where b: "sotfs_blkdev_init (vblk_ops mem_rd mem_wr) m blank_dev SOTFS_DATA_OFFSET 65536 True = (0, b)"
    "blk_ok (\<lambda>m. m) VBLK_CAPACITY b" "same_layout b (compute_geometry blank_dev SOTFS_DATA_OFFSET 65536)" "\<forall>a<SOTFS_DATA_OFFSET. g_st b a = m a"
    by (rule storage.format_ok [OF st f mem_total])
  have "g_region_off b = SOTFS_DATA_OFFSET" using b(3) by (simp add: same_layout_def compute_geometry_def Let_def)
  then have "SOTFS_DATA_OFFSET \<le> g_heap_off b" using blk_okD(1) [OF b(2)] by (simp add: geometry_ok_def)
  then show thesis using that b by (simp add: log_below_def)
qed

lemma log_at_empty: "\<forall>a. SOTFS_WAL_OFFSET \<le> a \<and> a < SOTFS_DATA_OFFSET \<longrightarrow> M a = 0 \<Longrightarrow> log_at M SOTFS_WAL_OFFSET 1 []"
  by (simp add: log_at_def get_bytes_def SOTFS_DATA_OFFSET_def)

lemma wal_at_init: "\<forall>a. SOTFS_WAL_OFFSET \<le> a \<and> a < SOTFS_DATA_OFFSET \<longrightarrow> img s a = 0 \<Longrightarrow> wal_at img (sotfs_wal_init w) s []"
  using log_at_empty [of "img s"] by (simp add: wal_at_def sotfs_wal_init_def)

text \<open>
  C36. Recovery. Records are appended to a zeroed log in any order and mix of kinds, with the
  periodic checkpoints in between, every call returning 0 and the log staying inside its region.
  Then replaying the log after a reboot, into any graph and any block store that lies behind
  the region, performs exactly the logged file operations in their order, reports no torn frame,
  and leaves cursor and sequence number where the writer left them.
\<close>

theorem wal_recovery:
  assumes "sector_ok rd wr img" "\<forall>a. SOTFS_WAL_OFFSET \<le> a \<and> a < SOTFS_DATA_OFFSET \<longrightarrow> img s a = 0"
    and "list_all wal_op_ok xs" "wal_run (vblk_ops rd wr) xs (sotfs_wal_init w) s = (rcs, w', s')" "set rcs \<subseteq> {0}"
    and "g_wal_cursor w' \<le> SOTFS_DATA_OFFSET" "log_below img VBLK_CAPACITY (img s') b"
  shows "\<exists>n v' g' b'. sotfs_wal_replay_files (vblk_ops rd wr) (sotfs_wal_init v) g b = (n, v', g', b') \<and>
    (g', b') = fold (apply_op (vblk_ops rd wr)) xs (g, b) \<and>
    g_wal_cursor v' = g_wal_cursor w' \<and> g_wal_seq v' = g_wal_seq w' \<and> w_audit v' = w_audit v"
proof -
  have st: "storage (vblk_ops rd wr) img VBLK_CAPACITY" by (rule vblk_storage [OF assms(1)])
  have D: "SOTFS_DATA_OFFSET \<le> VBLK_CAPACITY" by (simp add: limits)
  obtain fs where fs: "wal_at img w' s' ([] @ fs)" "fold (apply_frame (vblk_ops rd wr)) fs = fold (apply_op (vblk_ops rd wr)) xs"
    "\<forall>f\<in>set fs. file_frame f \<longrightarrow> intact f"
    using storage.wal_run_ok [OF st wal_at_init [where img = img, OF assms(2)] assms(3-6) D] by blast
  have i: "g_initialised (sotfs_wal_init v)" "g_wal_seq (sotfs_wal_init v) = 1" by (simp_all add: sotfs_wal_init_def)
  have a: "log_at (img s') SOTFS_WAL_OFFSET 1 fs" using fs(1) by (simp add: wal_at_def)
  obtain n v' g' b' where r: "sotfs_wal_replay_files (vblk_ops rd wr) (sotfs_wal_init v) g b = (n, v', g', b')"
    "(g', b') = fold (apply_frame (vblk_ops rd wr)) fs (g, b)" "g_wal_cursor v' = SOTFS_WAL_OFFSET + length (log_bytes 1 fs)" "g_wal_seq v' = 1 + length fs"
    "w_audit v' = w_audit (sotfs_wal_init v) @ map (\<lambda>i. (SOTGUARD_KIND_WAL_TORN_RECORD, 1 + i)) (filter (\<lambda>i. file_frame (fs ! i) \<and> \<not> intact (fs ! i)) [0..<length fs])"
    by (rule storage.replay_files_log [OF st assms(7) a i]) blast
  have "filter (\<lambda>i. file_frame (fs ! i) \<and> \<not> intact (fs ! i)) [0..<length fs] = []" using fs(3) by (auto simp: filter_empty_conv)
  then have "w_audit v' = w_audit v" using r(5) by (simp add: sotfs_wal_init_def)
  moreover have "(g', b') = fold (apply_op (vblk_ops rd wr)) xs (g, b)" using r(2) fs(2) by simp
  moreover have "g_wal_cursor v' = g_wal_cursor w'" "g_wal_seq v' = g_wal_seq w'" using r(3,4) fs(1) by (simp_all add: wal_at_def)
  ultimately show ?thesis using r(1) by blast
qed

text \<open>One record on an empty log of a memory disk.\<close>

definition demo_record :: wal_record where
  "demo_record = rec_create_file 0 1 1 ''a'' 420"

lemma demo_record_ok: "rec_ok demo_record" "unat (r_kind demo_record) = 1"
  by (simp_all add: demo_record_def rec_create_file_def prep_header_def Let_def rec_ok_def cstr_copy_def limits)

definition blank_wal :: wal where
  "blank_wal = \<lparr>g_wal_cursor = 0, g_wal_seq = 0, g_initialised = False, g_records_since_checkpoint = 0, g_in_checkpoint = False, w_audit = []\<rparr>"

lemma mem_append:
  obtains w' s' where "wal_run (vblk_ops mem_rd mem_wr) [WAppend demo_record] (sotfs_wal_init blank_wal) (\<lambda>_. 0) = ([0], w', s')"
    "g_wal_cursor w' \<le> SOTFS_DATA_OFFSET"
proof -
  let ?ops = "vblk_ops mem_rd mem_wr" and ?w = "sotfs_wal_init blank_wal"
  have st: "storage ?ops (\<lambda>m. m) VBLK_CAPACITY" by (rule vblk_storage [OF mem_sector_ok])
  obtain rc w1 s1 where f: "wal_frame ?ops VBLK_CAPACITY 1 (rec_encode demo_record) ?w (\<lambda>_. 0) = (rc, w1, s1)" by (metis prod_cases3)
  have l: "length (rec_encode demo_record) = 824" using length_rec_encode [of demo_record] demo_record_ok(1) by (simp add: rec_ok_def WAL_RECORD_BYTES_def)
  have at: "wal_at (\<lambda>m. m) ?w (\<lambda>_. 0) []" by (rule wal_at_init) simp
  have D: "SOTFS_DATA_OFFSET \<le> VBLK_CAPACITY" by (simp add: limits)
  have c: "g_wal_cursor ?w = SOTFS_WAL_OFFSET" by (simp add: sotfs_wal_init_def)
  have "rc = 0" by (rule storage.wal_frame_ok(4) [OF st at f _ _ order_refl D]) (use l c in \<open>simp_all add: limits\<close>)
  moreover have "g_wal_cursor w1 = SOTFS_WAL_OFFSET + WAL_HDR_BYTES + 824"
    using storage.wal_frame_ok(2) [OF st at f _ _ order_refl D] \<open>rc = 0\<close> l c by simp
  moreover obtain w2 s2 where m: "wal_maybe_checkpoint ?ops w1 s1 = (w2, s2)" by fastforce
  ultimately have "g_wal_cursor w2 \<le> SOTFS_DATA_OFFSET" using maybe_checkpoint_mono [OF m] by (simp add: limits)
  moreover have "wal_run ?ops [WAppend demo_record] ?w (\<lambda>_. 0) = ([0], w2, s2)"
    using f m \<open>rc = 0\<close> demo_record_ok(2) by (simp add: wal_step_def sotfs_wal_append_def sotfs_wal_init_def vblk_ops_def vblk_capacity_bytes_def)
  ultimately show thesis using that by blast
qed

theorem wal_recovery_witness:
  "\<exists>w' s' b n v' g' b'. wal_run (vblk_ops mem_rd mem_wr) [WAppend demo_record] (sotfs_wal_init blank_wal) (\<lambda>_. 0) = ([0], w', s') \<and>
     sotfs_blkdev_init (vblk_ops mem_rd mem_wr) s' blank_dev SOTFS_DATA_OFFSET 65536 True = (0, b) \<and>
     sotfs_wal_replay_files (vblk_ops mem_rd mem_wr) (sotfs_wal_init blank_wal) sotfs_graph_init b = (n, v', g', b') \<and>
     (g', b') = apply_op (vblk_ops mem_rd mem_wr) (WAppend demo_record) (sotfs_graph_init, b)"
proof -
  obtain w' s' where r: "wal_run (vblk_ops mem_rd mem_wr) [WAppend demo_record] (sotfs_wal_init blank_wal) (\<lambda>_. 0) = ([0], w', s')"
    "g_wal_cursor w' \<le> SOTFS_DATA_OFFSET" by (rule mem_append)
  obtain b where b: "sotfs_blkdev_init (vblk_ops mem_rd mem_wr) s' blank_dev SOTFS_DATA_OFFSET 65536 True = (0, b)"
    "log_below (\<lambda>m. m) VBLK_CAPACITY s' b" by (rule mem_log_store)
  have o: "list_all wal_op_ok [WAppend demo_record]" using demo_record_ok by (simp add: limits)
  show ?thesis
    using wal_recovery [OF mem_sector_ok _ o r(1) _ r(2) b(2), of blank_wal sotfs_graph_init] r(1) b(1) by fastforce
qed



lemma scan_invariant:
  "(\<And>hdr off st. P off st \<Longrightarrow> WAL_HDR_BYTES \<le> h_len hdr \<Longrightarrow> off + h_len hdr \<le> SOTFS_DATA_OFFSET \<Longrightarrow> P (off + h_len hdr) (h hdr off st)) \<Longrightarrow>
   P off st \<Longrightarrow> P (fst (wal_scan rd h off st)) (snd (wal_scan rd h off st))"
proof (induction rd h off st rule: wal_scan.induct)
  case (1 rd h off st)
  obtain rc bs where r: "rd st off WAL_HDR_BYTES = (rc, bs)" by fastforce
  let ?h = "hdr_decode bs"
  show ?case
  proof (cases "off + WAL_HDR_BYTES \<le> SOTFS_WAL_OFFSET + SOTFS_WAL_REGION_BYTES \<and> \<not> rc < 0 \<and> h_seq ?h \<noteq> 0 \<and> \<not> h_len ?h < WAL_HDR_BYTES \<and>
      \<not> SOTFS_WAL_OFFSET + SOTFS_WAL_REGION_BYTES < off + h_len ?h")
    case True
    then have e: "wal_scan rd h off st = wal_scan rd h (off + h_len ?h) (h ?h off st)"
      using r by (simp add: wal_scan.simps [of rd h off st])
    have "P (off + h_len ?h) (h ?h off st)" using "1.prems" True by (simp add: SOTFS_DATA_OFFSET_def)
    then show ?thesis unfolding e using "1.IH" [OF _ r [symmetric]] True "1.prems" by simp
  next
    case False
    then have "wal_scan rd h off st = (off, st)" using r by (auto simp: wal_scan.simps [of rd h off st])
    then show ?thesis using "1.prems" by simp
  qed
qed



text \<open>
  C39. The appender of file records does not stop at the end of the log region: it only compares
  with the capacity of the device. When the log is nearly full, \<open>sotfs_wal_append\<close> returns 0 and
  overwrites the start of the data heap behind the region (where the superblock of the block
  store lies), while \<open>sotfs_wal_log_payload\<close> refuses the same frame with \<open>-28\<close>.
\<close>

theorem wal_append_overruns_region:
  assumes "sector_ok rd wr img" "g_initialised w" "length (r_blob r) = SOTFS_WAL_MAX_BLOB"
    and "g_wal_cursor w \<le> SOTFS_DATA_OFFSET" "SOTFS_DATA_OFFSET < g_wal_cursor w + WAL_HDR_BYTES + WAL_RECORD_BYTES"
  shows "(\<exists>h w' s'. sotfs_wal_append (vblk_ops rd wr) r w s = (0, w', s') \<and> SOTFS_DATA_OFFSET < g_wal_cursor w' \<and>
      length h = WAL_HDR_BYTES \<and> img s' = put_bytes (img s) (g_wal_cursor w) (h @ rec_encode r)) \<and>
    (\<exists>w'. sotfs_wal_log_payload (vblk_ops rd wr) k (rec_encode r) w s = (-28, w', s))"
proof -
  let ?ops = "vblk_ops rd wr" and ?c = "g_wal_cursor w" and ?p = "rec_encode r"
  have st: "storage ?ops img VBLK_CAPACITY" by (rule vblk_storage [OF assms(1)])
  have l: "length ?p = WAL_RECORD_BYTES" by (rule length_rec_encode [OF assms(3)])
  let ?h = "hdr_encode \<lparr>h_seq = g_wal_seq w, h_kind = unat (r_kind r), h_len = WAL_HDR_BYTES + WAL_RECORD_BYTES, h_crc64 = sotfs_crc64 ?p\<rparr>"
  let ?w = "w\<lparr>g_wal_cursor := ?c + WAL_HDR_BYTES + WAL_RECORD_BYTES, g_wal_seq := (g_wal_seq w + 1) mod 2 ^ 64\<rparr>"
  have len: "(WAL_HDR_BYTES + WAL_RECORD_BYTES) mod 2 ^ 32 = WAL_HDR_BYTES + WAL_RECORD_BYTES"
    "(?c + (WAL_HDR_BYTES + WAL_RECORD_BYTES)) mod 2 ^ 64 = ?c + WAL_HDR_BYTES + WAL_RECORD_BYTES" "(?c + WAL_HDR_BYTES) mod 2 ^ 64 = ?c + WAL_HDR_BYTES"
    using assms(4) by (simp_all add: limits)
  have fit: "?c + WAL_HDR_BYTES + WAL_RECORD_BYTES \<le> VBLK_CAPACITY" using assms(4) by (simp add: limits)
  then obtain s1 where s1: "write_block ?ops s ?c ?h = (int WAL_HDR_BYTES, s1)" "img s1 = put_bytes (img s) ?c ?h"
    using storage.write_ok [OF st, of ?c ?h s] by auto
  obtain s2 where s2: "write_block ?ops s1 (?c + WAL_HDR_BYTES) ?p = (int WAL_RECORD_BYTES, s2)" "img s2 = put_bytes (img s1) (?c + WAL_HDR_BYTES) ?p"
    using storage.write_ok [OF st, of "?c + WAL_HDR_BYTES" ?p s1] fit l by auto
  have f: "wal_frame ?ops VBLK_CAPACITY (unat (r_kind r)) ?p w s = (0, ?w, s2)"
    using s1(1) s2(1) fit unfolding wal_frame_def Let_def l wal_hdr.simps len by simp
  have full: "SOTFS_WAL_OFFSET + SOTFS_WAL_REGION_BYTES < (g_wal_cursor v + (WAL_HDR_BYTES + length q) mod 2 ^ 32) mod 2 ^ 64"
    if "SOTFS_DATA_OFFSET \<le> g_wal_cursor v" "g_wal_cursor v < 2 ^ 32" "0 < length q" "length q \<le> 4096" for v and q :: "u8 list"
    using that by (simp add: limits)
  have "\<exists>w'. wal_maybe_checkpoint ?ops ?w s2 = (w', s2) \<and> g_wal_cursor w' = g_wal_cursor ?w"
    using full [of ?w "checkpoint_encode (g_wal_seq ?w) 0 0 (g_wal_seq ?w)"] assms(4,5)
    by (auto simp: wal_maybe_checkpoint_def Let_def wal_frame_def length_checkpoint sotfs_wal_audit_emit_def limits)
  then obtain w' where w': "wal_maybe_checkpoint ?ops ?w s2 = (w', s2)" "g_wal_cursor w' = g_wal_cursor ?w" by blast
  have "sotfs_wal_append ?ops r w s = (0, w', s2)"
    using f w'(1) assms(2) storage.capacity [OF st, of s] by (simp add: sotfs_wal_append_def)
  moreover have "img s2 = put_bytes (img s) ?c (?h @ ?p)" using s1(2) s2(2) by (simp add: put_bytes_append)
  moreover have "SOTFS_DATA_OFFSET < g_wal_cursor w'" using w'(2) assms(5) by simp
  moreover have "\<exists>w'. sotfs_wal_log_payload ?ops k ?p w s = (-28, w', s)"
  proof -
    have "?p \<noteq> []" using l by (auto simp: limits)
    moreover have "SOTFS_WAL_OFFSET + SOTFS_WAL_REGION_BYTES < ?c + WAL_HDR_BYTES + WAL_RECORD_BYTES" using assms(5) by (simp add: SOTFS_DATA_OFFSET_def)
    ultimately show ?thesis using assms(2) len(1,2) by (simp add: sotfs_wal_log_payload_def wal_frame_def Let_def l)
  qed
  ultimately show ?thesis by (intro conjI) (rule exI [of _ ?h], simp_all)
qed

theorem wal_append_overruns_region_witness:
  "\<exists>w' s'. sotfs_wal_append (vblk_ops mem_rd mem_wr) demo_record (blank_wal\<lparr>g_initialised := True, g_wal_cursor := SOTFS_DATA_OFFSET\<rparr>) (\<lambda>_. 0) = (0, w', s') \<and>
     SOTFS_DATA_OFFSET < g_wal_cursor w'"
proof -
  let ?w = "blank_wal\<lparr>g_initialised := True, g_wal_cursor := SOTFS_DATA_OFFSET\<rparr>"
  have "length (r_blob demo_record) = SOTFS_WAL_MAX_BLOB" using demo_record_ok(1) by (simp add: rec_ok_def)
  then have "(\<exists>h w' s'. sotfs_wal_append (vblk_ops mem_rd mem_wr) demo_record ?w (\<lambda>_. 0) = (0, w', s') \<and> SOTFS_DATA_OFFSET < g_wal_cursor w' \<and>
      length h = WAL_HDR_BYTES \<and> s' = put_bytes (\<lambda>_. 0) (g_wal_cursor ?w) (h @ rec_encode demo_record)) \<and>
    (\<exists>w'. sotfs_wal_log_payload (vblk_ops mem_rd mem_wr) 32 (rec_encode demo_record) ?w (\<lambda>_. 0) = (-28, w', \<lambda>_. 0))"
    by (intro wal_append_overruns_region [OF mem_sector_ok]) (simp_all add: WAL_HDR_BYTES_def)
  then show ?thesis by blast
qed

end
