(* ===== verification/Pledge.thy ===== *)
theory Pledge
  imports Prelude
begin

text \<open>
  The operation classes of \<^verbatim>\<open>src/lucas/pledge.c\<close>: the class of a system call, the class of
  an open by its access mode, the parser for promise strings, the names of the classes and the
  templates a sandbox can be spawned with. The system call itself is in \<open>LucasGate\<close>.
\<close>


subsection \<open>Classes and system call numbers\<close>

type_synonym pledge_mask = u64

definition PLEDGE_STDIO :: pledge_mask where [limits]: "PLEDGE_STDIO = push_bit 0 1"
definition PLEDGE_RPATH :: pledge_mask where [limits]: "PLEDGE_RPATH = push_bit 1 1"
definition PLEDGE_WPATH :: pledge_mask where [limits]: "PLEDGE_WPATH = push_bit 2 1"
definition PLEDGE_INET :: pledge_mask where [limits]: "PLEDGE_INET = push_bit 3 1"
definition PLEDGE_UNIX :: pledge_mask where [limits]: "PLEDGE_UNIX = push_bit 4 1"
definition PLEDGE_PROC :: pledge_mask where [limits]: "PLEDGE_PROC = push_bit 5 1"
definition PLEDGE_EXEC :: pledge_mask where [limits]: "PLEDGE_EXEC = push_bit 6 1"
definition PLEDGE_FATTR :: pledge_mask where [limits]: "PLEDGE_FATTR = push_bit 7 1"
definition PLEDGE_VMINFO :: pledge_mask where [limits]: "PLEDGE_VMINFO = push_bit 8 1"
definition PLEDGE_TTY :: pledge_mask where [limits]: "PLEDGE_TTY = push_bit 9 1"
definition PLEDGE_LUCAS :: pledge_mask where [limits]: "PLEDGE_LUCAS = push_bit 10 1"
definition PLEDGE_SOTFS :: pledge_mask where [limits]: "PLEDGE_SOTFS = push_bit 11 1"
definition PLEDGE_SETID :: pledge_mask where [limits]: "PLEDGE_SETID = push_bit 12 1"
definition PLEDGE_ALL :: pledge_mask where [limits]: "PLEDGE_ALL = 0xFFFFFFFFFFFFFFFF"

definition PLEDGE_T_TRUSTED_ROOT :: pledge_mask where [limits]: "PLEDGE_T_TRUSTED_ROOT = PLEDGE_ALL"
definition PLEDGE_T_SHELL :: pledge_mask where [limits]: "PLEDGE_T_SHELL = PLEDGE_STDIO OR PLEDGE_RPATH OR PLEDGE_WPATH OR PLEDGE_PROC OR PLEDGE_EXEC OR PLEDGE_TTY"
definition PLEDGE_T_DAEMON_NETWORK :: pledge_mask where [limits]: "PLEDGE_T_DAEMON_NETWORK = PLEDGE_STDIO OR PLEDGE_INET OR PLEDGE_RPATH"
definition PLEDGE_T_CANARY_TARGET :: pledge_mask where [limits]: "PLEDGE_T_CANARY_TARGET = PLEDGE_STDIO OR PLEDGE_RPATH"
definition PLEDGE_T_PYTHON_SANDBOX :: pledge_mask where [limits]: "PLEDGE_T_PYTHON_SANDBOX = PLEDGE_STDIO OR PLEDGE_RPATH OR PLEDGE_VMINFO"
definition PLEDGE_T_COMPUTE_ONLY :: pledge_mask where [limits]: "PLEDGE_T_COMPUTE_ONLY = PLEDGE_STDIO OR PLEDGE_RPATH"
definition PLEDGE_T_PIPELINE_STAGE :: pledge_mask where [limits]: "PLEDGE_T_PIPELINE_STAGE = PLEDGE_STDIO OR PLEDGE_RPATH OR PLEDGE_PROC OR PLEDGE_VMINFO"
definition PLEDGE_T_NET_CLIENT :: pledge_mask where [limits]: "PLEDGE_T_NET_CLIENT = PLEDGE_STDIO OR PLEDGE_RPATH OR PLEDGE_INET OR PLEDGE_VMINFO"

definition LX_SYS_read :: u64 where [limits]: "LX_SYS_read = 0"
definition LX_SYS_write :: u64 where [limits]: "LX_SYS_write = 1"
definition LX_SYS_close :: u64 where [limits]: "LX_SYS_close = 3"
definition LX_SYS_lseek :: u64 where [limits]: "LX_SYS_lseek = 8"
definition LX_SYS_dup :: u64 where [limits]: "LX_SYS_dup = 32"
definition LX_SYS_dup2 :: u64 where [limits]: "LX_SYS_dup2 = 33"
definition LX_SYS_dup3 :: u64 where [limits]: "LX_SYS_dup3 = 292"
definition LX_SYS_pipe :: u64 where [limits]: "LX_SYS_pipe = 22"
definition LX_SYS_pipe2 :: u64 where [limits]: "LX_SYS_pipe2 = 293"
definition LX_SYS_ioctl :: u64 where [limits]: "LX_SYS_ioctl = 16"
definition LX_SYS_fcntl :: u64 where [limits]: "LX_SYS_fcntl = 72"
definition LX_SYS_exit :: u64 where [limits]: "LX_SYS_exit = 60"
definition LX_SYS_exit_group :: u64 where [limits]: "LX_SYS_exit_group = 231"
definition LX_SYS_writev :: u64 where [limits]: "LX_SYS_writev = 20"
definition LX_SYS_open :: u64 where [limits]: "LX_SYS_open = 2"
definition LX_SYS_openat :: u64 where [limits]: "LX_SYS_openat = 257"
definition LX_SYS_stat :: u64 where [limits]: "LX_SYS_stat = 4"
definition LX_SYS_fstat :: u64 where [limits]: "LX_SYS_fstat = 5"
definition LX_SYS_lstat :: u64 where [limits]: "LX_SYS_lstat = 6"
definition LX_SYS_newfstatat :: u64 where [limits]: "LX_SYS_newfstatat = 262"
definition LX_SYS_readlink :: u64 where [limits]: "LX_SYS_readlink = 89"
definition LX_SYS_readlinkat :: u64 where [limits]: "LX_SYS_readlinkat = 267"
definition LX_SYS_access :: u64 where [limits]: "LX_SYS_access = 21"
definition LX_SYS_getcwd :: u64 where [limits]: "LX_SYS_getcwd = 79"
definition LX_SYS_getdents64 :: u64 where [limits]: "LX_SYS_getdents64 = 217"
definition LX_SYS_socket :: u64 where [limits]: "LX_SYS_socket = 41"
definition LX_SYS_connect :: u64 where [limits]: "LX_SYS_connect = 42"
definition LX_SYS_accept :: u64 where [limits]: "LX_SYS_accept = 43"
definition LX_SYS_accept4 :: u64 where [limits]: "LX_SYS_accept4 = 288"
definition LX_SYS_bind :: u64 where [limits]: "LX_SYS_bind = 49"
definition LX_SYS_listen :: u64 where [limits]: "LX_SYS_listen = 50"
definition LX_SYS_sendto :: u64 where [limits]: "LX_SYS_sendto = 44"
definition LX_SYS_recvfrom :: u64 where [limits]: "LX_SYS_recvfrom = 45"
definition LX_SYS_sendmsg :: u64 where [limits]: "LX_SYS_sendmsg = 46"
definition LX_SYS_recvmsg :: u64 where [limits]: "LX_SYS_recvmsg = 47"
definition LX_SYS_shutdown :: u64 where [limits]: "LX_SYS_shutdown = 48"
definition LX_SYS_getsockname :: u64 where [limits]: "LX_SYS_getsockname = 51"
definition LX_SYS_getpeername :: u64 where [limits]: "LX_SYS_getpeername = 52"
definition LX_SYS_socketpair :: u64 where [limits]: "LX_SYS_socketpair = 53"
definition LX_SYS_setsockopt :: u64 where [limits]: "LX_SYS_setsockopt = 54"
definition LX_SYS_getsockopt :: u64 where [limits]: "LX_SYS_getsockopt = 55"
definition LX_SYS_fork :: u64 where [limits]: "LX_SYS_fork = 57"
definition LX_SYS_clone :: u64 where [limits]: "LX_SYS_clone = 56"
definition LX_SYS_wait4 :: u64 where [limits]: "LX_SYS_wait4 = 61"
definition LX_SYS_kill :: u64 where [limits]: "LX_SYS_kill = 62"
definition LX_SYS_tkill :: u64 where [limits]: "LX_SYS_tkill = 200"
definition LX_SYS_tgkill :: u64 where [limits]: "LX_SYS_tgkill = 234"
definition LX_SYS_execve :: u64 where [limits]: "LX_SYS_execve = 59"
definition LX_SYS_mmap :: u64 where [limits]: "LX_SYS_mmap = 9"
definition LX_SYS_munmap :: u64 where [limits]: "LX_SYS_munmap = 11"
definition LX_SYS_mprotect :: u64 where [limits]: "LX_SYS_mprotect = 10"
definition LX_SYS_brk :: u64 where [limits]: "LX_SYS_brk = 12"
definition LX_SYS_setuid :: u64 where [limits]: "LX_SYS_setuid = 105"
definition LX_SYS_setgid :: u64 where [limits]: "LX_SYS_setgid = 106"
definition LX_SYS_pledge :: u64 where [limits]: "LX_SYS_pledge = 1000"
definition LX_SYS_unveil :: u64 where [limits]: "LX_SYS_unveil = 1003"


subsection \<open>The class of a system call\<close>

definition pledge_category :: "u64 \<Rightarrow> pledge_mask" where
  "pledge_category sysno =
     (if sysno \<in> set [LX_SYS_read, LX_SYS_write, LX_SYS_close, LX_SYS_lseek, LX_SYS_dup, LX_SYS_dup2, LX_SYS_dup3,
          LX_SYS_pipe, LX_SYS_pipe2, LX_SYS_ioctl, LX_SYS_fcntl, LX_SYS_exit, LX_SYS_exit_group, LX_SYS_writev] then PLEDGE_STDIO
      else if sysno \<in> set [LX_SYS_open, LX_SYS_openat, LX_SYS_stat, LX_SYS_fstat, LX_SYS_lstat, LX_SYS_newfstatat,
          LX_SYS_readlink, LX_SYS_readlinkat, LX_SYS_access, LX_SYS_getcwd, LX_SYS_getdents64] then PLEDGE_RPATH
      else if sysno \<in> set [LX_SYS_socket, LX_SYS_connect, LX_SYS_accept, LX_SYS_accept4, LX_SYS_bind, LX_SYS_listen,
          LX_SYS_sendto, LX_SYS_recvfrom, LX_SYS_sendmsg, LX_SYS_recvmsg, LX_SYS_shutdown, LX_SYS_getsockname,
          LX_SYS_getpeername, LX_SYS_socketpair, LX_SYS_setsockopt, LX_SYS_getsockopt] then PLEDGE_INET
      else if sysno \<in> set [LX_SYS_fork, LX_SYS_clone, LX_SYS_wait4, LX_SYS_kill, LX_SYS_tkill, LX_SYS_tgkill] then PLEDGE_PROC
      else if sysno \<in> set [LX_SYS_execve] then PLEDGE_EXEC
      else if sysno \<in> set [LX_SYS_mmap, LX_SYS_munmap, LX_SYS_mprotect, LX_SYS_brk] then PLEDGE_VMINFO
      else if sysno \<in> set [LX_SYS_setuid, LX_SYS_setgid] then PLEDGE_SETID
      else if sysno \<in> set [LX_SYS_pledge] then PLEDGE_LUCAS
      else 0)"

definition LX_O_ACCMODE :: u64 where [limits]: "LX_O_ACCMODE = 3"

text \<open>The argument array \<open>args[6]\<close> is a function of the index.\<close>

definition pledge_check_args :: "u64 \<Rightarrow> (nat \<Rightarrow> u64) \<Rightarrow> pledge_mask" where
  "pledge_check_args sysno args =
     (if sysno = LX_SYS_open then (if args 1 AND LX_O_ACCMODE = 0 then PLEDGE_RPATH else PLEDGE_WPATH)
      else if sysno = LX_SYS_openat then (if args 2 AND LX_O_ACCMODE = 0 then PLEDGE_RPATH else PLEDGE_WPATH)
      else pledge_category sysno)"


subsection \<open>Promise strings\<close>

definition pledge_class_table :: "(string \<times> pledge_mask) list" where
  "pledge_class_table =
     [(''stdio'', PLEDGE_STDIO), (''rpath'', PLEDGE_RPATH), (''wpath'', PLEDGE_WPATH), (''inet'', PLEDGE_INET),
      (''unix'', PLEDGE_UNIX), (''proc'', PLEDGE_PROC), (''exec'', PLEDGE_EXEC), (''setid'', PLEDGE_SETID),
      (''fattr'', PLEDGE_FATTR), (''vminfo'', PLEDGE_VMINFO), (''tty'', PLEDGE_TTY), (''lucas'', PLEDGE_LUCAS),
      (''sotfs'', PLEDGE_SOTFS)]"

definition pledge_is_sep :: "char \<Rightarrow> bool" where
  "pledge_is_sep c \<longleftrightarrow> c = CHR '' '' \<or> c = CHR 0x09 \<or> c = CHR '','' \<or> c = CHR 0x0A \<or> c = CHR 0x0D"

definition lower_ascii :: "char \<Rightarrow> char" where
  "lower_ascii c = (let n = (of_char c :: nat) in if 65 \<le> n \<and> n \<le> 90 then char_of (n + 32) else c)"

fun pledge_token_eq :: "string \<Rightarrow> string \<Rightarrow> bool" where
  "pledge_token_eq [] name \<longleftrightarrow> name = []"
| "pledge_token_eq (a # as) [] \<longleftrightarrow> False"
| "pledge_token_eq (a # as) (b # bs) \<longleftrightarrow> lower_ascii a = b \<and> pledge_token_eq as bs"

text \<open>The inner loop over the class table: the bit of the first entry that matches, if any.\<close>

definition token_bit :: "string \<Rightarrow> pledge_mask" where
  "token_bit tok = (case find (\<lambda>e. pledge_token_eq tok (fst e)) pledge_class_table of None \<Rightarrow> 0 | Some e \<Rightarrow> snd e)"

function pledge_parse_loop :: "pledge_mask \<Rightarrow> string \<Rightarrow> pledge_mask" where
  "pledge_parse_loop msk p =
     (let q = dropWhile pledge_is_sep p
      in if q = [] then msk
         else pledge_parse_loop (msk OR token_bit (takeWhile (\<lambda>c. \<not> pledge_is_sep c) q)) (dropWhile (\<lambda>c. \<not> pledge_is_sep c) q))"
  by pat_completeness auto
termination
proof (relation "measure (\<lambda>(msk, p). length p)", goal_cases)
  case (2 msk p q)
  from 2(2) obtain c cs where q: "q = c # cs" by (meson list.exhaust)
  have "\<not> pledge_is_sep c"
    using q 2(1) by (metis hd_dropWhile list.discI list.sel(1))
  then have "length (dropWhile (\<lambda>c. \<not> pledge_is_sep c) q) \<le> length cs"
    by (simp add: q length_dropWhile_le)
  also have "\<dots> < length q" by (simp add: q)
  also have "\<dots> \<le> length p" unfolding 2(1) by (rule length_dropWhile_le)
  finally show ?case by simp
qed simp

declare pledge_parse_loop.simps [simp del]

definition pledge_parse :: "string option \<Rightarrow> pledge_mask" where
  "pledge_parse promise_str = (case promise_str of None \<Rightarrow> 0 | Some s \<Rightarrow> pledge_parse_loop 0 s)"

definition pledge_class_name :: "pledge_mask \<Rightarrow> string" where
  "pledge_class_name single_bit =
     (if single_bit = 0 then ''?''
      else if single_bit AND (single_bit - 1) \<noteq> 0 then ''?''
      else case find (\<lambda>e. snd e = single_bit) pledge_class_table of None \<Rightarrow> ''?'' | Some e \<Rightarrow> fst e)"

definition pledge_template_table :: "(string \<times> pledge_mask) list" where
  "pledge_template_table =
     [(''none'', PLEDGE_ALL), (''T_TRUSTED_ROOT'', PLEDGE_T_TRUSTED_ROOT), (''T_SHELL'', PLEDGE_T_SHELL),
      (''T_DAEMON_NETWORK'', PLEDGE_T_DAEMON_NETWORK), (''T_CANARY_TARGET'', PLEDGE_T_CANARY_TARGET),
      (''T_PYTHON_SANDBOX'', PLEDGE_T_PYTHON_SANDBOX), (''T_COMPUTE_ONLY'', PLEDGE_T_COMPUTE_ONLY),
      (''T_PIPELINE_STAGE'', PLEDGE_T_PIPELINE_STAGE), (''T_NET_CLIENT'', PLEDGE_T_NET_CLIENT)]"

text \<open>The result and the out-parameter \<open>ok\<close>.\<close>

definition lucas_pledge_template_from_name :: "string option \<Rightarrow> pledge_mask \<times> bool" where
  "lucas_pledge_template_from_name nm =
     (case nm of
        None \<Rightarrow> (PLEDGE_ALL, True)
      | Some n \<Rightarrow> (case find (\<lambda>e. n = fst e) pledge_template_table of Some e \<Rightarrow> (snd e, True) | None \<Rightarrow> (PLEDGE_ALL, False)))"


subsection \<open>Parsing what was printed\<close>

text \<open>
  Class names joined by single separators parse to the union of their bits: printing with
  \<open>pledge_class_name\<close> and parsing are inverse.
\<close>

definition known_bits :: "pledge_mask list" where
  "known_bits = map snd pledge_class_table"

lemma known_bit_name:
  "b \<in> set known_bits \<Longrightarrow>
     token_bit (pledge_class_name b) = b \<and> pledge_class_name b \<noteq> [] \<and> list_all (\<lambda>c. \<not> pledge_is_sep c) (pledge_class_name b)"
proof -
  have "list_all (\<lambda>b. token_bit (pledge_class_name b) = b \<and> pledge_class_name b \<noteq> [] \<and>
      list_all (\<lambda>c. \<not> pledge_is_sep c) (pledge_class_name b)) known_bits"
    by code_simp
  then show "b \<in> set known_bits \<Longrightarrow> ?thesis" by (auto simp: list_all_iff)
qed

lemma parse_token:
  assumes "tok \<noteq> []" and "list_all (\<lambda>c. \<not> pledge_is_sep c) tok" and "rest = [] \<or> pledge_is_sep (hd rest)"
  shows "pledge_parse_loop m (tok @ rest) = pledge_parse_loop (m OR token_bit tok) rest"
proof -
  have d: "dropWhile pledge_is_sep (tok @ rest) = tok @ rest"
    using assms by (cases tok) auto
  have t: "takeWhile (\<lambda>c. \<not> pledge_is_sep c) (tok @ rest) = tok" "dropWhile (\<lambda>c. \<not> pledge_is_sep c) (tok @ rest) = rest"
    using assms by (cases rest; auto simp: list_all_iff takeWhile_append dropWhile_append)+
  show ?thesis
    using assms(1) by (subst pledge_parse_loop.simps) (simp add: d t Let_def)
qed

lemma parse_sep: "pledge_is_sep c \<Longrightarrow> pledge_parse_loop m (c # rest) = pledge_parse_loop m rest"
  by (subst (1 2) pledge_parse_loop.simps) simp

lemma parse_names:
  assumes "set bs \<subseteq> set known_bits" and "pledge_is_sep c"
  shows "pledge_parse_loop m (concat (map (\<lambda>b. pledge_class_name b @ [c]) bs)) = foldl (OR) m bs"
  using assms(1)
proof (induction bs arbitrary: m)
  case Nil
  then show ?case by (simp add: pledge_parse_loop.simps)
next
  case (Cons b bs)
  let ?n = "pledge_class_name b" and ?r = "concat (map (\<lambda>b. pledge_class_name b @ [c]) bs)"
  have b: "token_bit ?n = b" "?n \<noteq> []" "list_all (\<lambda>c. \<not> pledge_is_sep c) ?n" using known_bit_name [of b] Cons.prems by auto
  have "pledge_parse_loop m (?n @ c # ?r) = pledge_parse_loop (m OR b) (c # ?r)"
    using parse_token [OF b(2,3), of "c # ?r" m] assms(2) by (simp add: b(1))
  also have "\<dots> = pledge_parse_loop (m OR b) ?r" by (rule parse_sep [OF assms(2)])
  finally show ?case using Cons by simp
qed

theorem pledge_parse_print:
  "set bs \<subseteq> set known_bits \<Longrightarrow> pledge_is_sep c \<Longrightarrow>
     pledge_parse (Some (concat (map (\<lambda>b. pledge_class_name b @ [c]) bs))) = foldl (OR) 0 bs"
  by (simp add: pledge_parse_def parse_names)

end
