(* ===== verification/ClientMem.thy ===== *)
theory ClientMem
  imports Prelude
begin

text \<open>
  Reading a C string out of the address space of a sandbox (\<open>lucas_copy_cstr_from_client\<close> of
  \<^verbatim>\<open>src/lucas/handlers_fs.c\<close>). The address space is the parameter \<open>mem\<close>: the contents of the
  page at a base address, or \<open>None\<close> when there is no frame or it cannot be mapped.
\<close>

type_synonym client_mem = "u64 \<Rightarrow> char arr option"

definition page_base :: "u64 \<Rightarrow> u64" where
  "page_base addr = addr AND NOT 0xFFF"

lemma page_offset_bound: "unat (addr - page_base addr) < 4096"
proof -
  have "(addr AND NOT 0xFFF) AND (addr AND 0xFFF) = 0"
    by (rule bit_word_eqI) (simp only: bit_and_iff bit_not_iff bit_0_eq; auto)
  then have "(addr AND NOT 0xFFF) + (addr AND 0xFFF) = (addr AND NOT 0xFFF) OR (addr AND 0xFFF)"
    by (rule disjunctive_add_eq_or)
  also have "\<dots> = addr"
    by (rule bit_word_eqI) (simp only: bit_and_iff bit_or_iff bit_not_iff; auto)
  finally have "(addr AND NOT 0xFFF) + (addr AND 0xFFF) = addr" .
  then have "addr - page_base addr = addr AND 0xFFF" by (simp add: page_base_def algebra_simps)
  moreover have "addr AND 0xFFF \<le> 0xFFF" by (rule word_and_le1)
  ultimately show ?thesis by (simp add: word_le_nat_alt)
qed

text \<open>
  The loop over the pages: \<open>out\<close> characters are already in the buffer \<open>acc\<close>; the inner loop stops
  at the first NUL.
\<close>

function copy_cstr_loop :: "client_mem \<Rightarrow> u64 \<Rightarrow> nat \<Rightarrow> nat \<Rightarrow> string \<Rightarrow> string option" where
  "copy_cstr_loop mem client_vaddr buf_size out acc =
     (if out < buf_size - 1 then
        let addr = client_vaddr + of_nat out;
            off_in_page = unat (addr - page_base addr);
            in_page_remaining = min (4096 - off_in_page) (buf_size - 1 - out)
        in case mem (page_base addr) of
             None \<Rightarrow> None
           | Some page \<Rightarrow>
               let cs = map (\<lambda>i. page (off_in_page + i)) [0..<in_page_remaining];
                   s = takeWhile (\<lambda>c. c \<noteq> CHR 0x00) cs
               in if length s < in_page_remaining then Some (acc @ s)
                  else copy_cstr_loop mem client_vaddr buf_size (out + in_page_remaining) (acc @ cs)
      else Some acc)"
  by pat_completeness auto
termination
proof (relation "measure (\<lambda>(mem, va, n, out, acc). n - out)", goal_cases)
  case (2 mem va n out acc addr off rem page cs s)
  have "0 < rem" using 2(1,3,4) page_offset_bound [of addr] by simp
  with 2(1) show ?case by simp
qed simp

declare copy_cstr_loop.simps [simp del]

text \<open>The string the buffer holds on success, or \<open>None\<close> for the result -1.\<close>

definition lucas_copy_cstr_from_client :: "client_mem \<Rightarrow> u64 \<Rightarrow> nat \<Rightarrow> string option" where
  "lucas_copy_cstr_from_client mem client_vaddr buf_size =
     (if buf_size = 0 then None else copy_cstr_loop mem client_vaddr buf_size 0 [])"

lemma copy_cstr_loop_length:
  "copy_cstr_loop mem va n out acc = Some s \<Longrightarrow> length acc = out \<Longrightarrow> out \<le> n - 1 \<Longrightarrow>
     CHR 0x00 \<notin> set acc \<Longrightarrow> length s \<le> n - 1 \<and> CHR 0x00 \<notin> set s"
proof (induction mem va n out acc rule: copy_cstr_loop.induct)
  case (1 mem va n out acc)
  define addr where "addr = va + of_nat out"
  define off where "off = unat (addr - page_base addr)"
  define m where "m = min (4096 - off) (n - 1 - out)"
  note eq = copy_cstr_loop.simps [of mem va n out acc, unfolded Let_def, folded addr_def, folded off_def, folded m_def]
  show ?case
  proof (cases "out < n - 1")
    case True
    then obtain page where pg: "mem (page_base addr) = Some page"
      using "1.prems"(1) unfolding eq by (auto split: option.splits)
    define cs where "cs = map (\<lambda>i. page (off + i)) [0..<m]"
    define t where "t = takeWhile (\<lambda>c. c \<noteq> CHR 0x00) cs"
    have res: "(if length t < m then Some (acc @ t) else copy_cstr_loop mem va n (out + m) (acc @ cs)) = Some s"
      using "1.prems"(1) True pg unfolding eq cs_def t_def by (simp split del: if_split)
    have lcs: "length cs = m" "m \<le> n - 1 - out" by (simp_all add: cs_def m_def)
    have nt: "CHR 0x00 \<notin> set t" by (auto simp: t_def dest: set_takeWhileD)
    show ?thesis
    proof (cases "length t < m")
      case short: True
      with res have "s = acc @ t" by simp
      with short lcs "1.prems" True nt show ?thesis by simp
    next
      case False
      have "length t \<le> length cs" unfolding t_def by (rule length_takeWhile_le)
      with False lcs have "length t = length cs" by simp
      then have "t = cs" unfolding t_def by (metis takeWhile_eq_take take_all_iff order_refl)
      then have "CHR 0x00 \<notin> set (acc @ cs)" using nt "1.prems"(4) by simp
      moreover have "copy_cstr_loop mem va n (out + m) (acc @ cs) = Some s" using res False by simp
      moreover have "length (acc @ cs) = out + m" "out + m \<le> n - 1" using lcs "1.prems" True by simp_all
      ultimately show ?thesis
        using "1.IH" [OF True addr_def off_def _ pg cs_def t_def] False by (simp add: m_def)
    qed
  next
    case False
    with "1.prems" show ?thesis unfolding eq by simp
  qed
qed

lemma copy_cstr_bound:
  "lucas_copy_cstr_from_client mem va n = Some s \<Longrightarrow> length s \<le> n - 1 \<and> CHR 0x00 \<notin> set s"
  using copy_cstr_loop_length [of mem va n 0 "[]" s]
  by (simp add: lucas_copy_cstr_from_client_def split: if_splits)

end
