(* ===== verification/Unveil.thy ===== *)
theory Unveil
  imports ClientMem "HOL-Library.Sublist"
begin

text \<open>
  The path table of \<^verbatim>\<open>src/lucas/unveil.c\<close>: at most sixteen entries of a path prefix and its
  permissions, the longest-prefix check the file handlers make, and the system call that adds
  or narrows an entry or locks the table. The system call reads its two strings from the
  address space of the caller and changes nothing of its state but the table.
\<close>

definition UNVEIL_R :: u32 where [limits]: "UNVEIL_R = 1"
definition UNVEIL_W :: u32 where [limits]: "UNVEIL_W = 2"
definition UNVEIL_X :: u32 where [limits]: "UNVEIL_X = 4"
definition LUCAS_UNVEIL_MAX_ENTRIES :: nat where [limits]: "LUCAS_UNVEIL_MAX_ENTRIES = 16"
definition LUCAS_UNVEIL_PATH_MAX :: nat where [limits]: "LUCAS_UNVEIL_PATH_MAX = 96"
definition LX_EPERM :: int where [limits]: "LX_EPERM = 1"
definition LX_EACCES :: int where [limits]: "LX_EACCES = 13"
definition LX_EFAULT :: int where [limits]: "LX_EFAULT = 14"
definition LX_EINVAL :: int where [limits]: "LX_EINVAL = 22"

record lucas_unveil_entry =
  ue_path :: string
  ue_perms :: u32

text \<open>The count is bounded by \<open>LUCAS_UNVEIL_MAX_ENTRIES\<close>, so its 8-bit type never wraps.\<close>

record lucas_unveil_state =
  uv_entries :: "lucas_unveil_entry arr"
  uv_count :: nat
  uv_locked :: bool
  uv_initialized :: bool

definition unveil_char :: "char \<Rightarrow> u32" where
  "unveil_char c =
     (let n = (of_char c :: nat); n = (if 65 \<le> n \<and> n \<le> 90 then n + 32 else n)
      in if n = of_char (CHR ''r'') then UNVEIL_R
         else if n = of_char (CHR ''w'') then UNVEIL_W
         else if n = of_char (CHR ''x'') then UNVEIL_X
         else if n = of_char (CHR ''c'') then UNVEIL_W
         else 0)"

definition unveil_parse_perms :: "string \<Rightarrow> u32" where
  "unveil_parse_perms s = foldl (\<lambda>m c. m OR unveil_char c) 0 s"

text \<open>One iteration of the scan; the accumulator is \<open>(best, best_len)\<close>.\<close>

definition match_step :: "lucas_unveil_state \<Rightarrow> string \<Rightarrow> nat option \<times> nat \<Rightarrow> nat \<Rightarrow> nat option \<times> nat" where
  "match_step uv query acc i =
     (let e = ue_path (uv_entries uv i); elen = length e; qlen = length query
      in if elen = 0 \<or> elen > qlen then acc
         else if e \<noteq> take elen query then acc
         else if elen \<noteq> qlen \<and> query ! elen \<noteq> CHR ''/'' \<and> e ! (elen - 1) \<noteq> CHR ''/'' then acc
         else if elen > snd acc then (Some i, elen)
         else acc)"

definition unveil_find_match :: "lucas_unveil_state \<Rightarrow> string \<Rightarrow> nat option" where
  "unveil_find_match uv query = fst (foldl (match_step uv query) (None, 0) [0..<uv_count uv])"

definition lucas_unveil_check :: "lucas_unveil_state \<Rightarrow> string \<Rightarrow> u32 \<Rightarrow> int" where
  "lucas_unveil_check uv path want_perms =
     (if \<not> uv_initialized uv then 0
      else if want_perms = 0 then 0
      else case unveil_find_match uv path of
             None \<Rightarrow> - LX_EACCES
           | Some idx \<Rightarrow>
               if want_perms AND ue_perms (uv_entries uv idx) \<noteq> want_perms then - LX_EACCES else 0)"

definition unveil_find_exact :: "lucas_unveil_state \<Rightarrow> string \<Rightarrow> nat option" where
  "unveil_find_exact uv path = first_idx (\<lambda>i. ue_path (uv_entries uv i) = path) 0 (uv_count uv)"

definition unveil_copy_path :: "string \<Rightarrow> string" where
  "unveil_copy_path src = cstr_copy LUCAS_UNVEIL_PATH_MAX src"

definition lucas_sys_unveil :: "client_mem \<Rightarrow> lucas_unveil_state \<Rightarrow> u64 \<Rightarrow> u64 \<Rightarrow> int \<times> lucas_unveil_state" where
  "lucas_sys_unveil mem uv path_vaddr perms_vaddr =
     (if path_vaddr = 0 \<and> perms_vaddr = 0 then (0, uv \<lparr>uv_initialized := True, uv_locked := True\<rparr>)
      else if uv_locked uv then (- LX_EPERM, uv)
      else if path_vaddr = 0 \<or> perms_vaddr = 0 then (- LX_EINVAL, uv)
      else case lucas_copy_cstr_from_client mem path_vaddr LUCAS_UNVEIL_PATH_MAX of
        None \<Rightarrow> (- LX_EFAULT, uv)
      | Some path_buf \<Rightarrow>
      (case lucas_copy_cstr_from_client mem perms_vaddr 16 of
        None \<Rightarrow> (- LX_EFAULT, uv)
      | Some perms_buf \<Rightarrow>
          if path_buf = [] then (- LX_EINVAL, uv)
          else
            let new_perms = unveil_parse_perms perms_buf
            in case unveil_find_exact uv path_buf of
                 Some idx \<Rightarrow>
                   let cur = ue_perms (uv_entries uv idx)
                   in if new_perms AND NOT cur \<noteq> 0 then (- LX_EPERM, uv)
                      else (0, uv \<lparr>uv_entries := (uv_entries uv) (idx := (uv_entries uv idx) \<lparr>ue_perms := cur AND new_perms\<rparr>),
                                   uv_initialized := True\<rparr>)
               | None \<Rightarrow>
                   if uv_count uv \<ge> LUCAS_UNVEIL_MAX_ENTRIES then (- LX_EPERM, uv)
                   else (0, uv \<lparr>uv_entries := (uv_entries uv) (uv_count uv := \<lparr>ue_path = unveil_copy_path path_buf, ue_perms = new_perms\<rparr>),
                                uv_count := uv_count uv + 1, uv_initialized := True\<rparr>)))"

end
