(* ===== verification/Anomaly.thy ===== *)
theory Anomaly
  imports Prelude
begin

text \<open>
  The anomaly server (\<^verbatim>\<open>src/anomaly/main.c\<close>): one weighted suspicion score per process,
  kept in arrays over the synthetic pid, with the tier thresholds, the unlink-burst bonus, the
  reset for a new tenant of a pid, and the rules that promote at once. The body of the receive
  loop is \<open>anomaly_serve\<close>: it takes the label and the message registers of one event and returns
  the registers of the reply. The messages the server sends to procd are collected in
  \<open>an_procd_calls\<close>; an end point is a flag that says whether the capability is present.
\<close>

definition ORCH_OP_ANOMALY_EVENT :: u64 where [limits]: "ORCH_OP_ANOMALY_EVENT = 7"
definition ANOMALY_EV_WRITE :: int where [limits]: "ANOMALY_EV_WRITE = 1"
definition ANOMALY_EV_OPERATOR_PROMOTE :: int where [limits]: "ANOMALY_EV_OPERATOR_PROMOTE = 2"
definition ANOMALY_EV_PLEDGE_VIOLATION :: int where [limits]: "ANOMALY_EV_PLEDGE_VIOLATION = 3"
definition ANOMALY_EV_NET_PRECOMMIT :: int where [limits]: "ANOMALY_EV_NET_PRECOMMIT = 4"
definition ANOMALY_EV_CURVATURE :: int where [limits]: "ANOMALY_EV_CURVATURE = 5"
definition ANOMALY_EV_DNS_HIT :: int where [limits]: "ANOMALY_EV_DNS_HIT = 6"
definition ANOMALY_EV_TCP_OPEN :: int where [limits]: "ANOMALY_EV_TCP_OPEN = 7"
definition ANOMALY_EV_MSYSCALL :: int where [limits]: "ANOMALY_EV_MSYSCALL = 8"
definition ANOMALY_EV_CRED_ACCESS :: int where [limits]: "ANOMALY_EV_CRED_ACCESS = 16"
definition ANOMALY_EV_UNLINK :: int where [limits]: "ANOMALY_EV_UNLINK = 17"
definition ANOMALY_EV_EXEC :: int where [limits]: "ANOMALY_EV_EXEC = 18"

lemmas anomaly_kinds = ANOMALY_EV_WRITE_def ANOMALY_EV_OPERATOR_PROMOTE_def ANOMALY_EV_PLEDGE_VIOLATION_def
  ANOMALY_EV_NET_PRECOMMIT_def ANOMALY_EV_CURVATURE_def ANOMALY_EV_DNS_HIT_def ANOMALY_EV_TCP_OPEN_def
  ANOMALY_EV_MSYSCALL_def ANOMALY_EV_CRED_ACCESS_def ANOMALY_EV_UNLINK_def ANOMALY_EV_EXEC_def

definition ANOMALY_T1_THRESHOLD :: u32 where [limits]: "ANOMALY_T1_THRESHOLD = 20"
definition ANOMALY_T2_THRESHOLD :: u32 where [limits]: "ANOMALY_T2_THRESHOLD = 40"

record anomaly =
  an_score :: "u32 arr"
  an_applied_tier :: "u8 arr"
  an_write_counts :: "u32 arr"
  an_procd_slots :: "u32 arr"
  an_promoted :: "bool arr"
  an_unlink_run :: "u32 arr"
  an_events_since_unlink :: "u32 arr"
  an_pid_bytes_out :: "u32 arr"
  an_orch_ep :: bool
  an_procd_ep :: bool
  an_procd_calls :: "(u32 \<times> u32) list"

definition anomaly_weight :: "int \<Rightarrow> u32" where
  "anomaly_weight kind =
     (if kind = ANOMALY_EV_WRITE then 1
      else if kind = ANOMALY_EV_UNLINK then 2
      else if kind = ANOMALY_EV_EXEC then 8
      else if kind = ANOMALY_EV_CRED_ACCESS then 15
      else if kind = ANOMALY_EV_NET_PRECOMMIT \<or> kind = ANOMALY_EV_CURVATURE \<or> kind = ANOMALY_EV_DNS_HIT \<or>
              kind = ANOMALY_EV_TCP_OPEN \<or> kind = ANOMALY_EV_MSYSCALL then ANOMALY_T2_THRESHOLD
      else 0)"

definition anomaly_score_fold :: "anomaly \<Rightarrow> int \<Rightarrow> int \<Rightarrow> u32 \<Rightarrow> int \<times> anomaly" where
  "anomaly_score_fold s pid kind burst_bonus =
     (if pid < 1 \<or> pid \<ge> 16 then (0, s)
      else
        let i = nat pid;
            s = s \<lparr>an_score := (an_score s) (i := an_score s i + (anomaly_weight kind + burst_bonus))\<rparr>;
            target = (if an_score s i \<ge> ANOMALY_T2_THRESHOLD then 2
                      else if an_score s i \<ge> ANOMALY_T1_THRESHOLD then 1 else 0)
        in if target > uint (an_applied_tier s i)
           then (target, s \<lparr>an_applied_tier := (an_applied_tier s) (i := of_int target)\<rparr>)
           else (0, s))"

definition anomaly_fold_async :: "anomaly \<Rightarrow> int \<Rightarrow> int \<Rightarrow> anomaly" where
  "anomaly_fold_async s pid kind =
     (if pid < 1 \<or> pid \<ge> 16 then s
      else
        let s = snd (anomaly_score_fold s pid kind 0); i = nat pid
        in s \<lparr>an_events_since_unlink := (an_events_since_unlink s) (i := an_events_since_unlink s i + 1)\<rparr>)"

definition anomaly_procd_set_tier :: "anomaly \<Rightarrow> u32 \<Rightarrow> u32 \<Rightarrow> anomaly" where
  "anomaly_procd_set_tier s procd_slot target_tier =
     (if \<not> an_procd_ep s \<or> procd_slot = 0 then s
      else s \<lparr>an_procd_calls := an_procd_calls s @ [(procd_slot, target_tier)]\<rparr>)"

text \<open>The reset for a new tenant of the pid, and the watermark of its write count.\<close>

definition fresh_tenant :: "anomaly \<Rightarrow> nat \<Rightarrow> u32 \<Rightarrow> anomaly" where
  "fresh_tenant s i lucas_count =
     (let s = (if lucas_count \<noteq> 0 \<and> lucas_count < an_write_counts s i
               then s \<lparr>an_score := (an_score s) (i := 0), an_applied_tier := (an_applied_tier s) (i := 0),
                       an_unlink_run := (an_unlink_run s) (i := 0),
                       an_events_since_unlink := (an_events_since_unlink s) (i := 0),
                       an_promoted := (an_promoted s) (i := False)\<rparr>
               else s)
      in s \<lparr>an_write_counts := (an_write_counts s) (i := (if lucas_count \<noteq> 0 then lucas_count else an_write_counts s i + 1))\<rparr>)"

text \<open>The \<open>case ANOMALY_EV_UNLINK\<close> of the switch: the bonus and the updated run counter.\<close>

definition unlink_burst :: "anomaly \<Rightarrow> nat \<Rightarrow> u64 \<Rightarrow> u32 \<times> anomaly" where
  "unlink_burst s i mr2 =
     (let K = 8; BASE = 2; CAP = BASE * 6;
          cred = (ucast mr2 :: u32) AND 1;
          run = (if an_events_since_unlink s i > K then 0 else an_unlink_run s i) + 1;
          s = s \<lparr>an_unlink_run := (an_unlink_run s) (i := run),
                 an_events_since_unlink := (an_events_since_unlink s) (i := 0)\<rparr>;
          step = BASE * run;
          step = (if step > CAP then CAP else step);
          bonus = step - BASE
      in (if cred \<noteq> 0 then bonus + BASE else bonus, s))"

definition anomaly_handle_sync :: "anomaly \<Rightarrow> int \<Rightarrow> int \<Rightarrow> u64 \<Rightarrow> u32 \<Rightarrow> u32 \<Rightarrow> int \<times> anomaly" where
  "anomaly_handle_sync s pid kind mr2 lucas_count pd_slot =
     (if pid < 1 \<or> pid \<ge> 16 then (0, s)
      else
        let i = nat pid;
            s = (if pd_slot \<noteq> 0 then s \<lparr>an_procd_slots := (an_procd_slots s) (i := pd_slot)\<rparr> else s);
            s = fresh_tenant s i lucas_count
        in if kind \<noteq> ANOMALY_EV_UNLINK \<and> kind \<noteq> ANOMALY_EV_WRITE \<and> kind \<noteq> ANOMALY_EV_CRED_ACCESS \<and> kind \<noteq> ANOMALY_EV_EXEC
           then (0, s)
           else
             let (burst_bonus, s) =
                   (if kind = ANOMALY_EV_UNLINK then unlink_burst s i mr2
                    else (0, s \<lparr>an_events_since_unlink := (an_events_since_unlink s) (i := an_events_since_unlink s i + 1)\<rparr>));
                 (target, s) = anomaly_score_fold s pid kind burst_bonus
             in (target, if target > 0 then anomaly_procd_set_tier s (an_procd_slots s i) (of_int target) else s))"

text \<open>
  The block that every rule with immediate promotion ends in: mark the pid, tell procd, fold the
  event into the score.
\<close>

definition promote_once :: "anomaly \<Rightarrow> int \<Rightarrow> int \<Rightarrow> anomaly" where
  "promote_once s pid kind =
     (let i = nat pid;
          s = s \<lparr>an_promoted := (an_promoted s) (i := True)\<rparr>;
          s = anomaly_procd_set_tier s (an_procd_slots s i) 2
      in anomaly_fold_async s pid kind)"

definition promotable :: "anomaly \<Rightarrow> int \<Rightarrow> bool" where
  "promotable s pid \<longleftrightarrow> pid \<ge> 1 \<and> pid < 16 \<and> \<not> an_promoted s (nat pid) \<and> an_orch_ep s"

definition net_precommit :: "anomaly \<Rightarrow> int \<Rightarrow> u32 \<Rightarrow> u32 \<Rightarrow> u64 list \<times> anomaly" where
  "net_precommit s pid dst_ip_be len =
     (let i = nat pid; in_range = (pid \<ge> 0 \<and> pid < 16);
          s = (if in_range then s \<lparr>an_pid_bytes_out := (an_pid_bytes_out s) (i := an_pid_bytes_out s i + len)\<rparr> else s);
          first_octet = (ucast (dst_ip_be AND 0xFF) :: u8);
          decision = (if first_octet = 10 then 0
                      else if len > 256 then 1
                      else if in_range \<and> an_pid_bytes_out s i > 4096 then 1
                      else 0)
      in if pid \<ge> 1 \<and> pid < 16 \<and> first_octet \<noteq> 10 \<and> an_pid_bytes_out s i > 16384 \<and> \<not> an_promoted s i \<and> an_orch_ep s
         then ([2, 2], promote_once s pid ANOMALY_EV_NET_PRECOMMIT)
         else ([decision, 0], s))"

definition anomaly_serve :: "u64 \<Rightarrow> (nat \<Rightarrow> u64) \<Rightarrow> anomaly \<Rightarrow> u64 list \<times> anomaly" where
  "anomaly_serve op mr s =
     (if op \<noteq> ORCH_OP_ANOMALY_EVENT then ([], s)
      else
        let pid = sint (ucast (mr 0) :: u32); kind = sint (ucast (mr 1) :: u32);
            mr2 = (ucast (mr 2) :: u32); mr3 = (ucast (mr 3) :: u32); mr4 = (ucast (mr 4) :: u32)
        in if kind = ANOMALY_EV_NET_PRECOMMIT then net_precommit s pid mr2 mr3
           else if kind = ANOMALY_EV_CURVATURE then
             (if promotable s pid \<and> 1 \<le> mr2 \<and> mr2 \<le> 2 then ([2], promote_once s pid kind) else ([0], s))
           else if kind = ANOMALY_EV_DNS_HIT then
             (if promotable s pid then ([2], promote_once s pid kind) else ([0], s))
           else if kind = ANOMALY_EV_MSYSCALL then
             (if promotable s pid then ([2], promote_once s pid kind) else ([0], s))
           else if kind = ANOMALY_EV_WRITE \<or> kind = ANOMALY_EV_UNLINK \<or> kind = ANOMALY_EV_CRED_ACCESS \<or> kind = ANOMALY_EV_EXEC then
             (let (t, s) = anomaly_handle_sync s pid kind (mr 2) mr3 mr4 in ([of_int t], s))
           else if kind = ANOMALY_EV_TCP_OPEN then
             (if promotable s pid \<and> (ucast (mr2 AND 0xFF) :: u8) \<noteq> 10 then ([2], promote_once s pid kind) else ([0], s))
           else ([], s))"

end
