(* ===== verification/SotGuard.thy ===== *)
theory SotGuard
  imports Storage
begin

text \<open>
  sotGuard, the correlation layer: the lossy event ring of \<^verbatim>\<open>src/sotguard/event_bus.c\<close>, the
  per-process rule engine of \<^verbatim>\<open>src/sotguard/policy_engine.c\<close> and the pump of
  \<^verbatim>\<open>src/orch/sotguard_pump.c\<close> that feeds the one into the other.

  The \<open>detail\<close> union of an event is its 80 raw bytes, and every arm of the union is a
  little-endian load at the offset the C layout gives it. A path is the bytes of its array before
  the first NUL.
\<close>


subsection \<open>Events\<close>

definition SG_EV_NONE :: u16 where [limits]: "SG_EV_NONE = 0"
definition SG_EV_FS_READ :: u16 where [limits]: "SG_EV_FS_READ = 1"
definition SG_EV_FS_WRITE :: u16 where [limits]: "SG_EV_FS_WRITE = 2"
definition SG_EV_FS_OPEN :: u16 where [limits]: "SG_EV_FS_OPEN = 3"
definition SG_EV_NET_CONNECT :: u16 where [limits]: "SG_EV_NET_CONNECT = 4"
definition SG_EV_NET_SEND :: u16 where [limits]: "SG_EV_NET_SEND = 5"
definition SG_EV_NET_RECV :: u16 where [limits]: "SG_EV_NET_RECV = 6"
definition SG_EV_DNS_LOOKUP :: u16 where [limits]: "SG_EV_DNS_LOOKUP = 7"
definition SG_EV_PLEDGE_VIOL :: u16 where [limits]: "SG_EV_PLEDGE_VIOL = 8"
definition SG_EV_FAULT_SYSCALL :: u16 where [limits]: "SG_EV_FAULT_SYSCALL = 9"
definition SG_EV_GRAPH_CURVATURE_RANSOM :: u16 where [limits]: "SG_EV_GRAPH_CURVATURE_RANSOM = 10"
definition SG_EV_GRAPH_CURVATURE_LATERAL :: u16 where [limits]: "SG_EV_GRAPH_CURVATURE_LATERAL = 11"
definition SG_EV_CANARY_READ :: u16 where [limits]: "SG_EV_CANARY_READ = 12"
definition SOTGUARD_EMIT_MAX_KIND :: u16 where [limits]: "SOTGUARD_EMIT_MAX_KIND = SG_EV_CANARY_READ"
definition SOTGUARD_RING_CAPACITY :: nat where [limits]: "SOTGUARD_RING_CAPACITY = 256"

record sotguard_event =
  ev_pid :: u32
  ev_type :: u16
  ev_conn_id :: u16
  ev_timestamp :: u64
  ev_detail :: "u8 list"

definition detail_at :: "sotguard_event \<Rightarrow> nat \<Rightarrow> nat \<Rightarrow> nat" where
  "detail_at ev off n = le_nat (take n (drop off (ev_detail ev)))"

definition fs_fd :: "sotguard_event \<Rightarrow> u64" where "fs_fd ev = of_nat (detail_at ev 0 8)"
definition fs_bytes :: "sotguard_event \<Rightarrow> u64" where "fs_bytes ev = of_nat (detail_at ev 8 8)"
definition fs_path :: "sotguard_event \<Rightarrow> u8 list" where
  "fs_path ev = takeWhile (\<lambda>b. b \<noteq> 0) (take 64 (drop 16 (ev_detail ev)))"
definition net_ip_be :: "sotguard_event \<Rightarrow> u32" where "net_ip_be ev = of_nat (detail_at ev 0 4)"
definition net_port_be :: "sotguard_event \<Rightarrow> u16" where "net_port_be ev = of_nat (detail_at ev 4 2)"
definition net_len :: "sotguard_event \<Rightarrow> u64" where "net_len ev = of_nat (detail_at ev 8 8)"
definition fault_syscall_nr :: "sotguard_event \<Rightarrow> u32" where "fault_syscall_nr ev = of_nat (detail_at ev 0 4)"
definition fault_rip :: "sotguard_event \<Rightarrow> u64" where "fault_rip ev = of_nat (detail_at ev 8 8)"
definition curvature_rule_kind :: "sotguard_event \<Rightarrow> u32" where "curvature_rule_kind ev = of_nat (detail_at ev 0 4)"
definition curvature_severity :: "sotguard_event \<Rightarrow> u32" where "curvature_severity ev = of_nat (detail_at ev 4 4)"
definition dns_ip_be :: "sotguard_event \<Rightarrow> u32" where "dns_ip_be ev = of_nat (detail_at ev 64 4)"


subsection \<open>The event bus\<close>

text \<open>
  \<open>bus_wal\<close> collects the records handed to \<^verbatim>\<open>sotfs_wal_log_anomaly_ev\<close>, in order.
\<close>

record wal_anomaly_ev =
  wa_timestamp :: u64
  wa_pid :: u32
  wa_kind :: u16
  wa_arg0 :: u32
  wa_arg1 :: u32

record sotguard_bus =
  g_ring :: "sotguard_event arr"
  g_head :: nat
  g_total :: u64
  g_wal_attached :: bool
  bus_wal :: "wal_anomaly_ev list"

definition sg_zero_event :: sotguard_event where
  "sg_zero_event = \<lparr>ev_pid = 0, ev_type = 0, ev_conn_id = 0, ev_timestamp = 0, ev_detail = replicate 80 0\<rparr>"

definition sotguard_event_init :: "sotguard_bus \<Rightarrow> sotguard_bus" where
  "sotguard_event_init b = b \<lparr>g_ring := (\<lambda>i. if i < SOTGUARD_RING_CAPACITY then sg_zero_event else g_ring b i),
     g_head := 0, g_total := 0\<rparr>"

definition wal_args :: "sotguard_event \<Rightarrow> u32 \<times> u32" where
  "wal_args ev =
     (if ev_type ev = SG_EV_FS_READ \<or> ev_type ev = SG_EV_FS_WRITE \<or> ev_type ev = SG_EV_FS_OPEN
      then (ucast (fs_fd ev), ucast (fs_bytes ev))
      else if ev_type ev = SG_EV_NET_CONNECT \<or> ev_type ev = SG_EV_NET_SEND \<or> ev_type ev = SG_EV_NET_RECV
      then (net_ip_be ev, push_bit 16 (ucast (net_port_be ev)) OR ucast (net_len ev))
      else if ev_type ev = SG_EV_DNS_LOOKUP then (dns_ip_be ev, 0)
      else if ev_type ev = SG_EV_FAULT_SYSCALL then (fault_syscall_nr ev, ucast (fault_rip ev))
      else if ev_type ev = SG_EV_GRAPH_CURVATURE_RANSOM \<or> ev_type ev = SG_EV_GRAPH_CURVATURE_LATERAL
      then (curvature_rule_kind ev, curvature_severity ev)
      else (0, 0))"

definition sotguard_emit :: "sotguard_event option \<Rightarrow> sotguard_bus \<Rightarrow> int \<times> sotguard_bus" where
  "sotguard_emit evp b =
     (case evp of
        None \<Rightarrow> (- 1, b)
      | Some ev \<Rightarrow>
          if ev_type ev = SG_EV_NONE \<or> SOTGUARD_EMIT_MAX_KIND < ev_type ev then (- 1, b)
          else
            let b = b \<lparr>g_ring := (g_ring b) (g_head b := ev),
                       g_head := (g_head b + 1) mod SOTGUARD_RING_CAPACITY,
                       g_total := g_total b + 1\<rparr>
            in if g_wal_attached b then
                 (0, b \<lparr>bus_wal := bus_wal b @
                    [\<lparr>wa_timestamp = ev_timestamp ev, wa_pid = ev_pid ev, wa_kind = ev_type ev,
                      wa_arg0 = fst (wal_args ev), wa_arg1 = snd (wal_args ev)\<rparr>]\<rparr>)
               else (0, b))"

text \<open>The newest-first walk; \<open>out == NULL\<close> is the caller's error and not modelled.\<close>

fun recent_loop :: "sotguard_event arr \<Rightarrow> nat \<Rightarrow> nat \<Rightarrow> sotguard_event list" where
  "recent_loop ring idx 0 = []"
| "recent_loop ring idx (Suc n) =
     (let idx = (if idx = 0 then SOTGUARD_RING_CAPACITY - 1 else idx - 1)
      in ring idx # recent_loop ring idx n)"

definition sotguard_recent :: "sotguard_bus \<Rightarrow> nat \<Rightarrow> sotguard_event list" where
  "sotguard_recent b want =
     (let valid = (if g_total b < of_nat SOTGUARD_RING_CAPACITY then unat (g_total b) else SOTGUARD_RING_CAPACITY)
      in recent_loop (g_ring b) (g_head b) (if want > valid then valid else want))"

definition sotguard_total_emitted :: "sotguard_bus \<Rightarrow> u64" where
  "sotguard_total_emitted b = g_total b"


subsection \<open>The policy engine\<close>

definition SOTGUARD_MAX_TRACKED_PIDS :: nat where [limits]: "SOTGUARD_MAX_TRACKED_PIDS = 16"
definition SG_BURST_WINDOW_NS :: u64 where [limits]: "SG_BURST_WINDOW_NS = 1000000"
definition SG_BURST_THRESHOLD :: u32 where [limits]: "SG_BURST_THRESHOLD = 10"
definition SG_RECON_THRESHOLD :: u32 where [limits]: "SG_RECON_THRESHOLD = 3"
definition SG_CANARY_READ_THRESHOLD :: u32 where [limits]: "SG_CANARY_READ_THRESHOLD = 2"
definition SG_RECON_INCREMENT :: u32 where [limits]: "SG_RECON_INCREMENT = 5"

record sotguard_pid_ctx =
  c_pid :: u32
  recon_score :: u32
  burst_writes :: u32
  last_write_ts :: u64
  canary_reads :: u32
  c_in_use :: bool

datatype sotguard_rule_id = SG_RULE_NONE | SG_RULE_RECON_EXFIL | SG_RULE_BURST_WRITES | SG_RULE_CANARY_TRIPPED

record sotguard_rule_result =
  r_rule :: sotguard_rule_id
  r_pid :: u32
  r_target_tier :: u8
  r_reason :: string

text \<open>\<^verbatim>\<open>while (needle[j] != '\0' && hay[i + j] == needle[j]) j++;\<close> reaches the end of the needle.\<close>

fun sg_match_at :: "u8 list \<Rightarrow> u8 list \<Rightarrow> bool" where
  "sg_match_at hay [] = True"
| "sg_match_at [] (n # ns) = False"
| "sg_match_at (h # hs) (n # ns) = (h = n \<and> sg_match_at hs ns)"

fun sg_scan :: "u8 list \<Rightarrow> u8 list \<Rightarrow> bool" where
  "sg_scan [] needle = False"
| "sg_scan (h # hs) needle = (sg_match_at (h # hs) needle \<or> sg_scan hs needle)"

definition sg_contains :: "u8 list \<Rightarrow> u8 list \<Rightarrow> bool" where
  "sg_contains hay needle = (if needle = [] then True else sg_scan hay needle)"

definition sg_strcpy_bounded :: "string \<Rightarrow> nat \<Rightarrow> string" where
  "sg_strcpy_bounded src cap = cstr_copy cap src"

definition free_ctx :: sotguard_pid_ctx where
  "free_ctx = \<lparr>c_pid = 0, recon_score = 0, burst_writes = 0, last_write_ts = 0, canary_reads = 0, c_in_use = False\<rparr>"

definition sotguard_engine_init :: "sotguard_pid_ctx arr \<Rightarrow> sotguard_pid_ctx arr" where
  "sotguard_engine_init cs = (\<lambda>i. if i < SOTGUARD_MAX_TRACKED_PIDS then free_ctx else cs i)"

definition get_or_alloc_ctx :: "sotguard_pid_ctx arr \<Rightarrow> u32 \<Rightarrow> (nat \<times> sotguard_pid_ctx arr) option" where
  "get_or_alloc_ctx cs pid =
     (if pid = 0 then None
      else case first_idx (\<lambda>i. c_in_use (cs i) \<and> c_pid (cs i) = pid) 0 SOTGUARD_MAX_TRACKED_PIDS of
             Some i \<Rightarrow> Some (i, cs)
           | None \<Rightarrow>
               (case first_idx (\<lambda>i. \<not> c_in_use (cs i)) 0 SOTGUARD_MAX_TRACKED_PIDS of
                  Some i \<Rightarrow> Some (i, cs (i := free_ctx \<lparr>c_pid := pid, c_in_use := True\<rparr>))
                | None \<Rightarrow> None))"

definition sotguard_engine_reset_pid :: "sotguard_pid_ctx arr \<Rightarrow> u32 \<Rightarrow> sotguard_pid_ctx arr" where
  "sotguard_engine_reset_pid cs pid =
     (if pid = 0 then cs
      else case first_idx (\<lambda>i. c_in_use (cs i) \<and> c_pid (cs i) = pid) 0 SOTGUARD_MAX_TRACKED_PIDS of
             Some i \<Rightarrow> cs (i := free_ctx)
           | None \<Rightarrow> cs)"

definition path_is_sensitive :: "u8 list \<Rightarrow> bool" where
  "path_is_sensitive p \<longleftrightarrow>
     sg_contains p (map of_char ''/etc/passwd'') \<or> sg_contains p (map of_char ''/proc/self/maps'')"

definition fill_verdict :: "sotguard_rule_id \<Rightarrow> u32 \<Rightarrow> u8 \<Rightarrow> string \<Rightarrow> sotguard_rule_result" where
  "fill_verdict rule pid target_tier reason =
     \<lparr>r_rule = rule, r_pid = pid, r_target_tier = target_tier, r_reason = sg_strcpy_bounded reason 32\<rparr>"

text \<open>The switch over the event type, on the context found for the process.\<close>

definition eval_ctx :: "sotguard_event \<Rightarrow> sotguard_pid_ctx \<Rightarrow> sotguard_pid_ctx \<times> sotguard_rule_result option" where
  "eval_ctx ev ctx =
     (if ev_type ev = SG_EV_FS_READ then
        (if path_is_sensitive (fs_path ev) then ctx \<lparr>recon_score := recon_score ctx + SG_RECON_INCREMENT\<rparr> else ctx, None)
      else if ev_type ev = SG_EV_CANARY_READ then
        let ctx = (if canary_reads ctx < - 1 then ctx \<lparr>canary_reads := canary_reads ctx + 1\<rparr> else ctx)
        in (ctx, if canary_reads ctx \<ge> SG_CANARY_READ_THRESHOLD
                 then Some (fill_verdict SG_RULE_CANARY_TRIPPED (c_pid ctx) 2 ''canary-tripped'') else None)
      else if ev_type ev = SG_EV_NET_CONNECT then
        let first_octet = (ucast (net_ip_be ev AND 0xFF) :: u8); non_local = (first_octet \<noteq> 127)
        in (ctx, if non_local \<and> recon_score ctx > SG_RECON_THRESHOLD
                 then Some (fill_verdict SG_RULE_RECON_EXFIL (c_pid ctx) 2 ''recon-then-exfil'') else None)
      else if ev_type ev = SG_EV_FS_WRITE then
        let now = ev_timestamp ev;
            ctx = (if last_write_ts ctx \<noteq> 0 \<and> now - last_write_ts ctx < SG_BURST_WINDOW_NS
                   then (if burst_writes ctx < - 1 then ctx \<lparr>burst_writes := burst_writes ctx + 1\<rparr> else ctx)
                   else ctx \<lparr>burst_writes := 1\<rparr>);
            ctx = ctx \<lparr>last_write_ts := now\<rparr>
        in (ctx, if burst_writes ctx > SG_BURST_THRESHOLD
                 then Some (fill_verdict SG_RULE_BURST_WRITES (c_pid ctx) 1 ''burst-writes'') else None)
      else (ctx, None))"

definition sotguard_engine_eval ::
    "sotguard_pid_ctx arr \<Rightarrow> sotguard_event \<Rightarrow> sotguard_rule_result option \<times> sotguard_pid_ctx arr" where
  "sotguard_engine_eval cs ev =
     (case get_or_alloc_ctx cs (ev_pid ev) of
        None \<Rightarrow> (None, cs)
      | Some (i, cs) \<Rightarrow> (let (ctx, v) = eval_ctx ev (cs i) in (v, cs (i := ctx))))"


subsection \<open>The pump\<close>

definition SG_PUMP_POLL_WINDOW :: nat where [limits]: "SG_PUMP_POLL_WINDOW = 16"

definition sotguard_pump_init :: "sotguard_pid_ctx arr \<Rightarrow> sotguard_pid_ctx arr" where
  "sotguard_pump_init cs = sotguard_engine_init cs"

fun eval_all :: "sotguard_event list \<Rightarrow> sotguard_pid_ctx arr \<Rightarrow> sotguard_rule_result list \<times> sotguard_pid_ctx arr" where
  "eval_all [] cs = ([], cs)"
| "eval_all (ev # evs) cs =
     (let (v, cs) = sotguard_engine_eval cs ev; (vs, cs) = eval_all evs cs
      in ((case v of None \<Rightarrow> vs | Some r \<Rightarrow> r # vs), cs))"

definition sotguard_pump_tick ::
    "sotguard_bus \<Rightarrow> sotguard_pid_ctx arr \<Rightarrow> sotguard_rule_result list \<times> sotguard_pid_ctx arr" where
  "sotguard_pump_tick b cs = eval_all (sotguard_recent b SG_PUMP_POLL_WINDOW) cs"

lemmas [ops] = sotguard_event_init_def sotguard_emit_def sotguard_recent_def get_or_alloc_ctx_def
  sotguard_engine_reset_pid_def eval_ctx_def sotguard_engine_eval_def sotguard_pump_tick_def

end
