(* ===== verification/LucasGate.thy ===== *)
theory LucasGate
  imports Pledge Unveil Anomaly SotGuard
begin

text \<open>
  The containment of a sandbox in LUCAS: trust tiers and their functors (\<^verbatim>\<open>src/lucas/functor.c\<close>),
  the emitters that report to the anomaly server and apply the tier of its reply
  (\<^verbatim>\<open>src/lucas/anomaly.c\<close>, \<^verbatim>\<open>src/sotnet/tcp_audit.c\<close>, the curvature hook of
  \<^verbatim>\<open>src/lucas/backends_sotfs.c\<close>), the pledge system call and the pledge gate in front of every
  system call (\<^verbatim>\<open>lucas_dispatch_call\<close> of \<^verbatim>\<open>src/lucas/dispatch.c\<close>).

  \<open>lucas_state\<close> has the fields of the sandbox these parts read or write. \<open>world\<close> is what they
  share: the sotGuard bus with the counters of its producers, the anomaly server behind its end
  point (\<open>None\<close> when the end point is 0), and the messages that leave the model (trace records of
  tier changes and tier requests to procd), in order.
\<close>


subsection \<open>Functors and tiers\<close>

definition FUNCTOR_TIER_EGRESS :: int where [limits]: "FUNCTOR_TIER_EGRESS = 3"
definition SOTBOX_MAX_SLOTS :: int where [limits]: "SOTBOX_MAX_SLOTS = 8"

record lucas_functor =
  fn_name :: string
  fn_tier :: int
  fn_writes_silenced :: bool
  fn_is_isolated :: bool
  fn_is_egress :: bool

definition LUCAS_F_0 :: lucas_functor where
  "LUCAS_F_0 = \<lparr>fn_name = ''F_0'', fn_tier = 0, fn_writes_silenced = False, fn_is_isolated = False, fn_is_egress = False\<rparr>"
definition LUCAS_F_1 :: lucas_functor where
  "LUCAS_F_1 = \<lparr>fn_name = ''F_1'', fn_tier = 1, fn_writes_silenced = True, fn_is_isolated = False, fn_is_egress = False\<rparr>"
definition LUCAS_F_2 :: lucas_functor where
  "LUCAS_F_2 = \<lparr>fn_name = ''F_2'', fn_tier = 2, fn_writes_silenced = False, fn_is_isolated = True, fn_is_egress = False\<rparr>"
definition LUCAS_F_0E :: lucas_functor where
  "LUCAS_F_0E = \<lparr>fn_name = ''F_0e'', fn_tier = FUNCTOR_TIER_EGRESS, fn_writes_silenced = False, fn_is_isolated = False,
     fn_is_egress = True\<rparr>"

definition lucas_functor_for_tier :: "int \<Rightarrow> lucas_functor" where
  "lucas_functor_for_tier t =
     (if t = 0 then LUCAS_F_0 else if t = 1 then LUCAS_F_1 else if t = 2 then LUCAS_F_2
      else if t = FUNCTOR_TIER_EGRESS then LUCAS_F_0E else LUCAS_F_0)"

record lucas_state =
  synthetic_pid :: int
  slot_index :: int
  procd_slot :: u32
  tier :: int
  trusted :: bool
  st_functor :: "lucas_functor option"
  write_count :: u32
  anomaly_triggers :: u32
  curvature_alerts :: u32
  st_pledge :: pledge_mask
  pledge_violations :: u32
  st_unveil :: lucas_unveil_state

record world =
  w_bus :: sotguard_bus
  w_anomaly_monotonic :: u64
  w_pledge_seq :: u64
  w_tcp_open_ts :: u64
  w_curvature_monotonic :: u64
  w_anomaly :: "anomaly option"
  w_tier_trace :: "(int \<times> u32 \<times> u32 \<times> u32) list"
  w_procd_set_tier :: "(u32 \<times> u32) list"
  w_current_caller :: "int option"

definition lucas_set_tier :: "int \<Rightarrow> lucas_state \<times> world \<Rightarrow> lucas_state \<times> world" where
  "lucas_set_tier t sw =
     (let (st, w) = sw
      in if trusted st \<and> t > 0 then (st, w)
         else
           let prev = st_functor st;
               st = st \<lparr>tier := t, st_functor := Some (lucas_functor_for_tier t)\<rparr>;
               w = (if prev \<noteq> st_functor st
                    then w \<lparr>w_tier_trace := w_tier_trace w @
                           [(slot_index st, of_int (synthetic_pid st),
                             of_int (case prev of None \<Rightarrow> 0 | Some f \<Rightarrow> fn_tier f), of_int t)]\<rparr>
                    else w);
               w = (if procd_slot st \<noteq> 0 then w \<lparr>w_procd_set_tier := w_procd_set_tier w @ [(procd_slot st, of_int t)]\<rparr> else w)
           in (st, w))"


subsection \<open>Reporting to the anomaly server\<close>

text \<open>
  A synchronous call on the anomaly end point: the message registers in order, and the registers of
  the reply. The caller has checked that the end point exists.
\<close>

definition msg_regs :: "u64 list \<Rightarrow> nat \<Rightarrow> u64" where
  "msg_regs mrs i = (if i < length mrs then mrs ! i else 0)"

definition anomaly_call :: "u64 list \<Rightarrow> world \<Rightarrow> u64 list \<times> world" where
  "anomaly_call mrs w =
     (case w_anomaly w of
        None \<Rightarrow> ([], w)
      | Some s \<Rightarrow>
          let (r, s) = anomaly_serve ORCH_OP_ANOMALY_EVENT (msg_regs mrs) s
          in (r, w \<lparr>w_anomaly := Some s\<rparr>))"

definition reply_tier :: "u64 list \<Rightarrow> int" where
  "reply_tier r = (case r of [] \<Rightarrow> 0 | m # _ \<Rightarrow> sint (ucast m :: u32))"

definition anomaly_forward_sync :: "lucas_state \<Rightarrow> int \<Rightarrow> u64 \<Rightarrow> world \<Rightarrow> int \<times> world" where
  "anomaly_forward_sync st kind magnitude w =
     (if w_anomaly w = None \<or> synthetic_pid st < 1 then (- 1, w)
      else
        let (r, w) = anomaly_call [of_int (synthetic_pid st), of_int kind, magnitude, ucast (write_count st), ucast (procd_slot st)] w
        in (reply_tier r, w))"

definition anomaly_apply_reply_tier :: "int \<Rightarrow> lucas_state \<times> world \<Rightarrow> lucas_state \<times> world" where
  "anomaly_apply_reply_tier target sw =
     (if target > tier (fst sw)
      then lucas_set_tier target ((fst sw) \<lparr>anomaly_triggers := anomaly_triggers (fst sw) + 1\<rparr>, snd sw)
      else sw)"

definition sg_event :: "lucas_state \<Rightarrow> u16 \<Rightarrow> u64 \<Rightarrow> u8 list \<Rightarrow> sotguard_event" where
  "sg_event st type ts detail =
     \<lparr>ev_pid = of_int (synthetic_pid st), ev_type = type, ev_conn_id = 0, ev_timestamp = ts,
      ev_detail = detail @ replicate (80 - length detail) 0\<rparr>"

definition emit_event :: "sotguard_event \<Rightarrow> world \<Rightarrow> world" where
  "emit_event ev w = w \<lparr>w_bus := snd (sotguard_emit (Some ev) (w_bus w))\<rparr>"

definition anomaly_on_write :: "u64 \<Rightarrow> u64 \<Rightarrow> lucas_state \<times> world \<Rightarrow> lucas_state \<times> world" where
  "anomaly_on_write fd bytes sw =
     (let (st, w) = sw
      in if fd = 1 \<or> fd = 2 then (st, w)
         else
           let st = st \<lparr>write_count := write_count st + 1\<rparr>;
               w = w \<lparr>w_anomaly_monotonic := w_anomaly_monotonic w + 1\<rparr>;
               w = emit_event (sg_event st SG_EV_FS_WRITE (w_anomaly_monotonic w) (le_bytes 8 (unat fd) @ le_bytes 8 (unat bytes))) w
           in if trusted st then (st, w)
              else
                let (target, w) = anomaly_forward_sync st ANOMALY_EV_WRITE bytes w
                in if target > 0 then anomaly_apply_reply_tier target (st, w) else (st, w))"

text \<open>
  The block that the unlink, credential and exec paths share: forward the event, apply the reply.
\<close>

definition report_sync :: "int \<Rightarrow> u64 \<Rightarrow> lucas_state \<times> world \<Rightarrow> lucas_state \<times> world" where
  "report_sync kind magnitude sw =
     (let (target, w) = anomaly_forward_sync (fst sw) kind magnitude (snd sw)
      in if target > 0 then anomaly_apply_reply_tier target (fst sw, w) else (fst sw, w))"

text \<open>The sandbox in slot \<open>pid - 1\<close> is the one of the state.\<close>

definition orch_anomaly_apply_promote :: "int \<Rightarrow> lucas_state \<times> world \<Rightarrow> lucas_state \<times> world" where
  "orch_anomaly_apply_promote target_tier sw =
     (let pid = synthetic_pid (fst sw)
      in if target_tier \<le> 0 \<or> pid < 1 \<or> pid > SOTBOX_MAX_SLOTS then sw else anomaly_apply_reply_tier target_tier sw)"

text \<open>A connection attributed to the sandbox (\<open>origin_pid\<close>) reaches the open state.\<close>

definition tcp_audit_open :: "u32 \<Rightarrow> u16 \<Rightarrow> u16 \<Rightarrow> lucas_state \<times> world \<Rightarrow> lucas_state \<times> world" where
  "tcp_audit_open remote_ip_be remote_port_be local_port_be sw =
     (let (st, w) = sw;
          ports_packed = (push_bit 16 (ucast remote_port_be) OR ucast local_port_be :: u32);
          (st, w) =
            (if w_anomaly w \<noteq> None then
               let (r, w) = anomaly_call [of_int (synthetic_pid st), of_int ANOMALY_EV_TCP_OPEN, ucast remote_ip_be, ucast ports_packed] w
               in if reply_tier r > 0 \<and> synthetic_pid st \<ge> 1 then orch_anomaly_apply_promote (reply_tier r) (st, w) else (st, w)
             else (st, w));
          w = w \<lparr>w_tcp_open_ts := w_tcp_open_ts w + 1\<rparr>
      in (st, emit_event (sg_event st SG_EV_NET_CONNECT (w_tcp_open_ts w)
                (le_bytes 4 (unat remote_ip_be) @ le_bytes 2 (unat remote_port_be))) w))"

definition sotfs_graph_curvature_anomaly_notify :: "int \<Rightarrow> int \<Rightarrow> lucas_state \<times> world \<Rightarrow> lucas_state \<times> world" where
  "sotfs_graph_curvature_anomaly_notify rule_kind severity sw =
     (let (st, w) = sw; pid = synthetic_pid st
      in if w_anomaly w = None then (st, w)
         else
           let st = (if pid \<noteq> 0 \<and> w_current_caller w = Some pid then st \<lparr>curvature_alerts := curvature_alerts st + 1\<rparr> else st);
               (r, w) = anomaly_call [of_int pid, of_int ANOMALY_EV_CURVATURE, of_int rule_kind, of_int severity] w;
               (st, w) = (if reply_tier r > 0 \<and> pid \<ge> 1 then orch_anomaly_apply_promote (reply_tier r) (st, w) else (st, w));
               w = w \<lparr>w_curvature_monotonic := w_curvature_monotonic w + 1\<rparr>
           in (st, emit_event (sg_event st (if rule_kind = 1 then SG_EV_GRAPH_CURVATURE_RANSOM else SG_EV_GRAPH_CURVATURE_LATERAL)
                     (w_curvature_monotonic w)
                     (le_bytes 4 (unat (of_int rule_kind :: u32)) @ le_bytes 4 (unat (of_int severity :: u32)))) w))"


subsection \<open>The pledge system call and the gate\<close>

definition lucas_sys_pledge :: "client_mem \<Rightarrow> u64 \<Rightarrow> lucas_state \<Rightarrow> int \<times> lucas_state" where
  "lucas_sys_pledge mem promise_vaddr st =
     (if promise_vaddr = 0 then (0, st)
      else case lucas_copy_cstr_from_client mem promise_vaddr 64 of
        None \<Rightarrow> (- LX_EFAULT, st)
      | Some promise_buf \<Rightarrow>
          let requested = pledge_parse (Some promise_buf)
          in if requested = 0 then (- LX_EINVAL, st)
             else
               let current = st_pledge st; is_first_call = (current = PLEDGE_ALL)
               in if \<not> is_first_call \<and> requested AND NOT current \<noteq> 0 then (- LX_EPERM, st)
                  else (0, st \<lparr>st_pledge := (if is_first_call then requested else current AND requested)\<rparr>))"

text \<open>
  The handlers of the other system calls are the parameter \<open>H\<close>: given the number and the
  arguments, they transform the state and return a value.
\<close>

type_synonym handler = "(nat \<Rightarrow> u64) \<Rightarrow> lucas_state \<times> world \<Rightarrow> int \<times> (lucas_state \<times> world)"

definition lucas_dispatch :: "(u64 \<Rightarrow> handler) \<Rightarrow> client_mem \<Rightarrow> u64 \<Rightarrow> handler" where
  "lucas_dispatch H mem sysno =
     (if sysno = LX_SYS_pledge then
        (\<lambda>a sw. let (r, st) = lucas_sys_pledge mem (a 0) (fst sw) in (r, (st, snd sw)))
      else if sysno = LX_SYS_unveil then
        (\<lambda>a sw. let (r, uv) = lucas_sys_unveil mem (st_unveil (fst sw)) (a 0) (a 1)
                in (r, ((fst sw) \<lparr>st_unveil := uv\<rparr>, snd sw)))
      else H sysno)"

text \<open>The block of the gate for a call outside of the mask.\<close>

definition pledge_violation :: "u64 \<Rightarrow> lucas_state \<times> world \<Rightarrow> lucas_state \<times> world" where
  "pledge_violation sysno sw =
     (let (st, w) = sw;
          st = st \<lparr>pledge_violations := pledge_violations st + 1\<rparr>;
          (st, w) = lucas_set_tier 1 (st, w);
          (st, w) = (if tier st = 1 \<and> pledge_violations st \<ge> 3 then lucas_set_tier 2 (st, w) else (st, w));
          w = (if w_anomaly w \<noteq> None
               then snd (anomaly_call [of_int (synthetic_pid st), of_int ANOMALY_EV_PLEDGE_VIOLATION, sysno] w) else w);
          w = w \<lparr>w_pledge_seq := w_pledge_seq w + 1\<rparr>
      in (st, emit_event (sg_event st SG_EV_PLEDGE_VIOL (w_pledge_seq w) (le_bytes 4 (unat (ucast sysno :: u32)))) w))"

definition lucas_dispatch_call :: "(u64 \<Rightarrow> handler) \<Rightarrow> client_mem \<Rightarrow> u64 \<Rightarrow> (nat \<Rightarrow> u64) \<Rightarrow> lucas_state \<times> world \<Rightarrow> int \<times> (lucas_state \<times> world)" where
  "lucas_dispatch_call H mem sysno a sw =
     (let cat = pledge_check_args sysno a
      in if st_pledge (fst sw) \<noteq> PLEDGE_ALL \<and> cat \<noteq> 0 \<and> st_pledge (fst sw) AND cat = 0
         then (0, pledge_violation sysno sw)
         else
           let (r, (st, w)) = lucas_dispatch H mem sysno a
                 (fst sw, (snd sw) \<lparr>w_current_caller := Some (synthetic_pid (fst sw))\<rparr>)
           in (r, (st, w \<lparr>w_current_caller := None\<rparr>)))"

end
