(* ===== verification/AnomalyOk.thy ===== *)
theory AnomalyOk
  imports Anomaly
begin

text \<open>
  The score of the anomaly server against its specification on the history of a process: a total
  of points per event, the tier as a threshold of the total, processes independent of each other,
  and what the watermark of the write count does to a process that has not written yet.
\<close>


subsection \<open>Messages and runs\<close>

definition msg_pid :: "(nat \<Rightarrow> u64) \<Rightarrow> int" where "msg_pid mr = sint (ucast (mr 0) :: u32)"
definition msg_kind :: "(nat \<Rightarrow> u64) \<Rightarrow> int" where "msg_kind mr = sint (ucast (mr 1) :: u32)"
definition msg_cred :: "(nat \<Rightarrow> u64) \<Rightarrow> bool" where "msg_cred mr \<longleftrightarrow> (ucast (mr 2) :: u32) AND 1 \<noteq> 0"
definition msg_count :: "(nat \<Rightarrow> u64) \<Rightarrow> u32" where "msg_count mr = ucast (mr 3)"

definition sync_kind :: "int \<Rightarrow> bool" where
  "sync_kind k \<longleftrightarrow> k = ANOMALY_EV_WRITE \<or> k = ANOMALY_EV_UNLINK \<or> k = ANOMALY_EV_CRED_ACCESS \<or> k = ANOMALY_EV_EXEC"

fun anomaly_run :: "(nat \<Rightarrow> u64) list \<Rightarrow> anomaly \<Rightarrow> u64 list list \<times> anomaly" where
  "anomaly_run [] s = ([], s)"
| "anomaly_run (m # ms) s =
     (let (r, s) = anomaly_serve ORCH_OP_ANOMALY_EVENT m s; (rs, s) = anomaly_run ms s in (r # rs, s))"

text \<open>The replies to the messages of process \<open>p\<close>.\<close>

definition answers :: "int \<Rightarrow> (nat \<Rightarrow> u64) list \<Rightarrow> u64 list list \<Rightarrow> u64 list list" where
  "answers p ms rs = map snd (filter (\<lambda>(m, r). msg_pid m = p) (zip ms rs))"


subsection \<open>Points\<close>

text \<open>Histories are newest first; an entry is the kind of the event and whether it hit a credential.\<close>

type_synonym history = "(int \<times> bool) list"

definition quiet :: "history \<Rightarrow> nat" where
  "quiet h = length (takeWhile (\<lambda>e. fst e \<noteq> ANOMALY_EV_UNLINK) h)"

fun unlink_chain :: "history \<Rightarrow> nat" where
  "unlink_chain [] = 0"
| "unlink_chain (e # h) =
     (if fst e = ANOMALY_EV_UNLINK then (if 8 < quiet h then 1 else Suc (unlink_chain h)) else unlink_chain h)"

definition event_points :: "int \<times> bool \<Rightarrow> history \<Rightarrow> nat" where
  "event_points e h =
     (if fst e = ANOMALY_EV_WRITE then 1
      else if fst e = ANOMALY_EV_EXEC then 8
      else if fst e = ANOMALY_EV_CRED_ACCESS then 15
      else min 12 (2 * unlink_chain (e # h)) + (if snd e then 2 else 0))"

fun points :: "history \<Rightarrow> nat" where
  "points [] = 0"
| "points (e # h) = event_points e h + points h"

definition tier_of :: "nat \<Rightarrow> nat" where
  "tier_of n = (if 40 \<le> n then 2 else if 20 \<le> n then 1 else 0)"

definition history_of :: "int \<Rightarrow> (nat \<Rightarrow> u64) list \<Rightarrow> history" where
  "history_of p ms = rev (map (\<lambda>m. (msg_kind m, msg_cred m)) (filter (\<lambda>m. msg_pid m = p) ms))"

lemma unlink_chain_pos: "fst e = ANOMALY_EV_UNLINK \<Longrightarrow> 0 < unlink_chain (e # h)"
  by simp

lemma event_points_ge: "fst e = ANOMALY_EV_UNLINK \<Longrightarrow> 2 \<le> event_points e h"
  by (simp add: event_points_def anomaly_kinds)

lemma event_points_pos: "sync_kind (fst e) \<Longrightarrow> 1 \<le> event_points e h"
  using event_points_ge [of e h] by (auto simp: event_points_def sync_kind_def)

lemma quiet_le: "\<forall>e\<in>set h. sync_kind (fst e) \<Longrightarrow> quiet h \<le> points h"
proof -
  assume "\<forall>e\<in>set h. sync_kind (fst e)"
  then have "length h \<le> points h"
  proof (induction h)
    case (Cons e h)
    then show ?case using event_points_pos [of e h] by simp
  qed simp
  moreover have "quiet h \<le> length h" by (simp add: quiet_def length_takeWhile_le)
  ultimately show ?thesis by simp
qed

lemma unlink_chain_le: "2 * unlink_chain h \<le> points h"
proof (induction h)
  case (Cons e h)
  then show ?case using event_points_ge [of e h] by auto
qed simp

lemma quiet_Cons: "quiet (e # h) = (if fst e = ANOMALY_EV_UNLINK then 0 else Suc (quiet h))"
  by (simp add: quiet_def)

lemma tier_of_mono: "m \<le> n \<Longrightarrow> tier_of m \<le> tier_of n"
  by (simp add: tier_of_def)

lemma tier_of_le: "tier_of n \<le> 2"
  by (simp add: tier_of_def)


subsection \<open>The server slot that stands for a history\<close>

definition scores :: "anomaly \<Rightarrow> nat \<Rightarrow> history \<Rightarrow> bool" where
  "scores s i h \<longleftrightarrow> points h < 2 ^ 32 \<and> (\<forall>e\<in>set h. sync_kind (fst e)) \<and>
     an_score s i = of_nat (points h) \<and> an_applied_tier s i = of_nat (tier_of (points h)) \<and>
     an_unlink_run s i = of_nat (unlink_chain h) \<and> an_events_since_unlink s i = of_nat (quiet h)"

lemma fresh_tenant_same:
  "lucas_count \<noteq> 0 \<Longrightarrow> an_write_counts s i \<le> lucas_count \<Longrightarrow>
     fresh_tenant s i lucas_count = s \<lparr>an_write_counts := (an_write_counts s) (i := lucas_count)\<rparr>"
  by (simp add: fresh_tenant_def Let_def)

lemma u32_of_nat_le: "m < 2 ^ 32 \<Longrightarrow> n < 2 ^ 32 \<Longrightarrow> (of_nat m :: u32) \<le> of_nat n \<longleftrightarrow> m \<le> n"
  by (simp add: word_le_nat_alt unat_of_nat)

lemma u32_of_nat_less: "m < 2 ^ 32 \<Longrightarrow> n < 2 ^ 32 \<Longrightarrow> (of_nat m :: u32) < of_nat n \<longleftrightarrow> m < n"
  by (simp add: word_less_nat_alt unat_of_nat)

lemma score_fold_points:
  assumes p: "1 \<le> p" "p < 16" and sc: "an_score s (nat p) = of_nat n" and t: "an_applied_tier s (nat p) = of_nat (tier_of n)"
    and w: "anomaly_weight kind + bonus = of_nat d" and b: "n + d < 2 ^ 32"
  defines "r \<equiv> anomaly_score_fold s p kind bonus"
  shows "fst r = (if tier_of n < tier_of (n + d) then int (tier_of (n + d)) else 0)"
    and "snd r = s \<lparr>an_score := (an_score s) (nat p := of_nat (n + d)),
                    an_applied_tier := (an_applied_tier s) (nat p := of_nat (tier_of (n + d)))\<rparr>"
proof -
  have sum: "an_score s (nat p) + (anomaly_weight kind + bonus) = of_nat (n + d)" by (simp add: sc w)
  have thr: "ANOMALY_T2_THRESHOLD \<le> of_nat (n + d) \<longleftrightarrow> 40 \<le> n + d" "ANOMALY_T1_THRESHOLD \<le> of_nat (n + d) \<longleftrightarrow> 20 \<le> n + d"
    using b u32_of_nat_le [of 40 "n + d"] u32_of_nat_le [of 20 "n + d"]
    by (simp_all add: ANOMALY_T2_THRESHOLD_def ANOMALY_T1_THRESHOLD_def del: of_nat_add)
  have "uint (of_nat (tier_of n) :: u8) = int (tier_of n)"
    using tier_of_le [of n] by (simp add: tier_of_def)
  then have u: "uint (an_applied_tier s (nat p)) = int (tier_of n)" by (simp add: t)
  define s1 where "s1 = s \<lparr>an_score := (an_score s) (nat p := of_nat (n + d))\<rparr>"
  have "r = (if int (tier_of n) < int (tier_of (n + d))
      then (int (tier_of (n + d)), s1 \<lparr>an_applied_tier := (an_applied_tier s1) (nat p := of_int (int (tier_of (n + d))))\<rparr>)
      else (0, s1))"
    using p unfolding r_def anomaly_score_fold_def Let_def sum s1_def [symmetric]
    by (simp add: s1_def thr u tier_of_def [of "n + d"] del: of_nat_add)
  then have r: "r = (if tier_of n < tier_of (n + d)
      then (int (tier_of (n + d)), s1 \<lparr>an_applied_tier := (an_applied_tier s) (nat p := of_nat (tier_of (n + d)))\<rparr>)
      else (0, s1))"
    by (simp add: s1_def)
  show "fst r = (if tier_of n < tier_of (n + d) then int (tier_of (n + d)) else 0)"
    by (simp add: r)
  have "(an_applied_tier s) (nat p := of_nat (tier_of (n + d))) = an_applied_tier s" if "\<not> tier_of n < tier_of (n + d)"
  proof -
    have "tier_of (n + d) = tier_of n" using that tier_of_mono [of n "n + d"] by simp
    then show ?thesis by (simp only: t fun_upd_idem)
  qed
  then show "snd r = s \<lparr>an_score := (an_score s) (nat p := of_nat (n + d)),
                    an_applied_tier := (an_applied_tier s) (nat p := of_nat (tier_of (n + d)))\<rparr>"
    by (simp add: r s1_def)
qed

lemma unlink_burst_points:
  fixes h :: history and c :: bool
  defines "n \<equiv> unlink_chain ((ANOMALY_EV_UNLINK, c) # h)"
  assumes r: "an_unlink_run s i = of_nat (unlink_chain h)" and q: "an_events_since_unlink s i = of_nat (quiet h)"
    and c: "c \<longleftrightarrow> (ucast mr2 :: u32) AND 1 \<noteq> 0" and b: "2 * n < 2 ^ 32" "quiet h < 2 ^ 32"
  shows "unlink_burst s i mr2 = (of_nat (min 12 (2 * n) - 2 + (if c then 2 else 0)),
    s \<lparr>an_unlink_run := (an_unlink_run s) (i := of_nat n), an_events_since_unlink := (an_events_since_unlink s) (i := 0)\<rparr>)"
proof -
  have "8 < an_events_since_unlink s i \<longleftrightarrow> 8 < quiet h"
    using u32_of_nat_less [of 8 "quiet h"] b(2) by (simp add: q)
  then have run: "(if 8 < an_events_since_unlink s i then 0 else an_unlink_run s i) + 1 = of_nat n"
    by (simp add: n_def r)
  have two: "2 * (of_nat n :: u32) = of_nat (2 * n)" by simp
  have gt: "(2 * 6 :: u32) < of_nat (2 * n) \<longleftrightarrow> 12 < 2 * n"
    using u32_of_nat_less [of 12 "2 * n"] b(1) by (simp del: of_nat_mult)
  have step: "(if (2 * 6 :: u32) < of_nat (2 * n) then 2 * 6 else of_nat (2 * n)) = of_nat (min 12 (2 * n))"
    unfolding gt by (simp add: min_def del: of_nat_mult)
  have n: "2 \<le> min 12 (2 * n)" by (simp add: n_def)
  have bonus: "(of_nat (min 12 (2 * n)) - 2 :: u32) = of_nat (min 12 (2 * n) - 2)"
    using n by (simp add: of_nat_diff del: of_nat_mult)
  show ?thesis
    unfolding unlink_burst_def Let_def run two step bonus using c by (simp del: of_nat_mult)
qed

lemma procd_set_tier_frame [simp]:
  "an_score (anomaly_procd_set_tier s slot t) = an_score s"
  "an_applied_tier (anomaly_procd_set_tier s slot t) = an_applied_tier s"
  "an_write_counts (anomaly_procd_set_tier s slot t) = an_write_counts s"
  "an_procd_slots (anomaly_procd_set_tier s slot t) = an_procd_slots s"
  "an_promoted (anomaly_procd_set_tier s slot t) = an_promoted s"
  "an_unlink_run (anomaly_procd_set_tier s slot t) = an_unlink_run s"
  "an_events_since_unlink (anomaly_procd_set_tier s slot t) = an_events_since_unlink s"
  "an_pid_bytes_out (anomaly_procd_set_tier s slot t) = an_pid_bytes_out s"
  "an_orch_ep (anomaly_procd_set_tier s slot t) = an_orch_ep s"
  by (simp_all add: anomaly_procd_set_tier_def)

text \<open>The event-specific part of a synchronous event, before the fold.\<close>

definition sync_bonus :: "anomaly \<Rightarrow> nat \<Rightarrow> int \<Rightarrow> u64 \<Rightarrow> u32 \<times> anomaly" where
  "sync_bonus s i kind mr2 =
     (if kind = ANOMALY_EV_UNLINK then unlink_burst s i mr2
      else (0, s \<lparr>an_events_since_unlink := (an_events_since_unlink s) (i := an_events_since_unlink s i + 1)\<rparr>))"

lemma sync_bonus_points:
  assumes sc: "scores s i h" and k: "sync_kind k" and c: "c \<longleftrightarrow> (ucast mr2 :: u32) AND 1 \<noteq> 0"
    and b: "points ((k, c) # h) < 2 ^ 32"
  shows "anomaly_weight k + fst (sync_bonus s i k mr2) = of_nat (event_points (k, c) h)"
    and "snd (sync_bonus s i k mr2) = s \<lparr>an_unlink_run := (an_unlink_run s) (i := of_nat (unlink_chain ((k, c) # h))),
           an_events_since_unlink := (an_events_since_unlink s) (i := of_nat (quiet ((k, c) # h)))\<rparr>"
proof -
  have f: "an_unlink_run s i = of_nat (unlink_chain h)" "an_events_since_unlink s i = of_nat (quiet h)"
    using sc by (simp_all add: scores_def)
  have q: "quiet h < 2 ^ 32" using sc quiet_le [of h] by (simp add: scores_def)
  have ch: "2 * unlink_chain ((k, c) # h) < 2 ^ 32" using unlink_chain_le [of "(k, c) # h"] b by simp
  show "anomaly_weight k + fst (sync_bonus s i k mr2) = of_nat (event_points (k, c) h)"
  proof (cases "k = ANOMALY_EV_UNLINK")
    case True
    have "2 \<le> min 12 (2 * unlink_chain ((k, c) # h))" using True by simp
    then obtain d where d: "min 12 (2 * unlink_chain ((k, c) # h)) = 2 + d" by (metis le_add_diff_inverse)
    have "event_points (k, c) h = 2 + d + (if c then 2 else 0)"
      using True d by (simp add: event_points_def anomaly_kinds del: unlink_chain.simps)
    moreover have "fst (sync_bonus s i k mr2) = of_nat (d + (if c then 2 else 0))"
      using unlink_burst_points [OF f c, unfolded True [symmetric], OF ch q] d True
      by (simp add: sync_bonus_def del: unlink_chain.simps)
    moreover have "anomaly_weight k = 2" using True by (simp add: anomaly_weight_def anomaly_kinds)
    ultimately show ?thesis by simp
  next
    case False
    with k show ?thesis
      by (auto simp: sync_bonus_def event_points_def anomaly_weight_def sync_kind_def anomaly_kinds)
  qed
  show "snd (sync_bonus s i k mr2) = s \<lparr>an_unlink_run := (an_unlink_run s) (i := of_nat (unlink_chain ((k, c) # h))),
           an_events_since_unlink := (an_events_since_unlink s) (i := of_nat (quiet ((k, c) # h)))\<rparr>"
  proof (cases "k = ANOMALY_EV_UNLINK")
    case True
    then show ?thesis
      using unlink_burst_points [OF f c, unfolded True [symmetric], OF ch q]
      by (simp add: sync_bonus_def quiet_Cons del: unlink_chain.simps)
  next
    case False
    then have "(an_unlink_run s) (i := of_nat (unlink_chain ((k, c) # h))) = an_unlink_run s"
      using f(1) by (simp add: fun_upd_idem)
    with False f(2) show ?thesis by (simp add: sync_bonus_def quiet_Cons add.commute)
  qed
qed

lemma handle_sync_points:
  assumes p: "1 \<le> p" "p < 16" and sc: "scores s (nat p) h" and k: "sync_kind k"
    and c: "c \<longleftrightarrow> (ucast mr2 :: u32) AND 1 \<noteq> 0" and b: "points ((k, c) # h) < 2 ^ 32"
    and cnt: "cnt \<noteq> 0" "an_write_counts s (nat p) \<le> cnt"
  shows "fst (anomaly_handle_sync s p k mr2 cnt slot) =
      (if tier_of (points h) < tier_of (points ((k, c) # h)) then int (tier_of (points ((k, c) # h))) else 0)"
    and "scores (snd (anomaly_handle_sync s p k mr2 cnt slot)) (nat p) ((k, c) # h)"
    and "an_write_counts (snd (anomaly_handle_sync s p k mr2 cnt slot)) (nat p) = cnt"
proof -
  let ?i = "nat p"
  define s1 where "s1 = (if slot \<noteq> 0 then s \<lparr>an_procd_slots := (an_procd_slots s) (?i := slot)\<rparr> else s)"
  define s2 where "s2 = s1 \<lparr>an_write_counts := (an_write_counts s1) (?i := cnt)\<rparr>"
  have wc: "an_write_counts s1 ?i \<le> cnt" using cnt(2) by (simp add: s1_def)
  have sc2: "scores s2 ?i h" using sc by (simp add: s2_def s1_def scores_def)
  define b2 where "b2 = sync_bonus s2 ?i k mr2"
  define f where "f = anomaly_score_fold (snd b2) p k (fst b2)"
  have w: "anomaly_weight k + fst b2 = of_nat (event_points (k, c) h)"
    and s3: "snd b2 = s2 \<lparr>an_unlink_run := (an_unlink_run s2) (?i := of_nat (unlink_chain ((k, c) # h))),
           an_events_since_unlink := (an_events_since_unlink s2) (?i := of_nat (quiet ((k, c) # h)))\<rparr>"
    unfolding b2_def by (rule sync_bonus_points [OF sc2 k c b])+
  have eq: "anomaly_handle_sync s p k mr2 cnt slot =
      (fst f, if fst f > 0 then anomaly_procd_set_tier (snd f) (an_procd_slots (snd f) ?i) (of_int (fst f)) else snd f)"
    using p k unfolding anomaly_handle_sync_def Let_def s1_def [symmetric] fresh_tenant_same [OF cnt(1) wc]
      s2_def [symmetric] f_def b2_def sync_bonus_def sync_kind_def by (auto simp: case_prod_beta)
  have n: "points h + event_points (k, c) h = points ((k, c) # h)" by simp
  have sc3: "an_score (snd b2) ?i = of_nat (points h)" "an_applied_tier (snd b2) ?i = of_nat (tier_of (points h))"
    using sc2 by (simp_all add: s3 scores_def)
  have fold: "fst f = (if tier_of (points h) < tier_of (points ((k, c) # h)) then int (tier_of (points ((k, c) # h))) else 0)"
      "snd f = snd b2 \<lparr>an_score := (an_score (snd b2)) (?i := of_nat (points ((k, c) # h))),
         an_applied_tier := (an_applied_tier (snd b2)) (?i := of_nat (tier_of (points ((k, c) # h))))\<rparr>"
    using score_fold_points [OF p sc3 w, unfolded n, OF b] unfolding f_def by blast+
  show "fst (anomaly_handle_sync s p k mr2 cnt slot) =
      (if tier_of (points h) < tier_of (points ((k, c) # h)) then int (tier_of (points ((k, c) # h))) else 0)"
    unfolding eq fold(1) by simp
  have "scores (snd f) ?i ((k, c) # h)"
    using sc2 k b unfolding scores_def fold(2) s3 by (simp del: points.simps unlink_chain.simps)
  then show "scores (snd (anomaly_handle_sync s p k mr2 cnt slot)) ?i ((k, c) # h)"
    unfolding eq scores_def by simp
  have "an_write_counts (snd f) ?i = cnt" unfolding fold(2) s3 s2_def by simp
  then show "an_write_counts (snd (anomaly_handle_sync s p k mr2 cnt slot)) ?i = cnt"
    unfolding eq by simp
qed


subsection \<open>Processes do not disturb each other\<close>

definition tenant :: "anomaly \<Rightarrow> nat \<Rightarrow> u32 \<times> u8 \<times> u32 \<times> bool \<times> u32 \<times> u32" where
  "tenant s i = (an_score s i, an_applied_tier s i, an_write_counts s i, an_promoted s i, an_unlink_run s i,
     an_events_since_unlink s i)"

lemma tenant_procd_set_tier [simp]: "tenant (anomaly_procd_set_tier s slot t) i = tenant s i"
  by (simp add: tenant_def)

lemma tenant_score_fold:
  "pid \<noteq> int i \<Longrightarrow> tenant (snd (anomaly_score_fold s pid kind bonus)) i = tenant s i"
  by (auto simp: anomaly_score_fold_def tenant_def Let_def)

lemma tenant_fold_async: "pid \<noteq> int i \<Longrightarrow> tenant (anomaly_fold_async s pid kind) i = tenant s i"
  using tenant_score_fold [of pid i s kind 0]
  by (auto simp: anomaly_fold_async_def tenant_def Let_def)

lemma tenant_promote_once:
  "pid \<noteq> int i \<Longrightarrow> 1 \<le> pid \<Longrightarrow> tenant (promote_once s pid kind) i = tenant s i"
  unfolding promote_once_def Let_def by (simp add: tenant_fold_async) (auto simp: tenant_def)

lemma tenant_handle_sync:
  assumes "pid \<noteq> int i"
  shows "tenant (snd (anomaly_handle_sync s pid kind mr2 cnt slot)) i = tenant s i"
proof (cases "pid < 1 \<or> 16 \<le> pid")
  case False
  then have n: "nat pid \<noteq> i" using assms by auto
  have b: "tenant (snd (sync_bonus t (nat pid) k mr2)) i = tenant t i" for t k
    using n by (auto simp: sync_bonus_def unlink_burst_def tenant_def Let_def)
  have f: "tenant (fresh_tenant t (nat pid) cnt) i = tenant t i" for t
    using n by (auto simp: fresh_tenant_def tenant_def Let_def)
  have g: "tenant (s \<lparr>an_procd_slots := x\<rparr>) i = tenant s i" for x
    by (simp add: tenant_def)
  show ?thesis
    using False unfolding anomaly_handle_sync_def Let_def sync_bonus_def [symmetric]
    by (simp add: case_prod_beta tenant_score_fold [OF assms] b f g)
qed (simp add: anomaly_handle_sync_def)

lemma tenant_net_precommit:
  assumes "pid \<noteq> int i"
  shows "tenant (snd (net_precommit s pid dst len)) i = tenant s i"
proof -
  have "tenant (s \<lparr>an_pid_bytes_out := x\<rparr>) i = tenant s i" for x by (simp add: tenant_def)
  then show ?thesis
    unfolding net_precommit_def Let_def by (auto simp: tenant_promote_once [OF assms])
qed

lemma tenant_serve:
  assumes "msg_pid mr \<noteq> int i"
  shows "tenant (snd (anomaly_serve op mr s)) i = tenant s i"
  using assms unfolding anomaly_serve_def msg_pid_def [symmetric] Let_def
  by (auto simp: case_prod_beta tenant_promote_once promotable_def tenant_handle_sync tenant_net_precommit)

lemma scores_tenant: "tenant s i = tenant t i \<Longrightarrow> scores s i h = scores t i h"
  by (auto simp: tenant_def scores_def)

lemma serve_sync:
  "sync_kind (msg_kind mr) \<Longrightarrow> anomaly_serve ORCH_OP_ANOMALY_EVENT mr s =
     (let (t, s) = anomaly_handle_sync s (msg_pid mr) (msg_kind mr) (mr 2) (msg_count mr) (ucast (mr 4)) in ([of_int t], s))"
  unfolding anomaly_serve_def msg_pid_def [symmetric] msg_kind_def [symmetric] msg_count_def [symmetric] Let_def
  by (auto simp: sync_kind_def anomaly_kinds)


subsection \<open>The tier is a threshold of the points\<close>

definition steady :: "int \<Rightarrow> u32 \<Rightarrow> (nat \<Rightarrow> u64) list \<Rightarrow> bool" where
  "steady p w ms \<longleftrightarrow> (\<forall>m\<in>set ms. msg_pid m = p \<longrightarrow> sync_kind (msg_kind m) \<and> msg_count m \<noteq> 0) \<and>
     sorted (w # map msg_count (filter (\<lambda>m. msg_pid m = p) ms))"

definition tier_reply :: "u64 list \<Rightarrow> nat" where
  "tier_reply r = (case r of [] \<Rightarrow> 0 | w # _ \<Rightarrow> unat w)"

lemma history_of_simps [simp]:
  "history_of p [] = []"
  "msg_pid m = p \<Longrightarrow> history_of p (m # ms) = history_of p ms @ [(msg_kind m, msg_cred m)]"
  "msg_pid m \<noteq> p \<Longrightarrow> history_of p (m # ms) = history_of p ms"
  by (simp_all add: history_of_def)

lemma points_append_le: "points h \<le> points (g @ h)"
  by (induction g) simp_all

lemma anomaly_run_points:
  assumes p: "1 \<le> p" "p < 16"
  shows "scores s (nat p) h \<Longrightarrow> steady p (an_write_counts s (nat p)) ms \<Longrightarrow> points (history_of p ms @ h) < 2 ^ 32 \<Longrightarrow>
    scores (snd (anomaly_run ms s)) (nat p) (history_of p ms @ h) \<and>
    foldl max (tier_of (points h)) (map tier_reply (answers p ms (fst (anomaly_run ms s)))) =
      tier_of (points (history_of p ms @ h))"
proof (induction ms arbitrary: s h)
  case Nil
  then show ?case by (simp add: answers_def)
next
  case (Cons m ms)
  let ?s = "snd (anomaly_serve ORCH_OP_ANOMALY_EVENT m s)" and ?r = "fst (anomaly_serve ORCH_OP_ANOMALY_EVENT m s)"
  show ?case
  proof (cases "msg_pid m = p")
    case False
    then have t: "tenant ?s (nat p) = tenant s (nat p)" using p by (intro tenant_serve) simp
    then have w: "an_write_counts ?s (nat p) = an_write_counts s (nat p)" by (simp add: tenant_def)
    have "scores ?s (nat p) h" "steady p (an_write_counts ?s (nat p)) ms" "points (history_of p ms @ h) < 2 ^ 32"
      using Cons.prems False scores_tenant [OF t] unfolding w by (simp_all add: steady_def)
    from Cons.IH [OF this] False show ?thesis by (simp add: case_prod_beta Let_def answers_def)
  next
    case True
    let ?e = "(msg_kind m, msg_cred m)"
    have k: "sync_kind (msg_kind m)" and cnt: "msg_count m \<noteq> 0" "an_write_counts s (nat p) \<le> msg_count m"
      using Cons.prems(2) True by (simp_all add: steady_def)
    have b: "points (?e # h) < 2 ^ 32"
      using Cons.prems(3) True points_append_le [of "?e # h" "history_of p ms"] by simp
    define t where "t = anomaly_handle_sync s p (msg_kind m) (m 2) (msg_count m) (ucast (m 4))"
    note st = handle_sync_points [OF p Cons.prems(1) k msg_cred_def [of m] b cnt, of "ucast (m 4)", folded t_def]
    have sv: "?s = snd t" "?r = [of_int (fst t)]"
      using serve_sync [OF k, of s] True by (simp_all add: t_def case_prod_beta Let_def)
    have ih1: "scores ?s (nat p) (?e # h)" using st(2) by (simp only: sv)
    have ih2: "steady p (an_write_counts ?s (nat p)) ms"
      using Cons.prems(2) True st(3) by (auto simp: steady_def sv)
    have ih3: "points (history_of p ms @ ?e # h) < 2 ^ 32" using Cons.prems(3) True by simp
    have "max (tier_of (points h)) (tier_reply ?r) = tier_of (points (?e # h))"
      using st(1) tier_of_mono [of "points h" "points (?e # h)"] tier_of_le [of "points (?e # h)"]
      by (auto simp: sv tier_reply_def unat_of_nat max_def)
    with Cons.IH [OF ih1 ih2 ih3] True show ?thesis
      by (simp add: case_prod_beta Let_def answers_def del: points.simps)
  qed
qed

end
