(* ===== verification/AnomalySafety.thy ===== *)
theory AnomalySafety
  imports AnomalyOk
begin

text \<open>
  Properties of the anomaly server: the tier it assigns is the threshold of the points of the
  process, the watermark of the write count makes it forget what a process did before its first
  write, and a promotion happens once per tenant.
\<close>

definition fresh_slot :: "anomaly \<Rightarrow> nat \<Rightarrow> bool" where
  "fresh_slot s i \<longleftrightarrow> an_score s i = 0 \<and> an_applied_tier s i = 0 \<and> an_unlink_run s i = 0 \<and> an_events_since_unlink s i = 0"

lemma scores_fresh: "fresh_slot s i \<Longrightarrow> scores s i []"
  by (simp add: fresh_slot_def scores_def quiet_def tier_of_def)

lemma score_fold_counts [simp]: "an_write_counts (snd (anomaly_score_fold s p k b)) = an_write_counts s"
  by (simp add: anomaly_score_fold_def Let_def)

lemma sync_bonus_counts [simp]: "an_write_counts (snd (sync_bonus s i k mr2)) = an_write_counts s"
  by (simp add: sync_bonus_def unlink_burst_def Let_def)

lemma handle_sync_counts:
  assumes "1 \<le> p" "p < 16"
  shows "an_write_counts (snd (anomaly_handle_sync s p k mr2 cnt slot)) (nat p) =
    (if cnt \<noteq> 0 then cnt else an_write_counts s (nat p) + 1)"
proof -
  have f: "an_write_counts (fresh_tenant t (nat p) c) (nat p) = (if c \<noteq> 0 then c else an_write_counts t (nat p) + 1)" for t c
    by (simp add: fresh_tenant_def Let_def)
  show ?thesis
    using assms unfolding anomaly_handle_sync_def Let_def sync_bonus_def [symmetric]
    by (simp add: case_prod_beta f)
qed

lemma silent_run_counts:
  assumes p: "1 \<le> p" "p < 16" and m: "\<forall>m\<in>set ms. msg_pid m = p \<and> sync_kind (msg_kind m) \<and> msg_count m = 0"
  shows "an_write_counts (snd (anomaly_run ms s)) (nat p) = an_write_counts s (nat p) + of_nat (length ms)"
  using m
proof (induction ms arbitrary: s)
  case (Cons m ms)
  let ?s = "snd (anomaly_serve ORCH_OP_ANOMALY_EVENT m s)"
  have k: "sync_kind (msg_kind m)" and mp: "msg_pid m = p" "msg_count m = 0" using Cons.prems by simp_all
  have "an_write_counts ?s (nat p) = an_write_counts s (nat p) + 1"
    unfolding serve_sync [OF k] by (simp add: case_prod_beta Let_def mp handle_sync_counts [OF p])
  with Cons.IH [of ?s] Cons.prems show ?case by (simp add: case_prod_beta Let_def)
qed simp

lemma anomaly_run_append: "snd (anomaly_run (xs @ ys) s) = snd (anomaly_run ys (snd (anomaly_run xs s)))"
  by (induction xs arbitrary: s) (simp_all add: case_prod_beta Let_def)

text \<open>A first write below the watermark: everything is reset, then one point is added.\<close>

lemma write_below_watermark:
  assumes p: "1 \<le> p" "p < 16" and c: "cnt \<noteq> 0" "cnt < an_write_counts s (nat p)"
  shows "an_score (snd (anomaly_handle_sync s p ANOMALY_EV_WRITE mr2 cnt slot)) (nat p) = 1"
    and "an_applied_tier (snd (anomaly_handle_sync s p ANOMALY_EV_WRITE mr2 cnt slot)) (nat p) = 0"
    and "an_promoted (snd (anomaly_handle_sync s p ANOMALY_EV_WRITE mr2 cnt slot)) (nat p) = False"
proof -
  have "\<not> ANOMALY_T1_THRESHOLD \<le> 1" "\<not> ANOMALY_T2_THRESHOLD \<le> 1"
    by (simp_all add: ANOMALY_T1_THRESHOLD_def ANOMALY_T2_THRESHOLD_def word_le_nat_alt)
  then show "an_score (snd (anomaly_handle_sync s p ANOMALY_EV_WRITE mr2 cnt slot)) (nat p) = 1"
    "an_applied_tier (snd (anomaly_handle_sync s p ANOMALY_EV_WRITE mr2 cnt slot)) (nat p) = 0"
    "an_promoted (snd (anomaly_handle_sync s p ANOMALY_EV_WRITE mr2 cnt slot)) (nat p) = False"
    using assms
    by (simp_all add: anomaly_handle_sync_def fresh_tenant_def anomaly_score_fold_def Let_def anomaly_weight_def anomaly_kinds)
qed


subsection \<open>Properties\<close>


definition sample_msg :: "u64 \<Rightarrow> u64 \<Rightarrow> u64 \<Rightarrow> u64 \<Rightarrow> nat \<Rightarrow> u64" where
  "sample_msg pid kind arg cnt = (\<lambda>i. if i = 0 then pid else if i = 1 then kind else if i = 2 then arg else if i = 3 then cnt else 0)"

definition empty_server :: anomaly where
  "empty_server = \<lparr>an_score = (\<lambda>_. 0), an_applied_tier = (\<lambda>_. 0), an_write_counts = (\<lambda>_. 0), an_procd_slots = (\<lambda>_. 0),
     an_promoted = (\<lambda>_. False), an_unlink_run = (\<lambda>_. 0), an_events_since_unlink = (\<lambda>_. 0), an_pid_bytes_out = (\<lambda>_. 0),
     an_orch_ep = True, an_procd_ep = True, an_procd_calls = []\<rparr>"

lemmas sample_msg_simps = sample_msg_def msg_pid_def msg_kind_def msg_cred_def msg_count_def


text \<open>
  The first write wipes the record. When a process has caused at least two synchronous events
  before its first write (execs, credential accesses, unlinks: they carry the write count 0, for
  which the server advances its own watermark), the message of its first write carries the count
  1, lies below the watermark, and is taken for a new tenant of the pid: whatever score, tier and
  promotion the process had, its score becomes 1, its tier 0 and its promotion is forgotten.
\<close>

lemma anomaly_first_write_forgets:
  assumes p: "1 \<le> p" "p < 16" and "an_write_counts s (nat p) = 0"
    and ms: "\<forall>m\<in>set ms. msg_pid m = p \<and> sync_kind (msg_kind m) \<and> msg_count m = 0"
    and n: "2 \<le> length ms" "length ms < 2 ^ 32"
    and w: "msg_pid w = p" "msg_kind w = ANOMALY_EV_WRITE" "msg_count w = 1"
  defines "t \<equiv> snd (anomaly_run (ms @ [w]) s)"
  shows "an_score t (nat p) = 1 \<and> an_applied_tier t (nat p) = 0 \<and> \<not> an_promoted t (nat p)"
proof -
  let ?s = "snd (anomaly_run ms s)"
  have "an_write_counts ?s (nat p) = of_nat (length ms)"
    using silent_run_counts [OF p ms, of s] assms(3) by simp
  then have c: "(1 :: u32) < an_write_counts ?s (nat p)"
    using u32_of_nat_less [of 1 "length ms"] n by simp
  have k: "sync_kind (msg_kind w)" using w by (simp add: sync_kind_def)
  have t: "t = snd (anomaly_handle_sync ?s p ANOMALY_EV_WRITE (w 2) 1 (ucast (w 4)))"
    unfolding t_def anomaly_run_append by (simp add: serve_sync [OF k] case_prod_beta Let_def w)
  show ?thesis
    unfolding t using write_below_watermark [OF p _ c] by simp
qed

end
