(* ===== verification/UnveilOk.thy ===== *)
theory UnveilOk
  imports Unveil
begin

text \<open>
  The path table as a partial map from prefixes to permissions: the scan is the longest-prefix
  rule on the map, and the system call is a four-line machine over it.
\<close>


subsection \<open>The abstract table\<close>

text \<open>\<open>e\<close> covers \<open>q\<close> when it is a prefix that ends at a path boundary of \<open>q\<close>.\<close>

definition covers :: "string \<Rightarrow> string \<Rightarrow> bool" where
  "covers e q \<longleftrightarrow> e \<noteq> [] \<and> prefix e q \<and> (e = q \<or> q ! length e = CHR ''/'' \<or> last e = CHR ''/'')"

record veil =
  v_map :: "string \<rightharpoonup> u32"
  v_locked :: bool
  v_active :: bool

definition veil_allows :: "veil \<Rightarrow> string \<Rightarrow> u32 \<Rightarrow> bool" where
  "veil_allows v q want \<longleftrightarrow> \<not> v_active v \<or> want = 0 \<or>
     (\<exists>e perms. v_map v e = Some perms \<and> covers e q \<and> (\<forall>e'\<in>dom (v_map v). covers e' q \<longrightarrow> length e' \<le> length e) \<and>
        want AND perms = want)"

datatype unveil_call = Lock | Half | Fault | Ask string string

definition veil_step :: "unveil_call \<Rightarrow> veil \<Rightarrow> int \<times> veil" where
  "veil_step c v =
     (if c = Lock then (0, v \<lparr>v_locked := True, v_active := True\<rparr>)
      else if v_locked v then (- LX_EPERM, v)
      else case c of
        Half \<Rightarrow> (- LX_EINVAL, v)
      | Fault \<Rightarrow> (- LX_EFAULT, v)
      | Ask path perms \<Rightarrow>
          if path = [] then (- LX_EINVAL, v)
          else (case v_map v path of
            Some cur \<Rightarrow>
              if unveil_parse_perms perms AND NOT cur \<noteq> 0 then (- LX_EPERM, v)
              else (0, v \<lparr>v_map := (v_map v) (path \<mapsto> cur AND unveil_parse_perms perms), v_active := True\<rparr>)
          | None \<Rightarrow>
              if 16 \<le> card (dom (v_map v)) then (- LX_EPERM, v)
              else (0, v \<lparr>v_map := (v_map v) (path \<mapsto> unveil_parse_perms perms), v_active := True\<rparr>)))"

text \<open>The call a system call amounts to, given the memory of the caller.\<close>

definition call_of :: "client_mem \<Rightarrow> u64 \<Rightarrow> u64 \<Rightarrow> unveil_call" where
  "call_of mem pv qv =
     (if pv = 0 \<and> qv = 0 then Lock
      else if pv = 0 \<or> qv = 0 then Half
      else case (lucas_copy_cstr_from_client mem pv LUCAS_UNVEIL_PATH_MAX, lucas_copy_cstr_from_client mem qv 16) of
             (Some path, Some perms) \<Rightarrow> Ask path perms
           | _ \<Rightarrow> Fault)"


subsection \<open>The invariant and the abstraction\<close>

abbreviation uv_path :: "lucas_unveil_state \<Rightarrow> nat \<Rightarrow> string" where
  "uv_path uv i \<equiv> ue_path (uv_entries uv i)"

definition unveil_ok :: "lucas_unveil_state \<Rightarrow> bool" where
  "unveil_ok uv \<longleftrightarrow> uv_count uv \<le> LUCAS_UNVEIL_MAX_ENTRIES \<and> inj_on (uv_path uv) {..<uv_count uv} \<and>
     (\<forall>i<uv_count uv. uv_path uv i \<noteq> [] \<and> length (uv_path uv i) < LUCAS_UNVEIL_PATH_MAX)"

definition veil_map :: "lucas_unveil_state \<Rightarrow> string \<rightharpoonup> u32" where
  "veil_map uv = map_of (map (\<lambda>i. (uv_path uv i, ue_perms (uv_entries uv i))) [0..<uv_count uv])"

definition veil_of :: "lucas_unveil_state \<Rightarrow> veil" where
  "veil_of uv = \<lparr>v_map = veil_map uv, v_locked = uv_locked uv, v_active = uv_initialized uv\<rparr>"

lemma dom_veil_map: "dom (veil_map uv) = uv_path uv ` {..<uv_count uv}"
  by (auto simp: veil_map_def dom_map_of_conv_image_fst image_image)

lemma veil_map_nth:
  assumes "unveil_ok uv" and "i < uv_count uv"
  shows "veil_map uv (uv_path uv i) = Some (ue_perms (uv_entries uv i))"
  unfolding veil_map_def
proof (rule map_of_is_SomeI)
  have "inj_on (uv_path uv) (set [0..<uv_count uv])" using assms(1) by (simp add: unveil_ok_def atLeast0LessThan)
  then show "distinct (map fst (map (\<lambda>i. (uv_path uv i, ue_perms (uv_entries uv i))) [0..<uv_count uv]))"
    by (simp add: comp_def distinct_map)
qed (use assms(2) in auto)

lemma card_veil_map: "unveil_ok uv \<Longrightarrow> card (dom (veil_map uv)) = uv_count uv"
  by (simp add: dom_veil_map card_image unveil_ok_def)


subsection \<open>The scan is the longest-prefix rule\<close>

lemma match_step_covers:
  "match_step uv q acc i =
     (if covers (uv_path uv i) q \<and> snd acc < length (uv_path uv i) then (Some i, length (uv_path uv i)) else acc)"
proof -
  let ?e = "uv_path uv i"
  have "covers ?e q \<longleftrightarrow> \<not> (length ?e = 0 \<or> length ?e > length q) \<and> ?e = take (length ?e) q \<and>
      \<not> (length ?e \<noteq> length q \<and> q ! length ?e \<noteq> CHR ''/'' \<and> ?e ! (length ?e - 1) \<noteq> CHR ''/'')"
    by (auto simp: covers_def prefix_def last_conv_nth append_eq_conv_conj) (metis append_take_drop_id)+
  then show ?thesis by (auto simp: match_step_def Let_def)
qed

lemma find_match_scan:
  "foldl (match_step uv q) (None, 0) [0..<n] = (b, l) \<Longrightarrow>
     (case b of
        None \<Rightarrow> l = 0 \<and> (\<forall>i<n. \<not> covers (uv_path uv i) q)
      | Some i \<Rightarrow> i < n \<and> covers (uv_path uv i) q \<and> l = length (uv_path uv i) \<and>
          (\<forall>j<n. covers (uv_path uv j) q \<longrightarrow> length (uv_path uv j) \<le> l))"
proof (induction n arbitrary: b l)
  case (Suc n)
  obtain b' l' where fl: "foldl (match_step uv q) (None, 0) [0..<n] = (b', l')" by fastforce
  note IH = Suc.IH [OF fl]
  have ne: "covers (uv_path uv n) q \<Longrightarrow> 0 < length (uv_path uv n)" by (simp add: covers_def)
  have "(b, l) = match_step uv q (b', l') n" using Suc.prems fl by simp
  with IH ne show ?case
    by (auto simp: match_step_covers less_Suc_eq split: option.splits if_splits)
qed simp

lemma find_match_None:
  "unveil_find_match uv q = None \<longleftrightarrow> (\<forall>i<uv_count uv. \<not> covers (uv_path uv i) q)"
  using find_match_scan [OF surjective_pairing, of uv q "uv_count uv"]
  by (auto simp: unveil_find_match_def split: option.splits)

lemma find_match_Some:
  "unveil_find_match uv q = Some i \<Longrightarrow> i < uv_count uv \<and> covers (uv_path uv i) q \<and>
     (\<forall>j<uv_count uv. covers (uv_path uv j) q \<longrightarrow> length (uv_path uv j) \<le> length (uv_path uv i))"
  using find_match_scan [OF surjective_pairing, of uv q "uv_count uv"]
  by (auto simp: unveil_find_match_def split: option.splits)

lemma covers_same_length: "covers e q \<Longrightarrow> covers e' q \<Longrightarrow> length e = length e' \<Longrightarrow> e = e'"
  by (metis covers_def prefix_length_prefix prefix_order.antisym order_refl)

lemma check_longest_prefix:
  assumes ok: "unveil_ok uv"
  shows "lucas_unveil_check uv q want = (if veil_allows (veil_of uv) q want then 0 else - LX_EACCES)"
proof (cases "unveil_find_match uv q")
  case None
  then have "\<not> covers e q" if "e \<in> dom (veil_map uv)" for e
    using that by (auto simp: find_match_None dom_veil_map)
  with None show ?thesis
    by (auto simp: lucas_unveil_check_def veil_allows_def veil_of_def)
next
  case (Some i)
  note m = find_match_Some [OF Some]
  have here: "veil_map uv (uv_path uv i) = Some (ue_perms (uv_entries uv i))" using veil_map_nth [OF ok] m by simp
  have longest: "\<forall>e'\<in>dom (veil_map uv). covers e' q \<longrightarrow> length e' \<le> length (uv_path uv i)"
    using m by (auto simp: dom_veil_map)
  have uniq: "e = uv_path uv i" if "veil_map uv e = Some perms" "covers e q"
    "\<forall>e'\<in>dom (veil_map uv). covers e' q \<longrightarrow> length e' \<le> length e" for e perms
  proof (rule covers_same_length)
    show "covers e q" "covers (uv_path uv i) q" using that m by auto
    have "length e \<le> length (uv_path uv i)" using longest that by blast
    moreover have "length (uv_path uv i) \<le> length e" using that(3) here m by blast
    ultimately show "length e = length (uv_path uv i)" by simp
  qed
  have "(\<exists>e perms. veil_map uv e = Some perms \<and> covers e q \<and> (\<forall>e'\<in>dom (veil_map uv). covers e' q \<longrightarrow> length e' \<le> length e) \<and>
      want AND perms = want) \<longleftrightarrow> want AND ue_perms (uv_entries uv i) = want"
    using here longest m uniq by (metis option.inject)
  with Some show ?thesis
    by (auto simp: lucas_unveil_check_def veil_allows_def veil_of_def)
qed


subsection \<open>The system call\<close>

lemma find_exact_Some: "unveil_find_exact uv p = Some i \<Longrightarrow> i < uv_count uv \<and> uv_path uv i = p"
  by (auto simp: unveil_find_exact_def dest: first_idx_SomeD)

lemma find_exact_None: "unveil_find_exact uv p = None \<Longrightarrow> \<forall>i<uv_count uv. uv_path uv i \<noteq> p"
  by (simp add: unveil_find_exact_def first_idx_None_iff)

lemma unveil_narrow:
  fixes v :: u32
  assumes ok: "unveil_ok uv" and i: "i < uv_count uv"
  defines "uv' \<equiv> uv \<lparr>uv_entries := (uv_entries uv) (i := (uv_entries uv i) \<lparr>ue_perms := v\<rparr>), uv_initialized := True\<rparr>"
  shows "unveil_ok uv'" and "veil_map uv' = (veil_map uv) (uv_path uv i \<mapsto> v)"
proof -
  have same: "uv_path uv' j = uv_path uv j" "uv_count uv' = uv_count uv" for j by (simp_all add: uv'_def)
  show ok': "unveil_ok uv'" using ok by (simp add: unveil_ok_def same inj_on_def)
  have inj: "uv_path uv j = uv_path uv i \<Longrightarrow> j < uv_count uv \<Longrightarrow> j = i" for j
    using ok i by (auto simp: unveil_ok_def inj_on_def)
  have perms: "ue_perms (uv_entries uv' j) = (if j = i then v else ue_perms (uv_entries uv j))" for j
    by (simp add: uv'_def)
  show "veil_map uv' = (veil_map uv) (uv_path uv i \<mapsto> v)"
  proof (rule map_le_antisym; unfold map_le_def; intro ballI)
    fix e assume "e \<in> dom (veil_map uv')"
    then obtain j where j: "j < uv_count uv" "e = uv_path uv j" by (auto simp: dom_veil_map same)
    then show "veil_map uv' e = ((veil_map uv) (uv_path uv i \<mapsto> v)) e"
      using veil_map_nth [OF ok', of j] veil_map_nth [OF ok, of j] inj perms by (auto simp: same)
  next
    fix e assume "e \<in> dom ((veil_map uv) (uv_path uv i \<mapsto> v))"
    then obtain j where j: "j < uv_count uv" "e = uv_path uv j" using i by (auto simp: dom_veil_map)
    then show "((veil_map uv) (uv_path uv i \<mapsto> v)) e = veil_map uv' e"
      using veil_map_nth [OF ok', of j] veil_map_nth [OF ok, of j] inj perms by (auto simp: same)
  qed
qed

lemma unveil_add:
  fixes v :: u32
  assumes ok: "unveil_ok uv" and n: "uv_count uv < LUCAS_UNVEIL_MAX_ENTRIES"
    and p: "p \<noteq> []" "length p < LUCAS_UNVEIL_PATH_MAX" and new: "\<forall>i<uv_count uv. uv_path uv i \<noteq> p"
  defines "uv' \<equiv> uv \<lparr>uv_entries := (uv_entries uv) (uv_count uv := \<lparr>ue_path = p, ue_perms = v\<rparr>),
     uv_count := uv_count uv + 1, uv_initialized := True\<rparr>"
  shows "unveil_ok uv'" and "veil_map uv' = (veil_map uv) (p \<mapsto> v)"
proof -
  have c: "uv_count uv' = Suc (uv_count uv)" by (simp add: uv'_def)
  have path: "uv_path uv' j = (if j = uv_count uv then p else uv_path uv j)" for j by (simp add: uv'_def)
  have "inj_on (uv_path uv') {..<Suc (uv_count uv)}"
  proof (rule inj_onI)
    fix j k assume "j \<in> {..<Suc (uv_count uv)}" "k \<in> {..<Suc (uv_count uv)}" "uv_path uv' j = uv_path uv' k"
    then show "j = k"
      using ok new by (auto simp: path unveil_ok_def less_Suc_eq inj_on_def)
  qed
  moreover have "\<forall>i<Suc (uv_count uv). uv_path uv' i \<noteq> [] \<and> length (uv_path uv' i) < LUCAS_UNVEIL_PATH_MAX"
    using ok p by (simp add: path unveil_ok_def less_Suc_eq)
  ultimately show "unveil_ok uv'" using n by (simp add: unveil_ok_def c)
  have "map (\<lambda>i. (uv_path uv' i, ue_perms (uv_entries uv' i))) [0..<uv_count uv] =
      map (\<lambda>i. (uv_path uv i, ue_perms (uv_entries uv i))) [0..<uv_count uv]"
    by (simp add: uv'_def)
  moreover have "(uv_path uv' (uv_count uv), ue_perms (uv_entries uv' (uv_count uv))) = (p, v)" by (simp add: uv'_def)
  ultimately have "veil_map uv' = [p \<mapsto> v] ++ veil_map uv"
    unfolding veil_map_def c by (simp add: map_of_append del: map_eq_conv)
  moreover have "p \<notin> dom (veil_map uv)" using new by (auto simp: dom_veil_map)
  ultimately show "veil_map uv' = (veil_map uv) (p \<mapsto> v)"
    by (auto simp: map_add_def fun_eq_iff split: option.splits)
qed

lemma sys_unveil_refines:
  fixes mem :: client_mem and pv qv :: u64
  assumes ok: "unveil_ok uv"
  defines "r \<equiv> lucas_sys_unveil mem uv pv qv"
  shows "unveil_ok (snd r) \<and> (fst r, veil_of (snd r)) = veil_step (call_of mem pv qv) (veil_of uv)"
proof (cases "(pv = 0 \<and> qv = 0) \<or> uv_locked uv \<or> pv = 0 \<or> qv = 0 \<or>
    lucas_copy_cstr_from_client mem pv LUCAS_UNVEIL_PATH_MAX = None \<or> lucas_copy_cstr_from_client mem qv 16 = None")
  case True
  then show ?thesis
    using ok unfolding r_def
    by (auto simp: lucas_sys_unveil_def veil_step_def call_of_def veil_of_def unveil_ok_def veil_map_def split: option.splits)
next
  case False
  then obtain path perms where c: "lucas_copy_cstr_from_client mem pv LUCAS_UNVEIL_PATH_MAX = Some path"
    "lucas_copy_cstr_from_client mem qv 16 = Some perms" by auto
  then have call: "call_of mem pv qv = Ask path perms" using False by (simp add: call_of_def)
  have len: "length path < LUCAS_UNVEIL_PATH_MAX"
    using copy_cstr_bound [OF c(1)] by (simp add: LUCAS_UNVEIL_PATH_MAX_def)
  show ?thesis
  proof (cases "path = []")
    case True
    with False c call ok show ?thesis by (simp add: r_def lucas_sys_unveil_def veil_step_def veil_of_def)
  next
    case ne: False
    show ?thesis
    proof (cases "unveil_find_exact uv path")
      case None
      note new = find_exact_None [OF None]
      then have no: "veil_map uv path = None" by (metis dom_veil_map domIff imageE lessThan_iff)
      show ?thesis
      proof (cases "uv_count uv < LUCAS_UNVEIL_MAX_ENTRIES")
        case True
        then have "\<not> 16 \<le> card (dom (veil_map uv))" by (simp add: card_veil_map [OF ok] LUCAS_UNVEIL_MAX_ENTRIES_def)
        with True False c call ne None no show ?thesis
          using unveil_add [OF ok True ne len new, of "unveil_parse_perms perms"]
          by (simp add: r_def lucas_sys_unveil_def veil_step_def veil_of_def Let_def unveil_copy_path_def cstr_copy_id [OF len])
      next
        case full: False
        then have "16 \<le> card (dom (veil_map uv))" by (simp add: card_veil_map [OF ok] LUCAS_UNVEIL_MAX_ENTRIES_def)
        with full False c call ok ne None no show ?thesis
          by (simp add: r_def lucas_sys_unveil_def veil_step_def veil_of_def Let_def)
      qed
    next
      case (Some i)
      note i = find_exact_Some [OF Some]
      then have "veil_map uv path = Some (ue_perms (uv_entries uv i))" using veil_map_nth [OF ok] by blast
      with False c call ok ne Some i show ?thesis
        using unveil_narrow [OF ok, of i "ue_perms (uv_entries uv i) AND unveil_parse_perms perms"]
        by (simp add: r_def lucas_sys_unveil_def veil_step_def veil_of_def Let_def)
    qed
  qed
qed


subsection \<open>Runs\<close>

fun unveil_run :: "(client_mem \<times> u64 \<times> u64) list \<Rightarrow> lucas_unveil_state \<Rightarrow> int list \<times> lucas_unveil_state" where
  "unveil_run [] uv = ([], uv)"
| "unveil_run ((mem, pv, qv) # cs) uv =
     (let (r, uv) = lucas_sys_unveil mem uv pv qv; (rs, uv) = unveil_run cs uv in (r # rs, uv))"

fun veil_run :: "unveil_call list \<Rightarrow> veil \<Rightarrow> int list \<times> veil" where
  "veil_run [] v = ([], v)"
| "veil_run (c # cs) v = (let (r, v) = veil_step c v; (rs, v) = veil_run cs v in (r # rs, v))"

definition calls_of :: "(client_mem \<times> u64 \<times> u64) list \<Rightarrow> unveil_call list" where
  "calls_of cs = map (\<lambda>(mem, pv, qv). call_of mem pv qv) cs"

definition unveil_zero :: lucas_unveil_state where
  "unveil_zero = \<lparr>uv_entries = (\<lambda>_. \<lparr>ue_path = [], ue_perms = 0\<rparr>), uv_count = 0, uv_locked = False, uv_initialized = False\<rparr>"

definition veil_empty :: veil where
  "veil_empty = \<lparr>v_map = Map.empty, v_locked = False, v_active = False\<rparr>"

lemma unveil_zero_ok: "unveil_ok unveil_zero" "veil_of unveil_zero = veil_empty"
  by (simp_all add: unveil_zero_def veil_empty_def unveil_ok_def veil_of_def veil_map_def)

lemma unveil_run_refines:
  "unveil_ok uv \<Longrightarrow> unveil_ok (snd (unveil_run cs uv)) \<and>
     (fst (unveil_run cs uv), veil_of (snd (unveil_run cs uv))) = veil_run (calls_of cs) (veil_of uv)"
proof (induction cs arbitrary: uv)
  case (Cons c cs)
  obtain mem pv qv where c: "c = (mem, pv, qv)" by (cases c)
  let ?r = "lucas_sys_unveil mem uv pv qv" and ?s = "veil_step (call_of mem pv qv) (veil_of uv)"
  have ok: "unveil_ok (snd ?r)" and st: "fst ?s = fst ?r" "snd ?s = veil_of (snd ?r)"
    using sys_unveil_refines [OF Cons.prems, of mem pv qv] by (auto simp: prod_eq_iff)
  from Cons.IH [OF ok] show ?case
    by (simp add: c calls_of_def case_prod_beta Let_def st prod_eq_iff)
qed (simp add: calls_of_def)

lemma veil_locked_final: "v_locked v \<Longrightarrow> v_active v \<Longrightarrow> snd (veil_run cs v) = v"
proof (induction cs)
  case (Cons c cs)
  then have "snd (veil_step c v) = v" by (simp add: veil_step_def)
  with Cons show ?case by (simp add: case_prod_beta Let_def)
qed simp

lemma veil_step_locked: "v_locked v \<Longrightarrow> v_locked (snd (veil_step c v))"
  by (simp add: veil_step_def)

lemma veil_run_append: "snd (veil_run (as @ bs) v) = snd (veil_run bs (snd (veil_run as v)))"
  by (induction as arbitrary: v) (simp_all add: case_prod_beta Let_def)

lemma veil_run_Lock: "Lock \<in> set cs \<Longrightarrow> v_locked (snd (veil_run cs v)) \<and> v_active (snd (veil_run cs v))"
proof -
  assume "Lock \<in> set cs"
  then obtain as bs where cs: "cs = as @ Lock # bs" by (meson split_list)
  let ?v = "snd (veil_run as v) \<lparr>v_locked := True, v_active := True\<rparr>"
  have "snd (veil_run cs v) = snd (veil_run bs ?v)"
    unfolding cs veil_run_append by (simp add: veil_step_def case_prod_beta Let_def)
  then show ?thesis using veil_locked_final [of ?v bs] by simp
qed

text \<open>
  C13: Any sequence of unveil calls on the zeroed table of a new sandbox returns the codes of the
  abstract table, and the check the file handlers make afterwards is its rule: everything is
  allowed before the first call that takes effect, and from then on exactly the accesses whose
  permissions are contained in those of the longest prefix of the path that ends at a path
  boundary. After a call that locks the table no later call changes any answer.
\<close>

theorem unveil_is_longest_prefix:
  fixes cs ds :: "(client_mem \<times> u64 \<times> u64) list"
  defines "uv \<equiv> snd (unveil_run cs unveil_zero)" and "v \<equiv> snd (veil_run (calls_of cs) veil_empty)"
  shows "fst (unveil_run cs unveil_zero) = fst (veil_run (calls_of cs) veil_empty) \<and>
    (\<forall>q want. lucas_unveil_check uv q want = (if veil_allows v q want then 0 else - LX_EACCES)) \<and>
    (Lock \<in> set (calls_of cs) \<longrightarrow>
      (\<forall>q want. lucas_unveil_check (snd (unveil_run ds uv)) q want = lucas_unveil_check uv q want))"
proof -
  note r = unveil_run_refines [OF unveil_zero_ok(1), of cs, unfolded unveil_zero_ok(2)]
  then have ok: "unveil_ok uv" and v: "veil_of uv = v" by (auto simp: uv_def v_def prod_eq_iff)
  have "lucas_unveil_check (snd (unveil_run ds uv)) q want = lucas_unveil_check uv q want"
    if "Lock \<in> set (calls_of cs)" for q want
  proof -
    have "snd (veil_run (calls_of ds) (veil_of uv)) = veil_of uv"
      using veil_run_Lock [OF that, of veil_empty] unfolding v v_def by (intro veil_locked_final) simp_all
    then have "veil_of (snd (unveil_run ds uv)) = veil_of uv"
      using unveil_run_refines [OF ok, of ds] by (metis snd_conv)
    then show ?thesis
      using unveil_run_refines [OF ok, of ds] by (simp add: check_longest_prefix ok)
  qed
  then show ?thesis
    using r check_longest_prefix [OF ok] v by (auto simp: prod_eq_iff)
qed

text \<open>
  A memory with one string at an address, for examples: the string starts at the beginning of
  its page and every other page is absent.
\<close>

definition string_at :: "(u64 \<times> string) list \<Rightarrow> client_mem" where
  "string_at xs base = map_option (\<lambda>s i. if i < length s then s ! i else CHR 0x00) (map_of xs base)"

theorem unveil_is_longest_prefix_witness:
  "let m = string_at [(4096, ''/usr''), (8192, ''rx'')];
       cs = [(m, 4096, 8192), (m, 0, 0)]; uv = snd (unveil_run cs unveil_zero)
   in Lock \<in> set (calls_of cs) \<and> lucas_unveil_check (snd (unveil_run [(m, 4096, 8192)] uv)) ''/usr/bin'' UNVEIL_R = 0 \<and>
      lucas_unveil_check (snd (unveil_run [(m, 4096, 8192)] uv)) ''/usrbin'' UNVEIL_R = - LX_EACCES"
proof -
  let ?m = "string_at [(4096, ''/usr''), (8192, ''rx'')]"
  let ?cs = "[(?m, 4096, 8192), (?m, 0, 0)]"
  have l: "Lock \<in> set (calls_of ?cs)" by (simp add: calls_of_def call_of_def)
  have "lucas_unveil_check (snd (unveil_run ?cs unveil_zero)) ''/usr/bin'' UNVEIL_R = 0"
    "lucas_unveil_check (snd (unveil_run ?cs unveil_zero)) ''/usrbin'' UNVEIL_R = - LX_EACCES"
    by code_simp+
  then show ?thesis
    using unveil_is_longest_prefix [of ?cs "[(?m, 4096, 8192)]"] l by (simp add: Let_def)
qed

end
