(* ===== verification/SotGuardOk.thy ===== *)
theory SotGuardOk
  imports SotGuard "HOL-Library.Sublist"
begin

text \<open>
  What sotGuard computes. The engine is compared with an abstract monitor that keeps, for each of
  at most sixteen tracked processes, the list of its events since it was first seen, and states
  each rule on that list: no counters, no saturation, no slots. The pump is then followed through
  its repeated newest-first readings of the ring.
\<close>


subsection \<open>The rules on a history\<close>

lemma sg_match_at_prefix: "sg_match_at hay needle \<longleftrightarrow> prefix needle hay"
  by (induction hay needle rule: sg_match_at.induct) auto

lemma sg_contains_sublist: "sg_contains hay needle \<longleftrightarrow> sublist needle hay"
proof (cases needle)
  case (Cons n ns)
  then have "sg_scan hay needle \<longleftrightarrow> sublist needle hay"
    by (induction hay) (auto simp: sg_match_at_prefix sublist_Cons_right)
  with Cons show ?thesis by (simp add: sg_contains_def)
qed (simp add: sg_contains_def)

definition sensitive_reads :: "sotguard_event list \<Rightarrow> nat" where
  "sensitive_reads h = length (filter (\<lambda>e. ev_type e = SG_EV_FS_READ \<and>
     (sublist (map of_char ''/etc/passwd'') (fs_path e) \<or> sublist (map of_char ''/proc/self/maps'') (fs_path e))) h)"

definition canary_hits :: "sotguard_event list \<Rightarrow> nat" where
  "canary_hits h = length (filter (\<lambda>e. ev_type e = SG_EV_CANARY_READ) h)"

text \<open>The time stamps of the writes, newest first.\<close>

definition write_stamps :: "sotguard_event list \<Rightarrow> u64 list" where
  "write_stamps h = map ev_timestamp (filter (\<lambda>e. ev_type e = SG_EV_FS_WRITE) (rev h))"

text \<open>The newest eleven writes follow each other in steps of less than a millisecond.\<close>

definition burst :: "u64 list \<Rightarrow> bool" where
  "burst ts \<longleftrightarrow> 10 < length ts \<and> (\<forall>i<10. ts ! Suc i \<noteq> 0 \<and> ts ! i - ts ! Suc i < 1000000)"

definition rule_fires :: "sotguard_event list \<Rightarrow> sotguard_event \<Rightarrow> sotguard_rule_id" where
  "rule_fires h ev =
     (if ev_type ev = SG_EV_CANARY_READ \<and> 2 \<le> canary_hits h then SG_RULE_CANARY_TRIPPED
      else if ev_type ev = SG_EV_NET_CONNECT \<and> net_ip_be ev AND 0xFF \<noteq> 127
              \<and> 3 < (5 * sensitive_reads h) mod 2 ^ 32 then SG_RULE_RECON_EXFIL
      else if ev_type ev = SG_EV_FS_WRITE \<and> burst (write_stamps h) then SG_RULE_BURST_WRITES
      else SG_RULE_NONE)"

definition verdict_of :: "u32 \<Rightarrow> sotguard_rule_id \<Rightarrow> sotguard_rule_result option" where
  "verdict_of pid rule =
     (case rule of
        SG_RULE_NONE \<Rightarrow> None
      | SG_RULE_CANARY_TRIPPED \<Rightarrow> Some \<lparr>r_rule = rule, r_pid = pid, r_target_tier = 2, r_reason = ''canary-tripped''\<rparr>
      | SG_RULE_RECON_EXFIL \<Rightarrow> Some \<lparr>r_rule = rule, r_pid = pid, r_target_tier = 2, r_reason = ''recon-then-exfil''\<rparr>
      | SG_RULE_BURST_WRITES \<Rightarrow> Some \<lparr>r_rule = rule, r_pid = pid, r_target_tier = 1, r_reason = ''burst-writes''\<rparr>)"


subsection \<open>The abstract monitor and the runs of the engine\<close>

datatype guard_op = Eval sotguard_event | Reset u32

type_synonym monitor = "u32 \<rightharpoonup> sotguard_event list"

definition monitor_step :: "guard_op \<Rightarrow> monitor \<Rightarrow> sotguard_rule_result option \<times> monitor" where
  "monitor_step a T =
     (case a of
        Reset p \<Rightarrow> (None, T (p := None))
      | Eval ev \<Rightarrow>
          let p = ev_pid ev
          in if p = 0 \<or> (T p = None \<and> 16 \<le> card (dom T)) then (None, T)
             else let h = (case T p of None \<Rightarrow> [] | Some h \<Rightarrow> h) @ [ev]
                  in (verdict_of p (rule_fires h ev), T (p \<mapsto> h)))"

fun monitor_run :: "guard_op list \<Rightarrow> monitor \<Rightarrow> sotguard_rule_result option list" where
  "monitor_run [] T = []"
| "monitor_run (a # as) T = (let (v, T) = monitor_step a T in v # monitor_run as T)"

definition engine_step :: "guard_op \<Rightarrow> sotguard_pid_ctx arr \<Rightarrow> sotguard_rule_result option \<times> sotguard_pid_ctx arr" where
  "engine_step a cs =
     (case a of Reset p \<Rightarrow> (None, sotguard_engine_reset_pid cs p) | Eval ev \<Rightarrow> sotguard_engine_eval cs ev)"

fun engine_run :: "guard_op list \<Rightarrow> sotguard_pid_ctx arr \<Rightarrow> sotguard_rule_result option list" where
  "engine_run [] cs = []"
| "engine_run (a # as) cs = (let (v, cs) = engine_step a cs in v # engine_run as cs)"


subsection \<open>A context and the history it stands for\<close>

fun burst_len :: "u64 list \<Rightarrow> nat" where
  "burst_len [] = 0"
| "burst_len [t] = 1"
| "burst_len (t # s # r) = (if s \<noteq> 0 \<and> t - s < SG_BURST_WINDOW_NS then Suc (burst_len (s # r)) else 1)"

lemma burst_len_gt:
  "n < burst_len ts \<longleftrightarrow> n < length ts \<and> (\<forall>i<n. ts ! Suc i \<noteq> 0 \<and> ts ! i - ts ! Suc i < SG_BURST_WINDOW_NS)"
proof (induction ts arbitrary: n rule: burst_len.induct)
  case (3 t s r)
  show ?case
  proof (cases n)
    case (Suc m)
    have "(\<forall>i<Suc m. (t # s # r) ! Suc i \<noteq> 0 \<and> (t # s # r) ! i - (t # s # r) ! Suc i < SG_BURST_WINDOW_NS) \<longleftrightarrow>
        (s \<noteq> 0 \<and> t - s < SG_BURST_WINDOW_NS) \<and>
        (\<forall>i<m. (s # r) ! Suc i \<noteq> 0 \<and> (s # r) ! i - (s # r) ! Suc i < SG_BURST_WINDOW_NS)"
      by (subst All_less_Suc2) simp
    with 3 Suc show ?thesis by (auto simp del: nth_Cons_Suc)
  qed simp
qed auto

lemma burst_iff: "burst ts \<longleftrightarrow> 10 < burst_len ts"
  by (simp add: burst_def burst_len_gt SG_BURST_WINDOW_NS_def)

definition saturated :: "nat \<Rightarrow> u32" where
  "saturated n = of_nat (min n (2 ^ 32 - 1))"

lemma unat_saturated: "unat (saturated n) = min n (2 ^ 32 - 1)"
  by (simp add: saturated_def unat_of_nat)

lemma saturated_Suc: "saturated (Suc n) = (if saturated n < - 1 then saturated n + 1 else saturated n)"
proof -
  have "unat (- 1 :: u32) = 2 ^ 32 - 1" by (simp add: unsigned_minus_1_eq_mask mask_eq_exp_minus_1)
  then have "saturated n < - 1 \<longleftrightarrow> n < 2 ^ 32 - 1"
    by (auto simp: word_less_nat_alt unat_saturated min_def)
  then show ?thesis by (simp add: saturated_def min_def)
qed

lemma saturated_ge: "m < 2 ^ 32 \<Longrightarrow> of_nat m \<le> saturated n \<longleftrightarrow> m \<le> n"
  by (auto simp: word_le_nat_alt unat_saturated unat_of_nat)

lemma saturated_gt: "m < 2 ^ 32 - 1 \<Longrightarrow> of_nat m < saturated n \<longleftrightarrow> m < n"
  by (auto simp: word_less_nat_alt unat_saturated unat_of_nat)

definition ctx_of :: "u32 \<Rightarrow> sotguard_event list \<Rightarrow> sotguard_pid_ctx" where
  "ctx_of p h =
     \<lparr>c_pid = p, recon_score = of_nat (5 * sensitive_reads h), burst_writes = saturated (burst_len (write_stamps h)),
      last_write_ts = (case write_stamps h of [] \<Rightarrow> 0 | t # ts \<Rightarrow> t), canary_reads = saturated (canary_hits h),
      c_in_use = True\<rparr>"

lemma ctx_of_Nil: "ctx_of p [] = free_ctx \<lparr>c_pid := p, c_in_use := True\<rparr>"
  by (simp add: ctx_of_def free_ctx_def sensitive_reads_def write_stamps_def canary_hits_def saturated_def)

lemma write_stamps_snoc:
  "write_stamps (h @ [ev]) = (if ev_type ev = SG_EV_FS_WRITE then [ev_timestamp ev] else []) @ write_stamps h"
  by (simp add: write_stamps_def)

lemma sensitive_reads_snoc:
  "sensitive_reads (h @ [ev]) =
     (if ev_type ev = SG_EV_FS_READ \<and> path_is_sensitive (fs_path ev) then Suc (sensitive_reads h) else sensitive_reads h)"
  by (simp add: sensitive_reads_def path_is_sensitive_def sg_contains_sublist)

lemma canary_hits_snoc:
  "canary_hits (h @ [ev]) = (if ev_type ev = SG_EV_CANARY_READ then Suc (canary_hits h) else canary_hits h)"
  by (simp add: canary_hits_def)

lemmas snoc_simps = write_stamps_snoc sensitive_reads_snoc canary_hits_snoc

lemma burst_len_Cons:
  "burst_len (t # ts) =
     (if (case ts of [] \<Rightarrow> 0 | s # r \<Rightarrow> s) \<noteq> 0 \<and> t - (case ts of [] \<Rightarrow> 0 | s # r \<Rightarrow> s) < SG_BURST_WINDOW_NS
      then Suc (burst_len ts) else 1)"
  by (cases ts) simp_all

lemma recon_armed: "SG_RECON_THRESHOLD < of_nat m \<longleftrightarrow> 3 < m mod 2 ^ 32"
  by (simp add: SG_RECON_THRESHOLD_def word_less_nat_alt unat_of_nat)

lemma first_octet_eq: "(ucast (ip AND 0xFF :: u32) :: u8) = 127 \<longleftrightarrow> ip AND 0xFF = 127"
proof -
  have m: "unat (ip AND 0xFF) < 256"
    using word_and_le1 [of ip "0xFF"] by (simp add: word_le_nat_alt)
  have "unat (ucast (ip AND 0xFF) :: u8) = unat (ip AND 0xFF)"
    using m by (simp add: unsigned_ucast_eq take_bit_nat_eq_self)
  then show ?thesis by (simp add: word_unat_eq_iff)
qed

lemma of_nat_five: "of_nat (5 * Suc n) = of_nat (5 * n) + (SG_RECON_INCREMENT :: u32)"
  by (simp add: SG_RECON_INCREMENT_def)

lemma kinds_distinct [simp]:
  "SG_EV_FS_READ \<noteq> SG_EV_CANARY_READ" "SG_EV_FS_READ \<noteq> SG_EV_NET_CONNECT" "SG_EV_FS_READ \<noteq> SG_EV_FS_WRITE"
  "SG_EV_CANARY_READ \<noteq> SG_EV_FS_READ" "SG_EV_CANARY_READ \<noteq> SG_EV_NET_CONNECT" "SG_EV_CANARY_READ \<noteq> SG_EV_FS_WRITE"
  "SG_EV_NET_CONNECT \<noteq> SG_EV_FS_READ" "SG_EV_NET_CONNECT \<noteq> SG_EV_CANARY_READ" "SG_EV_NET_CONNECT \<noteq> SG_EV_FS_WRITE"
  "SG_EV_FS_WRITE \<noteq> SG_EV_FS_READ" "SG_EV_FS_WRITE \<noteq> SG_EV_CANARY_READ" "SG_EV_FS_WRITE \<noteq> SG_EV_NET_CONNECT"
  by (simp_all add: SG_EV_FS_READ_def SG_EV_CANARY_READ_def SG_EV_NET_CONNECT_def SG_EV_FS_WRITE_def)

lemma canary_tripped_iff: "SG_CANARY_READ_THRESHOLD \<le> saturated n \<longleftrightarrow> 2 \<le> n"
  using saturated_ge [of 2 n] by (simp add: SG_CANARY_READ_THRESHOLD_def)

lemma burst_tripped_iff: "SG_BURST_THRESHOLD < saturated n \<longleftrightarrow> 10 < n"
  using saturated_gt [of 10 n] by (simp add: SG_BURST_THRESHOLD_def)

lemma bump_canary:
  "canary_reads c = saturated n \<Longrightarrow>
     (if canary_reads c < - 1 then c \<lparr>canary_reads := canary_reads c + 1\<rparr> else c) = c \<lparr>canary_reads := saturated (Suc n)\<rparr>"
  by (simp add: saturated_Suc)

lemma bump_burst:
  "burst_writes c = saturated n \<Longrightarrow>
     (if burst_writes c < - 1 then c \<lparr>burst_writes := burst_writes c + 1\<rparr> else c) = c \<lparr>burst_writes := saturated (Suc n)\<rparr>"
  by (simp add: saturated_Suc)

lemma saturated_1: "saturated (Suc 0) = 1"
  by (simp add: saturated_def)

lemma burst_step:
  assumes "burst_writes c = saturated (burst_len ts)" and "last_write_ts c = (case ts of [] \<Rightarrow> 0 | t # r \<Rightarrow> t)"
  shows "(if last_write_ts c \<noteq> 0 \<and> now - last_write_ts c < SG_BURST_WINDOW_NS
          then (if burst_writes c < - 1 then c \<lparr>burst_writes := burst_writes c + 1\<rparr> else c)
          else c \<lparr>burst_writes := 1\<rparr>) = c \<lparr>burst_writes := saturated (burst_len (now # ts))\<rparr>"
  unfolding bump_burst [OF assms(1)] burst_len_Cons assms(2) by (simp add: saturated_1)

lemmas verdict_simps = rule_fires_def verdict_of_def fill_verdict_def sg_strcpy_bounded_def cstr_copy_id

lemma eval_ctx_read:
  "ev_type ev = SG_EV_FS_READ \<Longrightarrow>
     eval_ctx ev (ctx_of p h) = (ctx_of p (h @ [ev]), verdict_of p (rule_fires (h @ [ev]) ev))"
  by (simp add: eval_ctx_def ctx_of_def snoc_simps verdict_simps of_nat_five del: of_nat_mult of_nat_Suc mult_Suc_right)

lemma eval_ctx_canary:
  assumes "ev_type ev = SG_EV_CANARY_READ"
  shows "eval_ctx ev (ctx_of p h) = (ctx_of p (h @ [ev]), verdict_of p (rule_fires (h @ [ev]) ev))"
proof -
  have c: "canary_reads (ctx_of p h) = saturated (canary_hits h)" by (simp add: ctx_of_def)
  have u: "ctx_of p h \<lparr>canary_reads := saturated (Suc (canary_hits h))\<rparr> = ctx_of p (h @ [ev])"
    using assms by (simp add: ctx_of_def snoc_simps)
  show ?thesis
    using assms unfolding eval_ctx_def bump_canary [OF c] u Let_def
    by (simp add: verdict_simps ctx_of_def canary_tripped_iff)
qed

lemma eval_ctx_connect:
  "ev_type ev = SG_EV_NET_CONNECT \<Longrightarrow>
     eval_ctx ev (ctx_of p h) = (ctx_of p (h @ [ev]), verdict_of p (rule_fires (h @ [ev]) ev))"
  by (simp add: eval_ctx_def ctx_of_def snoc_simps verdict_simps Let_def recon_armed first_octet_eq del: of_nat_mult)

lemma eval_ctx_write:
  assumes "ev_type ev = SG_EV_FS_WRITE"
  shows "eval_ctx ev (ctx_of p h) = (ctx_of p (h @ [ev]), verdict_of p (rule_fires (h @ [ev]) ev))"
proof -
  have c: "burst_writes (ctx_of p h) = saturated (burst_len (write_stamps h))"
      "last_write_ts (ctx_of p h) = (case write_stamps h of [] \<Rightarrow> 0 | t # r \<Rightarrow> t)"
    by (simp_all add: ctx_of_def)
  have u: "ctx_of p h \<lparr>burst_writes := saturated (burst_len (ev_timestamp ev # write_stamps h))\<rparr>
      \<lparr>last_write_ts := ev_timestamp ev\<rparr> = ctx_of p (h @ [ev])"
    using assms by (simp add: ctx_of_def snoc_simps)
  show ?thesis
    using assms unfolding eval_ctx_def Let_def burst_step [OF c] u
    by (simp add: verdict_simps ctx_of_def burst_tripped_iff burst_iff)
qed

lemma eval_ctx_of:
  "eval_ctx ev (ctx_of p h) = (ctx_of p (h @ [ev]), verdict_of p (rule_fires (h @ [ev]) ev))"
proof -
  have "eval_ctx ev (ctx_of p h) = (ctx_of p (h @ [ev]), verdict_of p (rule_fires (h @ [ev]) ev))"
    if "ev_type ev \<noteq> SG_EV_FS_READ" "ev_type ev \<noteq> SG_EV_CANARY_READ"
        "ev_type ev \<noteq> SG_EV_NET_CONNECT" "ev_type ev \<noteq> SG_EV_FS_WRITE"
    using that by (simp add: eval_ctx_def ctx_of_def snoc_simps verdict_simps)
  then show ?thesis
    using eval_ctx_read eval_ctx_canary eval_ctx_connect eval_ctx_write by blast
qed


subsection \<open>The context table implements the monitor\<close>

definition ctx_used :: "sotguard_pid_ctx arr \<Rightarrow> nat set" where
  "ctx_used cs = {i. i < SOTGUARD_MAX_TRACKED_PIDS \<and> c_in_use (cs i)}"

definition tracks :: "monitor \<Rightarrow> sotguard_pid_ctx arr \<Rightarrow> bool" where
  "tracks T cs \<longleftrightarrow> (\<forall>i\<in>ctx_used cs. \<exists>h. T (c_pid (cs i)) = Some h \<and> cs i = ctx_of (c_pid (cs i)) h) \<and>
     inj_on (\<lambda>i. c_pid (cs i)) (ctx_used cs) \<and> (\<forall>p\<in>dom T. \<exists>i\<in>ctx_used cs. c_pid (cs i) = p) \<and> T 0 = None"

lemma finite_ctx_used [simp]: "finite (ctx_used cs)"
  by (simp add: ctx_used_def)

lemma tracks_ctx: "tracks T cs \<Longrightarrow> i \<in> ctx_used cs \<Longrightarrow> \<exists>h. T (c_pid (cs i)) = Some h \<and> cs i = ctx_of (c_pid (cs i)) h"
  by (simp add: tracks_def)

lemma tracks_inj: "tracks T cs \<Longrightarrow> i \<in> ctx_used cs \<Longrightarrow> j \<in> ctx_used cs \<Longrightarrow> c_pid (cs i) = c_pid (cs j) \<Longrightarrow> i = j"
  by (simp add: tracks_def inj_on_def)

lemma tracks_slot: "tracks T cs \<Longrightarrow> T p = Some h \<Longrightarrow> \<exists>i\<in>ctx_used cs. c_pid (cs i) = p"
  by (auto simp: tracks_def)

lemma tracks_zero: "tracks T cs \<Longrightarrow> T 0 = None"
  by (simp add: tracks_def)

lemma tracksI:
  assumes "\<And>i. i \<in> ctx_used cs \<Longrightarrow> \<exists>h. T (c_pid (cs i)) = Some h \<and> cs i = ctx_of (c_pid (cs i)) h"
    and "\<And>i j. i \<in> ctx_used cs \<Longrightarrow> j \<in> ctx_used cs \<Longrightarrow> c_pid (cs i) = c_pid (cs j) \<Longrightarrow> i = j"
    and "\<And>p h. T p = Some h \<Longrightarrow> \<exists>i\<in>ctx_used cs. c_pid (cs i) = p" and "T 0 = None"
  shows "tracks T cs"
  using assms by (auto simp: tracks_def inj_on_def)

lemma tracks_card:
  assumes t: "tracks T cs"
  shows "card (dom T) = card (ctx_used cs)"
proof -
  have "dom T = (\<lambda>i. c_pid (cs i)) ` ctx_used cs"
    using tracks_ctx [OF t] tracks_slot [OF t] by fast
  moreover have "inj_on (\<lambda>i. c_pid (cs i)) (ctx_used cs)" using t by (simp add: tracks_def)
  ultimately show ?thesis by (simp add: card_image)
qed

lemma tracks_find_Some:
  assumes "tracks T cs" and "T p = Some h"
  obtains i where "first_idx (\<lambda>i. c_in_use (cs i) \<and> c_pid (cs i) = p) 0 SOTGUARD_MAX_TRACKED_PIDS = Some i"
    and "i \<in> ctx_used cs" and "c_pid (cs i) = p" and "cs i = ctx_of p h"
proof -
  obtain i where i: "i \<in> ctx_used cs" "c_pid (cs i) = p" using tracks_slot [OF assms] by blast
  have "first_idx (\<lambda>i. c_in_use (cs i) \<and> c_pid (cs i) = p) 0 SOTGUARD_MAX_TRACKED_PIDS = Some i"
  proof (rule first_idx_unique)
    fix k assume "k < SOTGUARD_MAX_TRACKED_PIDS" and "c_in_use (cs k) \<and> c_pid (cs k) = p"
    then have "k \<in> ctx_used cs" "c_pid (cs k) = c_pid (cs i)" using i by (simp_all add: ctx_used_def)
    then show "k = i" by (intro tracks_inj [OF assms(1) _ i(1)])
  qed (use i in \<open>simp_all add: ctx_used_def\<close>)
  moreover have "cs i = ctx_of p h" using tracks_ctx [OF assms(1) i(1)] assms(2) i(2) by simp
  ultimately show thesis using i by (intro that)
qed

lemma tracks_find_None:
  assumes "tracks T cs" and "T p = None"
  shows "first_idx (\<lambda>i. c_in_use (cs i) \<and> c_pid (cs i) = p) 0 SOTGUARD_MAX_TRACKED_PIDS = None"
proof -
  have "c_pid (cs i) \<noteq> p" if "i \<in> ctx_used cs" for i using tracks_ctx [OF assms(1) that] assms(2) by auto
  then show ?thesis by (simp add: first_idx_None_iff ctx_used_def)
qed

lemma tracks_free:
  assumes "tracks T cs"
  shows "first_idx (\<lambda>i. \<not> c_in_use (cs i)) 0 SOTGUARD_MAX_TRACKED_PIDS = None \<longleftrightarrow> 16 \<le> card (dom T)"
proof -
  have sub: "ctx_used cs \<subseteq> {..<16}" by (auto simp: ctx_used_def SOTGUARD_MAX_TRACKED_PIDS_def)
  have "first_idx (\<lambda>i. \<not> c_in_use (cs i)) 0 SOTGUARD_MAX_TRACKED_PIDS = None \<longleftrightarrow> ctx_used cs = {..<16}"
    by (auto simp: first_idx_None_iff ctx_used_def SOTGUARD_MAX_TRACKED_PIDS_def)
  also have "\<dots> \<longleftrightarrow> 16 \<le> card (ctx_used cs)"
  proof
    assume "16 \<le> card (ctx_used cs)"
    then show "ctx_used cs = {..<16}" by (intro card_seteq [OF _ sub]) simp_all
  qed simp
  finally show ?thesis by (simp add: tracks_card [OF assms])
qed

text \<open>Writing the context of \<open>p\<close> into its slot, or into a free one, records the history of \<open>p\<close>.\<close>

lemma tracks_update:
  assumes t: "tracks T cs" and p: "p \<noteq> 0" and i: "i < SOTGUARD_MAX_TRACKED_PIDS"
    and own: "(\<not> c_in_use (cs i) \<and> T p = None) \<or> (i \<in> ctx_used cs \<and> c_pid (cs i) = p)"
  shows "tracks (T (p \<mapsto> h)) (cs (i := ctx_of p h))"
proof -
  let ?cs = "cs (i := ctx_of p h)"
  have used: "ctx_used ?cs = insert i (ctx_used cs)"
    using i by (auto simp: ctx_used_def ctx_of_def)
  have cp: "c_pid (ctx_of p h) = p" by (simp add: ctx_of_def)
  have other: "c_pid (cs j) \<noteq> p" if "j \<in> ctx_used cs" "j \<noteq> i" for j
  proof
    assume "c_pid (cs j) = p"
    moreover from this have "T p \<noteq> None" using tracks_ctx [OF t that(1)] by auto
    ultimately show False using own that tracks_inj [OF t that(1), of i] by auto
  qed
  show ?thesis
  proof (rule tracksI)
    fix j assume j: "j \<in> ctx_used ?cs"
    show "\<exists>h'. (T (p \<mapsto> h)) (c_pid (?cs j)) = Some h' \<and> ?cs j = ctx_of (c_pid (?cs j)) h'"
      using j used cp other tracks_ctx [OF t, of j] by (cases "j = i") auto
  next
    fix j k assume "j \<in> ctx_used ?cs" "k \<in> ctx_used ?cs" "c_pid (?cs j) = c_pid (?cs k)"
    then show "j = k"
      using used cp other tracks_inj [OF t, of j k] by (auto split: if_splits)
  next
    fix q h' assume q: "(T (p \<mapsto> h)) q = Some h'"
    show "\<exists>j\<in>ctx_used ?cs. c_pid (?cs j) = q"
    proof (cases "q = p")
      case False
      with q have "T q = Some h'" by simp
      from tracks_slot [OF t this] obtain j where j: "j \<in> ctx_used cs" "c_pid (cs j) = q" by (elim bexE)
      then have "j \<noteq> i" using own False by (auto simp: ctx_used_def)
      with j used show ?thesis by (intro bexI [of _ j]) simp_all
    qed (use cp used in auto)
  qed (use p tracks_zero [OF t] in simp)
qed

lemma tracks_reset:
  assumes t: "tracks T cs"
  shows "tracks (T (p := None)) (sotguard_engine_reset_pid cs p)"
proof (cases "T p")
  case None
  moreover from None have "T (p := None) = T" by auto
  ultimately show ?thesis
    using t tracks_find_None [OF t None] by (simp add: sotguard_engine_reset_pid_def)
next
  case (Some h)
  then have p: "p \<noteq> 0" using tracks_zero [OF t] by auto
  obtain i where f: "first_idx (\<lambda>i. c_in_use (cs i) \<and> c_pid (cs i) = p) 0 SOTGUARD_MAX_TRACKED_PIDS = Some i"
    and i: "i \<in> ctx_used cs" "c_pid (cs i) = p"
    by (rule tracks_find_Some [OF t Some])
  have used: "ctx_used (cs (i := free_ctx)) = ctx_used cs - {i}"
    by (auto simp: ctx_used_def free_ctx_def)
  have other: "c_pid (cs j) \<noteq> p" if "j \<in> ctx_used cs" "j \<noteq> i" for j
    using tracks_inj [OF t that(1) i(1)] i(2) that(2) by auto
  have "tracks (T (p := None)) (cs (i := free_ctx))"
  proof (rule tracksI)
    fix j assume "j \<in> ctx_used (cs (i := free_ctx))"
    then show "\<exists>h'. (T (p := None)) (c_pid ((cs (i := free_ctx)) j)) = Some h' \<and>
        (cs (i := free_ctx)) j = ctx_of (c_pid ((cs (i := free_ctx)) j)) h'"
      using used other tracks_ctx [OF t, of j] by auto
  next
    fix j k assume "j \<in> ctx_used (cs (i := free_ctx))" "k \<in> ctx_used (cs (i := free_ctx))"
      "c_pid ((cs (i := free_ctx)) j) = c_pid ((cs (i := free_ctx)) k)"
    then show "j = k" using used tracks_inj [OF t, of j k] by auto
  next
    fix q h' assume q: "(T (p := None)) q = Some h'"
    then have n: "q \<noteq> p" and "T q = Some h'" by (auto split: if_splits)
    from tracks_slot [OF t this(2)] obtain j where j: "j \<in> ctx_used cs" "c_pid (cs j) = q" by (elim bexE)
    with n i have "j \<noteq> i" by auto
    with j used show "\<exists>j\<in>ctx_used (cs (i := free_ctx)). c_pid ((cs (i := free_ctx)) j) = q"
      by (intro bexI [of _ j]) simp_all
  qed (use tracks_zero [OF t] in simp)
  then show ?thesis using p f by (simp add: sotguard_engine_reset_pid_def)
qed

lemma tracks_eval:
  assumes t: "tracks T cs"
  shows "fst (engine_step a cs) = fst (monitor_step a T) \<and> tracks (snd (monitor_step a T)) (snd (engine_step a cs))"
proof (cases a)
  case (Reset p)
  then show ?thesis using tracks_reset [OF t] by (simp add: engine_step_def monitor_step_def)
next
  case (Eval ev)
  let ?p = "ev_pid ev"
  consider (zero) "?p = 0" | (known) h where "?p \<noteq> 0" "T ?p = Some h" | (new) "?p \<noteq> 0" "T ?p = None" by blast
  then show ?thesis
  proof cases
    case zero
    with Eval t show ?thesis
      by (simp add: engine_step_def monitor_step_def sotguard_engine_eval_def get_or_alloc_ctx_def)
  next
    case known
    obtain i where f: "first_idx (\<lambda>i. c_in_use (cs i) \<and> c_pid (cs i) = ?p) 0 SOTGUARD_MAX_TRACKED_PIDS = Some i"
      and i: "i \<in> ctx_used cs" "c_pid (cs i) = ?p" "cs i = ctx_of ?p h"
      by (rule tracks_find_Some [OF t known(2)])
    have "tracks (T (?p \<mapsto> h @ [ev])) (cs (i := ctx_of ?p (h @ [ev])))"
      using i by (intro tracks_update [OF t known(1)]) (simp_all add: ctx_used_def)
    with Eval known f i(3) show ?thesis
      by (simp add: engine_step_def monitor_step_def sotguard_engine_eval_def get_or_alloc_ctx_def eval_ctx_of Let_def)
  next
    case new
    note none = tracks_find_None [OF t new(2)]
    show ?thesis
    proof (cases "first_idx (\<lambda>i. \<not> c_in_use (cs i)) 0 SOTGUARD_MAX_TRACKED_PIDS")
      case None
      with Eval new none t tracks_free [OF t] show ?thesis
        by (simp add: engine_step_def monitor_step_def sotguard_engine_eval_def get_or_alloc_ctx_def)
    next
      case (Some i)
      then have free: "\<not> 16 \<le> card (dom T)" using tracks_free [OF t] by simp
      have "tracks (T (?p \<mapsto> [ev])) (cs (i := ctx_of ?p [ev]))"
        using first_idx_SomeD [OF Some] new by (intro tracks_update [OF t new(1)]) simp_all
      moreover have "get_or_alloc_ctx cs ?p = Some (i, cs (i := ctx_of ?p []))"
        unfolding get_or_alloc_ctx_def ctx_of_Nil using new none Some by simp
      then have "sotguard_engine_eval cs ev = (verdict_of ?p (rule_fires [ev] ev), cs (i := ctx_of ?p [ev]))"
        using eval_ctx_of [of ev ?p "[]"] by (simp add: sotguard_engine_eval_def)
      ultimately show ?thesis
        using Eval new free by (simp add: engine_step_def monitor_step_def Let_def)
    qed
  qed
qed

lemma tracks_run: "tracks T cs \<Longrightarrow> engine_run as cs = monitor_run as T"
proof (induction as arbitrary: T cs)
  case (Cons a as)
  from tracks_eval [OF Cons.prems, of a] Cons.IH show ?case
    by (auto simp: case_prod_beta Let_def)
qed simp

lemma tracks_init: "tracks Map.empty (sotguard_engine_init cs)"
proof -
  have "ctx_used (sotguard_engine_init cs) = {}"
    by (auto simp: ctx_used_def sotguard_engine_init_def free_ctx_def)
  then show ?thesis by (simp add: tracks_def)
qed

end
