(* ===== verification/SotGuardSafety.thy ===== *)
theory SotGuardSafety
  imports SotGuardOk
begin

text \<open>
  Properties of sotGuard: the engine implements the abstract monitor on every sequence of events
  and resets, the ring returns the newest events, and what the pump makes of a burst of writes.
\<close>


subsection \<open>The ring returns the newest events\<close>

fun emit_all :: "sotguard_event list \<Rightarrow> sotguard_bus \<Rightarrow> sotguard_bus" where
  "emit_all [] b = b"
| "emit_all (e # es) b = emit_all es (snd (sotguard_emit (Some e) b))"

definition bus_holds :: "sotguard_event list \<Rightarrow> sotguard_bus \<Rightarrow> bool" where
  "bus_holds h b \<longleftrightarrow> g_head b = length h mod 256 \<and> g_total b = of_nat (length h) \<and> length h < 2 ^ 64 \<and>
     (\<forall>k<length h. k < 256 \<longrightarrow> g_ring b ((length h - Suc k) mod 256) = rev h ! k)"

lemma bus_holds_init: "bus_holds [] (sotguard_event_init b)"
  by (simp add: bus_holds_def sotguard_event_init_def)

definition emittable :: "sotguard_event \<Rightarrow> bool" where
  "emittable e \<longleftrightarrow> ev_type e \<noteq> SG_EV_NONE \<and> ev_type e \<le> SOTGUARD_EMIT_MAX_KIND"

lemma mod_256_neq:
  assumes "k < 255" and "Suc k \<le> n"
  shows "(n - Suc k) mod 256 \<noteq> n mod (256 :: nat)"
proof
  assume "(n - Suc k) mod 256 = n mod 256"
  then have "256 dvd n - (n - Suc k)" using mod_eq_dvd_iff_nat [of "n - Suc k" n 256] by simp
  with assms show False by (auto dest: dvd_imp_le)
qed

lemma bus_holds_emit:
  assumes b: "bus_holds h b" and e: "emittable e" and n: "Suc (length h) < 2 ^ 64"
  shows "bus_holds (h @ [e]) (snd (sotguard_emit (Some e) b))"
proof -
  let ?b = "snd (sotguard_emit (Some e) b)"
  have f: "g_head ?b = Suc (length h) mod 256" "g_total ?b = of_nat (Suc (length h))"
      "g_ring ?b = (g_ring b) (length h mod 256 := e)"
    using b e by (auto simp: sotguard_emit_def emittable_def bus_holds_def SOTGUARD_RING_CAPACITY_def Let_def mod_Suc_eq)
  have "g_ring ?b ((Suc (length h) - Suc k) mod 256) = rev (h @ [e]) ! k" if k: "k < Suc (length h)" "k < 256" for k
  proof (cases k)
    case 0
    then show ?thesis using f(3) by simp
  next
    case (Suc j)
    then have "(length h - Suc j) mod 256 \<noteq> length h mod 256" using k by (intro mod_256_neq) simp_all
    moreover have "g_ring b ((length h - Suc j) mod 256) = rev h ! j"
      using b k Suc unfolding bus_holds_def by simp
    ultimately show ?thesis using f(3) Suc by simp
  qed
  with f n show ?thesis unfolding bus_holds_def by simp
qed

lemma bus_holds_emit_all:
  "bus_holds h b \<Longrightarrow> list_all emittable es \<Longrightarrow> length h + length es < 2 ^ 64 \<Longrightarrow> bus_holds (h @ es) (emit_all es b)"
proof (induction es arbitrary: h b)
  case (Cons e es)
  then have "bus_holds (h @ [e]) (snd (sotguard_emit (Some e) b))" by (intro bus_holds_emit) simp_all
  from Cons.IH [OF this] Cons.prems show ?case by simp
qed simp

lemma recent_loop_map:
  "idx < 256 \<Longrightarrow> n \<le> 256 \<Longrightarrow> recent_loop ring idx n = map (\<lambda>k. ring ((idx + 255 - k) mod 256)) [0..<n]"
proof (induction n arbitrary: idx)
  case (Suc n)
  let ?i = "(idx + 255) mod 256"
  have i: "(if idx = 0 then SOTGUARD_RING_CAPACITY - 1 else idx - 1) = ?i"
    using Suc.prems by (auto simp: SOTGUARD_RING_CAPACITY_def mod_if)
  have "recent_loop ring ?i n = map (\<lambda>k. ring ((?i + 255 - k) mod 256)) [0..<n]"
    using Suc.prems by (intro Suc.IH) simp_all
  also have "\<dots> = map (\<lambda>k. ring ((idx + 255 - Suc k) mod 256)) [0..<n]"
  proof (rule map_cong [OF refl])
    fix k assume "k \<in> set [0..<n]"
    then have k: "k < 255" using Suc.prems by simp
    have "(?i + 255 - k) mod 256 = (?i + (255 - k)) mod 256" using k by simp
    also have "\<dots> = (idx + 255 + (255 - k)) mod 256" by (simp add: mod_add_left_eq)
    also have "idx + 255 + (255 - k) = (idx + 255 - Suc k) + 256" using k by simp
    finally show "ring ((?i + 255 - k) mod 256) = ring ((idx + 255 - Suc k) mod 256)" by simp
  qed
  finally show ?case
    unfolding recent_loop.simps Let_def i by (simp add: upt_conv_Cons map_Suc_upt [symmetric] del: upt_Suc map_Suc_upt)
qed simp

lemma sotguard_recent_newest:
  assumes b: "bus_holds h b"
  shows "sotguard_recent b want = take want (take 256 (rev h))"
proof -
  let ?n = "min want (min 256 (length h))"
  have v: "(if g_total b < of_nat SOTGUARD_RING_CAPACITY then unat (g_total b) else SOTGUARD_RING_CAPACITY) = min 256 (length h)"
    using b by (auto simp: bus_holds_def SOTGUARD_RING_CAPACITY_def word_less_nat_alt unat_of_nat)
  have "sotguard_recent b want = recent_loop (g_ring b) (length h mod 256) ?n"
    using b unfolding sotguard_recent_def v Let_def by (simp add: bus_holds_def min_def)
  also have "\<dots> = map (\<lambda>k. g_ring b ((length h mod 256 + 255 - k) mod 256)) [0..<?n]"
    by (rule recent_loop_map) simp_all
  also have "\<dots> = map (\<lambda>k. rev h ! k) [0..<?n]"
  proof (rule map_cong [OF refl])
    fix k assume "k \<in> set [0..<?n]"
    then have k: "k < 256" "k < length h" by simp_all
    have "(length h mod 256 + 255 - k) mod 256 = (length h mod 256 + (255 - k)) mod 256" using k by simp
    also have "\<dots> = (length h + (255 - k)) mod 256" by (simp add: mod_add_left_eq)
    also have "length h + (255 - k) = (length h - Suc k) + 256" using k by simp
    finally have "(length h mod 256 + 255 - k) mod 256 = (length h - Suc k) mod 256" by simp
    then show "g_ring b ((length h mod 256 + 255 - k) mod 256) = rev h ! k" using b k by (simp add: bus_holds_def)
  qed
  also have "\<dots> = take ?n (rev h)" by (rule nth_equalityI) (auto simp: min_def)
  finally show ?thesis by (simp add: min_def)
qed


subsection \<open>The pump\<close>

datatype pump_op = Emit sotguard_event | Tick

fun pump_run :: "pump_op list \<Rightarrow> sotguard_bus \<Rightarrow> sotguard_pid_ctx arr \<Rightarrow> sotguard_rule_result list" where
  "pump_run [] b cs = []"
| "pump_run (Emit e # as) b cs = pump_run as (snd (sotguard_emit (Some e) b)) cs"
| "pump_run (Tick # as) b cs = (let (vs, cs) = sotguard_pump_tick b cs in vs @ pump_run as b cs)"

lemma pump_run_emits: "pump_run (map Emit es @ as) b cs = pump_run as (emit_all es b) cs"
  by (induction es arbitrary: b) simp_all

lemma eval_all_append:
  "eval_all (xs @ ys) cs = (let (vs, cs) = eval_all xs cs; (ws, cs) = eval_all ys cs in (vs @ ws, cs))"
  by (induction xs arbitrary: cs) (auto simp: Let_def case_prod_beta split: option.splits)

lemma pump_run_ticks:
  "pump_run (replicate k Tick) b cs = fst (eval_all (concat (replicate k (sotguard_recent b SG_PUMP_POLL_WINDOW))) cs)"
  by (induction k arbitrary: cs) (simp_all add: sotguard_pump_tick_def eval_all_append Let_def case_prod_beta)

lemma eval_slot0:
  assumes "ev_pid ev = p" and "p \<noteq> 0"
  shows "sotguard_engine_eval (cs (0 := ctx_of p h)) ev =
    (verdict_of p (rule_fires (h @ [ev]) ev), cs (0 := ctx_of p (h @ [ev])))"
proof -
  have "first_idx (\<lambda>i. c_in_use ((cs (0 := ctx_of p h)) i) \<and> c_pid ((cs (0 := ctx_of p h)) i) = p)
      0 SOTGUARD_MAX_TRACKED_PIDS = Some 0"
    by (subst first_idx.simps) (simp add: SOTGUARD_MAX_TRACKED_PIDS_def ctx_of_def)
  with assms show ?thesis
    by (simp add: sotguard_engine_eval_def get_or_alloc_ctx_def eval_ctx_of)
qed

lemma eval_all_rules:
  assumes "\<forall>e\<in>set es. ev_pid e = p" and "p \<noteq> 0"
  shows "r_rule ` set (fst (eval_all es (cs (0 := ctx_of p h)))) =
    (\<lambda>i. rule_fires (h @ take (Suc i) es) (es ! i)) ` {..<length es} - {SG_RULE_NONE}"
  using assms(1)
proof (induction es arbitrary: h)
  case (Cons e es)
  let ?r = "rule_fires (h @ [e]) e"
  have v: "r_rule ` set (case verdict_of p ?r of None \<Rightarrow> vs | Some r \<Rightarrow> r # vs) = ({?r} \<union> r_rule ` set vs) - {SG_RULE_NONE}"
    if "SG_RULE_NONE \<notin> r_rule ` set vs" for vs
    using that by (auto simp: verdict_of_def split: sotguard_rule_id.splits)
  let ?A = "(\<lambda>i. rule_fires ((h @ [e]) @ take (Suc i) es) (es ! i)) ` {..<length es}"
  let ?vs = "fst (eval_all es (cs (0 := ctx_of p (h @ [e]))))"
  have IH: "r_rule ` set ?vs = ?A - {SG_RULE_NONE}" using Cons.prems by (intro Cons.IH) simp
  have A: "(\<lambda>i. rule_fires (h @ take (Suc i) (e # es)) ((e # es) ! i)) ` {..<length (e # es)} = insert ?r ?A"
    by (simp add: lessThan_Suc_eq_insert_0 image_image)
  have "ev_pid e = p" using Cons.prems by simp
  then have "fst (eval_all (e # es) (cs (0 := ctx_of p h))) = (case verdict_of p ?r of None \<Rightarrow> ?vs | Some r \<Rightarrow> r # ?vs)"
    using eval_slot0 [OF _ assms(2), of e] by (simp add: case_prod_beta Let_def)
  then have "r_rule ` set (fst (eval_all (e # es) (cs (0 := ctx_of p h)))) = {?r} \<union> (?A - {SG_RULE_NONE}) - {SG_RULE_NONE}"
    using v [of ?vs] IH by simp
  also have "\<dots> = insert ?r ?A - {SG_RULE_NONE}" by blast
  finally show ?case unfolding A .
qed simp

lemma eval_all_fresh:
  assumes "es \<noteq> []" and "\<forall>e\<in>set es. ev_pid e = p" and "p \<noteq> 0"
  shows "eval_all es (sotguard_engine_init cs) = eval_all es ((sotguard_engine_init cs) (0 := ctx_of p []))"
proof -
  obtain e es' where es: "es = e # es'" using assms(1) by (cases es) auto
  let ?cs = "sotguard_engine_init cs"
  have free: "\<not> c_in_use (?cs i)" if "i < SOTGUARD_MAX_TRACKED_PIDS" for i
    using that by (simp add: sotguard_engine_init_def free_ctx_def)
  have "first_idx (\<lambda>i. c_in_use (?cs i) \<and> c_pid (?cs i) = p) 0 SOTGUARD_MAX_TRACKED_PIDS = None"
    using free by (simp add: first_idx_None_iff)
  moreover have "first_idx (\<lambda>i. \<not> c_in_use (?cs i)) 0 SOTGUARD_MAX_TRACKED_PIDS = Some 0"
    using free by (subst first_idx.simps) (simp add: SOTGUARD_MAX_TRACKED_PIDS_def)
  ultimately have "get_or_alloc_ctx ?cs p = Some (0, ?cs (0 := ctx_of p []))"
    unfolding get_or_alloc_ctx_def ctx_of_Nil using assms(3) by simp
  then have "sotguard_engine_eval ?cs e = sotguard_engine_eval (?cs (0 := ctx_of p [])) e"
    using eval_slot0 [of e p ?cs "[]"] eval_ctx_of [of e p "[]"] assms es by (simp add: sotguard_engine_eval_def)
  then show ?thesis using es by simp
qed

lemma rule_fires_write:
  "ev_type ev = SG_EV_FS_WRITE \<Longrightarrow> rule_fires h ev = SG_RULE_BURST_WRITES \<longleftrightarrow> burst (write_stamps h)"
  by (simp add: rule_fires_def)

lemma write_stamps_writes: "\<forall>e\<in>set h. ev_type e = SG_EV_FS_WRITE \<Longrightarrow> write_stamps h = rev (map ev_timestamp h)"
  by (simp add: write_stamps_def rev_map)

lemma backwards_gap:
  fixes s t :: u64
  assumes "unat s < unat t" and "unat t < 2 ^ 63"
  shows "\<not> s - t < 1000000"
proof -
  have "unat (s - t) = unat s + 2 ^ 64 - unat t"
    using assms by (simp add: unat_sub_if')
  then show ?thesis using assms by (simp add: word_less_nat_alt)
qed

text \<open>The pump over a ring that holds writes of one process only.\<close>

lemma pump_burst_iff:
  fixes k :: nat
  assumes p: "p \<noteq> 0" and ws: "\<forall>w\<in>set ws. ev_pid w = p \<and> ev_type w = SG_EV_FS_WRITE" and n: "length ws < 2 ^ 64"
  defines "S \<equiv> concat (replicate k (take 16 (rev ws)))"
  shows "SG_RULE_BURST_WRITES \<in> r_rule ` set (pump_run (map Emit ws @ replicate k Tick)
      (sotguard_event_init b) (sotguard_pump_init cs)) \<longleftrightarrow>
    (\<exists>i<length S. burst (rev (map ev_timestamp (take (Suc i) S))))"
proof -
  have "list_all emittable ws"
    using ws by (simp add: list_all_iff emittable_def SG_EV_FS_WRITE_def SG_EV_NONE_def SOTGUARD_EMIT_MAX_KIND_def SG_EV_CANARY_READ_def)
  then have "bus_holds ws (emit_all ws (sotguard_event_init b))"
    using bus_holds_emit_all [OF bus_holds_init] n by simp
  then have w: "sotguard_recent (emit_all ws (sotguard_event_init b)) SG_PUMP_POLL_WINDOW = take 16 (rev ws)"
    by (simp add: sotguard_recent_newest SG_PUMP_POLL_WINDOW_def)
  have "set S \<subseteq> set ws"
    unfolding S_def by (auto dest!: in_set_takeD split: if_splits)
  then have S: "\<forall>e\<in>set S. ev_pid e = p" "\<And>e. e \<in> set S \<Longrightarrow> ev_type e = SG_EV_FS_WRITE" using ws by auto
  have run: "pump_run (map Emit ws @ replicate k Tick) (sotguard_event_init b) (sotguard_pump_init cs) =
      fst (eval_all S (sotguard_engine_init cs))"
    unfolding pump_run_emits pump_run_ticks w S_def sotguard_pump_init_def ..
  have eq: "SG_RULE_BURST_WRITES = rule_fires (take (Suc i) S) (S ! i) \<longleftrightarrow> burst (rev (map ev_timestamp (take (Suc i) S)))"
    if "i < length S" for i
  proof -
    have "\<forall>e\<in>set (take (Suc i) S). ev_type e = SG_EV_FS_WRITE" using S(2) by (auto dest: in_set_takeD)
    then show ?thesis
      using rule_fires_write [OF S(2) [OF nth_mem [OF that]], of "take (Suc i) S"] by (auto simp: write_stamps_writes)
  qed
  show ?thesis
  proof (cases "S = []")
    case False
    have "r_rule ` set (fst (eval_all S (sotguard_engine_init cs))) =
        (\<lambda>i. rule_fires (take (Suc i) S) (S ! i)) ` {..<length S} - {SG_RULE_NONE}"
      unfolding eval_all_fresh [OF False S(1) p] eval_all_rules [OF S(1) p] by simp
    then show ?thesis unfolding run using eq by (auto simp: image_iff)
  qed (simp add: run)
qed

lemma burst_replicate: "t \<noteq> 0 \<Longrightarrow> burst (replicate n t) \<longleftrightarrow> 10 < n"
  by (auto simp: burst_def)

lemma nth_concat_replicate: "q < k * length W \<Longrightarrow> concat (replicate k W) ! q = W ! (q mod length W)"
proof (induction k arbitrary: q)
  case (Suc k)
  show ?case
  proof (cases "q < length W")
    case False
    with Suc.prems have "concat (replicate k W) ! (q - length W) = W ! ((q - length W) mod length W)"
      by (intro Suc.IH) simp
    with False show ?thesis by (simp add: nth_append le_mod_geq)
  qed (simp add: nth_append)
qed simp

text \<open>In a repeated strictly descending window one of any two adjacent gaps goes backwards.\<close>

lemma no_burst_descending:
  assumes W: "2 \<le> length W" and d: "sorted_wrt (\<lambda>v w. ev_timestamp w < ev_timestamp v) W"
    and bd: "\<forall>w\<in>set W. unat (ev_timestamp w) < 2 ^ 63" and i: "i < k * length W"
  shows "\<not> burst (rev (map ev_timestamp (take (Suc i) (concat (replicate k W)))))" (is "\<not> burst ?ts")
proof
  assume b: "burst ?ts"
  let ?m = "length W"
  have len: "length (concat (replicate k W)) = k * ?m" by (simp add: length_concat sum_list_replicate)
  have l: "length ?ts = Suc i" using i len by simp
  have i10: "10 < Suc i" using b l unfolding burst_def by simp
  have nth: "?ts ! j = ev_timestamp (W ! ((i - j) mod ?m))" if "j \<le> i" for j
    using that i l len by (simp add: rev_nth nth_concat_replicate)
  have gap: "ev_timestamp (W ! ((i - j) mod ?m)) - ev_timestamp (W ! ((i - Suc j) mod ?m)) < 1000000" if "j < 10" for j
  proof -
    have "?ts ! j - ?ts ! Suc j < 1000000" using b that unfolding burst_def by blast
    then show ?thesis using that i10 by (simp add: nth)
  qed
  have backwards: False if j: "j < 10" and r: "(i - j) mod ?m \<noteq> 0" for j
  proof -
    have "i - j = Suc (i - Suc j)" using j i10 by simp
    then have s: "(i - j) mod ?m = Suc ((i - Suc j) mod ?m)" using r by (metis mod_Suc)
    have "(i - j) mod ?m < ?m" using W by (intro mod_less_divisor) linarith
    then have lt: "(i - Suc j) mod ?m < (i - j) mod ?m" "(i - j) mod ?m < ?m" using s by simp_all
    then have "ev_timestamp (W ! ((i - j) mod ?m)) < ev_timestamp (W ! ((i - Suc j) mod ?m))"
      using d by (simp add: sorted_wrt_iff_nth_less)
    moreover have "unat (ev_timestamp (W ! ((i - Suc j) mod ?m))) < 2 ^ 63" using bd lt by simp
    ultimately show False using backwards_gap gap [OF j] by (simp add: word_less_nat_alt)
  qed
  have "i mod ?m = 0" "(i - 1) mod ?m = 0" using backwards [of 0] backwards [of 1] by auto
  then have "?m dvd i" "?m dvd i - 1" by auto
  then have "?m dvd i - (i - 1)" by (rule dvd_diff_nat)
  then show False using W i10 by simp
qed


subsection \<open>Properties\<close>


text \<open>
  C17: The pump turns the burst rule around. After the writes \<open>ws\<close> of one process, with the
  increasing time stamps that \<^verbatim>\<open>anomaly_on_write\<close> gives them, and \<open>k\<close> ticks of the pump,
  a burst verdict appears if and only if there was a single write and at least eleven ticks: the
  window is read newest first, so that each gap inside a real burst is negative and wraps around,
  while one write that stays in the window is counted again on every tick.
\<close>

theorem pump_inverts_bursts:
  assumes "p \<noteq> 0" and "ws \<noteq> []" and "length ws < 2 ^ 64"
    and ws: "\<forall>w\<in>set ws. ev_pid w = p \<and> ev_type w = SG_EV_FS_WRITE \<and> 0 < unat (ev_timestamp w) \<and> unat (ev_timestamp w) < 2 ^ 63"
    and inc: "sorted_wrt (\<lambda>v w. ev_timestamp v < ev_timestamp w) ws"
  shows "SG_RULE_BURST_WRITES \<in> r_rule ` set (pump_run (map Emit ws @ replicate k Tick)
      (sotguard_event_init b) (sotguard_pump_init cs)) \<longleftrightarrow> length ws = 1 \<and> 11 \<le> k"
proof -
  let ?W = "take 16 (rev ws)"
  have "\<forall>w\<in>set ws. ev_pid w = p \<and> ev_type w = SG_EV_FS_WRITE" using ws by blast
  note iff = pump_burst_iff [OF assms(1) this assms(3)]
  show ?thesis
  proof (cases "length ws = 1")
    case True
    then obtain w where w: "ws = [w]" by (auto simp: length_Suc_conv)
    then have "ev_timestamp w \<noteq> 0" using ws by auto
    moreover have "concat (replicate k ?W) = replicate k w" using w by (induction k) simp_all
    ultimately show ?thesis
      unfolding iff using True by (auto simp: min_def burst_replicate map_replicate_const intro!: exI [of _ 10])
  next
    case False
    moreover have "length ws \<noteq> 0" using assms(2) by simp
    ultimately have W: "2 \<le> length ?W" unfolding length_take length_rev by linarith
    have d: "sorted_wrt (\<lambda>v w. ev_timestamp w < ev_timestamp v) ?W"
      using inc by (intro sorted_wrt_take) (simp add: sorted_wrt_rev)
    have bd: "\<forall>w\<in>set ?W. unat (ev_timestamp w) < 2 ^ 63" using ws by (auto dest: in_set_takeD)
    show ?thesis
      unfolding iff using no_burst_descending [OF W d bd] False
      by (simp add: length_concat sum_list_replicate)
  qed
qed

definition sample_write :: "u64 \<Rightarrow> sotguard_event" where
  "sample_write t = \<lparr>ev_pid = 3, ev_type = SG_EV_FS_WRITE, ev_conn_id = 0, ev_timestamp = t, ev_detail = replicate 80 0\<rparr>"

definition sample_bus :: sotguard_bus where
  "sample_bus = \<lparr>g_ring = (\<lambda>_. sg_zero_event), g_head = 0, g_total = 0, g_wal_attached = False, bus_wal = []\<rparr>"

theorem pump_inverts_bursts_witness:
  "SG_RULE_BURST_WRITES \<notin> r_rule ` set (pump_run (map Emit (map sample_write [1, 2, 3, 4, 5, 6, 7, 8, 9, 10, 11, 12]) @ replicate 40 Tick)
      (sotguard_event_init sample_bus) (sotguard_pump_init (\<lambda>_. free_ctx))) \<and>
   SG_RULE_BURST_WRITES \<in> r_rule ` set (pump_run (map Emit [sample_write 1] @ replicate 11 Tick)
      (sotguard_event_init sample_bus) (sotguard_pump_init (\<lambda>_. free_ctx)))"
proof -
  have p: "(3 :: u32) \<noteq> 0" by simp
  have h1: "\<forall>w\<in>set (map sample_write [1, 2, 3, 4, 5, 6, 7, 8, 9, 10, 11, 12]). ev_pid w = 3 \<and> ev_type w = SG_EV_FS_WRITE \<and>
      0 < unat (ev_timestamp w) \<and> unat (ev_timestamp w) < 2 ^ 63"
    by (simp add: sample_write_def)
  have h2: "\<forall>w\<in>set [sample_write 1]. ev_pid w = 3 \<and> ev_type w = SG_EV_FS_WRITE \<and>
      0 < unat (ev_timestamp w) \<and> unat (ev_timestamp w) < 2 ^ 63"
    by (simp add: sample_write_def)
  have s1: "sorted_wrt (\<lambda>v w. ev_timestamp v < ev_timestamp w) (map sample_write [1, 2, 3, 4, 5, 6, 7, 8, 9, 10, 11, 12])"
    by (simp add: sample_write_def)
  show ?thesis
    using pump_inverts_bursts [OF p _ _ h1 s1, of 40 sample_bus "\<lambda>_. free_ctx"]
      pump_inverts_bursts [OF p _ _ h2, of 11 sample_bus "\<lambda>_. free_ctx"] by simp
qed

end
