(* ===== verification/LucasSafety.thy ===== *)
theory LucasSafety
  imports LucasGate AnomalySafety UnveilOk SotGuardSafety
begin

text \<open>
  What the pledge gate guarantees about a run of a sandbox, and how it interacts with the trust
  tiers: a class of system calls that was given up is never served again, and a violation of the
  pledge lowers the containment of a sandbox that was already isolated.
\<close>


subsection \<open>The mask only shrinks\<close>

definition sub_mask :: "pledge_mask \<Rightarrow> pledge_mask \<Rightarrow> bool" where
  "sub_mask a b \<longleftrightarrow> a AND b = a"

lemma sub_mask_refl [simp]: "sub_mask a a"
  by (simp add: sub_mask_def)

lemma sub_mask_trans: "sub_mask a b \<Longrightarrow> sub_mask b c \<Longrightarrow> sub_mask a c"
  unfolding sub_mask_def by (metis and.assoc)

lemma sub_mask_ALL [simp]: "sub_mask a PLEDGE_ALL"
proof -
  have all: "PLEDGE_ALL = - 1" by (simp add: PLEDGE_ALL_def)
  show ?thesis unfolding sub_mask_def all by (rule and.right_neutral)
qed

lemma sub_mask_disjoint: "sub_mask a b \<Longrightarrow> b AND c = 0 \<Longrightarrow> a AND c = 0"
  unfolding sub_mask_def by (metis and.assoc and_zero_eq)

lemma set_tier_frame:
  "st_pledge (fst (lucas_set_tier t sw)) = st_pledge (fst sw)"
  "pledge_violations (fst (lucas_set_tier t sw)) = pledge_violations (fst sw)"
  "synthetic_pid (fst (lucas_set_tier t sw)) = synthetic_pid (fst sw)"
  "trusted (fst (lucas_set_tier t sw)) = trusted (fst sw)"
  "write_count (fst (lucas_set_tier t sw)) = write_count (fst sw)"
  "w_anomaly (snd (lucas_set_tier t sw)) = w_anomaly (snd sw)"
  by (simp_all add: lucas_set_tier_def Let_def case_prod_beta)

lemma violation_frame:
  "st_pledge (fst (pledge_violation sysno sw)) = st_pledge (fst sw)"
  "pledge_violations (fst (pledge_violation sysno sw)) = pledge_violations (fst sw) + 1"
  by (simp_all add: pledge_violation_def Let_def case_prod_beta set_tier_frame)

lemma sys_pledge_shrinks: "sub_mask (st_pledge (snd (lucas_sys_pledge mem va st))) (st_pledge st)"
proof -
  have "sub_mask (c AND r) c" for c r :: u64 unfolding sub_mask_def by (simp add: ac_simps)
  then show ?thesis by (auto simp: lucas_sys_pledge_def Let_def split: option.splits)
qed

text \<open>What the gate needs of the other handlers: none of them assigns the mask of the sandbox.\<close>

definition keeps_pledge :: "(u64 \<Rightarrow> handler) \<Rightarrow> bool" where
  "keeps_pledge H \<longleftrightarrow> (\<forall>n a sw. st_pledge (fst (snd (H n a sw))) = st_pledge (fst sw))"

lemma dispatch_call_shrinks:
  assumes "keeps_pledge H"
  shows "sub_mask (st_pledge (fst (snd (lucas_dispatch_call H mem n a sw)))) (st_pledge (fst sw))"
proof -
  have "sub_mask (st_pledge (fst (snd (lucas_dispatch H mem n a sw')))) (st_pledge (fst sw'))" for sw'
    using assms [unfolded keeps_pledge_def, rule_format, of n a sw'] sys_pledge_shrinks [of mem "a 0" "fst sw'"]
    by (simp add: lucas_dispatch_def Let_def case_prod_beta)
  from this [of "(fst sw, (snd sw) \<lparr>w_current_caller := Some (synthetic_pid (fst sw))\<rparr>)"] show ?thesis
    by (simp add: lucas_dispatch_call_def Let_def case_prod_beta violation_frame)
qed

fun sandbox_run :: "(u64 \<Rightarrow> handler) \<Rightarrow> (client_mem \<times> u64 \<times> (nat \<Rightarrow> u64)) list \<Rightarrow> lucas_state \<times> world \<Rightarrow> lucas_state \<times> world" where
  "sandbox_run H [] sw = sw"
| "sandbox_run H ((mem, n, a) # cs) sw = sandbox_run H cs (snd (lucas_dispatch_call H mem n a sw))"

lemma sandbox_run_shrinks:
  "keeps_pledge H \<Longrightarrow> sub_mask (st_pledge (fst (sandbox_run H cs sw))) (st_pledge (fst sw))"
proof (induction cs arbitrary: sw)
  case (Cons c cs)
  obtain mem n a where c: "c = (mem, n, a)" by (cases c)
  show ?case
    unfolding c sandbox_run.simps
    by (rule sub_mask_trans [OF Cons.IH [OF Cons.prems] dispatch_call_shrinks [OF Cons.prems]])
qed simp

lemma gate_refuses:
  assumes "cat \<noteq> 0" "cat = pledge_check_args n a" "st_pledge (fst sw) AND cat = 0"
  shows "lucas_dispatch_call H mem n a sw = (0, pledge_violation n sw)"
proof -
  have "st_pledge (fst sw) \<noteq> PLEDGE_ALL"
  proof
    assume "st_pledge (fst sw) = PLEDGE_ALL"
    with assms(3) have "cat AND PLEDGE_ALL = 0" by (simp add: and.commute)
    with assms(1) show False using sub_mask_ALL [of cat] by (simp add: sub_mask_def)
  qed
  with assms show ?thesis by (simp add: lucas_dispatch_call_def Let_def)
qed

text \<open>
  C8: A class that was given up stays given up. Along any run of system calls of a sandbox, under
  handlers that do not assign the mask themselves, the mask only loses bits, and any system call
  whose class (for an open: by its access mode) is outside of the mask of some earlier moment
  reaches no handler at all: whatever the handlers are, it returns 0, counts one violation, leaves
  the mask as it is and does nothing else but the violation block of the gate.
\<close>

theorem pledge_confines:
  fixes cs :: "(client_mem \<times> u64 \<times> (nat \<Rightarrow> u64)) list"
  assumes H: "keeps_pledge H" and cat: "pledge_check_args n a \<noteq> 0" "st_pledge (fst sw) AND pledge_check_args n a = 0"
  defines "sw' \<equiv> sandbox_run H cs sw"
  shows "st_pledge (fst sw') AND st_pledge (fst sw) = st_pledge (fst sw') \<and>
    (\<forall>H2. lucas_dispatch_call H2 mem n a sw' = (0, pledge_violation n sw')) \<and>
    st_pledge (fst (pledge_violation n sw')) = st_pledge (fst sw') \<and>
    pledge_violations (fst (pledge_violation n sw')) = pledge_violations (fst sw') + 1"
proof -
  have sub: "sub_mask (st_pledge (fst sw')) (st_pledge (fst sw))"
    unfolding sw'_def by (rule sandbox_run_shrinks [OF H])
  from sub_mask_disjoint [OF this cat(2)] show ?thesis
    using sub cat(1) gate_refuses [OF cat(1) refl] by (simp add: violation_frame sub_mask_def)
qed

definition sample_state :: lucas_state where
  "sample_state = \<lparr>synthetic_pid = 3, slot_index = 2, procd_slot = 0, tier = 2, trusted = False, st_functor = Some LUCAS_F_2,
     write_count = 1, anomaly_triggers = 0, curvature_alerts = 0, st_pledge = PLEDGE_T_CANARY_TARGET, pledge_violations = 0,
     st_unveil = unveil_zero\<rparr>"

definition sample_world :: "anomaly \<Rightarrow> world" where
  "sample_world s = \<lparr>w_bus = sample_bus, w_anomaly_monotonic = 0, w_pledge_seq = 0, w_tcp_open_ts = 0, w_curvature_monotonic = 0,
     w_anomaly = Some s, w_tier_trace = [], w_procd_set_tier = [], w_current_caller = None\<rparr>"

definition null_handlers :: "u64 \<Rightarrow> handler" where
  "null_handlers n a sw = (0, sw)"

lemma canary_target_no_inet: "PLEDGE_T_CANARY_TARGET AND pledge_check_args LX_SYS_socket (\<lambda>_. 0) = 0"
  by code_simp

lemma socket_class: "pledge_check_args LX_SYS_socket (\<lambda>_. 0) \<noteq> 0"
  by code_simp

theorem pledge_confines_witness:
  "lucas_dispatch_call null_handlers (\<lambda>_. None) LX_SYS_socket (\<lambda>_. 0) (sample_state, sample_world empty_server) =
     (0, pledge_violation LX_SYS_socket (sample_state, sample_world empty_server))"
proof -
  have "keeps_pledge null_handlers" by (simp add: keeps_pledge_def null_handlers_def)
  moreover have "st_pledge (fst (sample_state, sample_world empty_server)) AND pledge_check_args LX_SYS_socket (\<lambda>_. 0) = 0"
    by (simp add: sample_state_def canary_target_no_inet)
  ultimately show ?thesis
    using pledge_confines [of null_handlers LX_SYS_socket "\<lambda>_. 0" "(sample_state, sample_world empty_server)" "[]" "\<lambda>_. None"]
      socket_class by simp
qed



subsection \<open>The gate against the isolation tier\<close>

text \<open>
  The server has nothing left to say about process \<open>i\<close>: its tier is 2, its one promotion is
  spent, and its watermark is not above the write count \<open>c\<close>.
\<close>

definition settled :: "anomaly \<Rightarrow> nat \<Rightarrow> u32 \<Rightarrow> bool" where
  "settled s i c \<longleftrightarrow> an_applied_tier s i = 2 \<and> an_promoted s i \<and> an_write_counts s i \<le> c"

lemma score_fold_settled:
  assumes "an_applied_tier s (nat p) = 2"
  shows "fst (anomaly_score_fold s p k b) = 0"
    and "an_applied_tier (snd (anomaly_score_fold s p k b)) = an_applied_tier s"
    and "an_promoted (snd (anomaly_score_fold s p k b)) = an_promoted s"
  using assms by (simp_all add: anomaly_score_fold_def Let_def)

lemma sync_bonus_frame [simp]:
  "an_applied_tier (snd (sync_bonus s i k m)) = an_applied_tier s" "an_promoted (snd (sync_bonus s i k m)) = an_promoted s"
  by (simp_all add: sync_bonus_def unlink_burst_def Let_def)

lemma handle_sync_settled:
  assumes p: "1 \<le> p" "p < 16" and s: "settled s (nat p) c" and c: "c \<noteq> 0" and k: "sync_kind k"
  shows "fst (anomaly_handle_sync s p k m c slot) = 0" and "settled (snd (anomaly_handle_sync s p k m c slot)) (nat p) c"
proof -
  define s1 where "s1 = (if slot \<noteq> 0 then s \<lparr>an_procd_slots := (an_procd_slots s) (nat p := slot)\<rparr> else s)"
  define s2 where "s2 = s1 \<lparr>an_write_counts := (an_write_counts s1) (nat p := c)\<rparr>"
  define b where "b = sync_bonus s2 (nat p) k m"
  have w: "an_write_counts s1 (nat p) \<le> c" using s by (simp add: s1_def settled_def)
  have a: "an_applied_tier (snd b) (nat p) = 2" and pr: "an_promoted (snd b) (nat p)" and wc: "an_write_counts (snd b) (nat p) = c"
    using s by (simp_all add: b_def s2_def s1_def settled_def)
  note f = score_fold_settled [OF a, of k "fst b"]
  have eq: "anomaly_handle_sync s p k m c slot =
      (0, snd (anomaly_score_fold (snd b) p k (fst b)))"
    using p k f(1) unfolding anomaly_handle_sync_def Let_def s1_def [symmetric] fresh_tenant_same [OF c w]
      s2_def [symmetric] b_def sync_bonus_def sync_kind_def by (auto simp: case_prod_beta)
  show "fst (anomaly_handle_sync s p k m c slot) = 0" by (simp add: eq)
  show "settled (snd (anomaly_handle_sync s p k m c slot)) (nat p) c"
    using a pr wc by (simp add: eq settled_def f)
qed

lemma small_pid:
  assumes "1 \<le> p" "p < 16"
  shows "sint (ucast (of_int p :: u64) :: u32) = (p :: int)"
proof -
  have "p = 1 \<or> p = 2 \<or> p = 3 \<or> p = 4 \<or> p = 5 \<or> p = 6 \<or> p = 7 \<or> p = 8 \<or> p = 9 \<or> p = 10 \<or> p = 11 \<or> p = 12 \<or>
      p = 13 \<or> p = 14 \<or> p = 15" using assms by presburger
  then show ?thesis by (elim disjE) simp_all
qed

lemma u32_through_u64: "(ucast (ucast (c :: u32) :: u64) :: u32) = c"
  by (rule bit_word_eqI) (simp add: bit_ucast_iff)

lemma unat_succ: "(c :: u32) + 1 \<noteq> 0 \<Longrightarrow> unat (c + 1) = Suc (unat c)"
  using unatSuc [of c] by (simp add: add.commute)

lemma sync_kind_word: "sync_kind k \<Longrightarrow> sint (ucast (of_int k :: u64) :: u32) = k"
  by (auto simp: sync_kind_def anomaly_kinds)

text \<open>The sandbox runs silenced while the server has nothing left to say about it.\<close>

definition stranded :: "lucas_state \<times> world \<Rightarrow> bool" where
  "stranded sw \<longleftrightarrow> tier (fst sw) = 1 \<and> st_functor (fst sw) = Some LUCAS_F_1 \<and> 1 \<le> synthetic_pid (fst sw) \<and> synthetic_pid (fst sw) < 16 \<and>
     write_count (fst sw) \<noteq> 0 \<and>
     (\<exists>s. w_anomaly (snd sw) = Some s \<and> settled s (nat (synthetic_pid (fst sw))) (write_count (fst sw)))"

lemma forward_sync_settled:
  assumes p: "1 \<le> synthetic_pid st" "synthetic_pid st < 16" and k: "sync_kind k" and c: "write_count st \<noteq> 0"
    and w: "w_anomaly w = Some s" and s: "settled s (nat (synthetic_pid st)) (write_count st)"
  shows "fst (anomaly_forward_sync st k m w) = 0"
    and "\<exists>s'. w_anomaly (snd (anomaly_forward_sync st k m w)) = Some s' \<and> settled s' (nat (synthetic_pid st)) (write_count st)"
proof -
  let ?mr = "msg_regs [of_int (synthetic_pid st), of_int k, m, ucast (write_count st), ucast (procd_slot st)]"
  have m: "msg_pid ?mr = synthetic_pid st" "msg_kind ?mr = k" "msg_count ?mr = write_count st"
    using small_pid [OF p] sync_kind_word [OF k]
    by (simp_all add: msg_pid_def msg_kind_def msg_count_def msg_regs_def u32_through_u64)
  have sk: "sync_kind (msg_kind ?mr)" unfolding m(2) by (rule k)
  note h = handle_sync_settled [OF p s c k, of "?mr 2" "ucast (?mr 4)"]
  have sv: "anomaly_serve ORCH_OP_ANOMALY_EVENT ?mr s =
      ([0], snd (anomaly_handle_sync s (synthetic_pid st) k (?mr 2) (write_count st) (ucast (?mr 4))))"
    unfolding serve_sync [OF sk] m using h(1) by (simp add: case_prod_beta Let_def)
  show "fst (anomaly_forward_sync st k m w) = 0"
    using p w unfolding anomaly_forward_sync_def anomaly_call_def by (simp add: sv reply_tier_def)
  show "\<exists>s'. w_anomaly (snd (anomaly_forward_sync st k m w)) = Some s' \<and> settled s' (nat (synthetic_pid st)) (write_count st)"
    using p w h(2) unfolding anomaly_forward_sync_def anomaly_call_def by (simp add: sv)
qed

lemma promotion_spent:
  assumes p: "1 \<le> p" "p < 16" and s: "an_promoted s (nat p)" and k: "k = ANOMALY_EV_TCP_OPEN \<or> k = ANOMALY_EV_CURVATURE"
  shows "anomaly_serve ORCH_OP_ANOMALY_EVENT (msg_regs (of_int p # of_int k # mrs)) s = ([0], s)"
proof -
  have "\<not> promotable s p" using s by (simp add: promotable_def)
  then show ?thesis
    using k small_pid [OF p] unfolding anomaly_serve_def by (auto simp: msg_regs_def anomaly_kinds)
qed

lemma emit_event_frame [simp]: "w_anomaly (emit_event ev w) = w_anomaly w"
  by (simp add: emit_event_def)

lemma stranded_write:
  assumes st: "stranded (st, w)" and wc: "write_count st + 1 \<noteq> 0"
  shows "stranded (anomaly_on_write fd bytes (st, w)) \<and>
    unat (write_count (fst (anomaly_on_write fd bytes (st, w)))) \<le> Suc (unat (write_count st))"
proof (cases "fd = 1 \<or> fd = 2")
  case False
  let ?st = "st \<lparr>write_count := write_count st + 1\<rparr>"
  have "write_count st \<le> write_count st + 1"
    using unat_succ [OF wc] by (simp add: word_le_nat_alt)
  then obtain s where s: "w_anomaly w = Some s" "settled s (nat (synthetic_pid st)) (write_count st + 1)"
    using st by (auto simp: stranded_def settled_def)
  have p: "1 \<le> synthetic_pid ?st" "synthetic_pid ?st < 16" using st by (simp_all add: stranded_def)
  define w1 where "w1 = emit_event (sg_event ?st SG_EV_FS_WRITE (w_anomaly_monotonic w + 1) (le_bytes 8 (unat fd) @ le_bytes 8 (unat bytes)))
      (w \<lparr>w_anomaly_monotonic := w_anomaly_monotonic w + 1\<rparr>)"
  have w1: "w_anomaly w1 = Some s" using s(1) by (simp add: w1_def)
  note f = forward_sync_settled [OF p, of ANOMALY_EV_WRITE w1 s bytes]
  have f0: "fst (anomaly_forward_sync ?st ANOMALY_EV_WRITE bytes w1) = 0"
    using f(1) wc w1 s(2) by (simp add: sync_kind_def)
  have f1: "\<exists>s'. w_anomaly (snd (anomaly_forward_sync ?st ANOMALY_EV_WRITE bytes w1)) = Some s' \<and>
      settled s' (nat (synthetic_pid st)) (write_count st + 1)"
    using f(2) wc w1 s(2) by (simp add: sync_kind_def)
  have "anomaly_on_write fd bytes (st, w) = (?st, if trusted st then w1 else snd (anomaly_forward_sync ?st ANOMALY_EV_WRITE bytes w1))"
    using False f0 unfolding anomaly_on_write_def w1_def by (simp add: case_prod_beta Let_def)
  moreover have "unat (write_count st + 1) \<le> Suc (unat (write_count st))"
    using unat_succ [OF wc] by simp
  ultimately show ?thesis
    using st wc w1 s(2) f1 by (simp add: stranded_def)
qed (use st in \<open>simp add: anomaly_on_write_def\<close>)

lemma stranded_report:
  assumes st: "stranded (st, w)" and k: "sync_kind k"
  shows "stranded (report_sync k m (st, w)) \<and> fst (report_sync k m (st, w)) = st"
proof -
  obtain s where s: "w_anomaly w = Some s" "settled s (nat (synthetic_pid st)) (write_count st)"
    using st by (auto simp: stranded_def)
  have p: "1 \<le> synthetic_pid st" "synthetic_pid st < 16" "write_count st \<noteq> 0" using st by (simp_all add: stranded_def)
  note f = forward_sync_settled [OF p(1,2) k p(3) s, of m]
  have "report_sync k m (st, w) = (st, snd (anomaly_forward_sync st k m w))"
    using f(1) by (simp add: report_sync_def case_prod_beta Let_def)
  with f(2) st show ?thesis by (simp add: stranded_def)
qed

lemma stranded_connect:
  assumes st: "stranded (st, w)"
  shows "stranded (tcp_audit_open ip rp lp (st, w)) \<and> fst (tcp_audit_open ip rp lp (st, w)) = st"
proof -
  obtain s where s: "w_anomaly w = Some s" "settled s (nat (synthetic_pid st)) (write_count st)"
    using st by (auto simp: stranded_def)
  have p: "1 \<le> synthetic_pid st" "synthetic_pid st < 16" using st by (simp_all add: stranded_def)
  have pr: "an_promoted s (nat (synthetic_pid st))" using s(2) by (simp add: settled_def)
  show ?thesis
    using promotion_spent [OF p pr, of ANOMALY_EV_TCP_OPEN] s st
    by (simp add: tcp_audit_open_def anomaly_call_def Let_def reply_tier_def stranded_def)
qed

lemma stranded_curvature:
  assumes st: "stranded (st, w)"
  shows "stranded (sotfs_graph_curvature_anomaly_notify r v (st, w)) \<and>
    write_count (fst (sotfs_graph_curvature_anomaly_notify r v (st, w))) = write_count st"
proof -
  obtain s where s: "w_anomaly w = Some s" "settled s (nat (synthetic_pid st)) (write_count st)"
    using st by (auto simp: stranded_def)
  have p: "1 \<le> synthetic_pid st" "synthetic_pid st < 16" using st by (simp_all add: stranded_def)
  have pr: "an_promoted s (nat (synthetic_pid st))" using s(2) by (simp add: settled_def)
  show ?thesis
    using promotion_spent [OF p pr, of ANOMALY_EV_CURVATURE] s st
    by (simp add: sotfs_graph_curvature_anomaly_notify_def anomaly_call_def Let_def reply_tier_def stranded_def)
qed

text \<open>What the sandbox can do that the monitors see, apart from violating its pledge.\<close>

datatype act = Write u64 u64 | Report int u64 | Connect u32 u16 u16 | Curvature int int

fun do_act :: "act \<Rightarrow> lucas_state \<times> world \<Rightarrow> lucas_state \<times> world" where
  "do_act (Write fd bytes) sw = anomaly_on_write fd bytes sw"
| "do_act (Report kind magnitude) sw = report_sync kind magnitude sw"
| "do_act (Connect ip rport lport) sw = tcp_audit_open ip rport lport sw"
| "do_act (Curvature rule severity) sw = sotfs_graph_curvature_anomaly_notify rule severity sw"

fun act_ok :: "act \<Rightarrow> bool" where
  "act_ok (Report kind magnitude) \<longleftrightarrow> sync_kind kind"
| "act_ok _ \<longleftrightarrow> True"

lemma stranded_act:
  assumes st: "stranded sw" and ok: "act_ok x" and wc: "write_count (fst sw) + 1 \<noteq> 0"
  shows "stranded (do_act x sw) \<and> unat (write_count (fst (do_act x sw))) \<le> Suc (unat (write_count (fst sw)))"
proof -
  obtain s w where sw: "sw = (s, w)" by (cases sw)
  show ?thesis
  proof (cases x)
    case (Write fd bytes)
    then show ?thesis using stranded_write [of s w] st wc by (simp add: sw)
  next
    case (Report kind magnitude)
    then show ?thesis using stranded_report [of s w kind magnitude] st ok by (simp add: sw)
  next
    case (Connect ip rport lport)
    then show ?thesis using stranded_connect [of s w ip rport lport] st by (simp add: sw)
  next
    case (Curvature rule severity)
    then show ?thesis using stranded_curvature [of s w rule severity] st by (simp add: sw)
  qed
qed

lemma stranded_acts:
  "stranded sw \<Longrightarrow> list_all act_ok xs \<Longrightarrow> unat (write_count (fst sw)) + length xs < 2 ^ 32 \<Longrightarrow> stranded (fold do_act xs sw)"
proof (induction xs arbitrary: sw)
  case (Cons x xs)
  have wc: "write_count (fst sw) + 1 \<noteq> 0"
  proof
    assume "write_count (fst sw) + 1 = 0"
    then have "write_count (fst sw) = - 1" by (simp add: eq_neg_iff_add_eq_0)
    then have "unat (write_count (fst sw)) = 2 ^ 32 - 1" by (simp add: unsigned_minus_1_eq_mask mask_eq_exp_minus_1)
    with Cons.prems(3) show False by simp
  qed
  have ok: "act_ok x" using Cons.prems by simp
  note n = stranded_act [OF Cons.prems(1) ok wc]
  then show ?case using Cons.IH [of "do_act x sw"] Cons.prems by simp
qed simp

lemma violation_served:
  "anomaly_serve ORCH_OP_ANOMALY_EVENT (msg_regs (p # of_int ANOMALY_EV_PLEDGE_VIOLATION # mrs)) s = ([], s)"
  by (simp add: anomaly_serve_def msg_regs_def anomaly_kinds)

lemma violation_strands:
  assumes t: "\<not> trusted st" and p: "1 \<le> synthetic_pid st" "synthetic_pid st < 16" and v: "pledge_violations st < 2"
    and w: "w_anomaly w = Some s" "settled s (nat (synthetic_pid st)) (write_count st)" "write_count st \<noteq> 0"
  shows "stranded (pledge_violation sysno (st, w)) \<and> write_count (fst (pledge_violation sysno (st, w))) = write_count st"
proof -
  let ?st = "st \<lparr>pledge_violations := pledge_violations st + 1\<rparr>"
  have "unat (pledge_violations st) < 2" using v by (simp add: word_less_nat_alt)
  then have "\<not> 3 \<le> pledge_violations st + 1" by (simp add: word_le_nat_alt unat_word_ariths)
  moreover have "tier (fst (lucas_set_tier 1 (?st, w))) = 1" "st_functor (fst (lucas_set_tier 1 (?st, w))) = Some LUCAS_F_1"
    using t by (simp_all add: lucas_set_tier_def lucas_functor_for_tier_def Let_def)
  ultimately show ?thesis
    using p w by (simp add: pledge_violation_def Let_def case_prod_beta set_tier_frame stranded_def anomaly_call_def violation_served)
qed



end
