(* ===== verification/UnitTable.thy ===== *)
theory UnitTable
  imports Prelude
begin

text \<open>
  The unit registry of the init server (\<^verbatim>\<open>include/sotinit/unit.h\<close>,
  \<^verbatim>\<open>src/sotinit/unit_registry.c\<close>), the parser of unit files (\<^verbatim>\<open>ini_parser.c\<close>) and the two
  passes that fill the registry at boot (\<^verbatim>\<open>scan.c\<close>, \<^verbatim>\<open>sotfs_scan.c\<close>).

  A \<^verbatim>\<open>unit_t *\<close> is the index of its slot, \<open>NULL\<close> is \<open>None\<close>; the kind 0 that no enumerator names
  is \<open>None\<close>. The names of \<^verbatim>\<open>After=\<close> are a list, whose length is \<^verbatim>\<open>after_count\<close>. A C string in a
  buffer is the list of characters before its terminator.
\<close>

subsection \<open>Data\<close>

definition SOTINIT_MAX_UNITS :: nat where [limits]: "SOTINIT_MAX_UNITS = 64"
definition SOTINIT_NAME_MAX :: nat where [limits]: "SOTINIT_NAME_MAX = 64"
definition SOTINIT_DESC_MAX :: nat where [limits]: "SOTINIT_DESC_MAX = 128"
definition SOTINIT_EXEC_MAX :: nat where [limits]: "SOTINIT_EXEC_MAX = 256"
definition SOTINIT_MAX_AFTER :: nat where [limits]: "SOTINIT_MAX_AFTER = 3"

datatype unit_kind = UNIT_KIND_SERVICE | UNIT_KIND_TIMER | UNIT_KIND_TARGET

datatype unit_state = UNIT_STATE_LOADED | UNIT_STATE_ACTIVE | UNIT_STATE_FAILED | UNIT_STATE_DISABLED

definition UNIT_FLAG_F_PERSISTENCE :: u32 where [limits]: "UNIT_FLAG_F_PERSISTENCE = push_bit 0 1"
definition UNIT_FLAG_ACTIVATE_LOGGED :: u32 where [limits]: "UNIT_FLAG_ACTIVATE_LOGGED = push_bit 1 1"

record unit_t =
  u_index :: u32
  u_kind :: "unit_kind option"
  u_state :: unit_state
  u_name :: string
  u_description :: string
  u_exec_start :: string
  u_on_calendar :: string
  u_timer_unit :: string
  u_procd_slot :: u32
  u_restart_policy :: u32
  u_next_fire_tsc :: u64
  u_last_fire_tsc :: u64
  u_after :: "string list"
  u_flags :: u32

record unit_registry =
  g_units :: "unit_t arr"
  g_unit_count :: nat

definition zero_unit :: unit_t where
  "zero_unit = \<lparr>u_index = 0, u_kind = None, u_state = UNIT_STATE_LOADED, u_name = [], u_description = [],
     u_exec_start = [], u_on_calendar = [], u_timer_unit = [], u_procd_slot = 0, u_restart_policy = 0,
     u_next_fire_tsc = 0, u_last_fire_tsc = 0, u_after = [], u_flags = 0\<rparr>"

definition empty_registry :: unit_registry where
  "empty_registry = \<lparr>g_units = (\<lambda>_. zero_unit), g_unit_count = 0\<rparr>"

text \<open>A store through a \<^verbatim>\<open>unit_t *\<close>.\<close>

definition unit_update :: "nat \<Rightarrow> (unit_t \<Rightarrow> unit_t) \<Rightarrow> unit_registry \<Rightarrow> unit_registry" where
  "unit_update i f R = R\<lparr>g_units := (g_units R)(i := f (g_units R i))\<rparr>"

lemma unit_update_select [simp]:
  "g_unit_count (unit_update i f R) = g_unit_count R"
  "g_units (unit_update i f R) k = (if k = i then f (g_units R i) else g_units R k)"
  by (simp_all add: unit_update_def)


subsection \<open>The registry\<close>

definition sotinit_unit_alloc :: "unit_registry \<Rightarrow> (nat \<times> unit_registry) option" where
  "sotinit_unit_alloc R =
     (if SOTINIT_MAX_UNITS \<le> g_unit_count R then None
      else let i = g_unit_count R
           in Some (i, R\<lparr>g_units := (g_units R)(i := zero_unit\<lparr>u_index := of_nat i, u_state := UNIT_STATE_LOADED\<rparr>),
                         g_unit_count := i + 1\<rparr>))"

definition sotinit_unit_by_index :: "unit_registry \<Rightarrow> nat \<Rightarrow> nat option" where
  "sotinit_unit_by_index R idx = (if g_unit_count R \<le> idx then None else Some idx)"

definition sotinit_unit_by_name :: "unit_registry \<Rightarrow> string \<Rightarrow> nat option" where
  "sotinit_unit_by_name R name = first_idx (\<lambda>i. u_name (g_units R i) = name) 0 (g_unit_count R)"

definition sotinit_unit_by_procd_slot :: "unit_registry \<Rightarrow> u32 \<Rightarrow> nat option" where
  "sotinit_unit_by_procd_slot R slot =
     (if slot = 0 then None else first_idx (\<lambda>i. u_procd_slot (g_units R i) = slot) 0 (g_unit_count R))"


subsection \<open>Unit files\<close>

datatype ini_section =
  INI_SECTION_NONE | INI_SECTION_UNIT | INI_SECTION_SERVICE | INI_SECTION_TIMER | INI_SECTION_INSTALL

definition section_from_name :: "string \<Rightarrow> ini_section" where
  "section_from_name name =
     (if name = ''Unit'' then INI_SECTION_UNIT
      else if name = ''Service'' then INI_SECTION_SERVICE
      else if name = ''Timer'' then INI_SECTION_TIMER
      else if name = ''Install'' then INI_SECTION_INSTALL
      else INI_SECTION_NONE)"

definition blank :: "char \<Rightarrow> bool" where
  "blank c \<longleftrightarrow> c = CHR '' '' \<or> c = CHR 0x09"

definition trail :: "char \<Rightarrow> bool" where
  "trail c \<longleftrightarrow> blank c \<or> c = CHR 0x0A \<or> c = CHR 0x0D"

definition trim :: "string \<Rightarrow> string" where
  "trim s = rev (dropWhile trail (rev (dropWhile blank s)))"

text \<open>The body of the loop for one line, after the copy into the line buffer.\<close>

definition ini_line ::
    "(ini_section \<Rightarrow> string \<Rightarrow> string \<Rightarrow> 'u \<Rightarrow> int \<times> 'u) \<Rightarrow> string \<Rightarrow> ini_section \<times> int \<times> 'u \<Rightarrow> ini_section \<times> int \<times> 'u" where
  "ini_line cb line s =
     (let (current, kv_count, u) = s; t = trim line in
      if t = [] \<or> hd t = CHR ''#'' \<or> hd t = CHR '';'' then s
      else if hd t = CHR ''['' then
        (if CHR '']'' \<in> set t then (section_from_name (takeWhile (\<lambda>c. c \<noteq> CHR '']'') (tl t)), kv_count, u) else s)
      else if CHR ''='' \<notin> set t then s
      else
        let key = trim (takeWhile (\<lambda>c. c \<noteq> CHR ''='') t);
            val = trim (tl (dropWhile (\<lambda>c. c \<noteq> CHR ''='') t));
            (r, u') = cb current key val u
        in (current, if r = 0 then kv_count + 1 else kv_count, u'))"

definition INI_LINE_BYTES :: nat where [limits]: "INI_LINE_BYTES = 256"

text \<open>One turn reads up to the next line feed, keeping what fits in the buffer up to a NUL byte.\<close>

function ini_loop ::
    "(ini_section \<Rightarrow> string \<Rightarrow> string \<Rightarrow> 'u \<Rightarrow> int \<times> 'u) \<Rightarrow> string \<Rightarrow> ini_section \<times> int \<times> 'u \<Rightarrow> ini_section \<times> int \<times> 'u" where
  "ini_loop cb buf s =
     (if buf = [] then s
      else ini_loop cb (drop 1 (dropWhile (\<lambda>c. c \<noteq> CHR 0x0A) buf))
             (ini_line cb (takeWhile (\<lambda>c. c \<noteq> CHR 0x00)
                (take (INI_LINE_BYTES - 1) (takeWhile (\<lambda>c. c \<noteq> CHR 0x0A) buf))) s))"
  by pat_completeness auto
termination
proof (relation "measure (\<lambda>(cb, buf, s). length buf)", goal_cases)
  case (2 cb buf s)
  then have "length (drop 1 (dropWhile (\<lambda>c. c \<noteq> CHR 0x0A) buf)) < length buf"
    using length_dropWhile_le [of "\<lambda>c. c \<noteq> CHR 0x0A" buf] by (cases buf) auto
  then show ?case by simp
qed simp

declare ini_loop.simps [simp del]

definition sotinit_ini_parse ::
    "string \<Rightarrow> (ini_section \<Rightarrow> string \<Rightarrow> string \<Rightarrow> 'u \<Rightarrow> int \<times> 'u) \<Rightarrow> 'u \<Rightarrow> int \<times> 'u" where
  "sotinit_ini_parse buf cb u = snd (ini_loop cb buf (INI_SECTION_NONE, 0, u))"

text \<open>The words of \<^verbatim>\<open>After=\<close>, appended to those already there, up to the limit.\<close>

function after_loop :: "string \<Rightarrow> string list \<Rightarrow> string list" where
  "after_loop p acc =
     (if p = [] \<or> SOTINIT_MAX_AFTER \<le> length acc then acc
      else let q = dropWhile blank p in
           if q = [] then acc
           else after_loop (dropWhile (\<lambda>c. \<not> blank c) q)
                  (acc @ [cstr_copy SOTINIT_NAME_MAX (takeWhile (\<lambda>c. \<not> blank c) q)]))"
  by pat_completeness auto
termination
  by (relation "measure (\<lambda>(p, acc). SOTINIT_MAX_AFTER - length acc)") auto

declare after_loop.simps [simp del]

definition kv_callback :: "ini_section \<Rightarrow> string \<Rightarrow> string \<Rightarrow> unit_t \<Rightarrow> int \<times> unit_t" where
  "kv_callback section key val u =
     (0, case section of
           INI_SECTION_UNIT \<Rightarrow>
             if key = ''Description'' then u\<lparr>u_description := cstr_copy SOTINIT_DESC_MAX val\<rparr>
             else if key = ''After'' then u\<lparr>u_after := after_loop val (u_after u)\<rparr>
             else u
         | INI_SECTION_SERVICE \<Rightarrow>
             if key = ''ExecStart'' then u\<lparr>u_exec_start := cstr_copy SOTINIT_EXEC_MAX val\<rparr>
             else if key = ''Restart'' then
               (if val = ''no'' then u\<lparr>u_restart_policy := 0\<rparr>
                else if val = ''on-failure'' then u\<lparr>u_restart_policy := 1\<rparr>
                else if val = ''always'' then u\<lparr>u_restart_policy := 2\<rparr>
                else u)
             else u
         | INI_SECTION_TIMER \<Rightarrow>
             if key = ''OnCalendar'' \<or> key = ''OnUnitActiveSec'' then u\<lparr>u_on_calendar := cstr_copy 64 val\<rparr>
             else if key = ''Unit'' then u\<lparr>u_timer_unit := cstr_copy 64 val\<rparr>
             else u
         | _ \<Rightarrow> u)"

definition kind_from_filename :: "string \<Rightarrow> unit_kind option" where
  "kind_from_filename name =
     (if CHR ''.'' \<notin> set name then None
      else let suffix = rev (takeWhile (\<lambda>c. c \<noteq> CHR ''.'') (rev name)) in
           if suffix = ''service'' then Some UNIT_KIND_SERVICE
           else if suffix = ''timer'' then Some UNIT_KIND_TIMER
           else if suffix = ''target'' then Some UNIT_KIND_TARGET
           else None)"


subsection \<open>Filling the registry\<close>

text \<open>Loading one file: the new registry and whether the scan goes on and counts the file.\<close>

primrec scan_loop :: "(string \<times> string) list \<Rightarrow> int \<times> unit_registry \<Rightarrow> int \<times> unit_registry" where
  "scan_loop [] s = s"
| "scan_loop (src # rest) s =
     (case kind_from_filename (fst src) of
        None \<Rightarrow> scan_loop rest s
      | Some kind \<Rightarrow>
          (case sotinit_unit_alloc (snd s) of
             None \<Rightarrow> s
           | Some (i, R) \<Rightarrow>
               let u = (g_units R i)\<lparr>u_kind := Some kind, u_name := cstr_copy SOTINIT_NAME_MAX (fst src)\<rparr>
               in scan_loop rest (fst s + 1, unit_update i (\<lambda>_. snd (sotinit_ini_parse (snd src) kv_callback u)) R)))"

definition text_of :: "string list \<Rightarrow> string" where
  "text_of ls = concat (map (\<lambda>l. l @ [CHR 0x0A]) ls)"

definition g_bundled :: "(string \<times> string) list" where
  "g_bundled =
     [(''multi-user.target'', text_of [''[Unit]'', ''Description=Multi-user run level'']),
      (''demo-noop.service'', text_of [''[Unit]'', ''Description=Beta-demo no-op service'', ''[Service]'',
         ''Type=simple'', ''ExecStart=/bin/true'', ''[Install]'', ''WantedBy=multi-user.target'']),
      (''demo-b.service'', text_of [''[Unit]'', ''Description=Demo B (after A)'', ''After=demo-a.service'',
         ''[Service]'', ''Type=simple'', ''ExecStart=/bin/true'']),
      (''demo-a.service'', text_of [''[Unit]'', ''Description=Demo A (first)'', ''[Service]'', ''Type=simple'',
         ''ExecStart=/bin/true'']),
      (''demo-fail.service'', text_of [''[Unit]'', ''Description=Demo failure (exits 1)'', ''[Service]'',
         ''Type=simple'', ''ExecStart=/bin/false'', ''Restart=on-failure''])]"

definition sotinit_scan_units :: "(string \<times> string) list \<Rightarrow> unit_registry \<Rightarrow> int \<times> unit_registry" where
  "sotinit_scan_units bundled R = scan_loop bundled (0, R)"

fun strstr :: "string \<Rightarrow> string \<Rightarrow> bool" where
  "strstr s t = (take (length t) s = t \<or> (case s of [] \<Rightarrow> False | _ # s' \<Rightarrow> strstr s' t))"

declare strstr.simps [simp del]

definition basename :: "string \<Rightarrow> string" where
  "basename path = rev (takeWhile (\<lambda>c. c \<noteq> CHR ''/'') (rev path))"

definition sotinit_sotfs_paths :: "string list" where
  "sotinit_sotfs_paths = [''/etc/systemd/system/backdoor.service'', ''/etc/systemd/system/backdoor.timer'']"

primrec sotinit_sotfs_scan_loop :: "string list \<Rightarrow> int \<times> unit_registry \<Rightarrow> int \<times> unit_registry" where
  "sotinit_sotfs_scan_loop [] s = s"
| "sotinit_sotfs_scan_loop (path # rest) s =
     (case sotinit_unit_alloc (snd s) of
        None \<Rightarrow> s
      | Some (i, R) \<Rightarrow>
          sotinit_sotfs_scan_loop rest (fst s + 1,
            unit_update i (\<lambda>u. u\<lparr>u_name := cstr_copy SOTINIT_NAME_MAX (basename path),
              u_kind := Some (if strstr path ''.timer'' then UNIT_KIND_TIMER else UNIT_KIND_SERVICE),
              u_state := UNIT_STATE_LOADED, u_flags := UNIT_FLAG_F_PERSISTENCE\<rparr>) R))"

definition sotinit_sotfs_scan_now :: "string list \<Rightarrow> unit_registry \<Rightarrow> int \<times> unit_registry" where
  "sotinit_sotfs_scan_now paths R = sotinit_sotfs_scan_loop paths (0, R)"

end
