(* ===== verification/TopoSort.thy ===== *)
theory TopoSort
  imports UnitTable
begin

text \<open>
  The activation order of the units: Kahn's algorithm over \<^verbatim>\<open>After=\<close>
  (\<^verbatim>\<open>src/sotinit/topo_sort.c\<close>), and its correctness. The loop over the queue is a partial
  function; that it returns on every well-formed registry is part of the result.

  \<open>deps R i\<close> are the units that unit \<open>i\<close> waits for, \<open>depends R\<close> the relation they make. The
  invariant of the loop says that the indegree of a unit is the number of its dependencies
  that are not yet emitted, and that the queue holds, without repetition, the units whose
  indegree is zero, each behind its dependencies.
\<close>

subsection \<open>The algorithm\<close>

record kahn =
  k_indeg :: "u8 arr"
  k_queue :: "nat list"
  k_qhead :: nat
  k_out :: "nat list"

definition indegree :: "unit_registry \<Rightarrow> nat \<Rightarrow> u8" where
  "indegree R i =
     (if i < g_unit_count R
      then fold (\<lambda>nm d. if sotinit_unit_by_name R nm \<noteq> None then d + 1 else d) (u_after (g_units R i)) 0
      else 0)"

definition kahn_init :: "unit_registry \<Rightarrow> kahn" where
  "kahn_init R = \<lparr>k_indeg = indegree R, k_queue = filter (\<lambda>i. indegree R i = 0) [0..<g_unit_count R],
     k_qhead = 0, k_out = []\<rparr>"

definition relax_edge :: "unit_registry \<Rightarrow> nat \<Rightarrow> nat \<Rightarrow> string \<Rightarrow> kahn \<Rightarrow> kahn" where
  "relax_edge R idx i nm st =
     (case sotinit_unit_by_name R nm of
        None \<Rightarrow> st
      | Some dep \<Rightarrow>
          if u_index (g_units R dep) = of_nat idx then
            let d = (if 0 < k_indeg st i then k_indeg st i - 1 else k_indeg st i)
            in st\<lparr>k_indeg := (k_indeg st)(i := d),
                  k_queue := (if d = 0 then k_queue st @ [i] else k_queue st)\<rparr>
          else st)"

definition relax_unit :: "unit_registry \<Rightarrow> nat \<Rightarrow> nat \<Rightarrow> kahn \<Rightarrow> kahn" where
  "relax_unit R idx i st = fold (relax_edge R idx i) (u_after (g_units R i)) st"

definition kahn_step :: "unit_registry \<Rightarrow> kahn \<Rightarrow> kahn" where
  "kahn_step R st =
     (let idx = k_queue st ! k_qhead st
      in fold (relax_unit R idx) [0..<g_unit_count R] (st\<lparr>k_qhead := k_qhead st + 1, k_out := k_out st @ [idx]\<rparr>))"

partial_function (option) kahn_loop :: "unit_registry \<Rightarrow> kahn \<Rightarrow> kahn option" where
  [code]: "kahn_loop R st = (if k_qhead st < length (k_queue st) then kahn_loop R (kahn_step R st) else Some st)"

definition sotinit_topo_sort :: "unit_registry \<Rightarrow> (int \<times> nat list) option" where
  "sotinit_topo_sort R =
     (case kahn_loop R (kahn_init R) of
        None \<Rightarrow> None
      | Some st \<Rightarrow>
          if length (k_out st) < g_unit_count R
          then Some (- 1, k_out st @ filter (\<lambda>i. i \<notin> set (k_out st)) [0..<g_unit_count R])
          else Some (0, k_out st))"


subsection \<open>Well-formed registries\<close>

definition unit_ok :: "nat \<Rightarrow> unit_t \<Rightarrow> bool" where
  "unit_ok i u \<longleftrightarrow> u_index u = of_nat i \<and> length (u_after u) \<le> SOTINIT_MAX_AFTER \<and>
     (\<forall>nm \<in> set (u_after u). length nm < SOTINIT_NAME_MAX) \<and> length (u_name u) < SOTINIT_NAME_MAX \<and>
     length (u_description u) < SOTINIT_DESC_MAX \<and> length (u_exec_start u) < SOTINIT_EXEC_MAX \<and>
     length (u_on_calendar u) < 64 \<and> length (u_timer_unit u) < 64 \<and> u_restart_policy u \<le> 2"

definition registry_ok :: "unit_registry \<Rightarrow> bool" where
  "registry_ok R \<longleftrightarrow> g_unit_count R \<le> SOTINIT_MAX_UNITS \<and> (\<forall>i < g_unit_count R. unit_ok i (g_units R i))"

lemma by_name_SomeD: "sotinit_unit_by_name R nm = Some d \<Longrightarrow> d < g_unit_count R \<and> u_name (g_units R d) = nm"
  by (auto simp: sotinit_unit_by_name_def dest: first_idx_SomeD)

definition deps :: "unit_registry \<Rightarrow> nat \<Rightarrow> nat list" where
  "deps R i = List.map_filter (sotinit_unit_by_name R) (u_after (g_units R i))"

definition depends :: "unit_registry \<Rightarrow> (nat \<times> nat) set" where
  "depends R = {(d, i). i < g_unit_count R \<and> d \<in> set (deps R i)}"

lemma deps_bound: "d \<in> set (deps R i) \<Longrightarrow> d < g_unit_count R"
  by (auto simp: deps_def List.map_filter_def dest: by_name_SomeD)

lemma map_filter_Cons:
  "List.map_filter f (x # xs) = (case f x of None \<Rightarrow> List.map_filter f xs | Some y \<Rightarrow> y # List.map_filter f xs)"
  by (simp add: List.map_filter_def split: option.split)

lemma registry_okD:
  assumes "registry_ok R"
  shows "g_unit_count R \<le> 64" "i < g_unit_count R \<Longrightarrow> unit_ok i (g_units R i)"
    "i < g_unit_count R \<Longrightarrow> u_index (g_units R i) = of_nat i"
    "i < g_unit_count R \<Longrightarrow> length (u_after (g_units R i)) \<le> 3"
  using assms by (auto simp: registry_ok_def unit_ok_def limits)

lemma length_deps: "registry_ok R \<Longrightarrow> i < g_unit_count R \<Longrightarrow> length (deps R i) \<le> 3"
  by (simp add: deps_def List.map_filter_def order_trans [OF length_filter_le registry_okD(4)])


subsection \<open>One emitted unit\<close>

lemma indegree_fold:
  "fold (\<lambda>nm d. if sotinit_unit_by_name R nm \<noteq> None then d + 1 else d) nms (d0 :: u8) =
     d0 + of_nat (length (List.map_filter (sotinit_unit_by_name R) nms))"
  by (induction nms arbitrary: d0) (auto simp: map_filter_Cons split: option.split)

lemma indegree_deps:
  assumes "registry_ok R" and "i < g_unit_count R"
  shows "unat (indegree R i) = length (deps R i)"
  using length_deps [OF assms] assms(2)
  by (simp add: indegree_def indegree_fold deps_def [symmetric] unat_of_nat_small del: not_None_eq)

text \<open>The scan of the names of one unit takes away one for each mention of the emitted unit.\<close>

lemma relax_names:
  assumes "registry_ok R" and "idx < g_unit_count R"
    and "count_list (List.map_filter (sotinit_unit_by_name R) nms) idx \<le> unat (k_indeg st i)"
  shows "fold (relax_edge R idx i) nms st =
    (let c = count_list (List.map_filter (sotinit_unit_by_name R) nms) idx in
     st\<lparr>k_indeg := (k_indeg st)(i := k_indeg st i - of_nat c),
        k_queue := k_queue st @ (if 0 < c \<and> unat (k_indeg st i) = c then [i] else [])\<rparr>)"
  using assms(3)
proof (induction nms arbitrary: st)
  case Nil
  have "(k_indeg st)(i := k_indeg st i - of_nat 0) = k_indeg st" by (simp add: fun_eq_iff)
  then show ?case by (simp only: fold_simps id_apply Let_def List.map_filter_def filter.simps list.map count_list.simps) simp
next
  case (Cons nm nms)
  let ?f = "sotinit_unit_by_name R"
  show ?case
  proof (cases "?f nm = Some idx")
    case False
    have "relax_edge R idx i nm st = st"
    proof (cases "?f nm")
      case (Some d)
      then have "d < g_unit_count R" and "d \<noteq> idx" using by_name_SomeD False by auto
      then have "u_index (g_units R d) \<noteq> of_nat idx"
        using assms(2) registry_okD(1,3) [OF assms(1)] by (simp add: word_of_nat_eq_iff take_bit_nat_eq_self)
      with Some show ?thesis by (simp add: relax_edge_def)
    qed (simp add: relax_edge_def)
    moreover have "count_list (List.map_filter ?f (nm # nms)) idx = count_list (List.map_filter ?f nms) idx"
      using False by (simp add: map_filter_Cons split: option.split)
    ultimately show ?thesis using Cons.IH [of st] Cons.prems by simp
  next
    case True
    let ?c = "count_list (List.map_filter ?f nms) idx"
    let ?d = "k_indeg st i - 1"
    let ?st = "st\<lparr>k_indeg := (k_indeg st)(i := ?d), k_queue := (if ?d = 0 then k_queue st @ [i] else k_queue st)\<rparr>"
    have c: "count_list (List.map_filter ?f (nm # nms)) idx = Suc ?c" using True by (simp add: map_filter_Cons)
    with Cons.prems have pos: "0 < unat (k_indeg st i)" and le: "Suc ?c \<le> unat (k_indeg st i)" by simp_all
    then have d: "unat ?d = unat (k_indeg st i) - 1" by (simp add: unat_sub_if' word_le_nat_alt)
    have "u_index (g_units R idx) = of_nat idx"
      by (rule registry_okD(3) [OF assms(1,2)])
    with True pos have e: "relax_edge R idx i nm st = ?st"
      by (simp add: relax_edge_def Let_def word_less_nat_alt)
    have "?c \<le> unat (k_indeg ?st i)" using le d by simp
    from Cons.IH [OF this] have ih: "fold (relax_edge R idx i) nms ?st =
        ?st\<lparr>k_indeg := (k_indeg ?st)(i := k_indeg ?st i - of_nat ?c),
            k_queue := k_queue ?st @ (if 0 < ?c \<and> unat (k_indeg ?st i) = ?c then [i] else [])\<rparr>"
      by (simp only: Let_def)
    have z: "?d = 0 \<longleftrightarrow> unat (k_indeg st i) = 1" using d pos unat_eq_0 [of ?d] by linarith
    show ?thesis
      unfolding c fold_simps comp_apply e ih Let_def
      by (rule kahn.equality) (use le d z in \<open>auto simp: fun_eq_iff algebra_simps\<close>)
  qed
qed

lemma relax_unit_eq:
  assumes "registry_ok R" and "idx < g_unit_count R" and "count_list (deps R i) idx \<le> unat (k_indeg st i)"
  shows "relax_unit R idx i st =
    st\<lparr>k_indeg := (k_indeg st)(i := k_indeg st i - of_nat (count_list (deps R i) idx)),
       k_queue := k_queue st @ (if 0 < count_list (deps R i) idx \<and> unat (k_indeg st i) = count_list (deps R i) idx then [i] else [])\<rparr>"
  unfolding relax_unit_def using relax_names [OF assms(1,2) assms(3) [unfolded deps_def]]
  by (simp add: deps_def [symmetric] Let_def)

definition released :: "unit_registry \<Rightarrow> nat \<Rightarrow> u8 arr \<Rightarrow> nat \<Rightarrow> bool" where
  "released R idx ind i \<longleftrightarrow> 0 < count_list (deps R i) idx \<and> unat (ind i) = count_list (deps R i) idx"

lemma relax_all:
  assumes "registry_ok R" and "idx < g_unit_count R"
    and "\<forall>i < m. count_list (deps R i) idx \<le> unat (k_indeg st i)"
  shows "fold (relax_unit R idx) [0..<m] st =
    st\<lparr>k_indeg := (\<lambda>i. if i < m then k_indeg st i - of_nat (count_list (deps R i) idx) else k_indeg st i),
       k_queue := k_queue st @ filter (released R idx (k_indeg st)) [0..<m]\<rparr>"
  using assms(3)
proof (induction m)
  case 0
  then show ?case by simp
next
  case (Suc m)
  then have ih: "fold (relax_unit R idx) [0..<m] st =
    st\<lparr>k_indeg := (\<lambda>i. if i < m then k_indeg st i - of_nat (count_list (deps R i) idx) else k_indeg st i),
       k_queue := k_queue st @ filter (released R idx (k_indeg st)) [0..<m]\<rparr>" (is "_ = ?st")
    by simp
  have "count_list (deps R m) idx \<le> unat (k_indeg ?st m)" using Suc.prems by simp
  note e = relax_unit_eq [OF assms(1,2) this]
  have "fold (relax_unit R idx) [0..<Suc m] st = relax_unit R idx m ?st" by (simp add: ih)
  then show ?case
    unfolding e by (rule trans, intro kahn.equality) (auto simp: released_def [of R idx _ m] fun_eq_iff less_Suc_eq)
qed


subsection \<open>The invariant of the loop\<close>

definition waiting :: "unit_registry \<Rightarrow> nat set \<Rightarrow> nat \<Rightarrow> nat" where
  "waiting R D i = length (filter (\<lambda>d. d \<notin> D) (deps R i))"

definition kahn_inv :: "unit_registry \<Rightarrow> kahn \<Rightarrow> bool" where
  "kahn_inv R st \<longleftrightarrow>
     k_qhead st \<le> length (k_queue st) \<and> k_out st = take (k_qhead st) (k_queue st) \<and>
     distinct (k_queue st) \<and> set (k_queue st) \<subseteq> {..<g_unit_count R} \<and>
     (\<forall>i < g_unit_count R. unat (k_indeg st i) = waiting R (set (k_out st)) i) \<and>
     (\<forall>i < g_unit_count R. i \<in> set (k_queue st) \<longleftrightarrow> k_indeg st i = 0) \<and>
     (\<forall>p < length (k_queue st). set (deps R (k_queue st ! p)) \<subseteq> set (take p (k_queue st)))"

lemma kahn_invD:
  assumes "kahn_inv R st"
  shows "k_qhead st \<le> length (k_queue st)" "k_out st = take (k_qhead st) (k_queue st)" "distinct (k_queue st)"
    "set (k_queue st) \<subseteq> {..<g_unit_count R}"
    "i < g_unit_count R \<Longrightarrow> unat (k_indeg st i) = waiting R (set (k_out st)) i"
    "i < g_unit_count R \<Longrightarrow> i \<in> set (k_queue st) \<longleftrightarrow> k_indeg st i = 0"
    "p < length (k_queue st) \<Longrightarrow> set (deps R (k_queue st ! p)) \<subseteq> set (take p (k_queue st))"
  using assms unfolding kahn_inv_def by blast+

lemma filter_insert_count:
  "x \<notin> A \<Longrightarrow> length (filter (\<lambda>d. d \<notin> insert x A) xs) + count_list xs x = length (filter (\<lambda>d. d \<notin> A) xs)"
  by (induction xs) auto

lemma waiting_insert: "x \<notin> A \<Longrightarrow> waiting R (insert x A) i + count_list (deps R i) x = waiting R A i"
  unfolding waiting_def by (rule filter_insert_count)

lemma kahn_init_inv:
  assumes "registry_ok R"
  shows "kahn_inv R (kahn_init R)"
proof -
  have "set (deps R (k_queue (kahn_init R) ! p)) = {}" if "p < length (k_queue (kahn_init R))" for p
  proof -
    let ?i = "k_queue (kahn_init R) ! p"
    have "?i \<in> set (k_queue (kahn_init R))" using that by simp
    then have "?i < g_unit_count R" and "indegree R ?i = 0" by (simp_all add: kahn_init_def)
    with indegree_deps [OF assms] show ?thesis by fastforce
  qed
  then show ?thesis
    by (simp add: kahn_inv_def waiting_def) (auto simp: kahn_init_def indegree_deps [OF assms])
qed

lemma kahn_step_eq:
  assumes "registry_ok R" and inv: "kahn_inv R st" and more: "k_qhead st < length (k_queue st)"
  defines "idx \<equiv> k_queue st ! k_qhead st"
  shows "kahn_step R st = st\<lparr>k_qhead := k_qhead st + 1, k_out := k_out st @ [idx],
     k_indeg := (\<lambda>i. if i < g_unit_count R then k_indeg st i - of_nat (count_list (deps R i) idx) else k_indeg st i),
     k_queue := k_queue st @ filter (released R idx (k_indeg st)) [0..<g_unit_count R]\<rparr>"
    and "idx < g_unit_count R" and "idx \<notin> set (k_out st)"
    and "i < g_unit_count R \<Longrightarrow> count_list (deps R i) idx \<le> unat (k_indeg st i)"
proof -
  have "idx \<in> set (k_queue st)" using more by (simp add: idx_def)
  then show i: "idx < g_unit_count R" using inv by (auto simp: kahn_inv_def)
  have "distinct (take (Suc (k_qhead st)) (k_queue st))" using inv by (simp add: kahn_inv_def)
  then show o: "idx \<notin> set (k_out st)"
    using inv more by (simp add: kahn_inv_def take_Suc_conv_app_nth idx_def)
  show c: "count_list (deps R i) idx \<le> unat (k_indeg st i)" if "i < g_unit_count R" for i
    using inv that waiting_insert [OF o, of R i] by (simp add: kahn_inv_def)
  let ?st = "st\<lparr>k_qhead := k_qhead st + 1, k_out := k_out st @ [idx]\<rparr>"
  have "\<forall>i < g_unit_count R. count_list (deps R i) idx \<le> unat (k_indeg ?st i)" using c by simp
  note relaxed = relax_all [OF assms(1) i this]
  show "kahn_step R st = st\<lparr>k_qhead := k_qhead st + 1, k_out := k_out st @ [idx],
     k_indeg := (\<lambda>i. if i < g_unit_count R then k_indeg st i - of_nat (count_list (deps R i) idx) else k_indeg st i),
     k_queue := k_queue st @ filter (released R idx (k_indeg st)) [0..<g_unit_count R]\<rparr>"
    unfolding kahn_step_def Let_def idx_def [symmetric] relaxed by (rule kahn.equality) (simp_all add: fun_eq_iff)
qed

lemma kahn_step_inv:
  assumes "registry_ok R" and inv: "kahn_inv R st" and more: "k_qhead st < length (k_queue st)"
  shows "kahn_inv R (kahn_step R st)"
proof -
  define idx where "idx = k_queue st ! k_qhead st"
  define new where "new = filter (released R idx (k_indeg st)) [0..<g_unit_count R]"
  note e = kahn_step_eq [OF assms, folded idx_def, folded new_def]
  have out: "k_out st @ [idx] = take (Suc (k_qhead st)) (k_queue st)"
    using inv more by (simp add: kahn_inv_def take_Suc_conv_app_nth idx_def)
  have ind0: "unat (k_indeg st i) = waiting R (set (k_out st)) i" if "i < g_unit_count R" for i
    by (rule kahn_invD(5) [OF inv that])
  have ind: "unat (k_indeg st i - of_nat (count_list (deps R i) idx)) = waiting R (insert idx (set (k_out st))) i"
    if "i < g_unit_count R" for i
  proof -
    have c: "count_list (deps R i) idx \<le> unat (k_indeg st i)" by (rule e(4) [OF that])
    moreover have "unat (k_indeg st i) < 2 ^ LENGTH(8)" by (rule unsigned_less)
    ultimately have u: "unat (of_nat (count_list (deps R i) idx) :: u8) = count_list (deps R i) idx"
      by (intro unat_of_nat_small) simp
    from ind0 [OF that] c u waiting_insert [OF e(3), of R i] show ?thesis by (simp add: unat_sub_if')
  qed
  have zero: "k_indeg st i - of_nat (count_list (deps R i) idx) = 0 \<longleftrightarrow> unat (k_indeg st i) = count_list (deps R i) idx"
    if "i < g_unit_count R" for i
    using ind [OF that] ind0 [OF that] waiting_insert [OF e(3), of R i]
      unat_eq_0 [of "k_indeg st i - of_nat (count_list (deps R i) idx)"] by linarith
  have queued: "i \<in> set (k_queue st) \<longleftrightarrow> unat (k_indeg st i) = 0" if "i < g_unit_count R" for i
    using kahn_invD(6) [OF inv that] by (simp only: unat_eq_0)
  have new_i: "i \<in> set new \<longleftrightarrow> i < g_unit_count R \<and> 0 < count_list (deps R i) idx \<and> unat (k_indeg st i) = count_list (deps R i) idx" for i
    by (auto simp: new_def released_def)
  have new_deps: "set (deps R i) \<subseteq> set (take (Suc (k_qhead st)) (k_queue st))" if "i \<in> set new" for i
  proof -
    have "waiting R (insert idx (set (k_out st))) i = 0"
      using that new_i [of i] ind [of i] zero [of i] unat_0 by metis
    then have "set (deps R i) \<subseteq> set (k_out st @ [idx])" by (auto simp: waiting_def filter_empty_conv)
    then show ?thesis by (simp only: out)
  qed
  have behind: "set (deps R ((k_queue st @ new) ! p)) \<subseteq> set (take p (k_queue st @ new))"
    if "p < length (k_queue st @ new)" for p
  proof (cases "p < length (k_queue st)")
    case True
    then show ?thesis using kahn_invD(7) [OF inv True] by (simp add: nth_append)
  next
    case False
    then have "(k_queue st @ new) ! p \<in> set new" using that by (simp add: nth_append)
    from new_deps [OF this] have "set (deps R ((k_queue st @ new) ! p)) \<subseteq> set (take (Suc (k_qhead st)) (k_queue st))" .
    also have "\<dots> \<subseteq> set (k_queue st)" by (rule set_take_subset)
    also have "\<dots> \<subseteq> set (take p (k_queue st @ new))" using False by simp
    finally show ?thesis .
  qed
  have "distinct (k_queue st @ new)"
    using kahn_invD(3) [OF inv] new_i queued by (auto simp: distinct_append) (simp add: new_def)
  moreover have "set (k_queue st @ new) \<subseteq> {..<g_unit_count R}" using kahn_invD(4) [OF inv] new_i by auto
  moreover have "i \<in> set (k_queue st @ new) \<longleftrightarrow> k_indeg st i - of_nat (count_list (deps R i) idx) = 0"
    if "i < g_unit_count R" for i
    using that queued [OF that] zero [OF that] new_i [of i] e(4) [OF that] by auto
  moreover have "insert idx (set (k_out st)) = set (take (Suc (k_qhead st)) (k_queue st))"
    using arg_cong [OF out, of set] by simp
  ultimately show ?thesis
    unfolding e(1) kahn_inv_def
    using ind out behind more by simp
qed

lemma kahn_loop_inv:
  assumes "registry_ok R" and "kahn_inv R st"
  shows "\<exists>st'. kahn_loop R st = Some st' \<and> kahn_inv R st' \<and> k_qhead st' = length (k_queue st')"
  using assms(2)
proof (induction "g_unit_count R - k_qhead st" arbitrary: st rule: less_induct)
  case less
  show ?case
  proof (cases "k_qhead st < length (k_queue st)")
    case True
    have "length (k_queue st) \<le> g_unit_count R"
      using less.prems card_mono [of "{..<g_unit_count R}" "set (k_queue st)"]
      by (simp add: kahn_inv_def distinct_card)
    then have "g_unit_count R - k_qhead (kahn_step R st) < g_unit_count R - k_qhead st"
      using True by (simp add: kahn_step_eq(1) [OF assms(1) less.prems True])
    from less.hyps [OF this kahn_step_inv [OF assms(1) less.prems True]] True show ?thesis
      by (simp add: kahn_loop.simps [of R st])
  next
    case False
    with less.prems show ?thesis by (simp add: kahn_loop.simps [of R st] kahn_inv_def)
  qed
qed


subsection \<open>Correctness\<close>

definition before :: "'a list \<Rightarrow> 'a \<Rightarrow> 'a \<Rightarrow> bool" where
  "before xs a b \<longleftrightarrow> (\<exists>p p'. p < p' \<and> p' < length xs \<and> xs ! p = a \<and> xs ! p' = b)"

definition past_cycle :: "unit_registry \<Rightarrow> nat \<Rightarrow> bool" where
  "past_cycle R i \<longleftrightarrow> (\<exists>j. (j, i) \<in> (depends R)\<^sup>* \<and> (j, j) \<in> (depends R)\<^sup>+)"

lemma topo_result:
  assumes "registry_ok R"
  shows "\<exists>q. sotinit_topo_sort R =
      Some (if length q < g_unit_count R then - 1 else 0, q @ filter (\<lambda>i. i \<notin> set q) [0..<g_unit_count R]) \<and>
    distinct q \<and> set q \<subseteq> {..<g_unit_count R} \<and>
    (\<forall>p < length q. set (deps R (q ! p)) \<subseteq> set (take p q)) \<and>
    (\<forall>i < g_unit_count R. set (deps R i) \<subseteq> set q \<longrightarrow> i \<in> set q)"
proof -
  obtain st where st: "kahn_loop R (kahn_init R) = Some st" and inv: "kahn_inv R st"
    and fin: "k_qhead st = length (k_queue st)"
    using kahn_loop_inv [OF assms kahn_init_inv [OF assms]] by blast
  let ?q = "k_queue st"
  have out: "k_out st = ?q" using kahn_invD(2) [OF inv] fin by simp
  have all: "set ?q = {..<g_unit_count R}" if "\<not> length ?q < g_unit_count R"
    using that kahn_invD(3,4) [OF inv] by (intro card_seteq) (simp_all add: distinct_card)
  have "i \<in> set ?q" if "i < g_unit_count R" and "set (deps R i) \<subseteq> set ?q" for i
  proof -
    have "waiting R (set (k_out st)) i = 0" using that(2) by (auto simp: waiting_def out filter_empty_conv)
    with kahn_invD(5,6) [OF inv that(1)] show ?thesis by (simp add: unat_eq_0 [symmetric])
  qed
  with st out kahn_invD(3,4,7) [OF inv] all show ?thesis
    by (intro exI [of _ ?q]) (auto simp: sotinit_topo_sort_def filter_empty_conv)
qed

lemma depends_bound: "(d, i) \<in> depends R \<Longrightarrow> d < g_unit_count R \<and> i < g_unit_count R"
  by (auto simp: depends_def deps_bound)

lemma finite_depends: "finite (depends R)"
  by (rule finite_subset [of _ "{..<g_unit_count R} \<times> {..<g_unit_count R}"]) (auto dest: depends_bound)

text \<open>A unit that is never emitted waits, directly or not, for a unit of a cycle.\<close>

lemma stuck_past_cycle:
  assumes closed: "\<And>i. i < g_unit_count R \<Longrightarrow> set (deps R i) \<subseteq> Q \<Longrightarrow> i \<in> Q"
    and i: "i < g_unit_count R" "i \<notin> Q"
  shows "past_cycle R i"
proof -
  let ?r = "depends R"
  let ?T = "{j. (j, i) \<in> ?r\<^sup>* \<and> j < g_unit_count R \<and> j \<notin> Q}"
  have "\<exists>d \<in> ?T. (d, j) \<in> ?r \<inter> ?T \<times> ?T" if j: "j \<in> ?T" for j
  proof -
    obtain d where d: "d \<in> set (deps R j)" "d \<notin> Q" using closed [of j] j by blast
    then have e: "(d, j) \<in> ?r" using j by (simp add: depends_def)
    then have "(d, i) \<in> ?r\<^sup>*" using j by (blast intro: converse_rtrancl_into_rtrancl)
    with d e j deps_bound [OF d(1)] show ?thesis by blast
  qed
  moreover have "i \<in> ?T" using i by simp
  ultimately have "\<not> wf (?r \<inter> ?T \<times> ?T)" unfolding wf_eq_minimal by (metis (no_types, lifting))
  moreover have "finite (?r \<inter> ?T \<times> ?T)" by (rule finite_Int) (simp add: finite_depends)
  ultimately obtain j where "(j, j) \<in> (?r \<inter> ?T \<times> ?T)\<^sup>+" using finite_acyclic_wf unfolding acyclic_def by blast
  moreover from this have "(j, j) \<in> ?r\<^sup>+" by (rule trancl_mono) blast
  moreover have "j \<in> ?T" using calculation(1) by (induction rule: converse_trancl_induct) blast+
  ultimately show ?thesis by (auto simp: past_cycle_def)
qed

text \<open>An emitted unit has only emitted units before it, each earlier.\<close>

lemma emitted_index:
  assumes q: "\<And>p. p < length q \<Longrightarrow> set (deps R (q ! p)) \<subseteq> set (take p q)"
    and "p < length q" and "(j, q ! p) \<in> (depends R)\<^sup>+"
  shows "\<exists>p' < p. q ! p' = j"
  using assms(3)
proof (induction rule: converse_trancl_induct)
  case (base j)
  then have "j \<in> set (take p q)" using q [OF assms(2)] by (auto simp: depends_def)
  then show ?case using assms(2) by (auto simp: in_set_conv_nth)
next
  case (step j k)
  then obtain p' where p': "p' < p" "q ! p' = k" by blast
  then have "j \<in> set (take p' q)" using q [of p'] step.hyps(1) assms(2) by (auto simp: depends_def)
  then obtain i where "i < p'" "q ! i = j" using p'(1) assms(2) by (auto simp: in_set_conv_nth)
  with p'(1) show ?case by (auto intro!: exI [of _ i])
qed

lemma emitted_no_cycle:
  assumes "distinct q" and q: "\<And>p. p < length q \<Longrightarrow> set (deps R (q ! p)) \<subseteq> set (take p q)" and "i \<in> set q"
  shows "\<not> past_cycle R i"
proof
  assume "past_cycle R i"
  then obtain j where j: "(j, i) \<in> (depends R)\<^sup>*" "(j, j) \<in> (depends R)\<^sup>+" by (auto simp: past_cycle_def)
  obtain p where p: "p < length q" "q ! p = i" using assms(3) by (auto simp: in_set_conv_nth)
  have "(j, q ! p) \<in> (depends R)\<^sup>+" using j p(2) by (simp add: trancl_rtrancl_trancl)
  from emitted_index [OF q p(1) this] obtain p' where p': "p' < p" "q ! p' = j" by blast
  with j(2) have "(j, q ! p') \<in> (depends R)\<^sup>+" by simp
  from emitted_index [OF q _ this] p'(1) p(1) obtain p'' where "p'' < p'" "q ! p'' = j" by force
  with nth_eq_iff_index_eq [OF assms(1), of p'' p'] p' p(1) show False by simp
qed

lemma topo_sort_correct:
  assumes "registry_ok R"
  shows "\<exists>rc order. sotinit_topo_sort R = Some (rc, order) \<and> distinct order \<and> set order = {..<g_unit_count R} \<and>
    rc = (if acyclic (depends R) then 0 else - 1) \<and>
    (\<forall>i < g_unit_count R. \<not> past_cycle R i \<longrightarrow> (\<forall>d \<in> set (deps R i). before order d i))"
proof -
  let ?n = "g_unit_count R"
  obtain q where res: "sotinit_topo_sort R = Some (if length q < ?n then - 1 else 0, q @ filter (\<lambda>i. i \<notin> set q) [0..<?n])"
    and q: "distinct q" "set q \<subseteq> {..<?n}" "\<And>p. p < length q \<Longrightarrow> set (deps R (q ! p)) \<subseteq> set (take p q)"
    and closed: "\<And>i. i < ?n \<Longrightarrow> set (deps R i) \<subseteq> set q \<Longrightarrow> i \<in> set q"
    using topo_result [OF assms] by blast
  let ?order = "q @ filter (\<lambda>i. i \<notin> set q) [0..<?n]"
  have in_q: "i \<in> set q \<longleftrightarrow> \<not> past_cycle R i" if "i < ?n" for i
    using stuck_past_cycle [OF closed that] emitted_no_cycle [OF q(1,3)] by blast
  have "before ?order d i" if i: "i < ?n" "\<not> past_cycle R i" and d: "d \<in> set (deps R i)" for i d
  proof -
    obtain p where p: "p < length q" "q ! p = i" using in_q [OF i(1)] i(2) by (auto simp: in_set_conv_nth)
    have "(d, q ! p) \<in> (depends R)\<^sup>+" using d i(1) p(2) by (auto simp: depends_def)
    from emitted_index [OF q(3) p(1) this] obtain p' where p': "p' < p" "q ! p' = d" by blast
    with p show ?thesis
      unfolding before_def by (intro exI [of _ p'] exI [of _ p]) (simp add: nth_append)
  qed
  moreover have "length q < ?n \<longleftrightarrow> \<not> acyclic (depends R)"
  proof
    assume "length q < ?n"
    moreover have "length q = ?n" if "set q = {..<?n}" using distinct_card [OF q(1)] that by simp
    ultimately have "set q \<noteq> {..<?n}" by linarith
    then have "set q \<subset> {..<?n}" by (rule psubsetI [OF q(2)])
    from psubset_imp_ex_mem [OF this] obtain i where "i \<in> {..<?n} - set q" ..
    then have i: "i < ?n" "i \<notin> set q" by simp_all
    have "past_cycle R i" using in_q [OF i(1)] i(2) by blast
    then show "\<not> acyclic (depends R)" unfolding past_cycle_def acyclic_def by blast
  next
    assume "\<not> acyclic (depends R)"
    then obtain j where j: "(j, j) \<in> (depends R)\<^sup>+" by (auto simp: acyclic_def)
    then have "j < ?n" by (induction rule: converse_trancl_induct) (simp_all add: depends_bound)
    moreover have "past_cycle R j" using j by (auto simp: past_cycle_def)
    ultimately have "set q \<subset> {..<?n}" using in_q q(2) by blast
    then show "length q < ?n" using psubset_card_mono [of "{..<?n}" "set q"] distinct_card [OF q(1)] by simp
  qed
  moreover have "distinct ?order" "set ?order = {..<?n}" using q(1,2) by auto
  ultimately show ?thesis using res by auto
qed

end
