(* ===== verification/Sotinit.thy ===== *)
theory Sotinit
  imports TopoSort ProcSafety
begin

text \<open>
  The init server: starting a service through the process server (\<^verbatim>\<open>src/sotinit/launcher.c\<close>),
  the restart policy (\<^verbatim>\<open>restart.c\<close>), the operator requests (\<^verbatim>\<open>queries.c\<close>), and the boot sequence
  and message loop of \<^verbatim>\<open>main.c\<close>.

  The state holds the registry, the times of the last restarts, the audit records sent to the
  orchestrator, and the process server behind the endpoint \<^verbatim>\<open>g_procd_listen_ep\<close>: a spawn is a
  request to the process server of theory \<open>ProcHandlers\<close>, through its dispatcher. The reading
  of the time-stamp counter comes with the message. Diagnostics on the console are left out.
\<close>

subsection \<open>State and messages\<close>

record sotinit =
  si_reg :: unit_registry
  si_last_restart_tsc :: "u64 arr"
  si_audit_ep :: bool
  si_audit :: "(u16 \<times> u32 \<times> u64) list"
  si_procd_ep :: bool
  si_procd :: procd

record sotinit_request =
  iq_op :: u32
  iq_arg32 :: u32
  iq_name :: string

record sotinit_reply =
  ir_result :: int
  ir_state :: u32
  ir_procd_slot :: u32

definition SOTINIT_OP_LIST :: u64 where [limits]: "SOTINIT_OP_LIST = 2"
definition SOTINIT_OP_STATUS :: u64 where [limits]: "SOTINIT_OP_STATUS = 3"
definition SOTINIT_OP_ACTIVATE :: u64 where [limits]: "SOTINIT_OP_ACTIVATE = 4"
definition SOTINIT_OP_START :: u64 where [limits]: "SOTINIT_OP_START = 5"
definition SOTINIT_OP_STOP :: u64 where [limits]: "SOTINIT_OP_STOP = 6"
definition SOTINIT_OP_PROC_EXITED :: u64 where [limits]: "SOTINIT_OP_PROC_EXITED = 7"
definition SOTGUARD_KIND_PERSISTENCE_NEVER_ACTIVATE :: u16 where
  [limits]: "SOTGUARD_KIND_PERSISTENCE_NEVER_ACTIVATE = 0xC1"

definition si_update :: "nat \<Rightarrow> (unit_t \<Rightarrow> unit_t) \<Rightarrow> sotinit \<Rightarrow> sotinit" where
  "si_update i f s = s\<lparr>si_reg := unit_update i f (si_reg s)\<rparr>"

definition si_unit :: "sotinit \<Rightarrow> nat \<Rightarrow> unit_t" where
  "si_unit s i = g_units (si_reg s) i"

definition unit_state_code :: "unit_state \<Rightarrow> u32" where
  "unit_state_code st = (case st of UNIT_STATE_LOADED \<Rightarrow> 1 | UNIT_STATE_ACTIVE \<Rightarrow> 2 | UNIT_STATE_FAILED \<Rightarrow> 3
     | UNIT_STATE_DISABLED \<Rightarrow> 4)"

text \<open>\<^verbatim>\<open>memcpy\<close> of bytes into message words, zero-padded, and back.\<close>

definition word_of_bytes :: "u8 list \<Rightarrow> u64" where
  "word_of_bytes bs = foldr (\<lambda>b w. push_bit 8 w OR ucast b) bs 0"

definition words_of_string :: "nat \<Rightarrow> string \<Rightarrow> u64 list" where
  "words_of_string k s =
     (let buf = map of_char s @ replicate (8 * k - length s) 0
      in map (\<lambda>j. word_of_bytes (take 8 (drop (8 * j) buf))) [0..<k])"

definition string_of_words :: "u64 list \<Rightarrow> string" where
  "string_of_words ws = map (\<lambda>b. char_of (unat b)) (takeWhile (\<lambda>b. b \<noteq> 0) (concat (map word_bytes ws)))"

definition sotos_audit_emit :: "u16 \<Rightarrow> u32 \<Rightarrow> u64 \<Rightarrow> sotinit \<Rightarrow> sotinit" where
  "sotos_audit_emit kind slot arg0 s =
     (if si_audit_ep s then s\<lparr>si_audit := si_audit s @ [(kind, slot, arg0)]\<rparr> else s)"


subsection \<open>Starting a service\<close>

text \<open>
  The loop cuts a token off by overwriting the blank behind it when it skips that blank for
  the next token, so the last one that fits runs to the end of the line.
\<close>

function split_loop :: "nat \<Rightarrow> nat \<Rightarrow> string \<Rightarrow> string list" where
  "split_loop lim n p =
     (if p = [] \<or> lim - 1 \<le> n then []
      else let q = dropWhile blank p in
           if q = [] then []
           else (if n + 1 < lim - 1 then takeWhile (\<lambda>c. \<not> blank c) q else q) #
                split_loop lim (n + 1) (dropWhile (\<lambda>c. \<not> blank c) q))"
  by pat_completeness auto
termination
  by (relation "measure (\<lambda>(lim, n, p). lim - n)") auto

declare split_loop.simps [simp del]

definition split_exec :: "string \<Rightarrow> nat \<Rightarrow> string list" where
  "split_exec line lim = split_loop lim 0 line"

definition sotinit_procd_spawn :: "u32 \<Rightarrow> u32 \<Rightarrow> u64 \<Rightarrow> string \<Rightarrow> sotinit \<Rightarrow> int \<times> u32 \<times> u32 \<times> sotinit" where
  "sotinit_procd_spawn caller_slot initial_tier pledge comm s =
     (if \<not> si_procd_ep s then (- 1, 0, 0, s)
      else
        let m = procd_message 0 ([PROCD_OP_SPAWN, ucast caller_slot, ucast initial_tier, pledge AND 0xFFFFFFFF,
                  drop_bit 32 pledge AND 0xFFFFFFFF] @ words_of_string 2 (take 15 comm));
            (mrs, _, p) = procd_dispatch True (si_procd s) m
        in (sint (ucast (mrs ! 0) :: u32), ucast (mrs ! 1), ucast (mrs ! 2), s\<lparr>si_procd := p\<rparr>))"

definition sotinit_activate_service :: "nat \<Rightarrow> sotinit \<Rightarrow> int \<times> sotinit" where
  "sotinit_activate_service i s =
     (let u = si_unit s i in
      if u_kind u \<noteq> Some UNIT_KIND_SERVICE then (- 1, s)
      else if u_flags u AND UNIT_FLAG_F_PERSISTENCE \<noteq> 0 then
        (0, si_update i (\<lambda>u. u\<lparr>u_state := UNIT_STATE_LOADED\<rparr>)
              (sotos_audit_emit SOTGUARD_KIND_PERSISTENCE_NEVER_ACTIVATE (u_index u) 0 s))
      else
        let argv = split_exec (cstr_copy SOTINIT_EXEC_MAX (u_exec_start u)) 8 in
        if argv = [] then (- 1, si_update i (\<lambda>u. u\<lparr>u_state := UNIT_STATE_FAILED\<rparr>) s)
        else if \<not> si_procd_ep s then (- 1, si_update i (\<lambda>u. u\<lparr>u_state := UNIT_STATE_FAILED\<rparr>) s)
        else
          let (rc, slot, pid, s') = sotinit_procd_spawn 0 0 0 (basename (hd argv)) s in
          if rc < 0 then (rc, si_update i (\<lambda>u. u\<lparr>u_state := UNIT_STATE_FAILED\<rparr>) s')
          else (0, si_update i (\<lambda>u. u\<lparr>u_procd_slot := slot, u_state := UNIT_STATE_ACTIVE\<rparr>) s'))"


subsection \<open>The restart policy\<close>

definition BACKOFF_TSC :: u64 where [limits]: "BACKOFF_TSC = 500000000"

text \<open>The guard against crash loops, common to both policies that restart.\<close>

definition backoff :: "u64 \<Rightarrow> unit_t \<Rightarrow> sotinit \<Rightarrow> bool" where
  "backoff now u s \<longleftrightarrow>
     unat (u_index u) < SOTINIT_MAX_UNITS \<and> now - si_last_restart_tsc s (unat (u_index u)) < BACKOFF_TSC"

definition restart :: "u64 \<Rightarrow> nat \<Rightarrow> sotinit \<Rightarrow> sotinit" where
  "restart now i s =
     (let u = si_unit s i in
      if backoff now u s then si_update i (\<lambda>u. u\<lparr>u_state := UNIT_STATE_FAILED\<rparr>) s
      else
        let s1 = (if unat (u_index u) < SOTINIT_MAX_UNITS
                  then s\<lparr>si_last_restart_tsc := (si_last_restart_tsc s)(unat (u_index u) := now)\<rparr> else s)
        in snd (sotinit_activate_service i (si_update i (\<lambda>u. u\<lparr>u_state := UNIT_STATE_LOADED\<rparr>) s1)))"

definition sotinit_on_proc_exited :: "u32 \<Rightarrow> u32 \<Rightarrow> u64 \<Rightarrow> sotinit \<Rightarrow> sotinit" where
  "sotinit_on_proc_exited procd_slot exit_code now s =
     (case sotinit_unit_by_procd_slot (si_reg s) procd_slot of
        None \<Rightarrow> s
      | Some i \<Rightarrow>
          let s1 = si_update i (\<lambda>u. u\<lparr>u_procd_slot := 0\<rparr>) s;
              policy = u_restart_policy (si_unit s1 i)
          in if policy = 0 then si_update i (\<lambda>u. u\<lparr>u_state := UNIT_STATE_DISABLED\<rparr>) s1
             else if policy = 1 then
               (if exit_code \<noteq> 0 then restart now i s1
                else si_update i (\<lambda>u. u\<lparr>u_state := UNIT_STATE_DISABLED\<rparr>) s1)
             else if policy = 2 then restart now i s1
             else si_update i (\<lambda>u. u\<lparr>u_state := UNIT_STATE_DISABLED\<rparr>) s1)"


subsection \<open>Operator requests\<close>

definition reply_code :: "int \<Rightarrow> sotinit_reply" where
  "reply_code r = \<lparr>ir_result = r, ir_state = 0, ir_procd_slot = 0\<rparr>"

definition reply_unit :: "int \<Rightarrow> unit_t \<Rightarrow> sotinit_reply" where
  "reply_unit r u = \<lparr>ir_result = r, ir_state = unit_state_code (u_state u), ir_procd_slot = u_procd_slot u\<rparr>"

definition sotinit_handle_list :: "sotinit_request \<Rightarrow> sotinit \<Rightarrow> sotinit_reply \<times> sotinit" where
  "sotinit_handle_list req s = (reply_code (int (g_unit_count (si_reg s))), s)"

definition sotinit_handle_status :: "sotinit_request \<Rightarrow> sotinit \<Rightarrow> sotinit_reply \<times> sotinit" where
  "sotinit_handle_status req s =
     (case (if iq_name req \<noteq> [] then sotinit_unit_by_name (si_reg s) (iq_name req)
            else sotinit_unit_by_index (si_reg s) (unat (iq_arg32 req))) of
        None \<Rightarrow> (reply_code (- 3), s)
      | Some i \<Rightarrow> (reply_unit 0 (si_unit s i), s))"

definition sotinit_handle_start :: "sotinit_request \<Rightarrow> sotinit \<Rightarrow> sotinit_reply \<times> sotinit" where
  "sotinit_handle_start req s =
     (case sotinit_unit_by_name (si_reg s) (iq_name req) of
        None \<Rightarrow> (reply_code (- 3), s)
      | Some i \<Rightarrow>
          if u_kind (si_unit s i) \<noteq> Some UNIT_KIND_SERVICE then (reply_code (- 22), s)
          else if u_state (si_unit s i) = UNIT_STATE_ACTIVE then (reply_unit 0 (si_unit s i), s)
          else let (rc, s') = sotinit_activate_service i s in (reply_unit rc (si_unit s' i), s'))"

definition sotinit_handle_activate :: "sotinit_request \<Rightarrow> sotinit \<Rightarrow> sotinit_reply \<times> sotinit" where
  "sotinit_handle_activate req s =
     (case sotinit_unit_by_name (si_reg s) (cstr_copy SOTINIT_NAME_MAX (iq_name req)) of
        None \<Rightarrow> (reply_code (- 3), s)
      | Some i \<Rightarrow>
          if u_kind (si_unit s i) \<noteq> Some UNIT_KIND_SERVICE then (reply_code (- 3), s)
          else if u_state (si_unit s i) = UNIT_STATE_ACTIVE then
            (reply_unit 0 (si_unit s i),
             if u_flags (si_unit s i) AND UNIT_FLAG_ACTIVATE_LOGGED = 0
             then si_update i (\<lambda>u. u\<lparr>u_flags := u_flags u OR UNIT_FLAG_ACTIVATE_LOGGED\<rparr>) s else s)
          else let (rc, s') = sotinit_activate_service i s in (reply_unit rc (si_unit s' i), s'))"

definition sotinit_handle_stop :: "sotinit_request \<Rightarrow> sotinit \<Rightarrow> sotinit_reply \<times> sotinit" where
  "sotinit_handle_stop req s =
     (case sotinit_unit_by_name (si_reg s) (iq_name req) of
        None \<Rightarrow> (reply_code (- 3), s)
      | Some i \<Rightarrow>
          if u_procd_slot (si_unit s i) = 0 then (reply_code 0, s)
          else (\<lparr>ir_result = 0, ir_state = unit_state_code UNIT_STATE_DISABLED, ir_procd_slot = 0\<rparr>,
                si_update i (\<lambda>u. u\<lparr>u_state := UNIT_STATE_DISABLED\<rparr>) s))"


subsection \<open>The message loop\<close>

definition sotinit_unpack :: "(nat \<Rightarrow> u64) \<Rightarrow> sotinit_request" where
  "sotinit_unpack mr = \<lparr>iq_op = ucast (mr 0), iq_arg32 = ucast (mr 1),
     iq_name = string_of_words (map (\<lambda>i. mr (2 + i)) [0..<8])\<rparr>"

text \<open>One message at time \<open>now\<close>; the notification of an exit gets no reply.\<close>

definition sotinit_dispatch :: "(nat \<Rightarrow> u64) \<Rightarrow> u64 \<Rightarrow> sotinit \<Rightarrow> sotinit_reply option \<times> sotinit" where
  "sotinit_dispatch mr now s =
     (let op = mr 0; req = sotinit_unpack mr in
      if op = SOTINIT_OP_PROC_EXITED then (None, sotinit_on_proc_exited (ucast (mr 1)) (ucast (mr 2)) now s)
      else
        let (r, s') =
          (if op = SOTINIT_OP_LIST then sotinit_handle_list req s
           else if op = SOTINIT_OP_STATUS then sotinit_handle_status req s
           else if op = SOTINIT_OP_START then sotinit_handle_start req s
           else if op = SOTINIT_OP_STOP then sotinit_handle_stop req s
           else if op = SOTINIT_OP_ACTIVATE then sotinit_handle_activate req s
           else (reply_code (- 38), s))
        in (Some r, s'))"

text \<open>
  What the server meets: a message at a time, or requests that the process server handles for
  other clients in between.
\<close>

datatype sotinit_event = Message "nat \<Rightarrow> u64" u64 | Others "procd_msg list"

primrec sotinit_step :: "sotinit_event \<Rightarrow> sotinit \<Rightarrow> sotinit" where
  "sotinit_step (Message mr now) s = snd (sotinit_dispatch mr now s)"
| "sotinit_step (Others ms) s = s\<lparr>si_procd := procd_run (si_procd s) ms\<rparr>"

definition sotinit_run :: "sotinit_event list \<Rightarrow> sotinit \<Rightarrow> sotinit" where
  "sotinit_run evs s = fold sotinit_step evs s"


subsection \<open>Boot\<close>

text \<open>\<open>env i\<close> are the requests of other clients that the process server handles before unit \<open>i\<close> starts.\<close>

primrec activate_loop :: "(nat \<Rightarrow> procd_msg list) \<Rightarrow> nat list \<Rightarrow> nat \<times> sotinit \<Rightarrow> nat \<times> sotinit" where
  "activate_loop env [] s = s"
| "activate_loop env (k # order) s =
     activate_loop env order
       (case sotinit_unit_by_index (si_reg (snd s)) k of
          None \<Rightarrow> s
        | Some i \<Rightarrow>
            if u_kind (si_unit (snd s) i) = Some UNIT_KIND_SERVICE \<and> u_state (si_unit (snd s) i) = UNIT_STATE_LOADED
            then let (rc, s') = sotinit_activate_service i (sotinit_step (Others (env i)) (snd s))
                 in (if rc = 0 then fst s + 1 else fst s, s')
            else s)"

definition sotinit_start :: "bool \<Rightarrow> bool \<Rightarrow> unit_registry \<Rightarrow> procd \<Rightarrow> sotinit" where
  "sotinit_start procd_ep audit_ep R p =
     \<lparr>si_reg = R, si_last_restart_tsc = (\<lambda>_. 0), si_audit_ep = audit_ep, si_audit = [], si_procd_ep = procd_ep, si_procd = p\<rparr>"

definition boot_registry :: "(string \<times> string) list \<Rightarrow> string list \<Rightarrow> unit_registry" where
  "boot_registry files paths = snd (sotinit_sotfs_scan_now paths (snd (sotinit_scan_units files empty_registry)))"

definition sotinit_activate_all :: "(nat \<Rightarrow> procd_msg list) \<Rightarrow> sotinit \<Rightarrow> (nat \<times> sotinit) option" where
  "sotinit_activate_all env s =
     (case sotinit_topo_sort (si_reg s) of None \<Rightarrow> None | Some (rc, order) \<Rightarrow> Some (activate_loop env order (0, s)))"

definition sotinit_main :: "bool \<Rightarrow> bool \<Rightarrow> (nat \<Rightarrow> procd_msg list) \<Rightarrow> procd \<Rightarrow> (nat \<times> sotinit) option" where
  "sotinit_main procd_ep audit_ep env p =
     sotinit_activate_all env (sotinit_start procd_ep audit_ep (boot_registry g_bundled sotinit_sotfs_paths) p)"

end
