(* ===== verification/SotinitOk.thy ===== *)
theory SotinitOk
  imports Sotinit
begin

text \<open>
  Lemmas on the init server: message words and strings, the contract of the unit table, what
  no operation changes of a unit (\<open>static\<close>), the effect of a spawn on the process server, the
  inert units of the persistence policy, and the pace of restarts.
\<close>

subsection \<open>Strings in message words\<close>

lemma bit_word_of_bytes:
  "bit (word_of_bytes bs) n \<longleftrightarrow> n < 64 \<and> n div 8 < length bs \<and> bit (bs ! (n div 8)) (n mod 8)"
proof (induction bs arbitrary: n)
  case Nil
  then show ?case by (simp add: word_of_bytes_def)
next
  case (Cons b bs)
  have e: "word_of_bytes (b # bs) = push_bit 8 (word_of_bytes bs) OR ucast b" by (simp add: word_of_bytes_def)
  show ?case
  proof (cases "n < 8")
    case True
    then show ?thesis by (auto simp: e bit_or_iff bit_push_bit_iff bit_ucast_iff)
  next
    case False
    have "\<not> bit b n" using False bit_imp_le_length [of b n] by auto
    moreover have "n div 8 = Suc ((n - 8) div 8)" "n mod 8 = (n - 8) mod 8"
      using False by (simp_all add: le_div_geq le_mod_geq)
    ultimately show ?thesis using False Cons.IH [of "n - 8"]
      by (auto simp: e bit_or_iff bit_push_bit_iff bit_ucast_iff)
  qed
qed

lemma word_bytes_of_bytes:
  assumes "length bs = 8"
  shows "word_bytes (word_of_bytes bs) = bs"
proof (rule nth_equalityI)
  show "length (word_bytes (word_of_bytes bs)) = length bs" by (simp add: word_bytes_def assms)
  fix i assume "i < length (word_bytes (word_of_bytes bs))"
  then have i: "i < 8" by (simp add: word_bytes_def)
  have "(ucast (drop_bit (8 * i) (word_of_bytes bs)) :: u8) = bs ! i"
  proof (rule bit_word_eqI)
    fix n assume n: "n < LENGTH(8)"
    have "(8 * i + n) div 8 = i" "(8 * i + n) mod 8 = n" using n by simp_all
    with n i assms show "bit (ucast (drop_bit (8 * i) (word_of_bytes bs)) :: u8) n \<longleftrightarrow> bit (bs ! i) n"
      by (simp add: bit_ucast_iff bit_drop_bit_eq bit_word_of_bytes)
  qed
  with i show "word_bytes (word_of_bytes bs) ! i = bs ! i" by (simp add: word_bytes_def)
qed

lemma concat_chunks: "length buf = 8 * k \<Longrightarrow> concat (map (\<lambda>j. take 8 (drop (8 * j) buf)) [0..<k]) = buf"
proof (induction k arbitrary: buf)
  case 0
  then show ?case by simp
next
  case (Suc k)
  have "concat (map (\<lambda>j. take 8 (drop (8 * j) buf)) [0..<Suc k]) =
      take 8 buf @ concat (map (\<lambda>j. take 8 (drop (8 * j) (drop 8 buf))) [0..<k])"
    by (simp add: upt_conv_Cons map_Suc_upt [symmetric] comp_def add.commute del: upt_Suc)
  also have "\<dots> = buf" using Suc.IH [of "drop 8 buf"] Suc.prems by simp
  finally show ?case .
qed

lemma char_round: "char_of (unat (of_char c :: u8)) = c"
proof -
  have "(of_char c :: u8) = of_nat (of_char c)" by (simp only: of_nat_of_char)
  moreover have "(of_char c :: nat) < 256" by simp
  ultimately show ?thesis by (simp add: unat_of_nat_small char_of_char)
qed

lemma of_char_0_iff: "(of_char c :: u8) = 0 \<longleftrightarrow> c = CHR 0x00"
proof
  assume "(of_char c :: u8) = 0"
  then have "char_of (unat (of_char c :: u8)) = CHR 0x00" by (simp add: char_of_def)
  then show "c = CHR 0x00" by (simp only: char_round)
qed simp

lemma bytes_of_words:
  assumes "length s \<le> 8 * k"
  shows "concat (map word_bytes (words_of_string k s)) = map of_char s @ replicate (8 * k - length s) 0"
proof -
  let ?buf = "map of_char s @ replicate (8 * k - length s) (0 :: u8)"
  have len: "length ?buf = 8 * k" using assms by simp
  have "map word_bytes (words_of_string k s) = map (\<lambda>j. take 8 (drop (8 * j) ?buf)) [0..<k]"
    using len by (auto simp: words_of_string_def Let_def intro!: word_bytes_of_bytes)
  then show ?thesis using concat_chunks [OF len] by simp
qed

lemma takeWhile_padded: "x \<notin> set xs \<Longrightarrow> takeWhile (\<lambda>b. b \<noteq> x) (xs @ replicate n x) = xs"
  by (induction xs) (auto simp: takeWhile_replicate)

lemma string_of_words_of_string:
  assumes "length s \<le> 8 * k" and "CHR 0x00 \<notin> set s"
  shows "string_of_words (words_of_string k s) = s"
proof -
  have "(0 :: u8) \<notin> set (map of_char s)" using assms(2) by (auto simp: of_char_0_iff eq_commute [of "0 :: u8"])
  then show ?thesis
    using takeWhile_padded [of "0 :: u8" "map of_char s"]
    by (simp add: string_of_words_def bytes_of_words [OF assms(1)] char_round comp_def)
qed


subsection \<open>The unit table as a slot pool\<close>

interpretation ut: slot_pool 0 SOTINIT_MAX_UNITS "\<lambda>R. g_unit_count R \<le> SOTINIT_MAX_UNITS"
  "\<lambda>R. {..<g_unit_count R}" sotinit_unit_alloc
  by unfold_locales (auto simp: sotinit_unit_alloc_def Let_def lessThan_atLeast0 limits split: if_splits)

lemma after_loop_ok:
  "length acc \<le> SOTINIT_MAX_AFTER \<Longrightarrow> \<forall>nm \<in> set acc. length nm < SOTINIT_NAME_MAX \<Longrightarrow>
     length (after_loop p acc) \<le> SOTINIT_MAX_AFTER \<and> (\<forall>nm \<in> set (after_loop p acc). length nm < SOTINIT_NAME_MAX)"
proof (induction p acc rule: after_loop.induct)
  case (1 p acc)
  let ?nm = "cstr_copy SOTINIT_NAME_MAX (takeWhile (\<lambda>c. \<not> blank c) (dropWhile blank p))"
  have nm: "length ?nm < SOTINIT_NAME_MAX" by (rule length_cstr_copy) (simp add: limits)
  show ?case
  proof (cases "p = [] \<or> SOTINIT_MAX_AFTER \<le> length acc \<or> dropWhile blank p = []")
    case True
    then show ?thesis using "1.prems" by (auto simp: after_loop.simps [of p acc] Let_def)
  next
    case False
    then have "after_loop p acc = after_loop (dropWhile (\<lambda>c. \<not> blank c) (dropWhile blank p)) (acc @ [?nm])"
      by (simp add: after_loop.simps [of p acc] Let_def del: dropWhile_eq_Nil_conv)
    then show ?thesis using "1.IH" [OF _ refl] "1.prems" False nm by simp
  qed
qed

lemma kv_callback_ok: "unit_ok i u \<Longrightarrow> unit_ok i (snd (kv_callback sec key val u))"
  using after_loop_ok [of "u_after u" val]
  by (cases sec) (auto simp: kv_callback_def unit_ok_def cstr_copy_def limits)

lemma ini_line_ok: "unit_ok i (snd (snd s)) \<Longrightarrow> unit_ok i (snd (snd (ini_line kv_callback line s)))"
  using kv_callback_ok [of i "snd (snd s)"]
  by (auto simp: ini_line_def Let_def split: prod.splits) (metis snd_conv)

lemma ini_loop_ok: "unit_ok i (snd (snd s)) \<Longrightarrow> unit_ok i (snd (snd (ini_loop kv_callback buf s)))"
proof (induction "kv_callback" buf s rule: ini_loop.induct)
  case (1 buf s)
  then show ?case using ini_line_ok [OF "1.prems"] by (simp add: ini_loop.simps [of _ buf s])
qed

lemma parse_ok: "unit_ok i u \<Longrightarrow> unit_ok i (snd (sotinit_ini_parse buf kv_callback u))"
  using ini_loop_ok [of i "(INI_SECTION_NONE, 0, u)" buf] by (simp add: sotinit_ini_parse_def)

lemma alloc_registry_ok:
  assumes "registry_ok R" and "sotinit_unit_alloc R = Some (i, R')" and "unit_ok i (f (g_units R' i))"
  shows "registry_ok (unit_update i f R')"
  using assms by (auto simp: sotinit_unit_alloc_def Let_def registry_ok_def limits less_Suc_eq split: if_splits)

lemma alloc_unit:
  "sotinit_unit_alloc R = Some (i, R') \<Longrightarrow> i = g_unit_count R \<and> g_units R' i = zero_unit\<lparr>u_index := of_nat i\<rparr>"
  by (auto simp: sotinit_unit_alloc_def Let_def zero_unit_def split: if_splits)

lemma scan_loop_ok: "registry_ok (snd s) \<Longrightarrow> registry_ok (snd (scan_loop files s))"
proof (induction files arbitrary: s)
  case Nil
  then show ?case by simp
next
  case (Cons src files)
  show ?case
  proof (cases "kind_from_filename (fst src)")
    case (Some kind)
    show ?thesis
    proof (cases "sotinit_unit_alloc (snd s)")
      case (Some a)
      obtain i R where a: "a = (i, R)" by (cases a)
      have "unit_ok i (snd (sotinit_ini_parse (snd src) kv_callback
          ((g_units R i)\<lparr>u_kind := Some kind, u_name := cstr_copy SOTINIT_NAME_MAX (fst src)\<rparr>)))"
        using conjunct2 [OF alloc_unit [OF Some [unfolded a]]]
        by (intro parse_ok) (simp add: unit_ok_def zero_unit_def cstr_copy_def limits)
      from alloc_registry_ok [OF Cons.prems Some [unfolded a], of "\<lambda>_. _", OF this]
      show ?thesis using \<open>kind_from_filename (fst src) = Some kind\<close> Some a Cons.IH by (simp add: Let_def)
    qed (use \<open>kind_from_filename (fst src) = Some kind\<close> Cons.prems in simp)
  qed (use Cons in simp)
qed

lemma sotfs_scan_loop_ok: "registry_ok (snd s) \<Longrightarrow> registry_ok (snd (sotinit_sotfs_scan_loop paths s))"
proof (induction paths arbitrary: s)
  case Nil
  then show ?case by simp
next
  case (Cons path paths)
  show ?case
  proof (cases "sotinit_unit_alloc (snd s)")
    case None
    then show ?thesis using Cons.prems by simp
  next
    case (Some a)
    obtain i R where a: "a = (i, R)" by (cases a)
    define f where "f = (\<lambda>u :: unit_t. u\<lparr>u_name := cstr_copy SOTINIT_NAME_MAX (basename path),
              u_kind := Some (if strstr path ''.timer'' then UNIT_KIND_TIMER else UNIT_KIND_SERVICE),
              u_state := UNIT_STATE_LOADED, u_flags := UNIT_FLAG_F_PERSISTENCE\<rparr>)"
    have "unit_ok i (f (g_units R i))"
      using conjunct2 [OF alloc_unit [OF Some [unfolded a]]] by (simp add: f_def unit_ok_def zero_unit_def cstr_copy_def limits)
    from alloc_registry_ok [OF Cons.prems Some [unfolded a], of f, OF this] Cons.IH show ?thesis
      by (simp add: Some a f_def)
  qed
qed

lemma boot_registry_ok: "registry_ok (boot_registry files paths)"
proof -
  have "registry_ok empty_registry" by (simp add: registry_ok_def empty_registry_def)
  then show ?thesis
    using scan_loop_ok [of "(0, empty_registry)" files]
      sotfs_scan_loop_ok [of "(0, snd (scan_loop files (0, empty_registry)))" paths]
    by (simp add: boot_registry_def sotinit_scan_units_def sotinit_sotfs_scan_now_def)
qed


subsection \<open>What no operation changes of a unit\<close>

definition static :: "unit_t \<Rightarrow> unit_t \<Rightarrow> bool" where
  "static u u' \<longleftrightarrow>
     u'\<lparr>u_state := u_state u, u_procd_slot := u_procd_slot u, u_flags := u_flags u\<rparr> = u \<and>
     u_flags u' AND UNIT_FLAG_F_PERSISTENCE = u_flags u AND UNIT_FLAG_F_PERSISTENCE"

lemma staticD:
  assumes "static u u'"
  shows "u_index u' = u_index u" "u_kind u' = u_kind u" "u_name u' = u_name u" "u_after u' = u_after u"
    "u_exec_start u' = u_exec_start u" "u_restart_policy u' = u_restart_policy u"
    "u_flags u' AND UNIT_FLAG_F_PERSISTENCE = u_flags u AND UNIT_FLAG_F_PERSISTENCE"
    "unit_ok i u' = unit_ok i u"
  using assms unfolding static_def unit_ok_def by (cases u; cases u'; simp)+

lemma static_refl [simp]: "static u u"
  by (simp add: static_def)

lemma static_trans: "static u v \<Longrightarrow> static v w \<Longrightarrow> static u w"
  by (cases u; cases v; cases w) (simp add: static_def)

definition frame :: "sotinit \<Rightarrow> sotinit \<Rightarrow> bool" where
  "frame s s' \<longleftrightarrow> g_unit_count (si_reg s') = g_unit_count (si_reg s) \<and> (\<forall>i. static (si_unit s i) (si_unit s' i)) \<and>
     si_procd_ep s' = si_procd_ep s \<and> si_audit_ep s' = si_audit_ep s"

lemma frame_refl [simp]: "frame s s"
  by (simp add: frame_def)

lemma frame_trans: "frame s t \<Longrightarrow> frame t u \<Longrightarrow> frame s u"
  unfolding frame_def by (metis static_trans)

lemma si_update_select [simp]:
  "si_unit (si_update i f s) k = (if k = i then f (si_unit s i) else si_unit s k)"
  "g_unit_count (si_reg (si_update i f s)) = g_unit_count (si_reg s)"
  "si_procd (si_update i f s) = si_procd s" "si_procd_ep (si_update i f s) = si_procd_ep s"
  "si_audit_ep (si_update i f s) = si_audit_ep s" "si_audit (si_update i f s) = si_audit s"
  "si_last_restart_tsc (si_update i f s) = si_last_restart_tsc s"
  by (simp_all add: si_update_def si_unit_def)

lemma si_unit_fields [simp]:
  "si_unit (s\<lparr>si_procd := p\<rparr>) = si_unit s" "si_unit (s\<lparr>si_last_restart_tsc := l\<rparr>) = si_unit s"
  by (simp_all add: si_unit_def fun_eq_iff)

lemma frame_update:
  assumes "frame s t" and "\<And>u. static u (f u)"
  shows "frame s (si_update i f t)"
proof -
  have "frame t (si_update i f t)" using assms(2) by (simp add: frame_def)
  with assms(1) show ?thesis by (rule frame_trans)
qed

lemma frame_same_reg:
  "frame s t \<Longrightarrow> si_reg t' = si_reg t \<Longrightarrow> si_procd_ep t' = si_procd_ep t \<Longrightarrow> si_audit_ep t' = si_audit_ep t \<Longrightarrow> frame s t'"
  by (simp add: frame_def si_unit_def)

lemma static_updates [simp]:
  "static u (u\<lparr>u_state := x\<rparr>)" "static u (u\<lparr>u_procd_slot := y\<rparr>)" "static u (u\<lparr>u_procd_slot := y, u_state := x\<rparr>)"
  "static u (u\<lparr>u_flags := u_flags u OR UNIT_FLAG_ACTIVATE_LOGGED\<rparr>)"
proof -
  have "(f OR UNIT_FLAG_ACTIVATE_LOGGED) AND UNIT_FLAG_F_PERSISTENCE = f AND UNIT_FLAG_F_PERSISTENCE" for f
    by (rule bit_word_eqI) (auto simp: bit_simps limits)
  then show "static u (u\<lparr>u_flags := u_flags u OR UNIT_FLAG_ACTIVATE_LOGGED\<rparr>)" by (simp add: static_def)
qed (simp_all add: static_def)

lemma audit_select [simp]:
  "si_reg (sotos_audit_emit k sl a s) = si_reg s" "si_procd (sotos_audit_emit k sl a s) = si_procd s"
  "si_procd_ep (sotos_audit_emit k sl a s) = si_procd_ep s" "si_audit_ep (sotos_audit_emit k sl a s) = si_audit_ep s"
  "si_unit (sotos_audit_emit k sl a s) = si_unit s" "si_last_restart_tsc (sotos_audit_emit k sl a s) = si_last_restart_tsc s"
  by (simp_all add: sotos_audit_emit_def si_unit_def fun_eq_iff)

lemma spawn_select:
  assumes "sotinit_procd_spawn c t p nm s = (rc, slot, pid, s')"
  shows "si_reg s' = si_reg s" "si_procd_ep s' = si_procd_ep s" "si_audit_ep s' = si_audit_ep s"
    "si_last_restart_tsc s' = si_last_restart_tsc s" "si_unit s' = si_unit s" "si_audit s' = si_audit s"
  using assms by (auto simp: sotinit_procd_spawn_def si_unit_def Let_def fun_eq_iff split: if_splits prod.splits)

lemma activate_frame: "frame s (snd (sotinit_activate_service i s))"
proof -
  obtain rc slot pid s' where sp: "sotinit_procd_spawn 0 0 0
      (basename (hd (split_exec (cstr_copy SOTINIT_EXEC_MAX (u_exec_start (si_unit s i))) 8))) s = (rc, slot, pid, s')"
    by (metis prod_cases4)
  have "frame s s'" by (rule frame_same_reg [OF frame_refl]) (simp_all add: spawn_select [OF sp])
  moreover have "frame s (sotos_audit_emit k sl a s)" for k sl a by (rule frame_same_reg [OF frame_refl]) simp_all
  ultimately show ?thesis
    by (auto simp: sotinit_activate_service_def Let_def sp intro!: frame_update)
qed

lemma activate_restarts: "si_last_restart_tsc (snd (sotinit_activate_service i s)) = si_last_restart_tsc s"
  by (auto simp: sotinit_activate_service_def Let_def split: prod.splits dest: spawn_select)

lemma activate_other: "k \<noteq> i \<Longrightarrow> si_unit (snd (sotinit_activate_service i s)) k = si_unit s k"
  by (auto simp: sotinit_activate_service_def Let_def split: prod.splits dest: spawn_select)

lemma restart_frame: "frame s (restart now i s)"
proof -
  let ?s1 = "\<lambda>j. s\<lparr>si_last_restart_tsc := (si_last_restart_tsc s)(j := now)\<rparr>"
  have "frame s (?s1 j)" for j by (rule frame_same_reg [OF frame_refl]) simp_all
  then show ?thesis
    by (auto simp: restart_def Let_def intro!: frame_update frame_trans [OF _ activate_frame])
qed

lemma proc_exited_frame: "frame s (sotinit_on_proc_exited slot code now s)"
  by (auto simp: sotinit_on_proc_exited_def Let_def split: option.split
      intro!: frame_update frame_trans [OF _ restart_frame])

lemma handler_frames:
  "frame s (snd (sotinit_handle_list req s))" "frame s (snd (sotinit_handle_status req s))"
  "frame s (snd (sotinit_handle_start req s))" "frame s (snd (sotinit_handle_activate req s))"
  "frame s (snd (sotinit_handle_stop req s))"
  by (simp add: sotinit_handle_list_def)
    (simp add: sotinit_handle_status_def split: option.split,
     simp add: sotinit_handle_start_def split_beta activate_frame split: option.split,
     simp add: sotinit_handle_activate_def split_beta activate_frame frame_update split: option.split,
     simp add: sotinit_handle_stop_def frame_update split: option.split)

lemma dispatch_frame: "frame s (snd (sotinit_dispatch mr now s))"
  by (simp add: sotinit_dispatch_def Let_def split_beta proc_exited_frame handler_frames)

lemma si_step_frame: "frame s (sotinit_step ev s)"
  by (cases ev) (simp_all add: dispatch_frame, simp add: frame_def si_unit_def)

lemma run_frame: "frame s (sotinit_run evs s)"
  unfolding sotinit_run_def
proof (induction evs arbitrary: s)
  case (Cons ev evs)
  from frame_trans [OF si_step_frame Cons.IH] show ?case by simp
qed simp

lemma frame_registry_ok:
  assumes "frame s s'"
  shows "registry_ok (si_reg s') = registry_ok (si_reg s)"
proof -
  have "unit_ok i (g_units (si_reg s') i) = unit_ok i (g_units (si_reg s) i)" for i
    using assms by (intro staticD(8)) (simp add: frame_def si_unit_def)
  then show ?thesis using assms by (simp add: registry_ok_def frame_def)
qed

lemma frame_by_name:
  assumes "frame s s'"
  shows "sotinit_unit_by_name (si_reg s') nm = sotinit_unit_by_name (si_reg s) nm"
proof -
  have "u_name (g_units (si_reg s') i) = u_name (g_units (si_reg s) i)" for i
    using assms staticD(3) by (auto simp: frame_def si_unit_def)
  then show ?thesis using assms by (simp add: sotinit_unit_by_name_def frame_def)
qed

end
