(* ===== verification/SotinitBoot.thy ===== *)
theory SotinitBoot
  imports SotinitOk
begin

text \<open>
  Starting the units at boot against the process server: a spawn gets the next process slot, so
  the slots of the services that come up grow along the activation order, whatever requests of
  other clients the process server handles in between.
\<close>

subsection \<open>A spawn\<close>

lemma ucast_scast_32: "(ucast (scast (x :: u32) :: u64) :: u32) = x"
  by (rule bit_word_eqI) (simp add: bit_simps)

lemma ucast_ucast_32: "(ucast (ucast (x :: u32) :: u64) :: u32) = x"
  by (rule bit_word_eqI) (simp add: bit_simps)

lemma handle_spawn_next:
  assumes "procs_ok p"
  shows "if unat (g_next_pid p) < PROCD_MAX_PROCS
     then rp_result (fst (procd_handle_spawn p req)) = g_next_pid p \<and> rp_out_slot (fst (procd_handle_spawn p req)) = g_next_pid p \<and>
       g_next_pid (snd (procd_handle_spawn p req)) = g_next_pid p + 1
     else rp_result (fst (procd_handle_spawn p req)) = - EAGAIN \<and> g_next_pid (snd (procd_handle_spawn p req)) = g_next_pid p"
proof (cases "unat (g_next_pid p) < PROCD_MAX_PROCS")
  case True
  then obtain s1 where a: "procd_slot_alloc p = Some (unat (g_next_pid p), s1)"
    using alloc_next [OF assms] by blast
  then have "g_next_pid s1 = g_next_pid p + 1" using alloc_next [OF assms] by simp
  with a True show ?thesis by (simp add: procd_handle_spawn_def Let_def)
next
  case False
  then have "procd_slot_alloc p = None"
    using alloc_next [OF assms] by (cases "procd_slot_alloc p") auto
  with False show ?thesis by (simp add: procd_handle_spawn_def reply_err_def)
qed

lemma small_sint:
  assumes "unat (x :: u32) < 2 ^ 31"
  shows "sint x = int (unat x)"
proof -
  have "unat x < 2147483648" using assms by simp
  then have "int (unat x) < 2147483648" by linarith
  then have "int (unat x) < 2 ^ 31" by simp
  moreover have "- (2 ^ 31) \<le> int (unat x)" by (rule order_trans [of _ 0]) simp_all
  ultimately have "signed_take_bit 31 (int (unat x)) = int (unat x)" by (intro signed_take_bit_int_eq_self)
  then show ?thesis by (simp add: sint_uint)
qed

lemma spawn_call:
  assumes "procs_ok (si_procd s)" and "si_procd_ep s"
  obtains rc slot pid p' where "sotinit_procd_spawn c t pl nm s = (rc, slot, pid, s\<lparr>si_procd := p'\<rparr>)"
    and "\<exists>mr. p' = snd (procd_handle (si_procd s) 0 mr)"
    and "rc < 0 \<longrightarrow> g_next_pid p' = g_next_pid (si_procd s)"
    and "0 \<le> rc \<longrightarrow> slot = g_next_pid (si_procd s) \<and> unat slot < PROCD_MAX_PROCS \<and> g_next_pid p' = g_next_pid (si_procd s) + 1"
    and "rc < 0 \<longleftrightarrow> \<not> unat (g_next_pid (si_procd s)) < PROCD_MAX_PROCS"
proof -
  let ?p = "si_procd s"
  define m where "m = procd_message 0 ([PROCD_OP_SPAWN, ucast c, ucast t, pl AND 0xFFFFFFFF,
    drop_bit 32 pl AND 0xFFFFFFFF] @ words_of_string 2 (take 15 nm))"
  have op: "pm_mrs m 0 = PROCD_OP_SPAWN" and b: "pm_badge m = 0" by (simp_all add: m_def procd_message_def)
  obtain rep p' where h: "procd_handle ?p 0 (pm_mrs m) = (rep, p')" by (cases "procd_handle ?p 0 (pm_mrs m)")
  then have hs: "procd_handle_spawn ?p (procd_unpack (pm_mrs m)) = (rep, p')" by (simp add: procd_handle_def op)
  have e: "sotinit_procd_spawn c t pl nm s = (sint (rp_result rep), rp_out_slot rep, ucast (rp_out_extra rep), s\<lparr>si_procd := p'\<rparr>)"
    unfolding sotinit_procd_spawn_def m_def [symmetric] Let_def procd_dispatch_def b h
    using assms(2) by (simp add: ucast_scast_32 ucast_ucast_32)
  show thesis
  proof (rule that [OF e])
    show "\<exists>mr. p' = snd (procd_handle ?p 0 mr)" using h by (metis snd_conv)
    have pos: "0 \<le> sint (rp_result rep) \<and> rp_out_slot rep = g_next_pid ?p \<and> g_next_pid p' = g_next_pid ?p + 1"
      if "unat (g_next_pid ?p) < PROCD_MAX_PROCS"
      using handle_spawn_next [OF assms(1), of "procd_unpack (pm_mrs m)"] that small_sint [of "g_next_pid ?p"]
      by (simp add: hs limits)
    have neg: "sint (rp_result rep) < 0 \<and> g_next_pid p' = g_next_pid ?p" if "\<not> unat (g_next_pid ?p) < PROCD_MAX_PROCS"
      using handle_spawn_next [OF assms(1), of "procd_unpack (pm_mrs m)"] that
      by (simp add: hs EAGAIN_def) 
    show "sint (rp_result rep) < 0 \<longleftrightarrow> \<not> unat (g_next_pid ?p) < PROCD_MAX_PROCS" using pos neg by force
    show "sint (rp_result rep) < 0 \<longrightarrow> g_next_pid p' = g_next_pid ?p" using pos neg by force
    show "0 \<le> sint (rp_result rep) \<longrightarrow> rp_out_slot rep = g_next_pid ?p \<and> unat (rp_out_slot rep) < PROCD_MAX_PROCS \<and> g_next_pid p' = g_next_pid ?p + 1"
      using pos neg by force
  qed
qed


subsection \<open>Room in the process server\<close>

text \<open>The tables are well formed and the thread counter has room for \<open>k\<close> more requests.\<close>

definition procd_room :: "procd \<Rightarrow> nat \<Rightarrow> bool" where
  "procd_room p k \<longleftrightarrow> procd_ok p \<and> unat (g_next_tid p) + k < 2 ^ 32"

lemma procd_room_mono: "procd_room p k \<Longrightarrow> j \<le> k \<Longrightarrow> procd_room p j"
  by (simp add: procd_room_def)

lemma room_handle: "procd_room p (Suc k) \<Longrightarrow> procd_room (snd (procd_handle p b mr)) k"
  using handle_ok [of p b mr] by (simp add: procd_room_def)

lemma room_run: "procd_room p (length ms + k) \<Longrightarrow> procd_room (procd_run p ms) k"
proof (induction ms arbitrary: p)
  case (Cons m ms)
  then have "procd_room (snd (procd_handle p (pm_badge m) (pm_mrs m))) (length ms + k)"
    by (intro room_handle) simp
  from Cons.IH [OF this] show ?case by simp
qed simp

lemma run_next_pid:
  assumes "procd_ok p" and "procd_ok (procd_run p ms)"
  shows "unat (g_next_pid p) \<le> unat (g_next_pid (procd_run p ms))"
proof -
  let ?k = "unat (g_next_pid p) - 1"
  have ok: "procs_ok p" "procs_ok (procd_run p ms)" using assms by (simp_all add: procd_ok_def)
  have "1 \<le> unat (g_next_pid p)" by (rule procs_okD(2) [OF ok(1)])
  then have "p_state (g_procs p ?k) \<noteq> PROC_STATE_FREE" using procs_okD(5) [OF ok(1), of ?k] by simp
  from run_not_free [OF this] have "?k < unat (g_next_pid (procd_run p ms))" 
    using procs_okD(5) [OF ok(2), of ?k] by blast
  then show ?thesis by simp
qed


lemma step_next_pid:
  assumes "proc_step b s s'"
  shows "unat (g_next_pid s') \<le> unat (g_next_pid s) + 1"
  using assms
proof (cases rule: proc_step.cases)
  case (born i s1 f)
  then have "g_next_pid s' = g_next_pid s + 1" by (auto simp: procd_slot_alloc_def split: option.splits)
  then show ?thesis by (simp add: unat_word_ariths)
qed (auto simp: thread_gone_def procd_thread_alloc_def Let_def split: option.splits)

lemma run_next_pid_le: "unat (g_next_pid (procd_run p ms)) \<le> unat (g_next_pid p) + length ms"
proof (induction ms arbitrary: p)
  case (Cons m ms)
  have "unat (g_next_pid (snd (procd_handle p (pm_badge m) (pm_mrs m)))) \<le> unat (g_next_pid p) + 1"
    using handle_handled [of "pm_badge m" p "pm_mrs m"] step_next_pid unfolding handled_def by auto
  with Cons.IH [of "snd (procd_handle p (pm_badge m) (pm_mrs m))"] show ?case by simp
qed simp


subsection \<open>The activation loop\<close>

definition active :: "sotinit \<Rightarrow> nat \<Rightarrow> bool" where
  "active s i \<longleftrightarrow> u_state (si_unit s i) = UNIT_STATE_ACTIVE"

definition slot_of :: "sotinit \<Rightarrow> nat \<Rightarrow> nat" where
  "slot_of s i = unat (u_procd_slot (si_unit s i))"

definition next_slot :: "sotinit \<Rightarrow> nat" where
  "next_slot s = unat (g_next_pid (si_procd s))"

text \<open>A service that is not held back and has a program to run.\<close>

definition startable :: "unit_t \<Rightarrow> bool" where
  "startable u \<longleftrightarrow> u_kind u = Some UNIT_KIND_SERVICE \<and> u_flags u AND UNIT_FLAG_F_PERSISTENCE = 0 \<and>
     split_exec (cstr_copy SOTINIT_EXEC_MAX (u_exec_start u)) 8 \<noteq> []"

lemma activate_boot:
  assumes "procd_room (si_procd s) (Suc k)" and "\<not> active s i"
  defines "s' \<equiv> snd (sotinit_activate_service i s)"
  shows "procd_room (si_procd s') k \<and> next_slot s \<le> next_slot s' \<and> next_slot s' \<le> next_slot s + 1 \<and>
    (active s' i \<longrightarrow> slot_of s' i = next_slot s \<and> next_slot s < next_slot s') \<and>
    (active s' i \<longleftrightarrow> si_procd_ep s \<and> next_slot s < PROCD_MAX_PROCS \<and> startable (si_unit s i))"
proof -
  let ?nm = "basename (hd (split_exec (cstr_copy SOTINIT_EXEC_MAX (u_exec_start (si_unit s i))) 8))"
  have room: "procd_room (si_procd s) k" using assms(1) by (rule procd_room_mono) simp
  have ok: "procs_ok (si_procd s)" using assms(1) by (simp add: procd_room_def procd_ok_def)
  show ?thesis
  proof (cases "si_procd_ep s")
    case False
    then show ?thesis
      using room assms(2) by (simp add: s'_def sotinit_activate_service_def Let_def active_def next_slot_def startable_def)
  next
    case True
    obtain rc slot pid p' where sp: "sotinit_procd_spawn 0 0 0 ?nm s = (rc, slot, pid, s\<lparr>si_procd := p'\<rparr>)"
      and h: "\<exists>mr. p' = snd (procd_handle (si_procd s) 0 mr)"
      and neg: "rc < 0 \<longrightarrow> g_next_pid p' = g_next_pid (si_procd s)"
      and pos: "0 \<le> rc \<longrightarrow> slot = g_next_pid (si_procd s) \<and> unat slot < PROCD_MAX_PROCS \<and> g_next_pid p' = g_next_pid (si_procd s) + 1"
      and lt: "rc < 0 \<longleftrightarrow> \<not> unat (g_next_pid (si_procd s)) < PROCD_MAX_PROCS"
      by (rule spawn_call [OF ok True])
    have r: "procd_room p' k" using h room_handle [OF assms(1)] by blast
    have n: "unat (g_next_pid p') = Suc (unat (g_next_pid (si_procd s)))" if "0 \<le> rc"
      using pos that unat_Suc_word [of "g_next_pid (si_procd s)"] by (auto simp: limits)
    show ?thesis
      using True room r neg pos n lt assms(2)
      by (cases "rc < 0")
        (simp_all add: s'_def sotinit_activate_service_def Let_def active_def next_slot_def slot_of_def startable_def sp)
  qed
qed

definition hops :: "(nat \<Rightarrow> procd_msg list) \<Rightarrow> nat list \<Rightarrow> nat" where
  "hops env order = sum_list (map (\<lambda>i. length (env i) + 1) order)"

lemma before_Cons: "before (x # xs) a b \<longleftrightarrow> (a = x \<and> b \<in> set xs) \<or> before xs a b"
proof
  assume "before (x # xs) a b"
  then obtain p p' where p: "p < p'" "p' < Suc (length xs)" "(x # xs) ! p = a" "(x # xs) ! p' = b"
    by (auto simp: before_def)
  then obtain r where r: "p' = Suc r" by (cases p') simp_all
  show "(a = x \<and> b \<in> set xs) \<or> before xs a b"
  proof (cases p)
    case 0
    with p r show ?thesis by auto
  next
    case (Suc q)
    with p r have "q < r \<and> r < length xs \<and> xs ! q = a \<and> xs ! r = b" by simp
    then show ?thesis unfolding before_def by blast
  qed
next
  assume "(a = x \<and> b \<in> set xs) \<or> before xs a b"
  then show "before (x # xs) a b"
  proof
    assume ab: "a = x \<and> b \<in> set xs"
    then obtain r where "r < length xs" "xs ! r = b" by (auto simp: in_set_conv_nth)
    with ab show ?thesis unfolding before_def by (intro exI [of _ 0] exI [of _ "Suc r"]) simp
  next
    assume "before xs a b"
    then obtain p p' where "p < p'" "p' < length xs" "xs ! p = a" "xs ! p' = b" by (auto simp: before_def)
    then show ?thesis unfolding before_def by (intro exI [of _ "Suc p"] exI [of _ "Suc p'"]) simp
  qed
qed

lemma before_in_set: "before xs a b \<Longrightarrow> a \<in> set xs \<and> b \<in> set xs"
  by (auto simp: before_def)

text \<open>One turn of the loop.\<close>

lemma turn_boot:
  assumes "procd_room (si_procd s) (length (env k) + 1 + j)" and "\<not> active s k"
    and "activate_loop env [k] (n, s) = (n', s')"
  shows "procd_room (si_procd s') j" "next_slot s \<le> next_slot s'"
    "active s' k \<Longrightarrow> next_slot s \<le> slot_of s' k \<and> slot_of s' k < next_slot s'"
    "i \<noteq> k \<Longrightarrow> si_unit s' i = si_unit s i" "next_slot s' \<le> next_slot s + length (env k) + 1"
    "si_procd_ep s' = si_procd_ep s"
    "k < g_unit_count (si_reg s) \<Longrightarrow> u_state (si_unit s k) = UNIT_STATE_LOADED \<Longrightarrow> si_procd_ep s \<Longrightarrow>
       next_slot s + length (env k) < PROCD_MAX_PROCS \<Longrightarrow> active s' k \<longleftrightarrow> startable (si_unit s k)"
proof -
  define t where "t = sotinit_step (Others (env k)) s"
  have unit: "si_unit t = si_unit s" and act: "\<not> active t k"
    using assms(2) by (simp_all add: t_def si_unit_def fun_eq_iff active_def)
  have room: "procd_room (si_procd t) (Suc j)"
    using room_run [of "si_procd s" "env k" "Suc j"] assms(1) by (simp add: t_def)
  have le: "next_slot s \<le> next_slot t"
    using run_next_pid [of "si_procd s" "env k"] assms(1) room by (simp add: t_def next_slot_def procd_room_def)
  have ge: "next_slot t \<le> next_slot s + length (env k)"
    using run_next_pid_le [of "si_procd s" "env k"] by (simp add: t_def next_slot_def)
  have ep: "si_procd_ep t = si_procd_ep s" "si_procd_ep (snd (sotinit_activate_service k t)) = si_procd_ep t"
    using activate_frame [of t k] by (simp_all add: t_def frame_def)
  have room_s: "procd_room (si_procd s) j" using assms(1) by (rule procd_room_mono) simp
  have s': "s' = s \<or> s' = snd (sotinit_activate_service k t)"
    using assms(3) by (auto simp: t_def sotinit_unit_by_index_def Let_def split: if_splits prod.splits)
  note a = activate_boot [OF room act]
  show "procd_room (si_procd s') j" "next_slot s \<le> next_slot s'"
    "active s' k \<Longrightarrow> next_slot s \<le> slot_of s' k \<and> slot_of s' k < next_slot s'"
    using s' a le room_s assms(2) by auto
  show "si_unit s' i = si_unit s i" if "i \<noteq> k" using s' activate_other [OF that] unit by auto
  show "next_slot s' \<le> next_slot s + length (env k) + 1" "si_procd_ep s' = si_procd_ep s"
    using s' a ge ep by auto
  show "active s' k \<longleftrightarrow> startable (si_unit s k)" if "k < g_unit_count (si_reg s)" "u_state (si_unit s k) = UNIT_STATE_LOADED"
    "si_procd_ep s" "next_slot s + length (env k) < PROCD_MAX_PROCS"
  proof (cases "u_kind (si_unit s k) = Some UNIT_KIND_SERVICE")
    case True
    then have "s' = snd (sotinit_activate_service k t)"
      using assms(3) that(1,2) by (simp add: t_def sotinit_unit_by_index_def split_beta)
    with a ge ep that(3,4) unit show ?thesis by simp
  next
    case False
    then have "s' = s" using assms(3) that(1) by (simp add: sotinit_unit_by_index_def)
    with False assms(2) show ?thesis by (simp add: startable_def)
  qed
qed

lemma loop_slots:
  fixes n :: nat
  assumes "distinct order" and "\<forall>k \<in> set order. \<not> active s k" and "procd_room (si_procd s) (hops env order)"
  defines "s' \<equiv> snd (activate_loop env order (n, s))"
  shows "(\<forall>i \<in> set order. active s' i \<longrightarrow> next_slot s \<le> slot_of s' i) \<and>
    (\<forall>i j. before order i j \<and> active s' i \<and> active s' j \<longrightarrow> slot_of s' i < slot_of s' j) \<and>
    (\<forall>i. i \<notin> set order \<longrightarrow> si_unit s' i = si_unit s i)"
  using assms(1-3) unfolding s'_def
proof (induction order arbitrary: n s)
  case Nil
  then show ?case by (simp add: before_def)
next
  case (Cons k order)
  obtain n1 s1 where one: "activate_loop env [k] (n, s) = (n1, s1)" by (cases "activate_loop env [k] (n, s)")
  have step: "activate_loop env (k # order) (n, s) = activate_loop env order (n1, s1)" using one by simp
  have room: "procd_room (si_procd s) (length (env k) + 1 + hops env order)"
    using Cons.prems(3) by (simp add: hops_def)
  have k: "\<not> active s k" "k \<notin> set order" using Cons.prems by simp_all
  note t = turn_boot [OF room k(1) one]
  let ?s' = "snd (activate_loop env order (n1, s1))"
  have "\<forall>i \<in> set order. \<not> active s1 i"
  proof
    fix i assume i: "i \<in> set order"
    then have "i \<noteq> k" using k(2) by blast
    from t(4) [OF this] Cons.prems(2) i show "\<not> active s1 i" by (simp add: active_def)
  qed
  from Cons.IH [OF _ this t(1)] Cons.prems(1)
  have ih: "\<forall>i \<in> set order. active ?s' i \<longrightarrow> next_slot s1 \<le> slot_of ?s' i"
    "\<forall>i j. before order i j \<and> active ?s' i \<and> active ?s' j \<longrightarrow> slot_of ?s' i < slot_of ?s' j"
    "\<forall>i. i \<notin> set order \<longrightarrow> si_unit ?s' i = si_unit s1 i" by auto
  have unit_k: "active ?s' k = active s1 k" "slot_of ?s' k = slot_of s1 k"
    using ih(3) k(2) by (simp_all add: active_def slot_of_def)
  show ?case
    unfolding step before_Cons
    using ih t unit_k by (auto dest: order_trans)
qed

lemma loop_frame: "frame (snd ns) (snd (activate_loop env order ns))"
proof (induction order arbitrary: ns)
  case (Cons k order)
  have "frame (snd ns) (snd (activate_loop env [k] ns))"
    using frame_trans [OF si_step_frame [of "snd ns" "Others (env k)"] activate_frame [of _ k]]
    by (auto simp: sotinit_unit_by_index_def split_beta)
  from frame_trans [OF this Cons.IH [of "activate_loop env [k] ns"]] show ?case by simp
qed simp

lemma loop_active:
  assumes "distinct order" and "set order \<subseteq> {..<g_unit_count (si_reg s)}"
    and "\<forall>k \<in> set order. u_state (si_unit s k) = UNIT_STATE_LOADED"
    and "procd_room (si_procd s) (hops env order)" and "si_procd_ep s" and "next_slot s + hops env order \<le> PROCD_MAX_PROCS"
  shows "\<forall>i \<in> set order. active (snd (activate_loop env order (n, s))) i \<longleftrightarrow> startable (si_unit s i)"
  using assms
proof (induction order arbitrary: n s)
  case Nil
  then show ?case by simp
next
  case (Cons k order)
  obtain n1 s1 where one: "activate_loop env [k] (n, s) = (n1, s1)" by (cases "activate_loop env [k] (n, s)")
  have step: "activate_loop env (k # order) (n, s) = activate_loop env order (n1, s1)" using one by simp
  have hops: "hops env (k # order) = length (env k) + 1 + hops env order" by (simp add: hops_def)
  have room: "procd_room (si_procd s) (length (env k) + 1 + hops env order)" using Cons.prems(4) by (simp only: hops)
  have k: "\<not> active s k" "k \<notin> set order" "distinct order" using Cons.prems(1,3) by (simp_all add: active_def)
  note t = turn_boot [OF room k(1) one]
  have unit: "si_unit s1 i = si_unit s i" if "i \<in> set order" for i using that k(2) by (intro t(4)) blast
  have cnt: "g_unit_count (si_reg s1) = g_unit_count (si_reg s)"
    using loop_frame [of "(n, s)" env "[k]"] one by (simp add: frame_def)
  have act: "active s1 k \<longleftrightarrow> startable (si_unit s k)"
    using Cons.prems(2,3,5,6) hops by (intro t(7)) simp_all
  let ?s' = "snd (activate_loop env order (n1, s1))"
  have "\<forall>i \<in> set order. active ?s' i \<longleftrightarrow> startable (si_unit s1 i)"
    using Cons.prems t(5,6) hops unit by (intro Cons.IH [OF k(3) _ _ t(1)]) (simp_all add: cnt)
  moreover have "active ?s' k = active s1 k"
    using loop_slots [OF k(3) _ t(1), of n1] unit k(2) Cons.prems(3) by (simp add: active_def)
  ultimately show ?case unfolding step using unit act by simp
qed

end
