(* ===== verification/SotinitSafety.thy ===== *)
theory SotinitSafety
  imports SotinitBoot
begin

text \<open>
  Properties of the init server: the activation order, its effect in the process server, the
  units that never run, and the pace of restarts.
\<close>

subsection \<open>Units that never run\<close>

definition inert :: "sotinit \<Rightarrow> nat \<Rightarrow> bool" where
  "inert s i \<longleftrightarrow> u_flags (si_unit s i) AND UNIT_FLAG_F_PERSISTENCE \<noteq> 0 \<and> u_state (si_unit s i) = UNIT_STATE_LOADED \<and>
     u_procd_slot (si_unit s i) = 0"

lemma inert_cong: "si_unit t i = si_unit s i \<Longrightarrow> inert t i = inert s i"
  by (simp add: inert_def)

lemma activate_inert:
  assumes "inert s i"
  shows "si_unit (snd (sotinit_activate_service k s)) i = si_unit s i"
    "si_procd (snd (sotinit_activate_service i s)) = si_procd s"
    "u_kind (si_unit s i) = Some UNIT_KIND_SERVICE \<Longrightarrow> fst (sotinit_activate_service i s) = 0"
proof -
  have "(si_unit s i)\<lparr>u_state := UNIT_STATE_LOADED\<rparr> = si_unit s i" using assms by (simp add: inert_def)
  then have "si_unit (snd (sotinit_activate_service i s)) i = si_unit s i"
    using assms by (simp add: sotinit_activate_service_def Let_def inert_def)
  then show "si_unit (snd (sotinit_activate_service k s)) i = si_unit s i"
    using activate_other [of i k s] by (cases "i = k") auto
  show "si_procd (snd (sotinit_activate_service i s)) = si_procd s"
    "u_kind (si_unit s i) = Some UNIT_KIND_SERVICE \<Longrightarrow> fst (sotinit_activate_service i s) = 0"
    using assms by (simp_all add: sotinit_activate_service_def Let_def inert_def)
qed

lemma restart_inert:
  assumes "inert s i" and "k \<noteq> i"
  shows "si_unit (restart now k s) i = si_unit s i"
  using assms activate_other [of i k] by (simp add: restart_def Let_def)

lemma proc_exited_inert:
  assumes "inert s i"
  shows "si_unit (sotinit_on_proc_exited slot code now s) i = si_unit s i"
proof (cases "sotinit_unit_by_procd_slot (si_reg s) slot")
  case (Some k)
  then have "u_procd_slot (si_unit s k) = slot" "slot \<noteq> 0"
    by (auto simp: sotinit_unit_by_procd_slot_def si_unit_def dest!: first_idx_SomeD split: if_splits)
  then have k: "k \<noteq> i" using assms by (auto simp: inert_def)
  let ?s1 = "si_update k (\<lambda>u. u\<lparr>u_procd_slot := 0\<rparr>) s"
  have "inert ?s1 i" using assms k by (simp add: inert_def)
  from restart_inert [OF this k] k Some show ?thesis
    by (simp add: sotinit_on_proc_exited_def Let_def)
qed (simp add: sotinit_on_proc_exited_def)

lemma dispatch_inert:
  assumes "inert s i"
  shows "si_unit (snd (sotinit_dispatch mr now s)) i = si_unit s i"
proof -
  have "si_unit (snd (sotinit_handle_start req s)) i = si_unit s i" "si_unit (snd (sotinit_handle_activate req s)) i = si_unit s i"
    "si_unit (snd (sotinit_handle_stop req s)) i = si_unit s i" "snd (sotinit_handle_list req s) = s" "snd (sotinit_handle_status req s) = s" for req
    using assms activate_inert(1) [OF assms]
    by (auto simp: sotinit_handle_start_def sotinit_handle_activate_def sotinit_handle_stop_def sotinit_handle_list_def
        sotinit_handle_status_def split_beta inert_def split: option.split)
  then show ?thesis
    using proc_exited_inert [OF assms] by (simp add: sotinit_dispatch_def Let_def split_beta)
qed

lemma run_inert: "inert s i \<Longrightarrow> si_unit (sotinit_run evs s) i = si_unit s i"
  unfolding sotinit_run_def
proof (induction evs arbitrary: s)
  case (Cons ev evs)
  have "si_unit (sotinit_step ev s) i = si_unit s i"
    using dispatch_inert [OF Cons.prems] by (cases ev) simp_all
  with Cons.IH [of "sotinit_step ev s"] Cons.prems show ?case by (simp add: inert_def)
qed simp

lemma loop_inert: "inert (snd ns) i \<Longrightarrow> si_unit (snd (activate_loop env order ns)) i = si_unit (snd ns) i"
proof (induction order arbitrary: ns)
  case (Cons k order)
  let ?t = "sotinit_step (Others (env k)) (snd ns)"
  have t: "inert ?t i" "si_unit ?t = si_unit (snd ns)" using Cons.prems by (simp_all add: inert_def)
  let ?ns = "activate_loop env [k] ns"
  have u: "si_unit (snd ?ns) i = si_unit (snd ns) i"
    using activate_inert(1) [OF t(1), of k] t(2) by (simp add: sotinit_unit_by_index_def split_beta)
  have "activate_loop env (k # order) ns = activate_loop env order ?ns" by simp
  with Cons.IH [of ?ns] Cons.prems u inert_cong [OF u] show ?case by simp
qed simp


subsection \<open>Restarts\<close>

lemma unit_index_nat:
  assumes "registry_ok (si_reg s)" and "k < g_unit_count (si_reg s)"
  shows "unat (u_index (si_unit s k)) = k" "k < SOTINIT_MAX_UNITS"
  using registry_okD(1,3) [OF assms(1)] assms(2)
  by (simp_all add: si_unit_def unat_of_nat_small limits)

lemma restart_last:
  assumes "registry_ok (si_reg s)" and "k < g_unit_count (si_reg s)"
  shows "si_last_restart_tsc (restart now k s) =
    (if backoff now (si_unit s k) s then si_last_restart_tsc s else (si_last_restart_tsc s)(k := now))"
  using unit_index_nat [OF assms] by (simp add: restart_def Let_def activate_restarts)

text \<open>The event makes the restart policy start unit \<open>i\<close> again.\<close>

primrec restarts :: "nat \<Rightarrow> sotinit_event \<Rightarrow> sotinit \<Rightarrow> bool" where
  "restarts i (Message mr now) s \<longleftrightarrow>
     mr 0 = SOTINIT_OP_PROC_EXITED \<and> sotinit_unit_by_procd_slot (si_reg s) (ucast (mr 1)) = Some i \<and>
     (u_restart_policy (si_unit s i) = 2 \<or> u_restart_policy (si_unit s i) = 1 \<and> (ucast (mr 2) :: u32) \<noteq> 0) \<and>
     \<not> backoff now (si_unit s i) s"
| "restarts i (Others ms) s \<longleftrightarrow> False"

primrec clock :: "sotinit_event \<Rightarrow> nat list" where
  "clock (Message mr now) = [unat now]"
| "clock (Others ms) = []"

primrec restart_times :: "nat \<Rightarrow> sotinit \<Rightarrow> sotinit_event list \<Rightarrow> nat list" where
  "restart_times i s [] = []"
| "restart_times i s (ev # evs) = (if restarts i ev s then clock ev else []) @ restart_times i (sotinit_step ev s) evs"

lemma handler_last:
  "si_last_restart_tsc (snd (sotinit_handle_list req s)) = si_last_restart_tsc s"
  "si_last_restart_tsc (snd (sotinit_handle_status req s)) = si_last_restart_tsc s"
  "si_last_restart_tsc (snd (sotinit_handle_start req s)) = si_last_restart_tsc s"
  "si_last_restart_tsc (snd (sotinit_handle_activate req s)) = si_last_restart_tsc s"
  "si_last_restart_tsc (snd (sotinit_handle_stop req s)) = si_last_restart_tsc s"
  by (simp add: sotinit_handle_list_def)
    (simp add: sotinit_handle_status_def split: option.split,
     simp add: sotinit_handle_start_def split_beta activate_restarts split: option.split,
     simp add: sotinit_handle_activate_def split_beta activate_restarts split: option.split,
     simp add: sotinit_handle_stop_def split: option.split)

lemma by_procd_slot_bound: "sotinit_unit_by_procd_slot R slot = Some k \<Longrightarrow> k < g_unit_count R"
  by (auto simp: sotinit_unit_by_procd_slot_def dest: first_idx_SomeD split: if_splits)

lemma step_last:
  assumes "registry_ok (si_reg s)"
  shows "si_last_restart_tsc (sotinit_step (Message mr now) s) i =
    (if restarts i (Message mr now) s then now else si_last_restart_tsc s i)"
proof (cases "mr 0 = SOTINIT_OP_PROC_EXITED")
  case False
  then show ?thesis by (simp add: sotinit_dispatch_def Let_def split_beta handler_last)
next
  case True
  show ?thesis
  proof (cases "sotinit_unit_by_procd_slot (si_reg s) (ucast (mr 1))")
    case None
    with True show ?thesis by (simp add: sotinit_dispatch_def sotinit_on_proc_exited_def Let_def)
  next
    case (Some k)
    let ?s1 = "si_update k (\<lambda>u. u\<lparr>u_procd_slot := 0\<rparr>) s"
    have "registry_ok (si_reg ?s1)"
      using frame_registry_ok [of s ?s1] assms by (simp add: frame_update)
    from restart_last [OF this] by_procd_slot_bound [OF Some]
    have "si_last_restart_tsc (restart now k ?s1) =
        (if backoff now (si_unit s k) s then si_last_restart_tsc s else (si_last_restart_tsc s)(k := now))"
      by (simp add: backoff_def)
    with True Some show ?thesis
      by (auto simp: sotinit_dispatch_def sotinit_on_proc_exited_def Let_def)
  qed
qed

lemma restarts_pace:
  assumes "registry_ok (si_reg s)" and "i < g_unit_count (si_reg s)" and "restarts i (Message mr now) s"
    and "unat (si_last_restart_tsc s i) \<le> unat now"
  shows "unat (si_last_restart_tsc s i) + unat BACKOFF_TSC \<le> unat now"
proof -
  have "\<not> now - si_last_restart_tsc s i < BACKOFF_TSC"
    using assms(3) unit_index_nat [OF assms(1,2)] by (simp add: backoff_def)
  with assms(4) show ?thesis by (simp add: word_less_nat_alt unat_sub_if' limits)
qed

lemma restart_times_pace:
  assumes "registry_ok (si_reg s)" and "i < g_unit_count (si_reg s)"
    and "sorted (unat (si_last_restart_tsc s i) # concat (map clock evs))"
  shows "sorted_wrt (\<lambda>a b. a + unat BACKOFF_TSC \<le> b) (unat (si_last_restart_tsc s i) # restart_times i s evs)"
  using assms
proof (induction evs arbitrary: s)
  case Nil
  then show ?case by simp
next
  case (Cons ev evs)
  let ?s' = "sotinit_step ev s"
  have f: "frame s ?s'" by (rule si_step_frame)
  have ok: "registry_ok (si_reg ?s')" "i < g_unit_count (si_reg ?s')"
    using frame_registry_ok [OF f] Cons.prems(1,2) f by (simp_all add: frame_def)
  show ?case
  proof (cases ev)
    case (Others ms)
    then have "si_last_restart_tsc ?s' i = si_last_restart_tsc s i" by simp
    with Cons.IH [OF ok] Cons.prems(3) Others show ?thesis by simp
  next
    case (Message mr now)
    have last: "si_last_restart_tsc ?s' i = (if restarts i ev s then now else si_last_restart_tsc s i)"
      unfolding Message by (rule step_last [OF Cons.prems(1)])
    have "sorted (unat (si_last_restart_tsc ?s' i) # concat (map clock evs))"
      using Cons.prems(3) last by (auto simp: Message)
    note ih = Cons.IH [OF ok this]
    show ?thesis
    proof (cases "restarts i ev s")
      case True
      have "unat (si_last_restart_tsc s i) + unat BACKOFF_TSC \<le> unat now"
        using Cons.prems(3) Message by (intro restarts_pace [OF Cons.prems(1,2) True [unfolded Message]]) simp
      with ih last True Message show ?thesis by fastforce
    next
      case False
      with ih last show ?thesis by simp
    qed
  qed
qed


subsection \<open>The registry of the boot\<close>

abbreviation bundled_registry :: unit_registry where
  "bundled_registry \<equiv> boot_registry g_bundled sotinit_sotfs_paths"

lemma bundled_count: "g_unit_count bundled_registry = 7"
  by code_simp

lemma bundled_loaded:
  "\<forall>i \<in> set [0..<7]. u_state (g_units bundled_registry i) = UNIT_STATE_LOADED \<and> u_procd_slot (g_units bundled_registry i) = 0"
  by code_simp

lemma bundled_backdoor:
  "sotinit_unit_by_name bundled_registry ''backdoor.service'' = Some 5"
  "u_kind (g_units bundled_registry 5) = Some UNIT_KIND_SERVICE"
  "u_flags (g_units bundled_registry 5) AND UNIT_FLAG_F_PERSISTENCE \<noteq> 0"
  by code_simp+

lemma bundled_order:
  "deps bundled_registry 2 = [3]" "deps bundled_registry 3 = []"
  "startable (g_units bundled_registry 2)" "startable (g_units bundled_registry 3)"
  by code_simp+

text \<open>A request that carries the name of a unit.\<close>

definition name_message :: "u64 \<Rightarrow> string \<Rightarrow> nat \<Rightarrow> u64" where
  "name_message op nm = (\<lambda>n. if n = 0 then op else if 2 \<le> n \<and> n < 10 then words_of_string 8 nm ! (n - 2) else 0)"

lemma unpack_name_message:
  assumes "length nm \<le> 64" and "CHR 0x00 \<notin> set nm"
  shows "iq_name (sotinit_unpack (name_message op nm)) = nm"
proof -
  have "map (\<lambda>i. name_message op nm (2 + i)) [0..<8] = words_of_string 8 nm"
    by (rule nth_equalityI) (simp_all add: name_message_def words_of_string_def Let_def)
  then show ?thesis using string_of_words_of_string [of nm 8] assms by (simp add: sotinit_unpack_def)
qed

text \<open>The answer an operator gets about the planted service: success, loaded, no process.\<close>

definition planted_answer :: "u64 \<Rightarrow> u64 \<Rightarrow> sotinit \<Rightarrow> bool" where
  "planted_answer op now s \<longleftrightarrow>
     (let (r, s') = sotinit_dispatch (name_message op ''backdoor.service'') now s
      in r = Some \<lparr>ir_result = 0, ir_state = unit_state_code UNIT_STATE_LOADED, ir_procd_slot = 0\<rparr> \<and> si_procd s' = si_procd s)"

lemma planted_answers:
  assumes "inert s i" and "sotinit_unit_by_name (si_reg s) ''backdoor.service'' = Some i"
    and "u_kind (si_unit s i) = Some UNIT_KIND_SERVICE"
  shows "planted_answer SOTINIT_OP_STATUS now s" "planted_answer SOTINIT_OP_START now s" "planted_answer SOTINIT_OP_ACTIVATE now s"
proof -
  have nm: "iq_name (sotinit_unpack (name_message op ''backdoor.service'')) = ''backdoor.service''" for op
    by (rule unpack_name_message) simp_all
  have op: "name_message op nm 0 = op" for op nm by (simp add: name_message_def)
  note a = activate_inert [OF assms(1)]
  have st: "u_state (si_unit s i) = UNIT_STATE_LOADED" "u_procd_slot (si_unit s i) = 0" using assms(1) by (simp_all add: inert_def)
  show "planted_answer SOTINIT_OP_STATUS now s" "planted_answer SOTINIT_OP_START now s"
    using assms(2,3) st a a(1) [of i]
    by (simp_all add: planted_answer_def sotinit_dispatch_def op nm sotinit_handle_status_def sotinit_handle_start_def
        reply_unit_def split_beta limits)
  have "cstr_copy SOTINIT_NAME_MAX ''backdoor.service'' = ''backdoor.service''" by (rule cstr_copy_id) (simp add: limits)
  then show "planted_answer SOTINIT_OP_ACTIVATE now s"
    using assms(2,3) st a a(1) [of i]
    by (simp add: planted_answer_def sotinit_dispatch_def op nm sotinit_handle_activate_def reply_unit_def split_beta limits)
qed

lemma sum_hops:
  assumes "distinct order" and "set order = {..<n}"
  shows "hops env order = (\<Sum>i<n. length (env i) + 1)"
  using assms by (simp add: hops_def sum_list_distinct_conv_sum_set)


subsection \<open>Properties\<close>

text \<open>
  C14: the activation order. On every well-formed registry the sort returns; its result is a
  permutation of the units, the code says whether the dependencies are acyclic, and every unit
  that does not wait for a cycle comes behind all units it names in \<^verbatim>\<open>After=\<close>.
\<close>

theorem sotinit_topo_sort_correct:
  assumes "registry_ok R"
  shows "\<exists>rc order. sotinit_topo_sort R = Some (rc, order) \<and> distinct order \<and> set order = {..<g_unit_count R} \<and>
    rc = (if acyclic (depends R) then 0 else - 1) \<and>
    (\<forall>i < g_unit_count R. \<not> past_cycle R i \<longrightarrow> (\<forall>d \<in> set (deps R i). before order d i))"
  by (rule topo_sort_correct [OF assms])

theorem sotinit_topo_sort_correct_witness:
  "\<exists>rc order. sotinit_topo_sort (boot_registry g_bundled sotinit_sotfs_paths) = Some (rc, order) \<and> distinct order \<and>
     set order = {..<7} \<and> rc = (if acyclic (depends (boot_registry g_bundled sotinit_sotfs_paths)) then 0 else - 1)"
  using sotinit_topo_sort_correct [OF boot_registry_ok [of g_bundled sotinit_sotfs_paths]] bundled_count by auto

text \<open>
  C20: boot through the process server. Starting the units of any well-formed registry in that
  order, with any requests of other clients served in between, gives a dependency that comes up
  a smaller process slot than the units that wait for it; and if the process table has room,
  exactly the startable services come up.
\<close>

theorem sotinit_boot_order:
  assumes "registry_ok (si_reg s)" and "\<forall>i < g_unit_count (si_reg s). u_state (si_unit s i) = UNIT_STATE_LOADED"
    and "procd_room (si_procd s) (\<Sum>i<g_unit_count (si_reg s). length (env i) + 1)"
  shows "\<exists>n s'. sotinit_activate_all env s = Some (n, s') \<and>
    (\<forall>i < g_unit_count (si_reg s). \<forall>d \<in> set (deps (si_reg s) i).
       \<not> past_cycle (si_reg s) i \<and> active s' d \<and> active s' i \<longrightarrow> slot_of s' d < slot_of s' i) \<and>
    (si_procd_ep s \<and> next_slot s + (\<Sum>i<g_unit_count (si_reg s). length (env i) + 1) \<le> PROCD_MAX_PROCS \<longrightarrow>
       (\<forall>i < g_unit_count (si_reg s). active s' i \<longleftrightarrow> startable (si_unit s i)))"
proof -
  let ?n = "g_unit_count (si_reg s)"
  obtain rc order where order: "sotinit_topo_sort (si_reg s) = Some (rc, order)" "distinct order" "set order = {..<?n}"
    and before: "\<forall>i < ?n. \<not> past_cycle (si_reg s) i \<longrightarrow> (\<forall>d \<in> set (deps (si_reg s) i). before order d i)"
    using topo_sort_correct [OF assms(1)] by blast
  have room: "procd_room (si_procd s) (hops env order)" using assms(3) sum_hops [OF order(2,3)] by simp
  have loaded: "\<forall>k \<in> set order. u_state (si_unit s k) = UNIT_STATE_LOADED" using assms(2) order(3) by simp
  then have "\<forall>k \<in> set order. \<not> active s k" by (simp add: active_def)
  note slots = loop_slots [OF order(2) this room, of 0]
  note started = loop_active [OF order(2) _ loaded room, of 0]
  show ?thesis
    by (intro exI [of _ "fst (activate_loop env order (0, s))"] exI [of _ "snd (activate_loop env order (0, s))"])
      (use slots started before order sum_hops [OF order(2,3), of env] in \<open>auto simp: sotinit_activate_all_def\<close>)
qed

theorem sotinit_boot_order_witness:
  "\<exists>n s'. sotinit_activate_all (\<lambda>_. []) (sotinit_start True True (boot_registry g_bundled sotinit_sotfs_paths)
       (procd_boot procd_event_ring_init)) = Some (n, s') \<and> active s' 3 \<and> active s' 2"
proof -
  let ?s = "sotinit_start True True bundled_registry (procd_boot procd_event_ring_init)"
  have reg: "si_reg ?s = bundled_registry" "si_procd ?s = procd_boot procd_event_ring_init" "si_procd_ep ?s"
    by (simp_all add: sotinit_start_def)
  have unit: "si_unit ?s i = g_units bundled_registry i" for i by (simp add: si_unit_def reg)
  have "\<forall>i < g_unit_count (si_reg ?s). u_state (si_unit ?s i) = UNIT_STATE_LOADED"
    using bundled_loaded by (simp add: reg unit bundled_count)
  moreover have "procd_room (si_procd ?s) (\<Sum>i<g_unit_count (si_reg ?s). length ([] :: procd_msg list) + 1)"
    using boot_ok boot_next_tid by (simp add: procd_room_def reg bundled_count)
  moreover have "g_next_pid (procd_boot procd_event_ring_init) = 1"
    by (simp add: procd_boot_def procd_shm_init_def procd_table_init_def Let_def)
  then have "next_slot ?s = 1" by (simp add: next_slot_def reg)
  ultimately show ?thesis
    using sotinit_boot_order [of ?s "\<lambda>_. []"] boot_registry_ok [of g_bundled sotinit_sotfs_paths] bundled_order(3,4)
    by (auto simp: reg unit bundled_count limits)
qed

text \<open>
  C23: the planted service never runs. The boot returns, and after any messages and any activity
  of other clients the status, start and activate requests for \<^verbatim>\<open>backdoor.service\<close> all report a
  loaded unit without a process and success, and none of them reaches the process server.
\<close>

theorem sotinit_planted_service_inert:
  "\<exists>n s. sotinit_main procd_ep audit_ep env p = Some (n, s) \<and>
     planted_answer SOTINIT_OP_STATUS now (sotinit_run evs s) \<and> planted_answer SOTINIT_OP_START now (sotinit_run evs s) \<and>
     planted_answer SOTINIT_OP_ACTIVATE now (sotinit_run evs s)"
proof -
  let ?boot = "sotinit_start procd_ep audit_ep bundled_registry p"
  obtain rc order where "sotinit_topo_sort bundled_registry = Some (rc, order)"
    using topo_sort_correct [OF boot_registry_ok [of g_bundled sotinit_sotfs_paths]] by blast
  then have main: "sotinit_main procd_ep audit_ep env p =
      Some (fst (activate_loop env order (0, ?boot)), snd (activate_loop env order (0, ?boot)))"
    by (simp add: sotinit_main_def sotinit_activate_all_def sotinit_start_def)
  let ?s = "snd (activate_loop env order (0, ?boot))"
  let ?t = "sotinit_run evs ?s"
  have i0: "inert ?boot 5"
    using bundled_backdoor(3) bundled_loaded by (simp add: inert_def si_unit_def sotinit_start_def)
  have u1: "si_unit ?s 5 = si_unit ?boot 5" using loop_inert [of "(0, ?boot)" 5 env order] i0 by simp
  then have "inert ?s 5" using i0 by (simp add: inert_def)
  then have u2: "si_unit ?t 5 = si_unit ?boot 5" using run_inert u1 by simp
  have f: "frame ?boot ?t" using frame_trans [OF loop_frame [of "(0, ?boot)" env order] run_frame [of _ evs]] by simp
  have "sotinit_unit_by_name (si_reg ?t) ''backdoor.service'' = Some 5"
    using frame_by_name [OF f] bundled_backdoor(1) by (simp add: sotinit_start_def)
  moreover have "inert ?t 5" using i0 u2 by (simp add: inert_def)
  moreover have "u_kind (si_unit ?t 5) = Some UNIT_KIND_SERVICE"
    using bundled_backdoor(2) by (simp add: u2) (simp add: si_unit_def sotinit_start_def)
  ultimately show ?thesis using main planted_answers by blast
qed


text \<open>A service in slot 9 that is always restarted, and its exits in a crash loop.\<close>

definition crashing :: sotinit where
  "crashing = sotinit_start False False
     \<lparr>g_units = (\<lambda>_. zero_unit\<lparr>u_kind := Some UNIT_KIND_SERVICE, u_name := ''d.service'', u_exec_start := ''/bin/d'',
        u_procd_slot := 9, u_restart_policy := 2\<rparr>), g_unit_count = 1\<rparr> (procd_boot procd_event_ring_init)"

definition exit_at :: "u64 \<Rightarrow> sotinit_event" where
  "exit_at now = Message (\<lambda>n. if n = 0 then SOTINIT_OP_PROC_EXITED else if n = 1 then 9 else 1) now"


end
