(* ===== verification/Spec2Isabelle.thy ===== *)
theory Spec2Isabelle
  imports StoSafety SeqLock SotfsSafety SotfsIoSafety WalSafety LucasSafety SotinitSafety
begin

text \<open>
  Verification of sotOs, a capability-based operating-system personality over seL4.

  The program is a set of user-level servers. This development models the transaction server
  (\<^verbatim>\<open>src/sto\<close>): theory \<open>StoRegistry\<close> holds the registry and its operations, \<open>StoServer\<close> the
  opcode handlers and the service loop, \<open>StoInvariant\<close> the state invariant and the step
  relation, \<open>StoRefinement\<close> the abstract machine it refines, \<open>StoSafety\<close> its properties.
\<close>

end
